(* ===== verification/Prelude.thy ===== *)
theory Prelude
  imports Main "HOL-Library.Sublist"
begin

text \<open>
  Shared vocabulary of the development: Python exceptions as values, the result type of
  code that may raise, bounded deques (\<^verbatim>\<open>collections.deque(maxlen=n)\<close>), and the list and
  map lemmas the components use.
\<close>

section \<open>Exceptions and results\<close>

datatype pyerr =
    ZeroDivisionError
  | OverflowError
  | ValueError
  | KeyError
  | TypeError
  | IndexError
  | AttributeError
  | AssertionError
  | RuntimeError
  | BackendError string

type_synonym 'a res = "pyerr + 'a"

definition rbind :: "'a res \<Rightarrow> ('a \<Rightarrow> 'b res) \<Rightarrow> 'b res" where
  "rbind m f = (case m of Inl e \<Rightarrow> Inl e | Inr x \<Rightarrow> f x)"

named_theorems res_simps "evaluation of results"

lemma rbind_simps [simp, res_simps]:
  "rbind (Inl e) f = Inl e"
  "rbind (Inr x) f = f x"
  by (simp_all add: rbind_def)

lemma rbind_eq_Inr: "rbind m f = Inr y \<longleftrightarrow> (\<exists>x. m = Inr x \<and> f x = Inr y)"
  by (cases m) auto

lemma rbind_eq_Inl: "rbind m f = Inl e \<longleftrightarrow> m = Inl e \<or> (\<exists>x. m = Inr x \<and> f x = Inl e)"
  by (cases m) auto

fun rmap :: "('a \<Rightarrow> 'b res) \<Rightarrow> 'a list \<Rightarrow> 'b list res" where
  "rmap f [] = Inr []"
| "rmap f (x # xs) = rbind (f x) (\<lambda>y. rbind (rmap f xs) (\<lambda>ys. Inr (y # ys)))"

lemma rmap_Inr: "(\<And>x. x \<in> set xs \<Longrightarrow> f x = Inr (g x)) \<Longrightarrow> rmap f xs = Inr (map g xs)"
  by (induction xs) auto

lemma rmap_length: "rmap f xs = Inr ys \<Longrightarrow> length ys = length xs"
  by (induction xs arbitrary: ys) (auto simp: rbind_eq_Inr)


text \<open>
  A method that may raise halfway leaves its object as far as it got: \<open>attempt r s k\<close> runs
  \<open>k\<close> on the value of \<open>r\<close>, or stops with the exception and the state \<open>s\<close> reached so far.
\<close>

definition attempt :: "'a res \<Rightarrow> 's \<Rightarrow> ('a \<Rightarrow> 'b res \<times> 's) \<Rightarrow> 'b res \<times> 's" where
  "attempt r s k = (case r of Inl e \<Rightarrow> (Inl e, s) | Inr x \<Rightarrow> k x)"

lemma attempt_simps [simp, res_simps]:
  "attempt (Inl e) s k = (Inl e, s)"
  "attempt (Inr x) s k = k x"
  by (simp_all add: attempt_def)

lemma attempt_keeps:
  "P s \<Longrightarrow> (\<And>x. r = Inr x \<Longrightarrow> P (snd (k x))) \<Longrightarrow> P (snd (attempt r s k))"
  by (cases r) auto

lemma attempt_agree:
  "r' = r \<Longrightarrow> Q s s' \<Longrightarrow> (\<And>x. r = Inr x \<Longrightarrow> fst (k x) = fst (k' x) \<and> Q (snd (k x)) (snd (k' x))) \<Longrightarrow>
    fst (attempt r s k) = fst (attempt r' s' k') \<and> Q (snd (attempt r s k)) (snd (attempt r' s' k'))"
  by (cases r) auto

lemma attempt_split:
  "P (attempt r s k) \<longleftrightarrow>
     (\<forall>e. r = Inl e \<longrightarrow> P (Inl e, s)) \<and> (\<forall>x. r = Inr x \<longrightarrow> P (k x))"
  by (cases r) auto


text \<open>\<^verbatim>\<open>if x is not None: results.append(x)\<close>.\<close>

fun opt_list :: "'a option \<Rightarrow> 'a list" where
  "opt_list None = []"
| "opt_list (Some x) = [x]"


text \<open>\<^verbatim>\<open>d.get(key, default)\<close>, for what the dictionary holds at the key.\<close>

definition get_or :: "'a \<Rightarrow> 'a option \<Rightarrow> 'a" where
  "get_or d x = (case x of None \<Rightarrow> d | Some v \<Rightarrow> v)"

lemma get_or_simps [simp]: "get_or d None = d" "get_or d (Some v) = v"
  by (simp_all add: get_or_def)


section \<open>Running a component over its inputs\<close>

fun run_all :: "('x \<Rightarrow> 's \<Rightarrow> 'b \<times> 's) \<Rightarrow> 'x list \<Rightarrow> 's \<Rightarrow> 'b list \<times> 's" where
  "run_all f [] s = ([], s)"
| "run_all f (x # xs) s =
     (let (b, s1) = f x s; (bs, s2) = run_all f xs s1 in (b # bs, s2))"

lemma run_all_append:
  "run_all f (xs @ ys) s =
     (let (bs, s1) = run_all f xs s; (cs, s2) = run_all f ys s1 in (bs @ cs, s2))"
  by (induction xs arbitrary: s) (auto simp: split_beta)

lemma run_all_length [simp]: "length (fst (run_all f xs s)) = length xs"
  by (induction xs arbitrary: s) (auto simp: split_beta)

lemma run_all_nth:
  "i < length xs \<Longrightarrow> fst (run_all f xs s) ! i = fst (f (xs ! i) (snd (run_all f (take i xs) s)))"
proof (induction xs arbitrary: s i)
  case (Cons x xs)
  then show ?case by (cases i) (simp_all add: split_beta)
qed simp

lemma run_all_snoc_state: "snd (run_all f (xs @ [x]) s) = snd (f x (snd (run_all f xs s)))"
  by (simp add: run_all_append split_beta)

text \<open>
  The contract of an incremental calculator: an invariant that counts the inputs folded in
  so far, kept by every update, under which the \<open>n\<close>-th result (from 0) is \<open>good n\<close>.
\<close>

locale calculator =
  fixes upd :: "'x \<Rightarrow> 's \<Rightarrow> 'b \<times> 's"
    and inv :: "nat \<Rightarrow> 's \<Rightarrow> bool"
    and ok :: "'x \<Rightarrow> bool"
    and good :: "nat \<Rightarrow> 'b \<Rightarrow> bool"
  assumes step_inv: "inv n s \<Longrightarrow> ok x \<Longrightarrow> inv (Suc n) (snd (upd x s))"
    and step_good: "inv n s \<Longrightarrow> ok x \<Longrightarrow> good n (fst (upd x s))"
begin

lemma run_inv: "inv n s \<Longrightarrow> \<forall>x \<in> set xs. ok x \<Longrightarrow> inv (n + length xs) (snd (run_all upd xs s))"
proof (induction xs arbitrary: n s)
  case (Cons x xs)
  then show ?case
    using Cons.IH [of "Suc n" "snd (upd x s)"] step_inv by (auto simp: split_beta)
qed simp

lemma run_good:
  "inv n s \<Longrightarrow> \<forall>x \<in> set xs. ok x \<Longrightarrow> i < length xs \<Longrightarrow> good (n + i) (fst (run_all upd xs s) ! i)"
proof (induction xs arbitrary: n s i)
  case (Cons x xs)
  show ?case
  proof (cases i)
    case 0
    then show ?thesis using Cons.prems step_good by (auto simp: split_beta)
  next
    case (Suc j)
    have "good (Suc n + j) (fst (run_all upd xs (snd (upd x s))) ! j)"
      using Cons.prems Suc step_inv by (intro Cons.IH) auto
    then show ?thesis using Suc by (simp add: split_beta)
  qed
qed simp

end


text \<open>
  A stronger contract: the state is a function of the whole input history, and the result of
  an update is a function of the history and the new input. It says that the incremental
  object computes what a recalculation over the full history would.
\<close>

locale history_calc =
  fixes upd :: "'x \<Rightarrow> 's \<Rightarrow> 'b \<times> 's"
    and repr :: "'x list \<Rightarrow> 's"
    and ok :: "'x \<Rightarrow> bool"
    and reference :: "'x list \<Rightarrow> 'x \<Rightarrow> 'b"
  assumes upd_repr: "\<forall>y \<in> set hist. ok y \<Longrightarrow> ok x \<Longrightarrow>
    upd x (repr hist) = (reference hist x, repr (hist @ [x]))"
begin

lemma run_repr:
  "\<forall>y \<in> set (hist @ xs). ok y \<Longrightarrow> snd (run_all upd xs (repr hist)) = repr (hist @ xs)"
  by (induction xs arbitrary: hist) (auto simp: upd_repr split_beta)

lemma run_reference:
  "\<forall>y \<in> set (hist @ xs). ok y \<Longrightarrow> i < length xs \<Longrightarrow>
   fst (run_all upd xs (repr hist)) ! i = reference (hist @ take i xs) (xs ! i)"
proof (induction xs arbitrary: hist i)
  case (Cons x xs)
  show ?case
  proof (cases i)
    case 0
    then show ?thesis using Cons.prems by (simp add: upd_repr split_beta)
  next
    case (Suc j)
    have "fst (run_all upd xs (repr (hist @ [x]))) ! j = reference ((hist @ [x]) @ take j xs) (xs ! j)"
      using Cons.prems Suc by (intro Cons.IH) auto
    then show ?thesis using Suc Cons.prems by (simp add: upd_repr split_beta)
  qed
qed simp

end


text \<open>
  A component that serves many keys: an input names its key, and the part of the state that
  belongs to another key is neither read nor written. What one key sees of a run over mixed
  inputs is then what it sees when its inputs are run alone.
\<close>

locale keyed =
  fixes upd :: "'k \<times> 'x \<Rightarrow> 's \<Rightarrow> 'b \<times> 's"
    and view :: "'k \<Rightarrow> 's \<Rightarrow> 'v"
  assumes view_other: "k \<noteq> fst i \<Longrightarrow> view k (snd (upd i s)) = view k s"
    and out_local: "view (fst i) s = view (fst i) t \<Longrightarrow> fst (upd i s) = fst (upd i t)"
    and view_local: "view (fst i) s = view (fst i) t \<Longrightarrow>
      view (fst i) (snd (upd i s)) = view (fst i) (snd (upd i t))"
begin

lemma run_independent:
  assumes "view k s = view k t"
  shows "map snd (filter (\<lambda>(i, b). fst i = k) (zip ins (fst (run_all upd ins s)))) =
      fst (run_all upd (filter (\<lambda>i. fst i = k) ins) t) \<and>
    view k (snd (run_all upd ins s)) = view k (snd (run_all upd (filter (\<lambda>i. fst i = k) ins) t))"
  using assms
proof (induction ins arbitrary: s t)
  case (Cons i ins)
  show ?case
  proof (cases "fst i = k")
    case True
    then have "view k (snd (upd i s)) = view k (snd (upd i t))" "fst (upd i s) = fst (upd i t)"
      using out_local view_local Cons.prems by blast+
    then show ?thesis using Cons.IH True by (simp add: split_beta)
  next
    case False
    then have "view k (snd (upd i s)) = view k t" using view_other Cons.prems by metis
    then show ?thesis using Cons.IH False by (simp add: split_beta)
  qed
qed simp

end


text \<open>
  A keyed component whose part for a key is described by the history of that key's inputs:
  \<open>inv h\<close> relates the inputs so far to what the component holds for the key, and \<open>good h x\<close> says
  what it answers to the next input.
\<close>

definition own :: "'k \<Rightarrow> ('k \<times> 'x) list \<Rightarrow> 'x list" where
  "own k ins = map snd (filter (\<lambda>i. fst i = k) ins)"

lemma own_simps [simp]:
  "own k [] = []"
  "own k (i # ins) = (if fst i = k then snd i # own k ins else own k ins)"
  "own k (ins @ ins') = own k ins @ own k ins'"
  by (simp_all add: own_def)

lemma set_own: "x \<in> set (own k ins) \<longleftrightarrow> (k, x) \<in> set ins"
  by (force simp: own_def)

locale keyed_history = keyed upd view
  for upd :: "'k \<times> 'x \<Rightarrow> 's \<Rightarrow> 'b \<times> 's"
    and view :: "'k \<Rightarrow> 's \<Rightarrow> 'v" +
  fixes inv :: "'x list \<Rightarrow> 'v \<Rightarrow> bool"
    and ok :: "'x \<Rightarrow> bool"
    and good :: "'x list \<Rightarrow> 'x \<Rightarrow> 'b \<Rightarrow> bool"
  assumes step_inv: "inv h (view k s) \<Longrightarrow> \<forall>y \<in> set h. ok y \<Longrightarrow> ok x \<Longrightarrow>
      inv (h @ [x]) (view k (snd (upd (k, x) s)))"
    and step_good: "inv h (view k s) \<Longrightarrow> \<forall>y \<in> set h. ok y \<Longrightarrow> ok x \<Longrightarrow>
      good h x (fst (upd (k, x) s))"
begin

lemma run_history:
  "inv [] (view k s) \<Longrightarrow> \<forall>x \<in> set (own k ins). ok x \<Longrightarrow>
    inv (own k ins) (view k (snd (run_all upd ins s)))"
proof (induction ins rule: rev_induct)
  case (snoc i ins)
  obtain k' x where i: "i = (k', x)" by (cases i)
  show ?case
  proof (cases "k' = k")
    case True
    then show ?thesis using snoc i step_inv by (auto simp: run_all_append split_beta)
  next
    case False
    then show ?thesis
      using snoc i view_other [of k "(k', x)"] by (auto simp: run_all_append split_beta)
  qed
qed simp

lemma run_good:
  "inv [] (view k s) \<Longrightarrow> \<forall>y \<in> set (own k ins). ok y \<Longrightarrow> ok x \<Longrightarrow>
    good (own k ins) x (fst (upd (k, x) (snd (run_all upd ins s))))"
  using run_history step_good by blast

end



section \<open>Bounded deques\<close>

text \<open>
  \<open>Deque m xs\<close> is \<^verbatim>\<open>deque(maxlen=m)\<close> holding \<open>xs\<close>, oldest first: \<^verbatim>\<open>append\<close> adds at the right
  and drops from the left once the length would exceed \<open>m\<close>. The constructor raises
  \<open>ValueError\<close> for a negative bound.
\<close>

datatype 'a deque = Deque (maxlen: nat) (items: "'a list")

definition deque_new :: "int \<Rightarrow> 'a deque res" where
  "deque_new m = (if m < 0 then Inl ValueError else Inr (Deque (nat m) []))"

definition last_n :: "nat \<Rightarrow> 'a list \<Rightarrow> 'a list" where
  "last_n m xs = drop (length xs - m) xs"

definition deque_append :: "'a deque \<Rightarrow> 'a \<Rightarrow> 'a deque" where
  "deque_append d x = Deque (maxlen d) (last_n (maxlen d) (items d @ [x]))"

lemma length_last_n [simp]: "length (last_n m xs) = min m (length xs)"
  by (simp add: last_n_def)

lemma last_n_Nil [simp]: "last_n m [] = []"
  by (simp add: last_n_def)

lemma last_n_0 [simp]: "last_n 0 xs = []"
  by (simp add: last_n_def)

lemma set_last_n: "set (last_n m xs) \<subseteq> set xs"
  by (simp add: last_n_def set_drop_subset)

lemma last_n_all [simp]: "length xs \<le> m \<Longrightarrow> last_n m xs = xs"
  by (simp add: last_n_def)

lemma last_n_snoc_last_n: "last_n m (last_n m xs @ [x]) = last_n m (xs @ [x])"
proof (cases "length xs \<le> m")
  case True
  then show ?thesis by simp
next
  case False
  then have m: "m < length xs" by simp
  show ?thesis
  proof (cases m)
    case 0
    then show ?thesis by simp
  next
    case (Suc k)
    have "last_n m (last_n m xs @ [x]) = drop 1 (drop (length xs - m) xs) @ [x]"
      using m Suc by (simp add: last_n_def)
    also have "\<dots> = drop (Suc (length xs - m)) xs @ [x]" by simp
    also have "\<dots> = last_n m (xs @ [x])"
      using m Suc by (simp add: last_n_def Suc_diff_Suc)
    finally show ?thesis .
  qed
qed

lemma maxlen_append [simp]: "maxlen (deque_append d x) = maxlen d"
  by (simp add: deque_append_def)

lemma items_append: "items (deque_append d x) = last_n (maxlen d) (items d @ [x])"
  by (simp add: deque_append_def)

lemma set_items_append: "set (items (deque_append d x)) \<subseteq> insert x (set (items d))"
  using set_last_n [of "maxlen d" "items d @ [x]"] by (auto simp: items_append)

lemma foldl_deque_append:
  "foldl deque_append (Deque m (last_n m ys)) xs = Deque m (last_n m (ys @ xs))"
proof (induction xs rule: rev_induct)
  case Nil
  then show ?case by simp
next
  case (snoc x xs)
  then show ?case
    by (simp add: deque_append_def last_n_snoc_last_n flip: append_assoc)
qed


section \<open>Dictionaries in insertion order\<close>

text \<open>
  A Python dictionary whose iteration order matters is an association list: a new key goes
  to the end, an existing key keeps its place.
\<close>

fun alput :: "'k \<Rightarrow> 'v \<Rightarrow> ('k \<times> 'v) list \<Rightarrow> ('k \<times> 'v) list" where
  "alput k v [] = [(k, v)]"
| "alput k v ((k', v') # xs) = (if k = k' then (k, v) # xs else (k', v') # alput k v xs)"

lemma map_of_alput [simp]: "map_of (alput k v xs) = (map_of xs)(k \<mapsto> v)"
  by (induction xs) auto

lemma keys_alput: "map fst (alput k v xs) =
    (if k \<in> set (map fst xs) then map fst xs else map fst xs @ [k])"
  by (induction k v xs rule: alput.induct) auto

lemma set_keys_alput [simp]: "set (map fst (alput k v xs)) = insert k (set (map fst xs))"
  by (simp only: keys_alput) auto

lemma distinct_alput [simp]:
  "distinct (map fst (alput k v xs)) \<longleftrightarrow> distinct (map fst xs)"
  by (simp add: keys_alput)

fun aldel :: "'k \<Rightarrow> ('k \<times> 'v) list \<Rightarrow> ('k \<times> 'v) list" where
  "aldel k [] = []"
| "aldel k ((k', v') # xs) = (if k = k' then aldel k xs else (k', v') # aldel k xs)"

lemma map_of_aldel [simp]: "map_of (aldel k xs) = (map_of xs)(k := None)"
  by (induction k xs rule: aldel.induct) auto

lemma set_keys_aldel: "set (map fst (aldel k xs)) = set (map fst xs) - {k}"
  by (induction k xs rule: aldel.induct) auto

lemma keys_aldel: "map fst (aldel k xs) = filter (\<lambda>k'. k' \<noteq> k) (map fst xs)"
  by (induction k xs rule: aldel.induct) auto

lemma distinct_aldel: "distinct (map fst xs) \<Longrightarrow> distinct (map fst (aldel k xs))"
  by (simp add: keys_aldel)

end
