(* ===== verification/Pyfloat.thy ===== *)
theory Pyfloat
  imports Prelude Complex_Main "HOL-Library.Log_Nat"
begin

text \<open>
  Python's \<^verbatim>\<open>float\<close>: IEEE-754 binary64 with round-to-nearest-even, infinities and NaN.
  A finite double is carried by its rational value; every operation rounds its exact
  rational result to 53 significant bits (fewer below the normal range, exponent floor
  -1074) and turns a result of magnitude at least 2^1024 into an infinity. The sign of zero
  is not represented: no operation of the program modelled here can observe it (division by
  either zero raises, comparisons identify them). Division by zero, conversions of huge
  integers, \<^verbatim>\<open>round\<close> and \<^verbatim>\<open>int\<close> of non-finite values raise as in CPython.
\<close>

section \<open>Rounding\<close>

definition round_half_even :: "rat \<Rightarrow> int" where
  "round_half_even q =
     (let f = \<lfloor>q\<rfloor>; d = q - of_int f in
      if d < 1 / 2 then f
      else if 1 / 2 < d then f + 1
      else if even f then f else f + 1)"

lemma round_half_even_bounds:
  "\<bar>of_int (round_half_even q) - q\<bar> \<le> 1 / 2"
proof -
  let ?f = "of_int \<lfloor>q\<rfloor> :: rat"
  have f: "?f \<le> q" "q < ?f + 1" using floor_correct [of q] by auto
  consider "q - ?f < 1 / 2" | "1 / 2 < q - ?f" | "q - ?f = 1 / 2" by linarith
  then show ?thesis
  proof cases
    case 1
    then have "round_half_even q = \<lfloor>q\<rfloor>" by (simp add: round_half_even_def Let_def)
    with f 1 show ?thesis by simp
  next
    case 2
    then have "round_half_even q = \<lfloor>q\<rfloor> + 1" by (simp add: round_half_even_def Let_def)
    with f 2 show ?thesis by (simp add: abs_if)
  next
    case 3
    then have "round_half_even q \<in> {\<lfloor>q\<rfloor>, \<lfloor>q\<rfloor> + 1}" by (simp add: round_half_even_def Let_def)
    with f 3 show ?thesis by (auto simp: abs_if)
  qed
qed

lemma round_half_even_of_int [simp]: "round_half_even (of_int n) = n"
  by (simp add: round_half_even_def)

lemma round_half_even_mono: "q \<le> r \<Longrightarrow> round_half_even q \<le> round_half_even r"
proof -
  assume qr: "q \<le> r"
  have fl: "\<lfloor>q\<rfloor> \<le> \<lfloor>r\<rfloor>" using qr by (rule floor_mono)
  show ?thesis
  proof (cases "\<lfloor>q\<rfloor> = \<lfloor>r\<rfloor>")
    case True
    with qr show ?thesis by (auto simp: round_half_even_def Let_def)
  next
    case False
    with fl have "\<lfloor>q\<rfloor> + 1 \<le> \<lfloor>r\<rfloor>" by simp
    then show ?thesis by (auto simp: round_half_even_def Let_def)
  qed
qed

lemma round_half_even_minus [simp]: "round_half_even (- q) = - round_half_even q"
proof (cases "q = of_int \<lfloor>q\<rfloor>")
  case True
  then show ?thesis
    by (metis of_int_minus round_half_even_of_int)
next
  case False
  then have d: "0 < q - of_int \<lfloor>q\<rfloor>" "q - of_int \<lfloor>q\<rfloor> < 1"
    using floor_correct [of q] of_int_floor_le [of q] by (auto simp: less_le)
  have fl: "\<lfloor>- q\<rfloor> = - \<lfloor>q\<rfloor> - 1"
    using d by (intro floor_unique) auto
  show ?thesis
    unfolding round_half_even_def Let_def fl using d by auto
qed

lemma round_half_even_ge: "of_int n \<le> q \<Longrightarrow> n \<le> round_half_even q"
  using round_half_even_mono [of "of_int n" q] by simp

lemma round_half_even_le: "q \<le> of_int n \<Longrightarrow> round_half_even q \<le> n"
  using round_half_even_mono [of q "of_int n"] by simp

text \<open>The binary exponent of a positive rational, by the lengths of its two halves.\<close>

definition ilog2 :: "rat \<Rightarrow> int" where
  "ilog2 q = (case quotient_of q of (n, d) \<Rightarrow>
     let k = bitlen n - bitlen d in if 2 powi k \<le> q then k else k - 1)"

lemma powi_mono: "a \<le> b \<Longrightarrow> (2 :: rat) powi a \<le> 2 powi b"
  by (rule power_int_increasing) auto

lemma powi_less_iff: "(2 :: rat) powi a < 2 powi b \<longleftrightarrow> a < b"
  by (metis linorder_not_less order_less_irrefl power_int_strict_increasing powi_mono one_less_numeral_iff
      semiring_norm(76))

lemma powi_bitlen:
  assumes "0 < n"
  shows "2 powi (bitlen n - 1) \<le> (of_int n :: rat)" "(of_int n :: rat) < 2 powi bitlen n"
proof -
  have b: "2 ^ nat (bitlen n - 1) \<le> n" "n < 2 ^ nat (bitlen n)"
    using bitlen_bounds [OF assms] by auto
  have pos: "1 \<le> bitlen n" using assms bitlen_nonneg [of n] bitlen_eq_zero_iff [of n] by linarith
  have "(of_int (2 ^ nat (bitlen n - 1)) :: rat) \<le> of_int n" using b(1) by (simp only: of_int_le_iff)
  then show "2 powi (bitlen n - 1) \<le> (of_int n :: rat)" using pos by (simp add: power_int_def)
  have "(of_int n :: rat) < of_int (2 ^ nat (bitlen n))" using b(2) by (simp only: of_int_less_iff)
  then show "(of_int n :: rat) < 2 powi bitlen n" using pos by (simp add: power_int_def)
qed

lemma ilog2_bounds:
  assumes "0 < q"
  shows "2 powi ilog2 q \<le> q" "q < 2 powi (ilog2 q + 1)"
proof -
  obtain n d where nd: "quotient_of q = (n, d)" by (cases "quotient_of q")
  have d: "0 < d" using quotient_of_denom_pos [OF nd] .
  have q: "q = of_int n / of_int d" using quotient_of_div [OF nd] .
  have n: "0 < n" using assms d q by (simp add: zero_less_divide_iff)
  note bn = powi_bitlen [OF n] and bd = powi_bitlen [OF d]
  let ?k = "bitlen n - bitlen d"
  have dpos: "(0 :: rat) < of_int d" using d by simp
  have lo: "2 powi (?k - 1) \<le> q"
  proof -
    have "2 powi (?k - 1) * of_int d \<le> 2 powi (?k - 1) * (2 powi bitlen d :: rat)"
      using bd(2) by (intro mult_left_mono) auto
    also have "\<dots> = 2 powi (bitlen n - 1)" by (simp flip: power_int_add)
    also have "\<dots> \<le> of_int n" by (rule bn(1))
    finally show ?thesis using dpos by (simp add: q pos_le_divide_eq)
  qed
  have hi: "q < 2 powi (?k + 1)"
  proof -
    have "of_int n < (2 powi bitlen n :: rat)" by (rule bn(2))
    also have "\<dots> = 2 powi (?k + 1) * 2 powi (bitlen d - 1)" by (simp flip: power_int_add)
    also have "\<dots> \<le> 2 powi (?k + 1) * of_int d"
      using bd(1) by (intro mult_left_mono) auto
    finally show ?thesis using dpos by (simp add: q pos_divide_less_eq)
  qed
  show "2 powi ilog2 q \<le> q" "q < 2 powi (ilog2 q + 1)"
    using lo hi by (auto simp: ilog2_def nd Let_def not_le)
qed

lemma ilog2_unique:
  assumes "2 powi e \<le> q" "q < 2 powi (e + 1)"
  shows "ilog2 q = e"
proof -
  have pos: "0 < q" using assms(1) by (meson less_le_trans zero_less_numeral zero_less_power_int)
  note b = ilog2_bounds [OF pos]
  have "(2 :: rat) powi e < 2 powi (ilog2 q + 1)" using assms(1) b(2) by (rule le_less_trans)
  moreover have "(2 :: rat) powi ilog2 q < 2 powi (e + 1)" using b(1) assms(2) by (rule le_less_trans)
  ultimately have "e < ilog2 q + 1" "ilog2 q < e + 1" by (simp_all only: powi_less_iff)
  then show ?thesis by simp
qed

lemma ilog2_mono: "0 < q \<Longrightarrow> q \<le> r \<Longrightarrow> ilog2 q \<le> ilog2 r"
proof -
  assume a: "0 < q" "q \<le> r"
  have "(2 :: rat) powi ilog2 q \<le> q" using ilog2_bounds a by blast
  also have "q \<le> r" by (rule a)
  also have "r < 2 powi (ilog2 r + 1)" using ilog2_bounds a by force
  finally have "ilog2 q < ilog2 r + 1" by (simp only: powi_less_iff)
  then show ?thesis by simp
qed


text \<open>Rounding to a multiple of \<open>2 powi s\<close>, and to a double.\<close>

definition rnd_at :: "int \<Rightarrow> rat \<Rightarrow> rat" where
  "rnd_at s q = of_int (round_half_even (q / 2 powi s)) * 2 powi s"

definition scale :: "rat \<Rightarrow> int" where
  "scale q = max (ilog2 \<bar>q\<bar> - 52) (- 1074)"

definition rnd :: "rat \<Rightarrow> rat" where
  "rnd q = (if q = 0 then 0 else rnd_at (scale q) q)"

lemma rnd_at_mono: "q \<le> r \<Longrightarrow> rnd_at s q \<le> rnd_at s r"
  by (simp add: rnd_at_def round_half_even_mono divide_right_mono)

lemma rnd_at_grid: "s \<le> t \<Longrightarrow> rnd_at s (of_int n * 2 powi t) = of_int n * 2 powi t"
proof -
  assume st: "s \<le> t"
  have "(2 :: rat) powi t = 2 powi (t - s) * 2 powi s" by (simp flip: power_int_add)
  then have e: "(2 :: rat) powi t = of_int (2 ^ nat (t - s)) * 2 powi s"
    using st by (simp add: power_int_def)
  have "of_int n * (2 :: rat) powi t / 2 powi s = of_int (n * 2 ^ nat (t - s))"
    by (simp add: e)
  then show ?thesis by (simp only: rnd_at_def round_half_even_of_int) (simp add: e)
qed

lemma rnd_0 [simp]: "rnd 0 = 0"
  by (simp add: rnd_def)

lemma rnd_minus [simp]: "rnd (- q) = - rnd q"
  by (simp add: rnd_def rnd_at_def scale_def)

text \<open>A multiple of a power of two with at most 53 bits is a double.\<close>

lemma rnd_exact:
  assumes "\<bar>n\<bar> \<le> 2 ^ 53" "- 1074 \<le> t"
  shows "rnd (of_int n * 2 powi t) = of_int n * 2 powi t"
proof -
  have small: "rnd (of_int m * 2 powi u) = of_int m * 2 powi u"
    if m: "\<bar>m\<bar> < 2 ^ 53" and u: "- 1074 \<le> u" for m u
  proof (cases "m = 0")
    case False
    let ?x = "of_int m * 2 powi u :: rat"
    have x: "0 < \<bar>?x\<bar>" using False by simp
    have "\<bar>?x\<bar> < 2 ^ 53 * 2 powi u"
    proof -
      have "(of_int \<bar>m\<bar> :: rat) < of_int (2 ^ 53)" using m by (simp only: of_int_less_iff)
      then show ?thesis by (simp add: abs_mult)
    qed
    also have "\<dots> = 2 powi (u + 53)" by (simp add: power_int_add)
    finally have "2 powi ilog2 \<bar>?x\<bar> < (2 :: rat) powi (u + 53)"
      using ilog2_bounds(1) [OF x] by linarith
    then have "ilog2 \<bar>?x\<bar> \<le> u + 52" by (simp add: powi_less_iff)
    then have "scale ?x \<le> u" using u by (simp add: scale_def)
    then show ?thesis using False by (simp add: rnd_def rnd_at_grid)
  qed simp
  show ?thesis
  proof (cases "\<bar>n\<bar> = 2 ^ 53")
    case True
    have n: "n = sgn n * 2 ^ 53" using True by (simp add: sgn_if abs_if split: if_splits)
    have "of_int n = (of_int (sgn n * 2 ^ 53) :: rat)" using n by simp
    then have e: "of_int n * (2 :: rat) powi t = of_int (sgn n) * 2 powi (t + 53)"
      by (simp add: power_int_add)
    have "\<bar>sgn n\<bar> < 2 ^ 53" by (simp add: sgn_if)
    then show ?thesis unfolding e using assms(2) by (intro small) auto
  next
    case False
    then show ?thesis using assms by (intro small) auto
  qed
qed

lemma rnd_of_int: "\<bar>n\<bar> \<le> 2 ^ 53 \<Longrightarrow> rnd (of_int n) = of_int n"
  using rnd_exact [of n 0] by simp

lemma rnd_powi: "- 1074 \<le> t \<Longrightarrow> rnd (2 powi t) = 2 powi t"
  using rnd_exact [of 1 t] by simp

lemma rnd_power: "rnd (2 ^ k) = 2 ^ k"
  using rnd_powi [of "int k"] by (simp add: power_int_def)

lemma rnd_grid_form:
  "\<exists>n t. rnd q = of_int n * 2 powi t \<and> \<bar>n\<bar> \<le> 2 ^ 53 \<and> - 1074 \<le> t"
proof (cases "q = 0")
  case False
  let ?s = "scale q"
  have pos: "0 < \<bar>q\<bar>" using False by simp
  have "\<bar>q\<bar> < 2 powi (ilog2 \<bar>q\<bar> + 1)" using ilog2_bounds(2) [OF pos] .
  also have "\<dots> \<le> 2 powi (?s + 53)" by (rule powi_mono) (simp add: scale_def)
  also have "\<dots> = of_int (2 ^ 53) * 2 powi ?s" by (simp add: power_int_add)
  finally have b: "\<bar>q / 2 powi ?s\<bar> \<le> of_int (2 ^ 53)"
    by (simp add: abs_divide pos_divide_le_eq)
  then have "\<bar>round_half_even (q / 2 powi ?s)\<bar> \<le> 2 ^ 53"
    using round_half_even_le [of "q / 2 powi ?s" "2 ^ 53"]
      round_half_even_ge [of "- (2 ^ 53)" "q / 2 powi ?s"] by (simp add: abs_le_iff del: abs_divide)
  then show ?thesis using False
    by (intro exI [of _ "round_half_even (q / 2 powi ?s)"] exI [of _ ?s])
      (simp add: rnd_def rnd_at_def scale_def)
qed (auto intro: exI [of _ 0])

lemma rnd_idem [simp]: "rnd (rnd q) = rnd q"
proof -
  obtain n t where e: "rnd q = of_int n * 2 powi t" and b: "\<bar>n\<bar> \<le> 2 ^ 53" "- 1074 \<le> t"
    using rnd_grid_form by blast
  show ?thesis unfolding e using b by (rule rnd_exact)
qed

lemma rnd_nonneg: "0 \<le> q \<Longrightarrow> 0 \<le> rnd q"
  by (auto simp: rnd_def rnd_at_def intro!: mult_nonneg_nonneg round_half_even_ge)

lemma rnd_mono_pos:
  assumes "0 < q" "q \<le> r"
  shows "rnd q \<le> rnd r"
proof (cases "scale q = scale r")
  case True
  with assms show ?thesis by (simp add: rnd_def rnd_at_mono)
next
  case False
  let ?e = "ilog2 r"
  have le: "ilog2 q \<le> ?e" using assms by (rule ilog2_mono)
  with False assms have s: "scale q < scale r" and sr: "scale r = ?e - 52"
    and lt: "ilog2 q < ?e" by (auto simp: scale_def max_def split: if_splits)
  have r: "2 powi ?e \<le> r" using ilog2_bounds(1) assms by auto
  have q: "q \<le> 2 powi ?e"
    using ilog2_bounds(2) [of q] assms lt powi_mono [of "ilog2 q + 1" ?e] by linarith
  have g: "rnd_at t (2 powi ?e) = 2 powi ?e" if "t \<le> ?e" for t
    using rnd_at_grid [OF that, of 1] by simp
  have "rnd q = rnd_at (scale q) q" using assms by (simp add: rnd_def)
  also have "\<dots> \<le> 2 powi ?e" using rnd_at_mono [OF q, of "scale q"] g [of "scale q"] s sr by simp
  also have "\<dots> \<le> rnd_at (scale r) r" using rnd_at_mono [OF r, of "scale r"] g [of "scale r"] sr by simp
  also have "\<dots> = rnd r" using assms by (simp add: rnd_def)
  finally show ?thesis .
qed

lemma rnd_mono: "q \<le> r \<Longrightarrow> rnd q \<le> rnd r"
proof -
  assume qr: "q \<le> r"
  consider "0 < q" | "q \<le> 0" "0 \<le> r" | "r < 0" by linarith
  then show ?thesis
  proof cases
    case 1
    then show ?thesis using qr by (rule rnd_mono_pos)
  next
    case 2
    then show ?thesis using rnd_nonneg [of r] rnd_nonneg [of "- q"] by simp
  next
    case 3
    then show ?thesis using rnd_mono_pos [of "- r" "- q"] qr by simp
  qed
qed



section \<open>Doubles\<close>

datatype pyfloat = Fin rat | PInf | NInf | NaN

text \<open>Rounding an exact result; a magnitude of 2^1024 or more overflows.\<close>

definition to_dbl :: "rat \<Rightarrow> pyfloat" where
  "to_dbl q =
     (let r = rnd q in
      if \<bar>r\<bar> < 2 ^ 1024 then Fin r else if 0 < q then PInf else NInf)"

text \<open>The values that occur: a finite one is a double.\<close>

fun is_dbl :: "pyfloat \<Rightarrow> bool" where
  "is_dbl (Fin q) \<longleftrightarrow> rnd q = q \<and> \<bar>q\<bar> < 2 ^ 1024"
| "is_dbl _ \<longleftrightarrow> True"

fun is_nan :: "pyfloat \<Rightarrow> bool" where
  "is_nan NaN \<longleftrightarrow> True"
| "is_nan _ \<longleftrightarrow> False"

fun is_fin :: "pyfloat \<Rightarrow> bool" where
  "is_fin (Fin q) \<longleftrightarrow> True"
| "is_fin _ \<longleftrightarrow> False"

instantiation pyfloat :: "{zero, one, uminus, abs, plus, minus, times, ord}"
begin

definition zero_pyfloat :: pyfloat where
  "zero_pyfloat = Fin 0"

definition one_pyfloat :: pyfloat where
  "one_pyfloat = Fin 1"

fun uminus_pyfloat :: "pyfloat \<Rightarrow> pyfloat" where
  "- Fin q = Fin (- q)"
| "- PInf = NInf"
| "- NInf = PInf"
| "- NaN = NaN"

fun abs_pyfloat :: "pyfloat \<Rightarrow> pyfloat" where
  "\<bar>Fin q\<bar> = Fin \<bar>q\<bar>"
| "\<bar>PInf\<bar> = PInf"
| "\<bar>NInf\<bar> = PInf"
| "\<bar>NaN\<bar> = NaN"

fun plus_pyfloat :: "pyfloat \<Rightarrow> pyfloat \<Rightarrow> pyfloat" where
  "Fin a + Fin b = to_dbl (a + b)"
| "NaN + y = NaN"
| "x + NaN = NaN"
| "PInf + NInf = NaN"
| "NInf + PInf = NaN"
| "PInf + y = PInf"
| "NInf + y = NInf"
| "Fin a + PInf = PInf"
| "Fin a + NInf = NInf"

definition minus_pyfloat :: "pyfloat \<Rightarrow> pyfloat \<Rightarrow> pyfloat" where
  "x - y = x + (- y :: pyfloat)"

definition signed_inf :: "bool \<Rightarrow> pyfloat" where
  "signed_inf pos = (if pos then PInf else NInf)"

fun times_pyfloat :: "pyfloat \<Rightarrow> pyfloat \<Rightarrow> pyfloat" where
  "Fin a * Fin b = to_dbl (a * b)"
| "NaN * y = NaN"
| "x * NaN = NaN"
| "Fin a * PInf = (if a = 0 then NaN else signed_inf (0 < a))"
| "Fin a * NInf = (if a = 0 then NaN else signed_inf (a < 0))"
| "PInf * Fin b = (if b = 0 then NaN else signed_inf (0 < b))"
| "NInf * Fin b = (if b = 0 then NaN else signed_inf (b < 0))"
| "PInf * PInf = PInf"
| "NInf * NInf = PInf"
| "PInf * NInf = NInf"
| "NInf * PInf = NInf"

fun less_eq_pyfloat :: "pyfloat \<Rightarrow> pyfloat \<Rightarrow> bool" where
  "Fin a \<le> Fin b \<longleftrightarrow> a \<le> b"
| "NaN \<le> y \<longleftrightarrow> False"
| "x \<le> NaN \<longleftrightarrow> False"
| "NInf \<le> y \<longleftrightarrow> True"
| "x \<le> PInf \<longleftrightarrow> True"
| "PInf \<le> y \<longleftrightarrow> False"
| "x \<le> NInf \<longleftrightarrow> False"

fun less_pyfloat :: "pyfloat \<Rightarrow> pyfloat \<Rightarrow> bool" where
  "Fin a < Fin b \<longleftrightarrow> a < b"
| "NaN < y \<longleftrightarrow> False"
| "x < NaN \<longleftrightarrow> False"
| "NInf < NInf \<longleftrightarrow> False"
| "NInf < y \<longleftrightarrow> True"
| "PInf < PInf \<longleftrightarrow> False"
| "x < PInf \<longleftrightarrow> True"
| "PInf < y \<longleftrightarrow> False"
| "x < NInf \<longleftrightarrow> False"

instance ..

end

text \<open>\<^verbatim>\<open>==\<close> on floats: NaN differs from everything.\<close>

definition feq :: "pyfloat \<Rightarrow> pyfloat \<Rightarrow> bool" where
  "feq x y \<longleftrightarrow> x = y \<and> x \<noteq> NaN"

text \<open>\<^verbatim>\<open>x / y\<close>: any zero divisor raises.\<close>

fun quot :: "pyfloat \<Rightarrow> pyfloat \<Rightarrow> pyfloat" where
  "quot (Fin a) (Fin b) = to_dbl (a / b)"
| "quot NaN y = NaN"
| "quot x NaN = NaN"
| "quot (Fin a) y = Fin 0"
| "quot PInf (Fin b) = signed_inf (0 < b)"
| "quot NInf (Fin b) = signed_inf (b < 0)"
| "quot x y = NaN"

definition fdiv :: "pyfloat \<Rightarrow> pyfloat \<Rightarrow> pyfloat res" where
  "fdiv x y = (if y = Fin 0 then Inl ZeroDivisionError else Inr (quot x y))"

text \<open>\<^verbatim>\<open>max(a, b)\<close> and \<^verbatim>\<open>min(a, b)\<close> keep the first argument unless the second is strictly better.\<close>

definition pymax :: "pyfloat \<Rightarrow> pyfloat \<Rightarrow> pyfloat" where
  "pymax a b = (if b > a then b else a)"

definition pymin :: "pyfloat \<Rightarrow> pyfloat \<Rightarrow> pyfloat" where
  "pymin a b = (if b < a then b else a)"

text \<open>\<^verbatim>\<open>max(xs)\<close> and \<^verbatim>\<open>min(xs)\<close> of a sequence raise on the empty one.\<close>

definition pymax_list :: "pyfloat list \<Rightarrow> pyfloat res" where
  "pymax_list xs = (case xs of [] \<Rightarrow> Inl ValueError | x # ys \<Rightarrow> Inr (foldl pymax x ys))"

definition pymin_list :: "pyfloat list \<Rightarrow> pyfloat res" where
  "pymin_list xs = (case xs of [] \<Rightarrow> Inl ValueError | x # ys \<Rightarrow> Inr (foldl pymin x ys))"

text \<open>\<^verbatim>\<open>sum(xs)\<close> (Python 3.11, the version of the images): left to right from 0.\<close>

definition fsum :: "pyfloat list \<Rightarrow> pyfloat" where
  "fsum xs = foldl (+) (Fin 0) xs"

text \<open>Conversions: an integer operand of float arithmetic, and \<^verbatim>\<open>int / int\<close>.\<close>

definition i2f :: "int \<Rightarrow> pyfloat res" where
  "i2f n = (case to_dbl (of_int n) of Fin r \<Rightarrow> Inr (Fin r) | _ \<Rightarrow> Inl OverflowError)"

definition int_div :: "int \<Rightarrow> int \<Rightarrow> pyfloat res" where
  "int_div a b =
     (if b = 0 then Inl ZeroDivisionError
      else case to_dbl (of_int a / of_int b) of Fin r \<Rightarrow> Inr (Fin r) | _ \<Rightarrow> Inl OverflowError)"

text \<open>\<^verbatim>\<open>x / n\<close> for an integer \<open>n\<close>: the integer is converted first, then tested for zero.\<close>

definition div_int :: "pyfloat \<Rightarrow> int \<Rightarrow> pyfloat res" where
  "div_int x n = rbind (i2f n) (fdiv x)"

text \<open>\<^verbatim>\<open>x ** 2\<close>: the rounded square; a finite operand whose square overflows raises.\<close>

definition fsquare :: "pyfloat \<Rightarrow> pyfloat res" where
  "fsquare x = (if is_fin x \<and> x * x = PInf then Inl OverflowError else Inr (x * x))"

text \<open>
  \<^verbatim>\<open>math.sqrt\<close>: the correctly rounded root. The root of a positive double has binary
  exponent at least -537, so no result is subnormal, and scaling by an even power of two
  reduces it to an integer root.
\<close>

function isqrt :: "int \<Rightarrow> int" where
  "isqrt n =
     (if n \<le> 0 then 0
      else let r = 2 * isqrt (n div 4) in if (r + 1) * (r + 1) \<le> n then r + 1 else r)"
  by pat_completeness auto
termination
  by (relation "measure nat") auto

declare isqrt.simps [simp del]

definition sqrt_round :: "rat \<Rightarrow> int" where
  "sqrt_round x =
     (let n = isqrt \<lfloor>x\<rfloor>; h = (2 * of_int n + 1) / 2 in
      if x < h * h then n else if h * h < x then n + 1 else if even n then n else n + 1)"

definition sqrt_rat :: "rat \<Rightarrow> rat" where
  "sqrt_rat q =
     (if q = 0 then 0
      else let s = ilog2 q div 2 - 52 in of_int (sqrt_round (q / 2 powi (2 * s))) * 2 powi s)"

fun fsqrt :: "pyfloat \<Rightarrow> pyfloat res" where
  "fsqrt (Fin q) = (if q < 0 then Inl ValueError else Inr (Fin (sqrt_rat q)))"
| "fsqrt PInf = Inr PInf"
| "fsqrt NInf = Inl ValueError"
| "fsqrt NaN = Inr NaN"

text \<open>\<^verbatim>\<open>round(x)\<close>, \<^verbatim>\<open>int(x)\<close> and \<^verbatim>\<open>round(x, n)\<close>.\<close>

fun pyround :: "pyfloat \<Rightarrow> int res" where
  "pyround (Fin q) = Inr (round_half_even q)"
| "pyround NaN = Inl ValueError"
| "pyround _ = Inl OverflowError"

definition trunc :: "rat \<Rightarrow> int" where
  "trunc q = (if 0 \<le> q then \<lfloor>q\<rfloor> else - \<lfloor>- q\<rfloor>)"

fun pyint :: "pyfloat \<Rightarrow> int res" where
  "pyint (Fin q) = Inr (trunc q)"
| "pyint NaN = Inl ValueError"
| "pyint _ = Inl OverflowError"

fun pyround_n :: "pyfloat \<Rightarrow> nat \<Rightarrow> pyfloat" where
  "pyround_n (Fin q) n = to_dbl (of_int (round_half_even (q * 10 ^ n)) / 10 ^ n)"
| "pyround_n x n = x"



section \<open>The order on doubles\<close>

lemma pf_refl [simp]: "(x :: pyfloat) \<le> x \<longleftrightarrow> x \<noteq> NaN"
  by (cases x) auto

lemma pf_trans: "(x :: pyfloat) \<le> y \<Longrightarrow> y \<le> z \<Longrightarrow> x \<le> z"
  by (cases x; cases y; cases z) auto

lemma pf_antisym: "(x :: pyfloat) \<le> y \<Longrightarrow> y \<le> x \<Longrightarrow> x = y"
  by (cases x; cases y) auto

lemma pf_less_le: "(x :: pyfloat) < y \<longleftrightarrow> x \<le> y \<and> x \<noteq> y"
  by (cases x; cases y) auto

lemma pf_not_less: "x \<noteq> NaN \<Longrightarrow> y \<noteq> NaN \<Longrightarrow> \<not> (x :: pyfloat) < y \<longleftrightarrow> y \<le> x"
  by (cases x; cases y) auto

lemma pf_le_NaN [simp]: "\<not> (x :: pyfloat) \<le> NaN" "\<not> NaN \<le> x" "\<not> (x :: pyfloat) < NaN" "\<not> NaN < x"
  by (cases x; simp)+

lemma pf_le_not_NaN: "(x :: pyfloat) \<le> y \<Longrightarrow> x \<noteq> NaN \<and> y \<noteq> NaN"
  by (cases x; cases y) auto

lemma pf_nonneg_cases: "Fin 0 \<le> x \<Longrightarrow> (\<exists>w. x = Fin w \<and> 0 \<le> w) \<or> x = PInf"
  by (cases x) auto

lemma pf_less_irrefl [simp]: "\<not> (x :: pyfloat) < x"
  by (cases x) auto

lemma pf_minus_le: "x \<noteq> NaN \<Longrightarrow> (- x :: pyfloat) \<le> - y \<longleftrightarrow> y \<le> x"
  by (cases x; cases y) auto


section \<open>Doubles in an interval\<close>

text \<open>
  An endpoint is a rational that is a double. Rounding is monotone and fixes the endpoints,
  so it keeps a value inside any interval with such endpoints: every numeric bound below
  rests on this one fact.
\<close>

definition endpoint :: "rat \<Rightarrow> bool" where
  "endpoint e \<longleftrightarrow> rnd e = e \<and> \<bar>e\<bar> < 2 ^ 1024"

definition in_range :: "rat \<Rightarrow> rat \<Rightarrow> pyfloat \<Rightarrow> bool" where
  "in_range lo hi x \<longleftrightarrow> (\<exists>q. x = Fin q \<and> endpoint q \<and> lo \<le> q \<and> q \<le> hi)"

named_theorems endpoints "rationals that are doubles"

lemma endpoint_0 [endpoints, simp]: "endpoint 0"
  by (simp add: endpoint_def)

lemma endpoint_minus [endpoints]: "endpoint e \<Longrightarrow> endpoint (- e)"
  by (simp add: endpoint_def)

lemma endpoint_of_int: "\<bar>n\<bar> \<le> 2 ^ 53 \<Longrightarrow> endpoint (of_int n)"
proof -
  assume n: "\<bar>n\<bar> \<le> 2 ^ 53"
  then have "(of_int \<bar>n\<bar> :: rat) \<le> of_int (2 ^ 53)" by (simp only: of_int_le_iff)
  moreover have "(2 :: rat) ^ 53 < 2 ^ 1024" by (rule power_strict_increasing) auto
  ultimately show ?thesis using n by (simp add: endpoint_def rnd_of_int)
qed

lemma endpoint_numeral [endpoints, simp]:
  "(numeral k :: int) \<le> 2 ^ 53 \<Longrightarrow> endpoint (numeral k)"
  using endpoint_of_int [of "numeral k"] by simp

lemma endpoint_neg_numeral [endpoints, simp]:
  "(numeral k :: int) \<le> 2 ^ 53 \<Longrightarrow> endpoint (- numeral k)"
  by (rule endpoint_minus) simp

lemma endpoint_1 [endpoints, simp]: "endpoint 1"
  using endpoint_of_int [of 1] by simp

lemma endpoint_scaled:
  assumes "\<bar>n\<bar> \<le> 2 ^ 53" "k \<le> 970"
  shows "endpoint (of_int n * 2 ^ k)"
proof -
  have "rnd (of_int n * 2 powi int k) = of_int n * 2 powi int k"
    using assms(1) by (rule rnd_exact) simp
  moreover have "(of_int \<bar>n\<bar> :: rat) * 2 ^ k < 2 ^ 1024"
  proof -
    have "(of_int \<bar>n\<bar> :: rat) \<le> of_int (2 ^ 53)" using assms(1) by (simp only: of_int_le_iff)
    then have "(of_int \<bar>n\<bar> :: rat) * 2 ^ k \<le> 2 ^ 53 * 2 ^ k" by (intro mult_right_mono) auto
    also have "\<dots> = 2 ^ (53 + k)" by (simp only: power_add)
    also have "\<dots> < 2 ^ 1024" using assms(2) by (intro power_strict_increasing) auto
    finally show ?thesis .
  qed
  ultimately show ?thesis by (simp add: endpoint_def power_int_def abs_mult)
qed

lemma endpoint_power: "k \<le> 970 \<Longrightarrow> endpoint (2 ^ k)"
  using endpoint_scaled [of 1 k] by simp

lemma endpoint_inverse_power: "k \<le> 1074 \<Longrightarrow> endpoint (1 / 2 ^ k)"
proof -
  assume k: "k \<le> 1074"
  have e: "(2 :: rat) powi (- int k) = 1 / 2 ^ k"
    by (simp add: power_int_minus divide_inverse)
  have "rnd (1 / 2 ^ k) = 1 / 2 ^ k" using rnd_powi [of "- int k"] k by (simp add: e)
  moreover have "\<bar>(1 :: rat) / 2 ^ k\<bar> \<le> 1" by simp
  then have "\<bar>(1 :: rat) / 2 ^ k\<bar> < 2 ^ 1024" by (rule le_less_trans) simp
  ultimately show ?thesis by (simp only: endpoint_def)
qed

lemma to_dbl_in_range:
  assumes "endpoint lo" "endpoint hi" "lo \<le> q" "q \<le> hi"
  shows "in_range lo hi (to_dbl q)"
proof -
  have r: "lo \<le> rnd q" "rnd q \<le> hi"
    using rnd_mono [OF assms(3)] rnd_mono [OF assms(4)] assms(1,2) by (auto simp: endpoint_def)
  then have "\<bar>rnd q\<bar> < 2 ^ 1024" using assms(1,2) by (auto simp: endpoint_def abs_if split: if_splits)
  with r show ?thesis by (simp add: in_range_def endpoint_def to_dbl_def Let_def)
qed

lemma to_dbl_endpoint: "endpoint q \<Longrightarrow> to_dbl q = Fin q"
  by (simp add: endpoint_def to_dbl_def Let_def)

text \<open>
  Evaluation by certificate: the exponent \<open>e\<close> and the significand \<open>n\<close> of a concrete value are
  given, and the inequalities that make them the right ones are checked by arithmetic.
\<close>

lemma round_half_even_cert:
  assumes "of_int n - 1 / 2 < x" "x < of_int n + 1 / 2"
  shows "round_half_even x = n"
  using round_half_even_bounds [of x] assms by linarith

lemma to_dbl_cert:
  assumes "2 powi e \<le> q" "q < 2 powi (e + 1)" "- 1022 \<le> e" "e < 1023"
    "of_int n - 1 / 2 < q / 2 powi (e - 52)" "q / 2 powi (e - 52) < of_int n + 1 / 2"
  shows "to_dbl q = Fin (of_int n * 2 powi (e - 52))"
proof -
  have pos: "0 < q" using assms(1) by (meson less_le_trans zero_less_numeral zero_less_power_int)
  have sc: "scale q = e - 52" using ilog2_unique [OF assms(1,2)] assms(3) pos by (simp add: scale_def)
  have r: "rnd q = of_int n * 2 powi (e - 52)"
    using pos round_half_even_cert [OF assms(5,6)] by (simp add: rnd_def rnd_at_def sc)
  have "(2 :: rat) powi (e + 1) = 2 ^ nat (e + 1) \<or> (2 :: rat) powi (e + 1) \<le> 1"
    using powi_mono [of "e + 1" 0] by (auto simp: power_int_def)
  have "rnd q \<le> 2 powi (e + 1)"
    using rnd_mono [of q "2 powi (e + 1)"] assms(2,3) by (simp add: rnd_powi)
  also have "\<dots> \<le> 2 powi 1023" using assms(4) by (intro powi_mono) simp
  also have "\<dots> < 2 ^ 1024" by (simp add: power_int_def)
  finally show ?thesis using r rnd_nonneg [of q] pos by (simp add: to_dbl_def Let_def)
qed

lemma to_dbl_of_int: "\<bar>n\<bar> \<le> 2 ^ 53 \<Longrightarrow> to_dbl (of_int n) = Fin (of_int n)"
  by (rule to_dbl_endpoint) (rule endpoint_of_int)

lemma to_dbl_0 [simp]: "to_dbl 0 = Fin 0"
  by (rule to_dbl_endpoint) simp

lemma to_dbl_numeral [simp]:
  "(numeral k :: int) \<le> 2 ^ 53 \<Longrightarrow> to_dbl (numeral k) = Fin (numeral k)"
  by (rule to_dbl_endpoint) (rule endpoint_numeral)

lemma to_dbl_1 [simp]: "to_dbl 1 = Fin 1"
  by (rule to_dbl_endpoint) simp

lemma to_dbl_minus: "to_dbl (- q) = - to_dbl q"
  by (cases "q = 0") (auto simp: to_dbl_def Let_def)

lemma to_dbl_not_NaN [simp]: "to_dbl q \<noteq> NaN"
  by (simp add: to_dbl_def Let_def)

lemma to_dbl_mono: "q \<le> r \<Longrightarrow> to_dbl q \<le> to_dbl r"
proof -
  assume qr: "q \<le> r"
  have m: "rnd q \<le> rnd r" using qr by (rule rnd_mono)
  have sq: "0 < q \<Longrightarrow> 0 \<le> rnd q" "q \<le> 0 \<Longrightarrow> rnd q \<le> 0"
    using rnd_mono [of 0 q] rnd_mono [of q 0] by auto
  have sr: "0 < r \<Longrightarrow> 0 \<le> rnd r" "r \<le> 0 \<Longrightarrow> rnd r \<le> 0"
    using rnd_mono [of 0 r] rnd_mono [of r 0] by auto
  show ?thesis
    using m sq sr qr by (auto simp: to_dbl_def Let_def not_less abs_if not_le split: if_splits)
qed

lemma is_dbl_to_dbl [simp]: "is_dbl (to_dbl q)"
  by (simp add: to_dbl_def Let_def)

lemma is_dbl_Fin_endpoint: "is_dbl (Fin q) \<longleftrightarrow> endpoint q"
  by (simp add: endpoint_def)

lemma in_rangeI: "endpoint q \<Longrightarrow> lo \<le> q \<Longrightarrow> q \<le> hi \<Longrightarrow> in_range lo hi (Fin q)"
  by (simp add: in_range_def)

lemma in_rangeE:
  assumes "in_range lo hi x"
  obtains q where "x = Fin q" "endpoint q" "lo \<le> q" "q \<le> hi"
  using assms by (auto simp: in_range_def)

lemma in_range_Fin: "in_range lo hi (Fin q) \<longleftrightarrow> endpoint q \<and> lo \<le> q \<and> q \<le> hi"
  by (simp add: in_range_def)

lemma in_range_not_NaN: "in_range lo hi x \<Longrightarrow> x \<noteq> NaN"
  by (auto simp: in_range_def)

lemma in_range_mono: "in_range a b x \<Longrightarrow> c \<le> a \<Longrightarrow> b \<le> d \<Longrightarrow> in_range c d x"
  by (auto simp: in_range_def)

lemma in_range_le: "in_range a b x \<Longrightarrow> Fin a \<le> x \<and> x \<le> Fin b"
  by (auto simp: in_range_def)

lemma in_range_iff_le: "is_dbl x \<Longrightarrow> in_range a b x \<longleftrightarrow> Fin a \<le> x \<and> x \<le> Fin b"
  by (cases x) (auto simp: in_range_def endpoint_def)

lemma in_range_add:
  assumes "in_range a b x" "in_range c d y" "endpoint lo" "endpoint hi" "lo \<le> a + c" "b + d \<le> hi"
  shows "in_range lo hi (x + y)"
  using assms by (auto elim!: in_rangeE intro!: to_dbl_in_range)

lemma in_range_diff:
  assumes "in_range a b x" "in_range c d y" "endpoint lo" "endpoint hi" "lo \<le> a - d" "b - c \<le> hi"
  shows "in_range lo hi (x - y)"
  using assms by (auto elim!: in_rangeE intro!: to_dbl_in_range simp: minus_pyfloat_def)

lemma in_range_uminus: "in_range a b x \<Longrightarrow> in_range (- b) (- a) (- x)"
  by (auto simp: in_range_def endpoint_minus)

lemma in_range_mult:
  assumes "in_range a b x" "in_range c d y" "0 \<le> a" "0 \<le> c" "endpoint lo" "endpoint hi"
    "lo \<le> a * c" "b * d \<le> hi"
  shows "in_range lo hi (x * y)"
proof -
  obtain p q where "x = Fin p" "y = Fin q" "a \<le> p" "p \<le> b" "c \<le> q" "q \<le> d"
    using assms(1,2) by (auto elim!: in_rangeE)
  moreover have "a * c \<le> p * q" using calculation assms(3,4) by (intro mult_mono) auto
  moreover have "p * q \<le> b * d" using calculation assms(3,4) by (intro mult_mono) auto
  ultimately show ?thesis using assms(5-) by (auto intro!: to_dbl_in_range)
qed

lemma in_range_quot:
  assumes "in_range a b x" "in_range c d y" "0 \<le> a" "0 < c" "endpoint lo" "endpoint hi"
    "lo \<le> a / d" "b / c \<le> hi"
  shows "in_range lo hi (quot x y)" "y \<noteq> Fin 0"
proof -
  obtain p q where e: "x = Fin p" "y = Fin q" "a \<le> p" "p \<le> b" "c \<le> q" "q \<le> d"
    using assms(1,2) by (auto elim!: in_rangeE)
  moreover have "a / d \<le> p / q" using e assms(3,4) by (intro frac_le) auto
  moreover have "p / q \<le> b / c" using e assms(3,4) by (intro frac_le) auto
  ultimately show "in_range lo hi (quot x y)" using assms(5-) by (auto intro!: to_dbl_in_range)
  show "y \<noteq> Fin 0" using e assms(4) by auto
qed

lemma in_range_fdiv:
  assumes "in_range a b x" "in_range c d y" "0 \<le> a" "0 < c" "endpoint lo" "endpoint hi"
    "lo \<le> a / d" "b / c \<le> hi"
  shows "\<exists>z. fdiv x y = Inr z \<and> in_range lo hi z"
  using in_range_quot [OF assms] by (simp add: fdiv_def)

lemma in_range_pymax:
  assumes "in_range a b x" "in_range c d y" "lo \<le> max a c" "max b d \<le> hi"
  shows "in_range lo hi (pymax x y)"
  using assms by (auto simp: pymax_def in_range_def split: if_splits)

lemma in_range_pymin:
  assumes "in_range a b x" "in_range c d y" "lo \<le> min a c" "min b d \<le> hi"
  shows "in_range lo hi (pymin x y)"
  using assms by (auto simp: pymin_def in_range_def split: if_splits)

text \<open>\<^verbatim>\<open>min(max(x, lo), hi)\<close>, the clamp the scores use: only NaN escapes it.\<close>

definition clamp :: "pyfloat \<Rightarrow> rat \<Rightarrow> rat \<Rightarrow> pyfloat" where
  "clamp x lo hi = pymin (pymax x (Fin lo)) (Fin hi)"

lemma clamp_in_range:
  assumes "is_dbl x" "x \<noteq> NaN" "endpoint lo" "endpoint hi" "lo \<le> hi"
  shows "in_range lo hi (clamp x lo hi)"
  using assms by (cases x) (auto simp: clamp_def pymin_def pymax_def in_range_def is_dbl_Fin_endpoint
      simp del: is_dbl.simps(1))

lemma clamp_NaN [simp]: "clamp NaN lo hi = NaN"
  by (simp add: clamp_def pymin_def pymax_def)

lemma pyround_in_range:
  assumes "in_range (of_int a) (of_int b) x"
  shows "\<exists>n. pyround x = Inr n \<and> a \<le> n \<and> n \<le> b"
  using assms by (auto elim!: in_rangeE intro: round_half_even_ge round_half_even_le)

lemma i2f_small [simp]: "\<bar>n\<bar> \<le> 2 ^ 53 \<Longrightarrow> i2f n = Inr (Fin (of_int n))"
  by (simp add: i2f_def to_dbl_of_int)

lemma is_dbl_plus [simp]: "is_dbl (x + y)"
  by (cases x; cases y) (auto simp del: is_dbl.simps(1))

lemma is_dbl_times [simp]: "is_dbl (x * y)"
  by (cases x; cases y) (auto simp: signed_inf_def simp del: is_dbl.simps(1))

lemma is_dbl_uminus [simp]: "is_dbl (- x) \<longleftrightarrow> is_dbl x"
  by (cases x) auto

lemma is_dbl_minus [simp]: "is_dbl (x - y)"
  by (simp add: minus_pyfloat_def)

lemma is_dbl_quot [simp]: "is_dbl (quot x y)"
  by (cases x; cases y) (auto simp: signed_inf_def is_dbl_Fin_endpoint simp del: is_dbl.simps(1))

lemma is_dbl_abs [simp]: "is_dbl \<bar>x\<bar> \<longleftrightarrow> is_dbl x"
  by (cases x) (auto simp: abs_if)

lemma is_dbl_pymax [simp]: "is_dbl x \<Longrightarrow> is_dbl y \<Longrightarrow> is_dbl (pymax x y)"
  by (simp add: pymax_def)

lemma is_dbl_pymin [simp]: "is_dbl x \<Longrightarrow> is_dbl y \<Longrightarrow> is_dbl (pymin x y)"
  by (simp add: pymin_def)


section \<open>Rounding errors\<close>

lemma rnd_at_error: "\<bar>rnd_at s q - q\<bar> \<le> 2 powi s / 2"
proof -
  have "rnd_at s q - q = (of_int (round_half_even (q / 2 powi s)) - q / 2 powi s) * 2 powi s"
    by (simp add: rnd_at_def left_diff_distrib)
  then have "\<bar>rnd_at s q - q\<bar> = \<bar>of_int (round_half_even (q / 2 powi s)) - q / 2 powi s\<bar> * 2 powi s"
    by (simp add: abs_mult)
  also have "\<dots> \<le> (1 / 2) * 2 powi s"
    using round_half_even_bounds by (intro mult_right_mono) auto
  finally show ?thesis by simp
qed

lemma rnd_error:
  assumes "\<bar>q\<bar> < 2 powi k" "- 1021 \<le> k"
  shows "\<bar>rnd q - q\<bar> \<le> 2 powi (k - 54)"
proof (cases "q = 0")
  case False
  then have "(2 :: rat) powi ilog2 \<bar>q\<bar> < 2 powi k"
    using ilog2_bounds(1) [of "\<bar>q\<bar>"] assms(1) by simp
  then have "scale q \<le> k - 53" using assms(2) by (simp add: powi_less_iff scale_def)
  then have "(2 :: rat) powi scale q \<le> 2 powi (k - 53)" by (rule powi_mono)
  moreover have "(2 :: rat) powi (k - 53) / 2 = 2 powi (k - 54)"
    using power_int_add_1 [of "2 :: rat" "k - 54"] by simp
  ultimately show ?thesis using rnd_at_error [of "scale q" q] False by (simp add: rnd_def)
qed simp


section \<open>Maxima and minima of lists\<close>

lemma pymax_less: "a \<noteq> NaN \<Longrightarrow> y \<noteq> NaN \<Longrightarrow> pymax a y < c \<longleftrightarrow> a < c \<and> y < c"
  by (cases a; cases y; cases c) (auto simp: pymax_def)

lemma pymin_less: "a \<noteq> NaN \<Longrightarrow> y \<noteq> NaN \<Longrightarrow> c < pymin a y \<longleftrightarrow> c < a \<and> c < y"
  by (cases a; cases y; cases c) (auto simp: pymin_def)

lemma pymax_list_less:
  assumes "xs \<noteq> []" "\<forall>x \<in> set xs. x \<noteq> NaN"
  shows "\<exists>m. pymax_list xs = Inr m \<and> m \<noteq> NaN \<and> (\<forall>c. m < c \<longleftrightarrow> (\<forall>x \<in> set xs. x < c))"
proof -
  have *: "foldl pymax a ys \<noteq> NaN \<and> (\<forall>c. foldl pymax a ys < c \<longleftrightarrow> (\<forall>x \<in> insert a (set ys). x < c))"
    if "a \<noteq> NaN" "\<forall>x \<in> set ys. x \<noteq> NaN" for a ys
    using that
  proof (induction ys arbitrary: a)
    case (Cons y ys)
    have "pymax a y \<noteq> NaN" using Cons.prems by (simp add: pymax_def)
    then show ?case using Cons.IH [of "pymax a y"] Cons.prems by (auto simp: pymax_less)
  qed simp
  show ?thesis using assms * by (cases xs) (auto simp: pymax_list_def)
qed

lemma pymin_list_less:
  assumes "xs \<noteq> []" "\<forall>x \<in> set xs. x \<noteq> NaN"
  shows "\<exists>m. pymin_list xs = Inr m \<and> m \<noteq> NaN \<and> (\<forall>c. c < m \<longleftrightarrow> (\<forall>x \<in> set xs. c < x))"
proof -
  have *: "foldl pymin a ys \<noteq> NaN \<and> (\<forall>c. c < foldl pymin a ys \<longleftrightarrow> (\<forall>x \<in> insert a (set ys). c < x))"
    if "a \<noteq> NaN" "\<forall>x \<in> set ys. x \<noteq> NaN" for a ys
    using that
  proof (induction ys arbitrary: a)
    case (Cons y ys)
    have "pymin a y \<noteq> NaN" using Cons.prems by (simp add: pymin_def)
    then show ?case using Cons.IH [of "pymin a y"] Cons.prems by (auto simp: pymin_less)
  qed simp
  show ?thesis using assms * by (cases xs) (auto simp: pymin_list_def)
qed


section \<open>Means\<close>

text \<open>\<^verbatim>\<open>sum(xs) / len(xs)\<close>.\<close>

definition mean_of :: "pyfloat list \<Rightarrow> pyfloat res" where
  "mean_of xs = div_int (fsum xs) (int (length xs))"

lemma mean_of_total: "xs \<noteq> [] \<Longrightarrow> int (length xs) \<le> 2 ^ 53 \<Longrightarrow> \<exists>m. mean_of xs = Inr m"
  using i2f_small [of "int (length xs)"] by (auto simp: mean_of_def div_int_def fdiv_def feq_def)

lemma is_dbl_mean_of: "mean_of xs = Inr m \<Longrightarrow> is_dbl m"
  by (auto simp: mean_of_def div_int_def fdiv_def rbind_eq_Inr split: if_splits)


section \<open>Monotone arithmetic\<close>

text \<open>Rounding is monotone, so sums and products with a constant keep the order of finite doubles.\<close>

lemma clamp_mono: "x \<le> y \<Longrightarrow> lo \<le> hi \<Longrightarrow> clamp x lo hi \<le> clamp y lo hi"
  by (cases x; cases y) (auto simp: clamp_def pymin_def pymax_def)

lemma pf_extremes: "x \<noteq> NaN \<Longrightarrow> x \<le> PInf" "x \<noteq> NaN \<Longrightarrow> NInf \<le> x"
  by (cases x; simp)+

lemma quot_mono_const: "x \<le> y \<Longrightarrow> 0 < c \<Longrightarrow> quot x (Fin c) \<le> quot y (Fin c)"
  using to_dbl_mono [of "a / c" "b / c" for a b]
  by (cases x; cases y) (auto simp: signed_inf_def divide_right_mono pf_extremes)

lemma times_mono_const:
  assumes "in_range a b x" "in_range a' b' y" "x \<le> y" "0 \<le> c"
  shows "x * Fin c \<le> y * Fin c" "Fin c * x \<le> Fin c * y"
proof -
  obtain p q where e: "x = Fin p" "y = Fin q" using assms(1,2) by (auto elim!: in_rangeE)
  then have "p * c \<le> q * c" "c * p \<le> c * q" using assms(3,4) by (auto intro: mult_right_mono mult_left_mono)
  then show "x * Fin c \<le> y * Fin c" "Fin c * x \<le> Fin c * y" using e to_dbl_mono by auto
qed

lemma plus_mono_range:
  assumes "in_range a b x" "in_range a' b' x'" "in_range c d y" "in_range c' d' y'" "x \<le> x'" "y \<le> y'"
  shows "x + y \<le> x' + y'"
  using assms by (auto elim!: in_rangeE intro!: to_dbl_mono)

lemma minus_mono_range:
  assumes "in_range a b x" "in_range a' b' x'" "in_range c d y" "in_range c' d' y'" "x \<le> x'" "y' \<le> y"
  shows "x - y \<le> x' - y'"
  using assms by (auto elim!: in_rangeE intro!: to_dbl_mono simp: minus_pyfloat_def)

lemma pyround_mono: "x \<le> y \<Longrightarrow> pyround x = Inr m \<Longrightarrow> pyround y = Inr n \<Longrightarrow> m \<le> n"
  by (cases x; cases y) (auto intro: round_half_even_mono)

text \<open>\<^verbatim>\<open>int(round(min(max(x, 0.0), 100.0)))\<close>.\<close>

definition round_score :: "pyfloat \<Rightarrow> int res" where
  "round_score x = pyround (clamp x 0 100)"

lemma round_score_range:
  assumes "is_dbl x"
  shows "round_score x = Inr n \<Longrightarrow> 0 \<le> n \<and> n \<le> 100" "x \<noteq> NaN \<Longrightarrow> \<exists>n. round_score x = Inr n"
proof -
  have *: "\<exists>n. round_score x = Inr n \<and> 0 \<le> n \<and> n \<le> 100" if "x \<noteq> NaN"
    using clamp_in_range [OF assms that, of 0 100] pyround_in_range [of 0 100 "clamp x 0 100"]
    by (auto simp: round_score_def)
  show "round_score x = Inr n \<Longrightarrow> 0 \<le> n \<and> n \<le> 100"
    using * by (cases "x = NaN") (auto simp: round_score_def)
  show "x \<noteq> NaN \<Longrightarrow> \<exists>n. round_score x = Inr n" using * by blast
qed

lemma round_score_mono:
  "x \<le> y \<Longrightarrow> round_score x = Inr m \<Longrightarrow> round_score y = Inr n \<Longrightarrow> m \<le> n"
  using clamp_mono [of x y 0 100] by (auto simp: round_score_def intro: pyround_mono)

end
