(* ===== verification/Market.thy ===== *)
theory Market
  imports Config
begin

text \<open>
  The data that crosses component borders: the feed's candles and ticker rows
  (\<^verbatim>\<open>src/orvixa/feeds/base.py\<close>).
\<close>

record candle =
  cd_symbol :: string
  cd_ts :: int
  cd_open :: pyfloat
  cd_high :: pyfloat
  cd_low :: pyfloat
  cd_close :: pyfloat
  cd_volume :: pyfloat
  cd_quote_volume :: pyfloat
  cd_trades :: int
  cd_closed :: bool
  cd_taker_buy_volume :: pyfloat

definition is_bullish :: "candle \<Rightarrow> bool" where
  "is_bullish c \<longleftrightarrow> cd_close c \<ge> cd_open c"

record ticker_row =
  tk_symbol :: string
  tk_price :: pyfloat
  tk_change_pct :: pyfloat
  tk_quote_volume :: pyfloat

end
