(* ===== verification/Indicators.thy ===== *)
theory Indicators
  imports Market
begin

text \<open>
  \<^verbatim>\<open>src/orvixa/analytics/indicators.py\<close>: the incremental calculators. Each is a record of
  the object's attributes and an \<open>update\<close> that returns the method's result (or the exception
  it raises) together with the attributes it leaves behind.
\<close>

section \<open>Exponential moving average\<close>

record ema =
  ema_period :: int
  ema_alpha :: pyfloat
  ema_value :: "pyfloat option"

definition ema_new :: "int \<Rightarrow> ema res" where
  "ema_new period =
     rbind (div_int (Fin 2) (period + 1)) (\<lambda>alpha.
     Inr \<lparr>ema_period = period, ema_alpha = alpha, ema_value = None\<rparr>)"

definition ema_update :: "pyfloat \<Rightarrow> ema \<Rightarrow> pyfloat \<times> ema" where
  "ema_update price e =
     (let v = (case ema_value e of
                 None \<Rightarrow> price
               | Some value \<Rightarrow> (price - value) * ema_alpha e + value)
      in (v, e\<lparr>ema_value := Some v\<rparr>))"


section \<open>Wilder's relative strength index\<close>

record rsi =
  rsi_per :: int
  rsi_prev_close :: "pyfloat option"
  rsi_avg_gain :: "pyfloat option"
  rsi_avg_loss :: "pyfloat option"
  rsi_seed_gains :: "pyfloat list"
  rsi_seed_losses :: "pyfloat list"
  rsi_value :: "pyfloat option"

definition rsi_new :: "int \<Rightarrow> rsi" where
  "rsi_new period = \<lparr>rsi_per = period, rsi_prev_close = None, rsi_avg_gain = None,
     rsi_avg_loss = None, rsi_seed_gains = [], rsi_seed_losses = [], rsi_value = None\<rparr>"

text \<open>\<^verbatim>\<open>sum(xs) / period\<close> and \<^verbatim>\<open>(avg * (period - 1) + x) / period\<close>.\<close>

definition seed_average :: "pyfloat list \<Rightarrow> int \<Rightarrow> pyfloat res" where
  "seed_average xs period = div_int (fsum xs) period"

definition wilder :: "pyfloat \<Rightarrow> pyfloat \<Rightarrow> int \<Rightarrow> pyfloat res" where
  "wilder avg x period =
     rbind (i2f (period - 1)) (\<lambda>m. div_int (avg * m + x) period)"

text \<open>The tail of \<^verbatim>\<open>update\<close>: the value from the two averages.\<close>

definition rsi_finish :: "pyfloat \<Rightarrow> pyfloat \<Rightarrow> rsi \<Rightarrow> pyfloat option res \<times> rsi" where
  "rsi_finish ag al r =
     (if feq al (Fin 0) then (Inr (Some (Fin 100)), r\<lparr>rsi_value := Some (Fin 100)\<rparr>)
      else attempt (fdiv ag al) r (\<lambda>rs.
           attempt (fdiv (Fin 100) (Fin 1 + rs)) r (\<lambda>d.
             (Inr (Some (Fin 100 - d)), r\<lparr>rsi_value := Some (Fin 100 - d)\<rparr>))))"

definition rsi_update :: "pyfloat \<Rightarrow> rsi \<Rightarrow> pyfloat option res \<times> rsi" where
  "rsi_update close r =
     (case rsi_prev_close r of
        None \<Rightarrow> (Inr None, r\<lparr>rsi_prev_close := Some close\<rparr>)
      | Some prev \<Rightarrow>
          (let change = close - prev;
               r1 = r\<lparr>rsi_prev_close := Some close\<rparr>;
               gain = pymax change (Fin 0);
               loss = pymax (- change) (Fin 0)
           in case rsi_avg_gain r1 of
                None \<Rightarrow>
                  (let r2 = r1\<lparr>rsi_seed_gains := rsi_seed_gains r1 @ [gain],
                               rsi_seed_losses := rsi_seed_losses r1 @ [loss]\<rparr>
                   in if int (length (rsi_seed_gains r2)) < rsi_per r2 then (Inr None, r2)
                      else attempt (seed_average (rsi_seed_gains r2) (rsi_per r2)) r2 (\<lambda>ag.
                        let r3 = r2\<lparr>rsi_avg_gain := Some ag\<rparr>
                        in attempt (seed_average (rsi_seed_losses r3) (rsi_per r3)) r3 (\<lambda>al.
                          rsi_finish ag al (r3\<lparr>rsi_avg_loss := Some al\<rparr>))))
              | Some ag \<Rightarrow>
                  (case rsi_avg_loss r1 of
                     None \<Rightarrow> (Inl AssertionError, r1)
                   | Some al \<Rightarrow>
                       attempt (wilder ag gain (rsi_per r1)) r1 (\<lambda>ag'.
                         let r2 = r1\<lparr>rsi_avg_gain := Some ag'\<rparr>
                         in attempt (wilder al loss (rsi_per r2)) r2 (\<lambda>al'.
                           rsi_finish ag' al' (r2\<lparr>rsi_avg_loss := Some al'\<rparr>))))))"


section \<open>Wilder's average true range\<close>

record atr =
  atr_per :: int
  atr_prev_close :: "pyfloat option"
  atr_seed_trs :: "pyfloat list"
  atr_avg_tr :: "pyfloat option"
  atr_value :: "pyfloat option"

definition atr_new :: "int \<Rightarrow> atr" where
  "atr_new period = \<lparr>atr_per = period, atr_prev_close = None, atr_seed_trs = [],
     atr_avg_tr = None, atr_value = None\<rparr>"

definition true_range :: "pyfloat option \<Rightarrow> pyfloat \<Rightarrow> pyfloat \<Rightarrow> pyfloat" where
  "true_range prev high low =
     (case prev of
        None \<Rightarrow> high - low
      | Some p \<Rightarrow> pymax (pymax (high - low) \<bar>high - p\<bar>) \<bar>low - p\<bar>)"

definition atr_update :: "pyfloat \<Rightarrow> pyfloat \<Rightarrow> pyfloat \<Rightarrow> atr \<Rightarrow> pyfloat option res \<times> atr" where
  "atr_update high low close a =
     (let tr = true_range (atr_prev_close a) high low;
          a1 = a\<lparr>atr_prev_close := Some close\<rparr>
      in case atr_avg_tr a1 of
           None \<Rightarrow>
             (let a2 = a1\<lparr>atr_seed_trs := atr_seed_trs a1 @ [tr]\<rparr>
              in if int (length (atr_seed_trs a2)) < atr_per a2 then (Inr None, a2)
                 else attempt (seed_average (atr_seed_trs a2) (atr_per a2)) a2 (\<lambda>v.
                   (Inr (Some v), a2\<lparr>atr_avg_tr := Some v, atr_value := Some v\<rparr>)))
         | Some avg \<Rightarrow>
             attempt (wilder avg tr (atr_per a1)) a1 (\<lambda>v.
               (Inr (Some v), a1\<lparr>atr_avg_tr := Some v, atr_value := Some v\<rparr>)))"


section \<open>Realized volatility\<close>

text \<open>
  \<^verbatim>\<open>math.log\<close> is the platform's libm and not correctly rounded: it is a parameter \<open>logf\<close>
  of everything that uses it. \<^verbatim>\<open>math.sqrt\<close> is the correctly rounded root of the
  hardware, and \<^verbatim>\<open>x ** 2\<close> a rounded square that raises on overflow.
\<close>

record rvol =
  rv_window :: int
  rv_prev_close :: "pyfloat option"
  rv_returns :: "pyfloat deque"
  rv_value :: "pyfloat option"

definition rvol_new :: "int \<Rightarrow> rvol res" where
  "rvol_new window =
     rbind (deque_new window) (\<lambda>d.
     Inr \<lparr>rv_window = window, rv_prev_close = None, rv_returns = d, rv_value = None\<rparr>)"

definition variance_of :: "pyfloat list \<Rightarrow> pyfloat res" where
  "variance_of xs =
     rbind (mean_of xs) (\<lambda>mean.
     rbind (rmap (\<lambda>r. fsquare (r - mean)) xs) mean_of)"

definition rvol_push :: "(pyfloat \<Rightarrow> pyfloat res) \<Rightarrow> pyfloat \<Rightarrow> rvol \<Rightarrow> rvol res" where
  "rvol_push logf close r =
     (case rv_prev_close r of
        None \<Rightarrow> Inr r
      | Some p \<Rightarrow>
          if p > Fin 0 \<and> close > Fin 0 then
            rbind (fdiv close p) (\<lambda>q. rbind (logf q) (\<lambda>l.
              Inr (r\<lparr>rv_returns := deque_append (rv_returns r) l\<rparr>)))
          else Inr r)"

definition rvol_update ::
  "(pyfloat \<Rightarrow> pyfloat res) \<Rightarrow> pyfloat \<Rightarrow> rvol \<Rightarrow> pyfloat option res \<times> rvol" where
  "rvol_update logf close r =
     attempt (rvol_push logf close r) r (\<lambda>r1.
       let r2 = r1\<lparr>rv_prev_close := Some close\<rparr>;
           xs = items (rv_returns r2)
       in if int (length xs) < rv_window r2 then (Inr None, r2)
          else attempt (variance_of xs) r2 (\<lambda>var.
               attempt (fsqrt var) r2 (\<lambda>sd.
                 (Inr (Some (sd * Fin 100)), r2\<lparr>rv_value := Some (sd * Fin 100)\<rparr>))))"


section \<open>Relative volume\<close>

record relvol =
  rl_window :: int
  rl_volumes :: "pyfloat deque"
  rl_value :: "pyfloat option"

definition relvol_new :: "int \<Rightarrow> relvol res" where
  "relvol_new window =
     rbind (deque_new window) (\<lambda>d.
     Inr \<lparr>rl_window = window, rl_volumes = d, rl_value = None\<rparr>)"

definition relvol_update :: "pyfloat \<Rightarrow> relvol \<Rightarrow> pyfloat option res \<times> relvol" where
  "relvol_update volume r =
     (let xs = items (rl_volumes r);
          v = (if int (length xs) < rl_window r \<or> fsum xs \<le> Fin 0 then Inr None
               else rbind (mean_of xs) (\<lambda>avg.
                 if avg > Fin 0 then rbind (fdiv volume avg) (\<lambda>q. Inr (Some q))
                 else Inr None))
      in attempt v r (\<lambda>v.
           (Inr v, r\<lparr>rl_value := v, rl_volumes := deque_append (rl_volumes r) volume\<rparr>)))"


section \<open>The bundle per symbol\<close>

record indicator_snapshot =
  sn_close :: pyfloat
  sn_high :: pyfloat
  sn_low :: pyfloat
  sn_volume :: pyfloat
  sn_ema_fast :: "pyfloat option"
  sn_ema_slow :: "pyfloat option"
  sn_ema_slow_prev :: "pyfloat option"
  sn_rsi :: "pyfloat option"
  sn_atr :: "pyfloat option"
  sn_vol_realized :: "pyfloat option"
  sn_vol_rel :: "pyfloat option"

record symbol_indicators =
  si_ema_fast :: ema
  si_ema_slow :: ema
  si_rsi :: rsi
  si_atr :: atr
  si_vol_realized :: rvol
  si_vol_rel :: relvol

definition symbol_indicators_new :: "settings \<Rightarrow> symbol_indicators res" where
  "symbol_indicators_new cfg =
     rbind (ema_new (ema_fast_period cfg)) (\<lambda>ef.
     rbind (ema_new (ema_slow_period cfg)) (\<lambda>es.
     rbind (rvol_new (realized_vol_window cfg)) (\<lambda>rv.
     rbind (relvol_new (relative_volume_window cfg)) (\<lambda>rl.
     Inr \<lparr>si_ema_fast = ef, si_ema_slow = es, si_rsi = rsi_new (rsi_period cfg),
          si_atr = atr_new (atr_period cfg), si_vol_realized = rv, si_vol_rel = rl\<rparr>))))"

text \<open>Keyword arguments are evaluated in order: an exception leaves the earlier updates done.\<close>

definition symbol_indicators_update ::
  "(pyfloat \<Rightarrow> pyfloat res) \<Rightarrow> candle \<Rightarrow> symbol_indicators
     \<Rightarrow> indicator_snapshot res \<times> symbol_indicators" where
  "symbol_indicators_update logf c s =
     (let prev = ema_value (si_ema_slow s);
          (ef, emaf) = ema_update (cd_close c) (si_ema_fast s);
          (es, emas) = ema_update (cd_close c) (si_ema_slow s);
          (rsi_r, rsi1) = rsi_update (cd_close c) (si_rsi s);
          s1 = s\<lparr>si_ema_fast := emaf, si_ema_slow := emas, si_rsi := rsi1\<rparr>
      in attempt rsi_r s1 (\<lambda>rsi_v.
         let (atr_r, atr1) = atr_update (cd_high c) (cd_low c) (cd_close c) (si_atr s1);
             s2 = s1\<lparr>si_atr := atr1\<rparr>
         in attempt atr_r s2 (\<lambda>atr_v.
         let (rv_r, rv1) = rvol_update logf (cd_close c) (si_vol_realized s2);
             s3 = s2\<lparr>si_vol_realized := rv1\<rparr>
         in attempt rv_r s3 (\<lambda>rv_v.
         let (rl_r, rl1) = relvol_update (cd_volume c) (si_vol_rel s3);
             s4 = s3\<lparr>si_vol_rel := rl1\<rparr>
         in attempt rl_r s4 (\<lambda>rl_v.
           (Inr \<lparr>sn_close = cd_close c, sn_high = cd_high c, sn_low = cd_low c,
                 sn_volume = cd_volume c, sn_ema_fast = Some ef, sn_ema_slow = Some es,
                 sn_ema_slow_prev = prev, sn_rsi = rsi_v, sn_atr = atr_v,
                 sn_vol_realized = rv_v, sn_vol_rel = rl_v\<rparr>, s4))))))"


section \<open>Numeric bounds\<close>

text \<open>
  Prices, volumes and true ranges up to 2^900 leave room for every intermediate result.
\<close>

definition price_bound :: rat where
  "price_bound = 2 ^ 900"

lemma price_bound_pos [simp]: "0 < price_bound" "0 \<le> price_bound"
  by (simp_all add: price_bound_def)

lemma endpoint_multiple:
  "\<bar>n\<bar> \<le> 2 ^ 53 \<Longrightarrow> endpoint (of_int n * price_bound)"
  unfolding price_bound_def by (rule endpoint_scaled) auto

lemma endpoint_price_bound [endpoints]: "endpoint price_bound"
  unfolding price_bound_def by (rule endpoint_power) simp

lemma fsum_in_range:
  assumes "\<forall>x \<in> set xs. in_range a b x"
    "\<And>k. k \<le> length xs \<Longrightarrow> endpoint (of_nat k * a) \<and> endpoint (of_nat k * b)"
  shows "in_range (of_nat (length xs) * a) (of_nat (length xs) * b) (fsum xs)"
  using assms
proof (induction xs rule: rev_induct)
  case Nil
  then show ?case by (simp add: fsum_def in_range_Fin)
next
  case (snoc x xs)
  have "in_range (of_nat (length xs) * a) (of_nat (length xs) * b) (fsum xs)"
    using snoc.prems by (intro snoc.IH) auto
  then have "in_range (of_nat (Suc (length xs)) * a) (of_nat (Suc (length xs)) * b) (fsum xs + x)"
    using snoc.prems snoc.prems(2) [of "Suc (length xs)"]
    by (intro in_range_add [where x = "fsum xs" and y = x and c = a and d = b])
      (auto simp: distrib_right)
  then show ?case by (simp add: fsum_def)
qed

lemma div_int_in_range:
  assumes "in_range (of_int n * a) (of_int n * b) x" "1 \<le> n" "n \<le> 2 ^ 53" "endpoint a" "endpoint b"
  shows "\<exists>z. div_int x n = Inr z \<and> in_range a b z"
proof -
  obtain q where q: "x = Fin q" "of_int n * a \<le> q" "q \<le> of_int n * b"
    using assms(1) by (auto simp: in_range_def)
  have "(0 :: rat) < of_int n" using assms(2) by simp
  then have "a \<le> q / of_int n" "q / of_int n \<le> b"
    using q by (simp_all add: pos_le_divide_eq pos_divide_le_eq mult.commute)
  then show ?thesis using assms q to_dbl_in_range [OF assms(4,5)]
    by (simp add: div_int_def fdiv_def)
qed

lemma mean_of_in_range:
  assumes "\<forall>x \<in> set xs. in_range a b x" "xs \<noteq> []" "int (length xs) \<le> 2 ^ 53"
    "\<And>k. k \<le> length xs \<Longrightarrow> endpoint (of_nat k * a) \<and> endpoint (of_nat k * b)"
  shows "\<exists>z. mean_of xs = Inr z \<and> in_range a b z"
proof -
  have "length xs \<ge> 1" using assms(2) by (cases xs) auto
  then show ?thesis
    using fsum_in_range [OF assms(1,4)] assms(3) assms(4) [of 1]
    unfolding mean_of_def by (intro div_int_in_range) auto
qed

lemma seed_average_in_range:
  assumes "\<forall>x \<in> set xs. in_range 0 price_bound x" "int (length xs) = n" "1 \<le> n" "n \<le> 2 ^ 53"
  shows "\<exists>z. seed_average xs n = Inr z \<and> in_range 0 price_bound z"
proof -
  have "\<exists>z. mean_of xs = Inr z \<and> in_range 0 price_bound z"
    using assms endpoint_multiple [of "int k" for k]
    by (intro mean_of_in_range) (auto simp: of_nat_of_int_iff)
  then show ?thesis using assms by (simp add: seed_average_def mean_of_def)
qed

lemma wilder_in_range:
  assumes "in_range 0 price_bound a" "in_range 0 price_bound x" "1 \<le> n" "n \<le> 2 ^ 53"
  shows "\<exists>z. wilder a x n = Inr z \<and> in_range 0 price_bound z"
proof -
  have m: "in_range 0 (of_int (n - 1)) (Fin (of_int (n - 1)))"
    using assms by (intro in_rangeI endpoint_of_int) auto
  have "in_range 0 (of_int (n - 1) * price_bound) (a * Fin (of_int (n - 1)))"
    using assms by (intro in_range_mult [OF assms(1) m] endpoint_multiple) auto
  then have "in_range 0 (of_int n * price_bound) (a * Fin (of_int (n - 1)) + x)"
    using assms by (intro in_range_add [OF _ assms(2)] endpoint_multiple) (auto simp: left_diff_distrib)
  then have "\<exists>z. div_int (a * Fin (of_int (n - 1)) + x) n = Inr z \<and> in_range 0 price_bound z"
    using assms by (intro div_int_in_range endpoints) auto
  then show ?thesis using assms by (simp add: wilder_def)
qed



subsection \<open>RSI\<close>

definition price_ok :: "pyfloat \<Rightarrow> bool" where
  "price_ok x \<longleftrightarrow> in_range 0 price_bound x"

definition period_ok :: "int \<Rightarrow> bool" where
  "period_ok p \<longleftrightarrow> 1 \<le> p \<and> p \<le> 2 ^ 53"

text \<open>The state after \<open>n\<close> closes.\<close>

definition rsi_at :: "int \<Rightarrow> nat \<Rightarrow> rsi \<Rightarrow> bool" where
  "rsi_at p n r \<longleftrightarrow> period_ok p \<and> rsi_per r = p \<and>
     (if n = 0 then rsi_prev_close r = None else \<exists>c. rsi_prev_close r = Some c \<and> price_ok c) \<and>
     (if int n \<le> p
      then rsi_avg_gain r = None \<and>
        length (rsi_seed_gains r) = n - 1 \<and> length (rsi_seed_losses r) = n - 1 \<and>
        (\<forall>x \<in> set (rsi_seed_gains r). price_ok x) \<and> (\<forall>x \<in> set (rsi_seed_losses r). price_ok x)
      else \<exists>ag al. rsi_avg_gain r = Some ag \<and> rsi_avg_loss r = Some al \<and> price_ok ag \<and> price_ok al)"

definition rsi_good :: "int \<Rightarrow> nat \<Rightarrow> pyfloat option res \<Rightarrow> bool" where
  "rsi_good p n out \<longleftrightarrow>
     (if int n < p then out = Inr None
      else \<exists>v. out = Inr (Some v) \<and> in_range 0 100 v)"

lemma gain_loss_ok:
  assumes "price_ok close" "price_ok prev"
  shows "price_ok (pymax (close - prev) (Fin 0))" "price_ok (pymax (- (close - prev)) (Fin 0))"
proof -
  have d: "in_range (- price_bound) price_bound (close - prev)"
    using assms unfolding price_ok_def by (intro in_range_diff endpoints) auto
  have z: "in_range 0 0 (Fin 0)" by (simp add: in_range_Fin)
  show "price_ok (pymax (close - prev) (Fin 0))"
    unfolding price_ok_def by (rule in_range_pymax [OF d z]) auto
  have "in_range (- price_bound) (- (- price_bound)) (- (close - prev))"
    using d by (rule in_range_uminus)
  then show "price_ok (pymax (- (close - prev)) (Fin 0))"
    unfolding price_ok_def by (rule in_range_pymax [OF _ z]) auto
qed

text \<open>From two averages in range, the index is between 0 and 100: even an overflowing ratio is.\<close>

lemma rsi_finish_range:
  assumes "price_ok ag" "price_ok al"
  shows "\<exists>v. in_range 0 100 v \<and> rsi_finish ag al r = (Inr (Some v), r\<lparr>rsi_value := Some v\<rparr>)"
proof -
  obtain g l where gl: "ag = Fin g" "al = Fin l" "0 \<le> g" "0 \<le> l" "endpoint g" "endpoint l"
    using assms by (auto simp: price_ok_def in_range_def)
  show ?thesis
  proof (cases "l = 0")
    case True
    then show ?thesis
      using gl by (auto simp: rsi_finish_def feq_def in_range_Fin endpoints)
  next
    case False
    have rs: "Fin 0 \<le> to_dbl (g / l)" using to_dbl_mono [of 0 "g / l"] gl by simp
    have one: "Fin 1 \<le> Fin 1 + to_dbl (g / l)"
    proof (cases "to_dbl (g / l)")
      case (Fin x)
      then show ?thesis using rs to_dbl_mono [of 1 "1 + x"] by simp
    qed (use rs in auto)
    have d: "in_range 0 100 (quot (Fin 100) (Fin 1 + to_dbl (g / l)))"
    proof (cases "Fin 1 + to_dbl (g / l)")
      case (Fin y)
      then have "1 \<le> y" using one by simp
      then have "0 \<le> 100 / y" "100 / y \<le> 100" by (auto simp: field_simps)
      then show ?thesis using Fin by (auto intro!: to_dbl_in_range endpoints)
    qed (use one in \<open>auto simp: in_range_Fin\<close>)
    have "in_range 0 100 (Fin 100 - quot (Fin 100) (Fin 1 + to_dbl (g / l)))"
      by (rule in_range_diff [OF in_rangeI d]) (auto intro: endpoints)
    moreover have "Fin 1 + to_dbl (g / l) \<noteq> Fin 0" using one by auto
    ultimately show ?thesis
      using gl False by (simp add: rsi_finish_def feq_def fdiv_def)
  qed
qed

lemma rsi_step:
  assumes "rsi_at p n r" "price_ok close"
  shows "rsi_at p (Suc n) (snd (rsi_update close r))" "rsi_good p n (fst (rsi_update close r))"
proof -
  have p: "period_ok p" "rsi_per r = p" using assms(1) by (simp_all add: rsi_at_def)
  have "rsi_at p (Suc n) (snd (rsi_update close r)) \<and> rsi_good p n (fst (rsi_update close r))"
  proof (cases "n = 0")
    case True
    then show ?thesis using assms p
      by (auto simp: rsi_at_def rsi_good_def rsi_update_def period_ok_def)
  next
    case False
    then obtain c where c: "rsi_prev_close r = Some c" "price_ok c"
      using assms(1) by (auto simp: rsi_at_def)
    note ch = gain_loss_ok [OF assms(2) c(2)]
    show ?thesis
    proof (cases "int n \<le> p")
      case warm: True
      then have av: "rsi_avg_gain r = None"
        and len: "length (rsi_seed_gains r) = n - 1" "length (rsi_seed_losses r) = n - 1"
        and ok: "\<forall>x \<in> set (rsi_seed_gains r). price_ok x" "\<forall>x \<in> set (rsi_seed_losses r). price_ok x"
        using assms(1) by (auto simp: rsi_at_def)
      let ?g = "rsi_seed_gains r @ [pymax (close - c) (Fin 0)]"
      let ?l = "rsi_seed_losses r @ [pymax (- (close - c)) (Fin 0)]"
      show ?thesis
      proof (cases "int n < p")
        case True
        then show ?thesis using False len ok ch c av p assms(2)
          by (auto simp: rsi_update_def rsi_at_def rsi_good_def Let_def)
      next
        case False
        then have np: "int n = p" using warm by simp
        obtain ag where ag: "seed_average ?g p = Inr ag" "price_ok ag"
          using seed_average_in_range [of ?g p] ok ch len np p \<open>n \<noteq> 0\<close>
          by (auto simp: price_ok_def period_ok_def)
        obtain al where al: "seed_average ?l p = Inr al" "price_ok al"
          using seed_average_in_range [of ?l p] ok ch len np p \<open>n \<noteq> 0\<close>
          by (auto simp: price_ok_def period_ok_def)
        let ?r = "r\<lparr>rsi_prev_close := Some close, rsi_seed_gains := ?g, rsi_seed_losses := ?l,
          rsi_avg_gain := Some ag, rsi_avg_loss := Some al\<rparr>"
        obtain v where v: "in_range 0 100 v" "rsi_finish ag al ?r = (Inr (Some v), ?r\<lparr>rsi_value := Some v\<rparr>)"
          using rsi_finish_range [OF ag(2) al(2)] by blast
        have "rsi_update close r = (Inr (Some v), ?r\<lparr>rsi_value := Some v\<rparr>)"
          using c av len np p ag al v(2) \<open>n \<noteq> 0\<close> by (simp add: rsi_update_def Let_def)
        then show ?thesis using np p assms(2) ag al v by (simp add: rsi_at_def rsi_good_def)
      qed
    next
      case False
      then obtain ag al where av: "rsi_avg_gain r = Some ag" "rsi_avg_loss r = Some al"
        "price_ok ag" "price_ok al" using assms(1) by (auto simp: rsi_at_def)
      obtain ag' where ag: "wilder ag (pymax (close - c) (Fin 0)) p = Inr ag'" "price_ok ag'"
        using wilder_in_range [of ag _ p] av ch p by (auto simp: price_ok_def period_ok_def)
      obtain al' where al: "wilder al (pymax (- (close - c)) (Fin 0)) p = Inr al'" "price_ok al'"
        using wilder_in_range [of al _ p] av ch p by (auto simp: price_ok_def period_ok_def)
      let ?r = "r\<lparr>rsi_prev_close := Some close, rsi_avg_gain := Some ag', rsi_avg_loss := Some al'\<rparr>"
      obtain v where v: "in_range 0 100 v" "rsi_finish ag' al' ?r = (Inr (Some v), ?r\<lparr>rsi_value := Some v\<rparr>)"
        using rsi_finish_range [OF ag(2) al(2)] by blast
      have "rsi_update close r = (Inr (Some v), ?r\<lparr>rsi_value := Some v\<rparr>)"
        using c av p ag al v(2) by (simp add: rsi_update_def Let_def)
      then show ?thesis using False p assms(2) ag al v by (simp add: rsi_at_def rsi_good_def)
    qed
  qed
  then show "rsi_at p (Suc n) (snd (rsi_update close r))" "rsi_good p n (fst (rsi_update close r))"
    by auto
qed

interpretation rsi_calc: calculator rsi_update "rsi_at p" price_ok "rsi_good p" for p
  by unfold_locales (auto intro: rsi_step)

lemma rsi_new_at: "period_ok p \<Longrightarrow> rsi_at p 0 (rsi_new p)"
  by (simp add: rsi_at_def rsi_new_def period_ok_def)



subsection \<open>ATR\<close>

text \<open>A bar: high, low and close are prices and the high is at least the low.\<close>

definition bar_ok :: "pyfloat \<times> pyfloat \<times> pyfloat \<Rightarrow> bool" where
  "bar_ok b \<longleftrightarrow> (case b of (h, l, c) \<Rightarrow> price_ok h \<and> price_ok l \<and> price_ok c \<and> l \<le> h)"

definition atr_upd :: "pyfloat \<times> pyfloat \<times> pyfloat \<Rightarrow> atr \<Rightarrow> pyfloat option res \<times> atr" where
  "atr_upd b a = (case b of (h, l, c) \<Rightarrow> atr_update h l c a)"

definition atr_at :: "int \<Rightarrow> nat \<Rightarrow> atr \<Rightarrow> bool" where
  "atr_at p n a \<longleftrightarrow> period_ok p \<and> atr_per a = p \<and>
     (if n = 0 then atr_prev_close a = None else \<exists>c. atr_prev_close a = Some c \<and> price_ok c) \<and>
     (if int n < p
      then atr_avg_tr a = None \<and> length (atr_seed_trs a) = n \<and> (\<forall>x \<in> set (atr_seed_trs a). price_ok x)
      else \<exists>v. atr_avg_tr a = Some v \<and> price_ok v)"

definition atr_good :: "int \<Rightarrow> nat \<Rightarrow> pyfloat option res \<Rightarrow> bool" where
  "atr_good p n out \<longleftrightarrow>
     (if int n + 1 < p then out = Inr None
      else \<exists>v. out = Inr (Some v) \<and> in_range 0 price_bound v)"

lemma abs_diff_ok:
  assumes "price_ok x" "price_ok y"
  shows "price_ok \<bar>x - y\<bar>"
proof -
  have "in_range (- price_bound) price_bound (x - y)"
    using assms unfolding price_ok_def by (intro in_range_diff endpoints) auto
  then show ?thesis
    by (auto simp: price_ok_def in_range_def abs_if endpoint_minus)
qed

lemma true_range_ok:
  assumes "bar_ok (h, l, c)" "\<forall>p. prev = Some p \<longrightarrow> price_ok p"
  shows "price_ok (true_range prev h l)"
proof -
  have ok: "price_ok h" "price_ok l" "l \<le> h" using assms(1) by (auto simp: bar_ok_def)
  have hl: "price_ok (h - l)"
  proof -
    obtain x y where "h = Fin x" "l = Fin y" "0 \<le> x - y" "x - y \<le> price_bound"
      using ok by (auto simp: price_ok_def in_range_def)
    then show ?thesis
      by (simp add: price_ok_def minus_pyfloat_def to_dbl_in_range endpoints)
  qed
  show ?thesis
  proof (cases prev)
    case None
    then show ?thesis using hl by (simp add: true_range_def)
  next
    case (Some p)
    then have "price_ok \<bar>h - p\<bar>" "price_ok \<bar>l - p\<bar>" using assms(2) ok abs_diff_ok by auto
    then show ?thesis using hl Some
      by (auto simp: true_range_def price_ok_def pymax_def)
  qed
qed

lemma atr_step:
  assumes "atr_at p n a" "bar_ok b"
  shows "atr_at p (Suc n) (snd (atr_upd b a))" "atr_good p n (fst (atr_upd b a))"
proof -
  obtain h l c where b: "b = (h, l, c)" by (cases b) auto
  have p: "period_ok p" "atr_per a = p" using assms(1) by (simp_all add: atr_at_def)
  have c: "price_ok c" using assms(2) b by (simp add: bar_ok_def)
  have prev: "\<forall>q. atr_prev_close a = Some q \<longrightarrow> price_ok q"
    using assms(1) by (auto simp: atr_at_def split: if_splits)
  let ?tr = "true_range (atr_prev_close a) h l"
  have tr: "price_ok ?tr" using true_range_ok [OF _ prev] assms(2) b by simp
  have "atr_at p (Suc n) (snd (atr_upd b a)) \<and> atr_good p n (fst (atr_upd b a))"
  proof (cases "int n < p")
    case True
    then have av: "atr_avg_tr a = None" "length (atr_seed_trs a) = n"
      "\<forall>x \<in> set (atr_seed_trs a). price_ok x" using assms(1) by (auto simp: atr_at_def)
    show ?thesis
    proof (cases "int n + 1 < p")
      case True
      then show ?thesis using av p tr c b
        by (auto simp: atr_upd_def atr_update_def atr_at_def atr_good_def Let_def)
    next
      case False
      then have np: "int n + 1 = p" using \<open>int n < p\<close> by simp
      obtain v where "seed_average (atr_seed_trs a @ [?tr]) p = Inr v" "price_ok v"
        using seed_average_in_range [of "atr_seed_trs a @ [?tr]" p] av tr p np
        by (auto simp: price_ok_def period_ok_def)
      then show ?thesis using av p c b np
        by (auto simp: atr_upd_def atr_update_def atr_at_def atr_good_def Let_def price_ok_def)
    qed
  next
    case False
    then obtain avg where av: "atr_avg_tr a = Some avg" "price_ok avg"
      using assms(1) by (auto simp: atr_at_def)
    obtain v where "wilder avg ?tr p = Inr v" "price_ok v"
      using wilder_in_range [of avg ?tr p] av tr p by (auto simp: price_ok_def period_ok_def)
    then show ?thesis using av p c b False
      by (auto simp: atr_upd_def atr_update_def atr_at_def atr_good_def Let_def price_ok_def)
  qed
  then show "atr_at p (Suc n) (snd (atr_upd b a))" "atr_good p n (fst (atr_upd b a))"
    by auto
qed

interpretation atr_calc: calculator atr_upd "atr_at p" bar_ok "atr_good p" for p
  by unfold_locales (auto intro: atr_step)

lemma atr_new_at: "period_ok p \<Longrightarrow> atr_at p 0 (atr_new p)"
  by (auto simp: atr_at_def atr_new_def period_ok_def)


subsection \<open>EMA\<close>

text \<open>Half a unit in the last place bounds the rounding error.\<close>


text \<open>Adding back a rounded difference does not leave the price range.\<close>

lemma rnd_price_bound_excess: "rnd (price_bound + 2 ^ 846) = price_bound"
proof -
  let ?q = "price_bound + 2 ^ 846 :: rat"
  have i: "ilog2 ?q = 900"
    by (rule ilog2_unique) (simp_all add: price_bound_def power_int_def)
  have pos: "0 < ?q" by (simp add: price_bound_def)
  then have s: "scale ?q = 848" using i by (simp add: scale_def)
  have e: "?q / 2 powi 848 = 2 ^ 52 + 1 / 4"
    by (simp add: price_bound_def power_int_def)
  have "\<lfloor>2 ^ 52 + 1 / 4 :: rat\<rfloor> = 2 ^ 52" by (rule floor_unique) auto
  then have "round_half_even (?q / 2 powi 848) = 2 ^ 52"
    unfolding e by (simp only: round_half_even_def Let_def) simp
  then show ?thesis using pos s by (simp add: rnd_def rnd_at_def price_bound_def power_int_def)
qed

lemma back_in_range:
  assumes "0 \<le> v" "v \<le> p" "p \<le> price_bound" "endpoint v" "endpoint p" "x \<le> rnd (p - v)"
  shows "rnd (x + v) \<le> price_bound"
proof -
  have e: "rnd (p - v) \<le> p - v + 2 ^ 846"
  proof (cases "p - v = price_bound")
    case True
    then show ?thesis using endpoint_price_bound by (simp add: endpoint_def)
  next
    case False
    then have "\<bar>p - v\<bar> < 2 powi 900" using assms by (auto simp: price_bound_def power_int_def)
    then have "\<bar>rnd (p - v) - (p - v)\<bar> \<le> 2 powi (900 - 54)" by (rule rnd_error) simp
    then show ?thesis by (simp add: power_int_def)
  qed
  have "x + v \<le> price_bound + 2 ^ 846" using e assms by linarith
  then show ?thesis using rnd_mono rnd_price_bound_excess by metis
qed

text \<open>
  One step: \<open>(price - v) * alpha + v\<close> stays a price and lies on the price's side of \<open>v\<close>.
\<close>

definition toward :: "pyfloat \<Rightarrow> pyfloat \<Rightarrow> pyfloat \<Rightarrow> bool" where
  "toward price v w \<longleftrightarrow> (v \<le> price \<longrightarrow> v \<le> w) \<and> (price \<le> v \<longrightarrow> w \<le> v)"

lemma ema_step_up:
  assumes "0 \<le> v" "v \<le> p" "p \<le> price_bound" "endpoint v" "endpoint p" "0 \<le> a" "a \<le> 1"
  shows "\<exists>w. (Fin p - Fin v) * Fin a + Fin v = Fin w \<and> endpoint w \<and> v \<le> w \<and> w \<le> price_bound"
proof -
  let ?d = "rnd (p - v)"
  have d: "to_dbl (p - v) = Fin ?d" "0 \<le> ?d" "endpoint ?d"
    using to_dbl_in_range [of 0 price_bound "p - v"] assms endpoints
    by (auto simp: in_range_def to_dbl_def Let_def split: if_splits)
  have m: "0 \<le> ?d * a" "?d * a \<le> ?d" using d assms by (auto intro: mult_left_le)
  let ?m = "rnd (?d * a)"
  have m2: "to_dbl (?d * a) = Fin ?m" "0 \<le> ?m" "?m \<le> ?d"
    using to_dbl_in_range [of 0 ?d "?d * a"] m d
    by (auto simp: in_range_def to_dbl_def Let_def split: if_splits)
  have lo: "v \<le> rnd (?m + v)"
    using rnd_mono [of v "?m + v"] m2 assms by (simp add: endpoint_def)
  have hi: "rnd (?m + v) \<le> price_bound" using assms m2 by (intro back_in_range [of v p]) auto
  have "\<bar>rnd (?m + v)\<bar> < 2 ^ 1024"
    using lo hi assms(1) endpoint_price_bound by (simp add: endpoint_def)
  then have "to_dbl (?m + v) = Fin (rnd (?m + v))" "endpoint (rnd (?m + v))"
    by (simp_all add: to_dbl_def Let_def endpoint_def)
  then show ?thesis using lo hi d m2 by (simp add: minus_pyfloat_def)
qed

lemma ema_step_down:
  assumes "0 \<le> p" "p \<le> v" "v \<le> price_bound" "endpoint v" "endpoint p" "0 \<le> a" "a \<le> 1"
  shows "\<exists>w. (Fin p - Fin v) * Fin a + Fin v = Fin w \<and> endpoint w \<and> 0 \<le> w \<and> w \<le> v"
proof -
  have d: "in_range (- v) 0 (to_dbl (p - v))"
    using assms by (intro to_dbl_in_range endpoints) auto
  then obtain d where d: "to_dbl (p - v) = Fin d" "- v \<le> d" "d \<le> 0" "endpoint d"
    by (auto simp: in_range_def)
  have m: "d \<le> d * a" "d * a \<le> 0"
    using d assms mult_left_le [of a "- d"] mult_nonpos_nonneg [of d a] by auto
  obtain m where m: "to_dbl (d * a) = Fin m" "d \<le> m" "m \<le> 0"
    using to_dbl_in_range [of d 0 "d * a"] m d by (auto simp: in_range_def)
  have "in_range 0 v (to_dbl (m + v))"
    using assms d m by (intro to_dbl_in_range) auto
  then show ?thesis using d m by (auto simp: minus_pyfloat_def in_range_def)
qed

definition ema_at :: "nat \<Rightarrow> ema \<Rightarrow> bool" where
  "ema_at n e \<longleftrightarrow> in_range 0 1 (ema_alpha e) \<and>
     (if n = 0 then ema_value e = None else \<exists>v. ema_value e = Some v \<and> price_ok v)"

lemma ema_step:
  assumes "ema_at n e" "price_ok price"
  shows "ema_at (Suc n) (snd (ema_update price e))" "price_ok (fst (ema_update price e))"
    "ema_value e = Some v \<Longrightarrow> toward price v (fst (ema_update price e))"
proof -
  have *: "ema_at (Suc n) (snd (ema_update price e)) \<and> price_ok (fst (ema_update price e)) \<and>
    (\<forall>v. ema_value e = Some v \<longrightarrow> toward price v (fst (ema_update price e)))"
  proof (cases "ema_value e")
    case None
    then show ?thesis using assms by (auto simp: ema_at_def ema_update_def Let_def)
  next
    case (Some u)
    then obtain v p a where e: "u = Fin v" "price = Fin p" "ema_alpha e = Fin a"
      and r: "0 \<le> v" "v \<le> price_bound" "endpoint v" "0 \<le> p" "p \<le> price_bound" "endpoint p"
        "0 \<le> a" "a \<le> 1"
      using assms by (auto simp: ema_at_def price_ok_def in_range_def split: if_splits)
    have "\<exists>w. (Fin p - Fin v) * Fin a + Fin v = Fin w \<and> endpoint w \<and> 0 \<le> w \<and> w \<le> price_bound \<and>
      toward (Fin p) (Fin v) (Fin w)"
    proof (cases "v = p")
      case True
      then show ?thesis using ema_step_up [of v p a] ema_step_down [of p v a] r
        by (fastforce simp: toward_def)
    next
      case False
      then show ?thesis using ema_step_up [of v p a] ema_step_down [of p v a] r
        by (cases "v \<le> p") (fastforce simp: toward_def)+
    qed
    then show ?thesis using assms Some e
      by (auto simp: ema_at_def ema_update_def Let_def price_ok_def in_range_Fin)
  qed
  then show "ema_at (Suc n) (snd (ema_update price e))" "price_ok (fst (ema_update price e))"
    "ema_value e = Some v \<Longrightarrow> toward price v (fst (ema_update price e))"
    by auto
qed

interpretation ema_calc: calculator ema_update ema_at price_ok "\<lambda>n. price_ok"
  by unfold_locales (auto intro: ema_step)

lemma ema_new_at:
  assumes "period_ok p" "p < 2 ^ 53"
  shows "\<exists>e. ema_new p = Inr e \<and> ema_at 0 e"
proof -
  have two: "in_range 2 2 (Fin 2)" by (simp add: in_range_Fin endpoints)
  have n: "in_range (of_int (p + 1)) (of_int (p + 1)) (Fin (of_int (p + 1)))"
    using assms by (intro in_rangeI endpoint_of_int) (auto simp: period_ok_def)
  have "\<exists>z. fdiv (Fin 2) (Fin (of_int (p + 1))) = Inr z \<and> in_range 0 1 z"
    using assms by (intro in_range_fdiv [OF two n]) (auto simp: period_ok_def field_simps)
  then show ?thesis using assms by (auto simp: ema_new_def div_int_def ema_at_def period_ok_def)
qed



subsection \<open>Realized volatility\<close>

text \<open>What the code relies on of \<^verbatim>\<open>math.log\<close>: on a positive double it returns a value of magnitude at most 1024.\<close>

definition libm_log :: "(pyfloat \<Rightarrow> pyfloat res) \<Rightarrow> bool" where
  "libm_log logf \<longleftrightarrow>
     (\<forall>q. endpoint q \<and> 0 < q \<longrightarrow> (\<exists>y. logf (Fin q) = Inr y \<and> in_range (- 1024) 1024 y))"

text \<open>Prices whose ratios neither overflow nor vanish.\<close>

definition level_ok :: "pyfloat \<Rightarrow> bool" where
  "level_ok x \<longleftrightarrow> in_range (1 / 2 ^ 400) (2 ^ 400) x"

definition log_return :: "(pyfloat \<Rightarrow> pyfloat res) \<Rightarrow> pyfloat \<Rightarrow> pyfloat \<Rightarrow> pyfloat" where
  "log_return logf prev close =
     (case rbind (fdiv close prev) logf of Inr l \<Rightarrow> l | Inl e \<Rightarrow> NaN)"

fun log_returns :: "(pyfloat \<Rightarrow> pyfloat res) \<Rightarrow> pyfloat list \<Rightarrow> pyfloat list" where
  "log_returns logf (a # b # cs) = log_return logf a b # log_returns logf (b # cs)"
| "log_returns logf _ = []"

definition vol_of :: "pyfloat list \<Rightarrow> pyfloat option res" where
  "vol_of xs = rbind (variance_of xs) (\<lambda>var. rbind (fsqrt var) (\<lambda>sd. Inr (Some (sd * Fin 100))))"

text \<open>The definition over the full history of closes.\<close>

definition rvol_reference :: "(pyfloat \<Rightarrow> pyfloat res) \<Rightarrow> int \<Rightarrow> pyfloat list \<Rightarrow> pyfloat option res" where
  "rvol_reference logf w cs =
     (let rs = log_returns logf cs
      in if int (length rs) < w then Inr None else vol_of (last_n (nat w) rs))"

definition rvol_repr :: "(pyfloat \<Rightarrow> pyfloat res) \<Rightarrow> int \<Rightarrow> pyfloat list \<Rightarrow> rvol" where
  "rvol_repr logf w cs =
     \<lparr>rv_window = w, rv_prev_close = (if cs = [] then None else Some (last cs)),
      rv_returns = Deque (nat w) (last_n (nat w) (log_returns logf cs)),
      rv_value = (case rvol_reference logf w cs of Inr v \<Rightarrow> v | Inl e \<Rightarrow> None)\<rparr>"

lemma length_log_returns [simp]: "length (log_returns logf cs) = length cs - 1"
  by (induction logf cs rule: log_returns.induct) auto

lemma log_returns_snoc:
  "cs \<noteq> [] \<Longrightarrow> log_returns logf (cs @ [c]) = log_returns logf cs @ [log_return logf (last cs) c]"
  by (induction logf cs rule: log_returns.induct) auto

lemma log_return_ok:
  assumes "libm_log logf" "level_ok p" "level_ok c"
  shows "rbind (fdiv c p) logf = Inr (log_return logf p c)" "in_range (- 1024) 1024 (log_return logf p c)"
proof -
  have "\<exists>z. fdiv c p = Inr z \<and> in_range (1 / 2 ^ 800) (2 ^ 800) z"
    by (rule in_range_fdiv [OF assms(3,2) [unfolded level_ok_def]
          _ _ endpoint_inverse_power endpoint_power]) simp_all
  then obtain q where q: "fdiv c p = Inr (Fin q)" "endpoint q" "1 / 2 ^ 800 \<le> q"
    by (auto simp: in_range_def)
  have "(0 :: rat) < 1 / 2 ^ 800" by (rule divide_pos_pos) auto
  then have "0 < q" using q(3) by linarith
  then obtain y where "logf (Fin q) = Inr y" "in_range (- 1024) 1024 y"
    using assms(1) q(2) by (auto simp: libm_log_def)
  then show "rbind (fdiv c p) logf = Inr (log_return logf p c)"
    "in_range (- 1024) 1024 (log_return logf p c)"
    using q by (simp_all add: log_return_def)
qed

lemma log_returns_ok:
  assumes "libm_log logf" "\<forall>c \<in> set cs. level_ok c"
  shows "\<forall>r \<in> set (log_returns logf cs). in_range (- 1024) 1024 r"
  using assms by (induction logf cs rule: log_returns.induct) (auto intro: log_return_ok(2))


lemma endpoint_nat_times_power:
  assumes "int k \<le> 2 ^ 53" "j \<le> 970"
  shows "endpoint (of_nat k * 2 ^ j)" "endpoint (of_nat k * - (2 ^ j))"
proof -
  show "endpoint (of_nat k * 2 ^ j)" using endpoint_scaled [of "int k" j] assms by simp
  then show "endpoint (of_nat k * - (2 ^ j))" using endpoint_minus by force
qed

lemma mean_of_symmetric:
  assumes "\<forall>x \<in> set xs. in_range (- (2 ^ j)) (2 ^ j) x" "xs \<noteq> []" "int (length xs) \<le> 2 ^ 53" "j \<le> 970"
  shows "\<exists>z. mean_of xs = Inr z \<and> in_range (- (2 ^ j)) (2 ^ j) z"
  using assms by (intro mean_of_in_range conjI endpoint_nat_times_power) auto

lemma mean_of_nonneg:
  assumes "\<forall>x \<in> set xs. in_range 0 (2 ^ j) x" "xs \<noteq> []" "int (length xs) \<le> 2 ^ 53" "j \<le> 970"
  shows "\<exists>z. mean_of xs = Inr z \<and> in_range 0 (2 ^ j) z"
  using assms by (intro mean_of_in_range conjI endpoint_nat_times_power) auto

lemma fsquare_in_range:
  assumes "in_range (- (2 ^ j)) (2 ^ j) x" "2 * j \<le> 970"
  shows "\<exists>z. fsquare x = Inr z \<and> in_range 0 (2 ^ (2 * j)) z"
proof -
  obtain q where q: "x = Fin q" "\<bar>q\<bar> \<le> 2 ^ j" using assms(1) by (auto simp: in_range_def)
  have "q * q = \<bar>q\<bar> * \<bar>q\<bar>" by simp
  also have "\<dots> \<le> 2 ^ j * 2 ^ j" using q(2) by (intro mult_mono) auto
  finally have "q * q \<le> 2 ^ (2 * j)" by (simp add: power_add mult_2)
  then have "in_range 0 (2 ^ (2 * j)) (to_dbl (q * q))"
    using assms(2) by (intro to_dbl_in_range endpoint_power) auto
  then show ?thesis using q(1) by (auto simp: fsquare_def in_range_def)
qed

lemma isqrt_nonneg: "0 \<le> isqrt n"
  by (induction n rule: isqrt.induct) (subst isqrt.simps, auto simp: Let_def)

lemma fsqrt_nonneg:
  assumes "0 \<le> q"
  shows "\<exists>x. fsqrt (Fin q) = Inr (Fin x) \<and> 0 \<le> x"
proof -
  have "0 \<le> sqrt_round y" for y
    using isqrt_nonneg [of "\<lfloor>y\<rfloor>"] by (simp add: sqrt_round_def Let_def)
  then have "0 \<le> sqrt_rat q" by (simp add: sqrt_rat_def Let_def)
  then show ?thesis using assms by simp
qed

lemma vol_of_ok:
  assumes "\<forall>x \<in> set xs. in_range (- 1024) 1024 x" "xs \<noteq> []" "int (length xs) \<le> 2 ^ 53"
  shows "\<exists>v. vol_of xs = Inr (Some v) \<and> Fin 0 \<le> v"
proof -
  have xs: "\<forall>x \<in> set xs. in_range (- (2 ^ 10)) (2 ^ 10) x" using assms(1) by simp
  obtain m where m: "mean_of xs = Inr m" "in_range (- (2 ^ 10)) (2 ^ 10) m"
    using mean_of_symmetric [OF xs] assms by auto
  have "\<exists>z. fsquare (x - m) = Inr z \<and> in_range 0 (2 ^ (2 * 11)) z" if "x \<in> set xs" for x
  proof (rule fsquare_in_range)
    have "in_range (- (2 ^ 10)) (2 ^ 10) x" using xs that by blast
    then show "in_range (- (2 ^ 11)) (2 ^ 11) (x - m)"
      using m(2) by (rule in_range_diff) (auto intro: endpoints)
  qed simp
  then obtain sq where sq: "\<And>x. x \<in> set xs \<Longrightarrow> fsquare (x - m) = Inr (sq x) \<and> in_range 0 (2 ^ (2 * 11)) (sq x)"
    by metis
  have r: "rmap (\<lambda>r. fsquare (r - m)) xs = Inr (map sq xs)"
    using sq by (intro rmap_Inr) auto
  obtain var where var: "mean_of (map sq xs) = Inr var" "in_range 0 (2 ^ (2 * 11)) var"
    using mean_of_nonneg [of "map sq xs" "2 * 11"] sq assms(2,3) by auto
  then obtain q where "var = Fin q" "0 \<le> q" by (auto simp: in_range_def)
  then obtain sd where sd: "fsqrt var = Inr (Fin sd)" "0 \<le> sd" using fsqrt_nonneg by blast
  have "vol_of xs = Inr (Some (Fin sd * Fin 100))"
    using m r var sd by (simp add: vol_of_def variance_of_def)
  moreover have "Fin 0 \<le> Fin sd * Fin 100" using sd(2) to_dbl_mono [of 0 "sd * 100"] by simp
  ultimately show ?thesis by blast
qed

lemma rvol_reference_ok:
  assumes "libm_log logf" "\<forall>c \<in> set cs. level_ok c" "1 \<le> w" "w \<le> 2 ^ 53"
  shows "rvol_reference logf w cs =
      (if int (length cs) \<le> w then Inr None else vol_of (last_n (nat w) (log_returns logf cs)))"
    "w < int (length cs) \<Longrightarrow>
      \<exists>v. vol_of (last_n (nat w) (log_returns logf cs)) = Inr (Some v) \<and> Fin 0 \<le> v"
proof -
  show "rvol_reference logf w cs =
      (if int (length cs) \<le> w then Inr None else vol_of (last_n (nat w) (log_returns logf cs)))"
    using assms(3) by (cases cs) (auto simp: rvol_reference_def Let_def)
  assume "w < int (length cs)"
  then have len: "length (last_n (nat w) (log_returns logf cs)) = nat w" using assms(3) by simp
  have ne: "last_n (nat w) (log_returns logf cs) \<noteq> []"
  proof
    assume "last_n (nat w) (log_returns logf cs) = []"
    then have "nat w = 0" using len by (simp only: list.size)
    then show False using assms(3) by simp
  qed
  have "int (length (last_n (nat w) (log_returns logf cs))) \<le> 2 ^ 53"
    unfolding len using assms(3,4) by simp
  then show "\<exists>v. vol_of (last_n (nat w) (log_returns logf cs)) = Inr (Some v) \<and> Fin 0 \<le> v"
    using log_returns_ok [OF assms(1,2)] set_last_n [of "nat w" "log_returns logf cs"] ne
    by (intro vol_of_ok) auto
qed

lemma rvol_step:
  assumes "libm_log logf" "1 \<le> w" "w \<le> 2 ^ 53" "\<forall>y \<in> set hist. level_ok y" "level_ok c"
  shows "rvol_update logf c (rvol_repr logf w hist) =
    (rvol_reference logf w (hist @ [c]), rvol_repr logf w (hist @ [c]))"
proof (cases "hist = []")
  case True
  then show ?thesis using assms(2)
    by (simp add: rvol_update_def rvol_repr_def rvol_push_def rvol_reference_def)
next
  case False
  let ?rs = "log_returns logf (hist @ [c])"
  let ?l = "log_return logf (last hist) c"
  have lv: "level_ok (last hist)" using assms(4) False by simp
  have pos: "Fin 0 < x" if "level_ok x" for x
  proof -
    from that [unfolded level_ok_def] obtain q where "x = Fin q" "1 / 2 ^ 400 \<le> q"
      by (rule in_rangeE)
    moreover have "(0 :: rat) < 1 / 2 ^ 400" by (rule divide_pos_pos) auto
    ultimately show ?thesis by (auto simp only: less_pyfloat.simps)
  qed
  obtain q where q: "fdiv c (last hist) = Inr q" "logf q = Inr ?l"
    using log_return_ok(1) [OF assms(1) lv assms(5)] by (auto simp: rbind_eq_Inr)
  let ?r1 = "rvol_repr logf w hist\<lparr>rv_returns := Deque (nat w) (last_n (nat w) ?rs)\<rparr>"
  have push: "rvol_push logf c (rvol_repr logf w hist) = Inr ?r1"
    using False pos [OF lv] pos [OF assms(5)] q
    by (simp add: rvol_push_def rvol_repr_def deque_append_def last_n_snoc_last_n log_returns_snoc)
  have hc: "\<forall>y \<in> set (hist @ [c]). level_ok y" using assms(4,5) by auto
  note ref = rvol_reference_ok [OF assms(1) hc assms(2,3)]
  have ref0: "rvol_reference logf w hist = Inr None" if "int (length hist) < w"
    using rvol_reference_ok(1) [OF assms(1,4,2,3)] that by simp
  have len: "int (length (last_n (nat w) ?rs)) < w \<longleftrightarrow> int (length hist) < w" by auto
  show ?thesis
  proof (cases "int (length hist) < w")
    case True
    then show ?thesis using False push ref(1) ref0 len
      by (simp add: rvol_update_def Let_def) (simp add: rvol_repr_def)
  next
    case full: False
    then obtain v where v: "vol_of (last_n (nat w) ?rs) = Inr (Some v)" using ref(2) by auto
    then obtain var sd where vs: "variance_of (last_n (nat w) ?rs) = Inr var" "fsqrt var = Inr sd"
      "v = sd * Fin 100" by (auto simp: vol_of_def rbind_eq_Inr)
    have r: "rvol_reference logf w (hist @ [c]) = Inr (Some v)" using ref(1) full v by simp
    show ?thesis using False push r vs len full
      by (simp add: rvol_update_def Let_def) (simp add: rvol_repr_def)
  qed
qed


subsection \<open>Relative volume\<close>

text \<open>The current volume against the mean of the \<open>w\<close> volumes before it.\<close>

definition relvol_reference :: "int \<Rightarrow> pyfloat list \<Rightarrow> pyfloat \<Rightarrow> pyfloat option res" where
  "relvol_reference w prior volume =
     (let xs = last_n (nat w) prior
      in if int (length prior) < w \<or> fsum xs \<le> Fin 0 then Inr None
         else rbind (mean_of xs) (\<lambda>avg.
              if avg > Fin 0 then Inr (Some (quot volume avg)) else Inr None))"

definition relvol_repr :: "int \<Rightarrow> pyfloat list \<Rightarrow> relvol" where
  "relvol_repr w vs =
     \<lparr>rl_window = w, rl_volumes = Deque (nat w) (last_n (nat w) vs),
      rl_value = (if vs = [] then None
        else case relvol_reference w (butlast vs) (last vs) of Inr v \<Rightarrow> v | Inl e \<Rightarrow> None)\<rparr>"

lemma relvol_reference_total:
  assumes "0 \<le> w" "w \<le> 2 ^ 53"
  shows "\<exists>v. relvol_reference w prior volume = Inr v"
proof (cases "int (length prior) < w \<or> fsum (last_n (nat w) prior) \<le> Fin 0")
  case False
  have "w \<noteq> 0" using False by (auto simp: fsum_def)
  then have "div_int (fsum (last_n (nat w) prior)) w = Inr (quot (fsum (last_n (nat w) prior)) (Fin (of_int w)))"
    using assms by (simp add: div_int_def fdiv_def)
  moreover have "nat w \<le> length prior" using False by auto
  ultimately show ?thesis using False assms
    by (simp add: relvol_reference_def Let_def mean_of_def min_def)
qed (simp add: relvol_reference_def Let_def)

lemma relvol_step:
  assumes "0 \<le> w" "w \<le> 2 ^ 53"
  shows "relvol_update x (relvol_repr w hist) =
    (relvol_reference w hist x, relvol_repr w (hist @ [x]))"
proof -
  obtain v where v: "relvol_reference w hist x = Inr v" using relvol_reference_total [OF assms] by blast
  let ?xs = "last_n (nat w) hist"
  have len: "int (length ?xs) < w \<longleftrightarrow> int (length hist) < w" using assms by auto
  have div: "fdiv x avg = Inr (quot x avg)" if "avg > Fin 0" for avg
    using that by (auto simp: fdiv_def)
  have "(if int (length ?xs) < w \<or> fsum ?xs \<le> Fin 0 then Inr None
         else rbind (mean_of ?xs) (\<lambda>avg.
              if avg > Fin 0 then rbind (fdiv x avg) (\<lambda>q. Inr (Some q)) else Inr None)) = Inr v"
    using v len by (auto simp: relvol_reference_def Let_def rbind_eq_Inr div split: if_splits)
  then show ?thesis
    using v by (simp add: relvol_update_def relvol_repr_def Let_def deque_append_def last_n_snoc_last_n)
qed

interpretation rvol_calc: history_calc "rvol_update logf" "rvol_repr logf w"
    "\<lambda>c. level_ok c \<and> libm_log logf \<and> 1 \<le> w \<and> w \<le> 2 ^ 53" "\<lambda>hist c. rvol_reference logf w (hist @ [c])" for logf w
  by unfold_locales (auto intro: rvol_step)

interpretation relvol_calc: history_calc "relvol_update" "relvol_repr w"
    "\<lambda>v. 0 \<le> w \<and> w \<le> 2 ^ 53" "relvol_reference w" for w
  by unfold_locales (auto intro: relvol_step)



section \<open>Properties\<close>

text \<open>C28: RSI. Whatever finite non-negative closes (up to 2^900) are folded in, no update raises; the
  first \<open>period\<close> results are \<open>None\<close> and every later one is a double between 0 and 100.\<close>

theorem rsi_warmup_and_range:
  assumes "period_ok p" "\<forall>c \<in> set closes. price_ok c" "i < length closes"
  shows "if int i < p then fst (run_all rsi_update closes (rsi_new p)) ! i = Inr None
    else \<exists>v. fst (run_all rsi_update closes (rsi_new p)) ! i = Inr (Some v) \<and> in_range 0 100 v"
  using rsi_calc.run_good [OF rsi_new_at [OF assms(1)] assms(2,3)] by (simp add: rsi_good_def)

theorem rsi_warmup_and_range_witness:
  "\<exists>v. fst (run_all rsi_update [Fin 10, Fin 12, Fin 11] (rsi_new 2)) ! 2 = Inr (Some v) \<and> in_range 0 100 v"
  using rsi_warmup_and_range [of 2 "[Fin 10, Fin 12, Fin 11]" 2]
  by (simp add: period_ok_def price_ok_def in_range_Fin price_bound_def)

text \<open>
  C29: average true range. Whatever bars of finite non-negative prices (up to 2^900) are folded in, no
  update raises; the first \<open>period - 1\<close> results are \<open>None\<close> and every later one is a non-negative double
  within the price bound.
\<close>

theorem atr_warmup_and_range:
  assumes "period_ok p" "\<forall>b \<in> set bars. bar_ok b" "i < length bars"
  shows "if int i + 1 < p then fst (run_all atr_upd bars (atr_new p)) ! i = Inr None
    else \<exists>v. fst (run_all atr_upd bars (atr_new p)) ! i = Inr (Some v) \<and> in_range 0 price_bound v"
  using atr_calc.run_good [OF atr_new_at [OF assms(1)] assms(2,3)] by (simp add: atr_good_def)

theorem atr_warmup_and_range_witness:
  "\<exists>v. fst (run_all atr_upd [(Fin 12, Fin 9, Fin 10), (Fin 13, Fin 10, Fin 12)] (atr_new 2)) ! 1 = Inr (Some v)
    \<and> in_range 0 price_bound v"
  using atr_warmup_and_range [of 2 "[(Fin 12, Fin 9, Fin 10), (Fin 13, Fin 10, Fin 12)]" 1]
  by (simp add: period_ok_def bar_ok_def price_ok_def in_range_Fin price_bound_def)

text \<open>
  Exponential moving average. Over finite non-negative closes every value of the average is again
  a price in that range, and an update never moves it away from the new price: a price at or above
  the average does not lower it, one at or below it does not raise it.
\<close>

lemma ema_stays_in_range:
  assumes "period_ok p" "p < 2 ^ 53" "\<forall>c \<in> set closes. price_ok c" "price_ok c"
  shows "\<exists>e. ema_new p = Inr e \<and>
    (\<forall>v \<in> set (fst (run_all ema_update (closes @ [c]) e)). price_ok v) \<and>
    (\<forall>v. ema_value (snd (run_all ema_update closes e)) = Some v \<longrightarrow>
       toward c v (fst (ema_update c (snd (run_all ema_update closes e)))))"
proof -
  obtain e where e: "ema_new p = Inr e" "ema_at 0 e" using ema_new_at assms(1,2) by blast
  have "\<forall>x \<in> set (closes @ [c]). price_ok x" using assms(3,4) by auto
  then have "\<forall>v \<in> set (fst (run_all ema_update (closes @ [c]) e)). price_ok v"
    using ema_calc.run_good [OF e(2)] by (simp only: all_set_conv_all_nth run_all_length) auto
  moreover have "ema_at (0 + length closes) (snd (run_all ema_update closes e))"
    using e(2) assms(3) by (rule ema_calc.run_inv)
  ultimately show ?thesis using e(1) ema_step(3) assms(4) by blast
qed

lemma ema_stays_in_range_witness:
  "\<exists>e. ema_new 9 = Inr e \<and>
    (\<forall>v \<in> set (fst (run_all ema_update ([Fin 10] @ [Fin 12]) e)). price_ok v) \<and>
    (\<forall>v. ema_value (snd (run_all ema_update [Fin 10] e)) = Some v \<longrightarrow>
       toward (Fin 12) v (fst (ema_update (Fin 12) (snd (run_all ema_update [Fin 10] e)))))"
  by (rule ema_stays_in_range)
    (simp_all add: period_ok_def price_ok_def in_range_Fin price_bound_def)

text \<open>
  C30: realized volatility is what a recalculation over the full history gives. After any closes the
  incremental result equals the percent deviation of the last \<open>window\<close> log returns of those closes,
  \<open>None\<close> until \<open>window\<close> returns exist and a non-negative number after that; no update raises. The
  logarithm of the C library is a parameter that maps positive finite ratios to finite doubles.
\<close>

theorem rvol_equals_reference:
  assumes "libm_log logf" "1 \<le> w" "w \<le> 2 ^ 53" "\<forall>c \<in> set closes. level_ok c" "i < length closes"
  shows "\<exists>r. rvol_new w = Inr r \<and>
    fst (run_all (rvol_update logf) closes r) ! i = rvol_reference logf w (take (Suc i) closes) \<and>
    (if int i < w then rvol_reference logf w (take (Suc i) closes) = Inr None
     else \<exists>v. rvol_reference logf w (take (Suc i) closes) = Inr (Some v) \<and> Fin 0 \<le> v)"
proof -
  have r: "rvol_new w = Inr (rvol_repr logf w [])"
    using assms(2) by (simp add: rvol_new_def deque_new_def rvol_repr_def rvol_reference_def)
  have "fst (run_all (rvol_update logf) closes (rvol_repr logf w [])) ! i =
      rvol_reference logf w (([] @ take i closes) @ [closes ! i])"
    using rvol_calc.run_reference [where hist = "[]" and xs = closes] assms by simp
  moreover have "([] @ take i closes) @ [closes ! i] = take (Suc i) closes"
    using assms(5) by (simp add: take_Suc_conv_app_nth)
  moreover have "\<forall>c \<in> set (take (Suc i) closes). level_ok c" using assms(4) set_take_subset by fastforce
  note ref = rvol_reference_ok [OF assms(1) this assms(2,3)]
  ultimately show ?thesis using r ref assms(5) by auto
qed

theorem rvol_equals_reference_witness:
  "\<exists>r. rvol_new 1 = Inr r \<and>
    fst (run_all (rvol_update (\<lambda>_. Inr (Fin 0))) [Fin 1, Fin 2] r) ! 1 =
      rvol_reference (\<lambda>_. Inr (Fin 0)) 1 (take (Suc 1) [Fin 1, Fin 2]) \<and>
    (if int 1 < 1 then rvol_reference (\<lambda>_. Inr (Fin 0)) 1 (take (Suc 1) [Fin 1, Fin 2]) = Inr None
     else \<exists>v. rvol_reference (\<lambda>_. Inr (Fin 0)) 1 (take (Suc 1) [Fin 1, Fin 2]) = Inr (Some v) \<and> Fin 0 \<le> v)"
  by (rule rvol_equals_reference)
    (simp_all add: libm_log_def level_ok_def in_range_Fin)

text \<open>
  Relative volume compares a candle with the candles before it only. After any volumes the
  incremental result for the next one equals its ratio to the mean of the \<open>window\<close> volumes before it,
  \<open>None\<close> before the window is full or when that mean is not positive; no update raises.
\<close>

lemma relvol_equals_reference:
  assumes "0 \<le> w" "w \<le> 2 ^ 53" "i < length volumes"
  shows "\<exists>r v. relvol_new w = Inr r \<and>
    fst (run_all relvol_update volumes r) ! i = relvol_reference w (take i volumes) (volumes ! i) \<and>
    relvol_reference w (take i volumes) (volumes ! i) = Inr v \<and> (int i < w \<longrightarrow> v = None)"
proof -
  have r: "relvol_new w = Inr (relvol_repr w [])"
    using assms(1) by (simp add: relvol_new_def deque_new_def relvol_repr_def)
  have "fst (run_all relvol_update volumes (relvol_repr w [])) ! i =
      relvol_reference w ([] @ take i volumes) (volumes ! i)"
    using assms by (intro relvol_calc.run_reference) auto
  moreover obtain v where "relvol_reference w (take i volumes) (volumes ! i) = Inr v"
    using relvol_reference_total [OF assms(1,2)] by blast
  moreover have "int i < w \<Longrightarrow> relvol_reference w (take i volumes) (volumes ! i) = Inr None"
    using assms(3) by (simp add: relvol_reference_def)
  ultimately show ?thesis using r by auto
qed

lemma relvol_equals_reference_witness:
  "\<exists>r v. relvol_new 1 = Inr r \<and>
    fst (run_all relvol_update [Fin 4, Fin 2] r) ! 1 = relvol_reference 1 (take 1 [Fin 4, Fin 2]) ([Fin 4, Fin 2] ! 1) \<and>
    relvol_reference 1 (take 1 [Fin 4, Fin 2]) ([Fin 4, Fin 2] ! 1) = Inr v \<and> (int 1 < 1 \<longrightarrow> v = None)"
  by (rule relvol_equals_reference) simp_all

end
