(* ===== verification/Trend.thy ===== *)
theory Trend
  imports Indicators
begin

text \<open>
  \<^verbatim>\<open>src/orvixa/analytics/trend.py\<close>: direction, strength, slope and score from the EMA pair of
  one snapshot.
\<close>

datatype direction = Up | Down | Flat

record trend_result =
  tr_direction :: direction
  tr_strength :: pyfloat
  tr_slope :: pyfloat
  tr_score :: pyfloat

definition flat_threshold_pct :: pyfloat where
  "flat_threshold_pct = to_dbl (5 / 100)"

definition strength_scale :: pyfloat where
  "strength_scale = Fin 20"

definition trend_direction :: "pyfloat \<Rightarrow> direction" where
  "trend_direction diff_pct =
     (if diff_pct > flat_threshold_pct then Up
      else if diff_pct < - flat_threshold_pct then Down
      else Flat)"

definition trend_slope :: "pyfloat option \<Rightarrow> pyfloat \<Rightarrow> pyfloat res" where
  "trend_slope prev slow =
     (case prev of
        Some p \<Rightarrow>
          if feq p (Fin 0) then Inr (Fin 0)
          else rbind (fdiv (slow - p) \<bar>p\<bar>) (\<lambda>r. Inr (r * Fin 100))
      | None \<Rightarrow> Inr (Fin 0))"

definition compute_trend :: "indicator_snapshot \<Rightarrow> trend_result option res" where
  "compute_trend s =
     (case (sn_ema_fast s, sn_ema_slow s) of
        (Some fast, Some slow) \<Rightarrow>
          if feq slow (Fin 0) then Inr None
          else rbind (fdiv (fast - slow) \<bar>slow\<bar>) (\<lambda>q.
            let diff_pct = q * Fin 100;
                direction = trend_direction diff_pct;
                strength = pymin (\<bar>diff_pct\<bar> * strength_scale) (Fin 100);
                score = (if direction = Up then strength
                         else if direction = Down then - strength else Fin 0)
            in rbind (trend_slope (sn_ema_slow_prev s) slow) (\<lambda>slope.
               Inr (Some \<lparr>tr_direction = direction, tr_strength = strength,
                          tr_slope = slope, tr_score = score\<rparr>)))
      | _ \<Rightarrow> Inr None)"

text \<open>
  The division never raises, because the zero divisor is tested on the undivided value. The
  hypothesis-free part: a result is \<open>None\<close> exactly when an EMA is missing or the slow one is zero.
\<close>

lemma fdiv_abs: "\<not> feq x (Fin 0) \<Longrightarrow> fdiv y \<bar>x\<bar> = Inr (quot y \<bar>x\<bar>)"
  by (cases x) (auto simp: feq_def fdiv_def)

lemma trend_slope_total: "\<exists>r. trend_slope prev slow = Inr r"
  by (auto simp: trend_slope_def fdiv_abs split: option.split)

lemma compute_trend_total: "\<exists>t. compute_trend s = Inr t"
  using trend_slope_total [of "sn_ema_slow_prev s" "the (sn_ema_slow s)"]
  by (auto simp: compute_trend_def fdiv_abs Let_def split: option.split)

definition emas_ok :: "indicator_snapshot \<Rightarrow> bool" where
  "emas_ok s \<longleftrightarrow> (\<exists>f l. sn_ema_fast s = Some f \<and> sn_ema_slow s = Some l \<and> price_ok f \<and> price_ok l \<and> l \<noteq> Fin 0)"

lemma trend_strength_range:
  assumes "is_dbl d" "d \<noteq> NaN"
  shows "in_range 0 100 (pymin (\<bar>d\<bar> * strength_scale) (Fin 100))"
proof -
  have "Fin 0 \<le> \<bar>d\<bar> * strength_scale"
    using assms to_dbl_mono [of 0 "\<bar>q\<bar> * 20" for q]
    by (cases d) (auto simp: strength_scale_def signed_inf_def)
  moreover have "is_dbl (\<bar>d\<bar> * strength_scale)" by simp
  ultimately show ?thesis
    by (cases "\<bar>d\<bar> * strength_scale")
      (auto simp: pymin_def in_range_def is_dbl_Fin_endpoint simp del: is_dbl.simps(1))
qed

lemma quot_abs_not_NaN:
  assumes "in_range a b x" "in_range c d y" "y \<noteq> Fin 0"
  shows "quot x \<bar>y\<bar> * Fin 100 \<noteq> NaN" "is_dbl (quot x \<bar>y\<bar> * Fin 100)"
proof -
  obtain p q where "x = Fin p" "y = Fin q" using assms by (auto simp: in_range_def)
  then show "quot x \<bar>y\<bar> * Fin 100 \<noteq> NaN"
    by (cases "to_dbl (p / \<bar>q\<bar>)") (auto simp: signed_inf_def)
qed simp

text \<open>The separation has the sign of the crossover: rounding keeps both one-sided bounds at zero.\<close>

lemma scaled_sign:
  assumes "x \<noteq> NaN"
  shows "x \<le> Fin 0 \<Longrightarrow> x * Fin 100 \<le> Fin 0" "Fin 0 \<le> x \<Longrightarrow> Fin 0 \<le> x * Fin 100"
  using assms to_dbl_mono [of "w * 100" 0 for w] to_dbl_mono [of 0 "w * 100" for w]
  by (cases x; auto simp: signed_inf_def)+

lemma separation_sign:
  assumes "in_range a b (Fin x - Fin y)" "0 < y"
  shows "x \<le> y \<Longrightarrow> quot (Fin x - Fin y) \<bar>Fin y\<bar> * Fin 100 \<le> Fin 0"
    "y \<le> x \<Longrightarrow> Fin 0 \<le> quot (Fin x - Fin y) \<bar>Fin y\<bar> * Fin 100"
proof -
  obtain r where r: "to_dbl (x - y) = Fin r" using assms(1) by (auto simp: in_range_def minus_pyfloat_def)
  have q: "quot (Fin x - Fin y) \<bar>Fin y\<bar> = to_dbl (r / y)" using assms(2) r by (simp add: minus_pyfloat_def)
  show "quot (Fin x - Fin y) \<bar>Fin y\<bar> * Fin 100 \<le> Fin 0" if "x \<le> y"
  proof -
    have "r \<le> 0" using that to_dbl_mono [of "x - y" 0] r by simp
    then have "to_dbl (r / y) \<le> Fin 0"
      using assms(2) to_dbl_mono [of "r / y" 0] by (simp add: divide_nonpos_pos)
    then show ?thesis unfolding q by (intro scaled_sign) auto
  qed
  show "Fin 0 \<le> quot (Fin x - Fin y) \<bar>Fin y\<bar> * Fin 100" if "y \<le> x"
  proof -
    have "0 \<le> r" using that to_dbl_mono [of 0 "x - y"] r by simp
    then have "Fin 0 \<le> to_dbl (r / y)" using assms(2) to_dbl_mono [of 0 "r / y"] by simp
    then show ?thesis unfolding q by (intro scaled_sign) auto
  qed
qed

lemma outside_band:
  assumes "Fin 0 \<le> t"
  shows "t < d \<Longrightarrow> \<not> d \<le> Fin 0" "d < - t \<Longrightarrow> \<not> Fin 0 \<le> d"
  using assms by (cases t; cases d; simp)+

lemma trend_direction_sign:
  "trend_direction d = Up \<Longrightarrow> \<not> d \<le> Fin 0" "trend_direction d = Down \<Longrightarrow> \<not> Fin 0 \<le> d"
proof -
  have "Fin 0 \<le> flat_threshold_pct" using to_dbl_mono [of 0 "5 / 100"] by (simp add: flat_threshold_pct_def)
  note band = outside_band [OF this]
  show "trend_direction d = Up \<Longrightarrow> \<not> d \<le> Fin 0" "trend_direction d = Down \<Longrightarrow> \<not> Fin 0 \<le> d"
    using band by (auto simp: trend_direction_def split: if_splits)
qed

definition snap :: "pyfloat option \<Rightarrow> pyfloat option \<Rightarrow> indicator_snapshot" where
  "snap fast slow = \<lparr>sn_close = Fin 10, sn_high = Fin 10, sn_low = Fin 10, sn_volume = Fin 1,
     sn_ema_fast = fast, sn_ema_slow = slow, sn_ema_slow_prev = None, sn_rsi = Some (Fin 60),
     sn_atr = None, sn_vol_realized = None, sn_vol_rel = Some (Fin 2)\<rparr>"

lemma compute_trend_signed:
  assumes "emas_ok s"
  shows "\<exists>t. compute_trend s = Inr (Some t) \<and> in_range 0 100 (tr_strength t) \<and>
    tr_score t = (case tr_direction t of Up \<Rightarrow> tr_strength t | Down \<Rightarrow> - tr_strength t | Flat \<Rightarrow> Fin 0) \<and>
    (tr_direction t = Up \<longrightarrow> the (sn_ema_slow s) < the (sn_ema_fast s)) \<and>
    (tr_direction t = Down \<longrightarrow> the (sn_ema_fast s) < the (sn_ema_slow s))"
proof -
  obtain f l where fl: "sn_ema_fast s = Some f" "sn_ema_slow s = Some l" "price_ok f" "price_ok l" "l \<noteq> Fin 0"
    using assms by (auto simp: emas_ok_def)
  obtain x y where xy: "f = Fin x" "l = Fin y" "0 < y"
    using fl(3-5) by (auto simp: price_ok_def in_range_def less_le)
  have ne: "\<not> feq l (Fin 0)" using fl(5) by (simp add: feq_def)
  let ?d = "quot (f - l) \<bar>l\<bar> * Fin 100"
  have diff: "in_range (- price_bound) price_bound (f - l)"
    using fl(3,4) unfolding price_ok_def by (intro in_range_diff endpoints) auto
  note d = quot_abs_not_NaN [OF diff fl(4) [unfolded price_ok_def] fl(5)]
  obtain sl where sl: "trend_slope (sn_ema_slow_prev s) l = Inr sl" using trend_slope_total by blast
  have sign: "x \<le> y \<Longrightarrow> ?d \<le> Fin 0" "y \<le> x \<Longrightarrow> Fin 0 \<le> ?d"
    using separation_sign [OF diff [unfolded xy(1,2)] xy(3)] xy(1,2) by auto
  have "trend_direction ?d = Up \<Longrightarrow> y < x" "trend_direction ?d = Down \<Longrightarrow> x < y"
    using sign trend_direction_sign [of ?d] by (meson not_less)+
  then have dir: "trend_direction ?d = Up \<Longrightarrow> l < f" "trend_direction ?d = Down \<Longrightarrow> f < l"
    using xy by auto
  show ?thesis
    using fl(1,2) ne sl trend_strength_range [OF d(2,1)] dir
    by (auto simp: compute_trend_def fdiv_abs Let_def split: direction.split)
qed

text \<open>
  Trend. For EMAs that are finite prices, the strength is a double between 0 and 100; the
  score is the strength, its negation or 0 as the direction is up, down or flat; up needs a
  fast EMA above the slow one and down one below it, so the sign of the score is the sign of
  the crossover.
\<close>

lemma trend_score_signed_strength:
  assumes "emas_ok s"
  shows "\<exists>t. compute_trend s = Inr (Some t) \<and> in_range 0 100 (tr_strength t) \<and>
    tr_score t = (case tr_direction t of Up \<Rightarrow> tr_strength t | Down \<Rightarrow> - tr_strength t | Flat \<Rightarrow> Fin 0) \<and>
    (tr_direction t = Up \<longrightarrow> the (sn_ema_slow s) < the (sn_ema_fast s)) \<and>
    (tr_direction t = Down \<longrightarrow> the (sn_ema_fast s) < the (sn_ema_slow s))"
  using assms by (rule compute_trend_signed)

lemma trend_score_signed_strength_witness:
  "\<exists>t. compute_trend (snap (Some (Fin 12)) (Some (Fin 10))) = Inr (Some t) \<and> in_range 0 100 (tr_strength t)"
  using trend_score_signed_strength [of "snap (Some (Fin 12)) (Some (Fin 10))"]
  by (auto simp: emas_ok_def snap_def price_ok_def in_range_Fin price_bound_def)

end
