(* ===== verification/Signals.thy ===== *)
theory Signals
  imports Trend
begin

text \<open>
  \<^verbatim>\<open>src/orvixa/analytics/signals.py\<close>: the BUY / SELL PRESSURE and HIGH VOLATILITY state
  machines, one of each per symbol id.
\<close>

datatype pressure = Neutral | Buy | Sell
datatype volstate = Normal | High
datatype signal_kind = KBuy | KSell | KHighvol
datatype signal_state = Pressure pressure | Volatility volstate
datatype component = CDirection direction | CNum pyfloat

record signal_result =
  sg_type :: signal_kind
  sg_confidence :: int
  sg_score :: pyfloat
  sg_components :: "(string \<times> component) list"
  sg_state_from :: signal_state
  sg_state_to :: signal_state

record signal_engine =
  pressure_state :: "int \<Rightarrow> pressure option"
  highvol_state :: "int \<Rightarrow> volstate option"

definition signal_engine_new :: signal_engine where
  "signal_engine_new = \<lparr>pressure_state = (\<lambda>_. None), highvol_state = (\<lambda>_. None)\<rparr>"

definition rsi_overbought :: pyfloat where
  "rsi_overbought = Fin 70"

definition rsi_oversold :: pyfloat where
  "rsi_oversold = Fin 30"

text \<open>\<^verbatim>\<open>dict.get(symbol_id, "neutral")\<close> and \<^verbatim>\<open>dict.get(symbol_id, "normal")\<close>.\<close>

definition pressure_of :: "signal_engine \<Rightarrow> int \<Rightarrow> pressure" where
  "pressure_of e sid = (case pressure_state e sid of None \<Rightarrow> Neutral | Some p \<Rightarrow> p)"

definition highvol_of :: "signal_engine \<Rightarrow> int \<Rightarrow> volstate" where
  "highvol_of e sid = (case highvol_state e sid of None \<Rightarrow> Normal | Some v \<Rightarrow> v)"

definition pressure_target :: "trend_result \<Rightarrow> pyfloat \<Rightarrow> pressure" where
  "pressure_target t rsi =
     (if tr_direction t = Up \<and> rsi < rsi_overbought then Buy
      else if tr_direction t = Down \<and> rsi > rsi_oversold then Sell
      else Neutral)"

definition pressure_confidence :: "trend_result \<Rightarrow> pyfloat \<Rightarrow> pyfloat \<Rightarrow> int res" where
  "pressure_confidence t rsi vol_rel =
     (let rsi_component = pymin (\<bar>rsi - Fin 50\<bar> * Fin 2) (Fin 100);
          vol_component = clamp ((vol_rel - Fin 1) * Fin 50) 0 100;
          confidence = to_dbl (6 / 10) * tr_strength t + to_dbl (2 / 10) * rsi_component
                         + to_dbl (2 / 10) * vol_component
      in round_score confidence)"

fun kind_of :: "pressure \<Rightarrow> signal_kind" where
  "kind_of Sell = KSell"
| "kind_of p = KBuy"

lemma kind_of_not_highvol [simp]: "kind_of p \<noteq> KHighvol" "KHighvol \<noteq> kind_of p"
  by (cases p; simp)+

lemma kind_of_inj: "p \<noteq> Neutral \<Longrightarrow> q \<noteq> Neutral \<Longrightarrow> kind_of p = kind_of q \<longleftrightarrow> p = q"
  by (cases p; cases q) auto

definition pressure_signal ::
  "trend_result \<Rightarrow> pyfloat \<Rightarrow> pyfloat \<Rightarrow> int \<Rightarrow> pressure \<Rightarrow> pressure \<Rightarrow> signal_result" where
  "pressure_signal t rsi vol_rel confidence old new =
     \<lparr>sg_type = kind_of new, sg_confidence = confidence, sg_score = tr_score t,
      sg_components =
        [(''trend_direction'', CDirection (tr_direction t)),
         (''trend_strength'', CNum (pyround_n (tr_strength t) 2)),
         (''trend_score'', CNum (pyround_n (tr_score t) 2)),
         (''rsi'', CNum (pyround_n rsi 2)),
         (''vol_rel'', CNum (pyround_n vol_rel 2))],
      sg_state_from = Pressure old, sg_state_to = Pressure new\<rparr>"

definition set_pressure :: "int \<Rightarrow> pressure \<Rightarrow> signal_engine \<Rightarrow> signal_engine" where
  "set_pressure sid p e = e\<lparr>pressure_state := (pressure_state e)(sid \<mapsto> p)\<rparr>"

definition set_highvol :: "int \<Rightarrow> volstate \<Rightarrow> signal_engine \<Rightarrow> signal_engine" where
  "set_highvol sid v e = e\<lparr>highvol_state := (highvol_state e)(sid \<mapsto> v)\<rparr>"

definition evaluate_pressure ::
  "settings \<Rightarrow> int \<Rightarrow> indicator_snapshot \<Rightarrow> trend_result option \<Rightarrow> signal_engine
     \<Rightarrow> signal_result option res \<times> signal_engine" where
  "evaluate_pressure cfg sid s trend e =
     (case (trend, sn_rsi s, sn_vol_rel s) of
        (Some t, Some rsi, Some vol_rel) \<Rightarrow>
          (let new = pressure_target t rsi; old = pressure_of e sid
           in if new = Neutral then (Inr None, set_pressure sid Neutral e)
              else if new = old then (Inr None, e)
              else attempt (pressure_confidence t rsi vol_rel) e (\<lambda>confidence.
                if confidence < signal_min_confidence cfg then (Inr None, e)
                else (Inr (Some (pressure_signal t rsi vol_rel confidence old new)),
                      set_pressure sid new e)))
      | _ \<Rightarrow> (Inr None, e))"

definition highvol_confidence :: "pyfloat \<Rightarrow> pyfloat \<Rightarrow> int res" where
  "highvol_confidence vol threshold =
     rbind (fdiv vol threshold) (\<lambda>q. pyround (pymin (q * Fin 50) (Fin 100)))"

definition highvol_signal :: "pyfloat \<Rightarrow> pyfloat \<Rightarrow> int \<Rightarrow> volstate \<Rightarrow> signal_result" where
  "highvol_signal vol threshold confidence old =
     \<lparr>sg_type = KHighvol, sg_confidence = confidence, sg_score = vol,
      sg_components = [(''vol_realized'', CNum (pyround_n vol 4)), (''threshold'', CNum threshold)],
      sg_state_from = Volatility old, sg_state_to = Volatility High\<rparr>"

definition evaluate_highvol ::
  "settings \<Rightarrow> int \<Rightarrow> indicator_snapshot \<Rightarrow> signal_engine
     \<Rightarrow> signal_result option res \<times> signal_engine" where
  "evaluate_highvol cfg sid s e =
     (case sn_vol_realized s of
        None \<Rightarrow> (Inr None, e)
      | Some vol \<Rightarrow>
          (let threshold = high_volatility_pct cfg; old = highvol_of e sid
           in if \<not> vol \<ge> threshold then (Inr None, set_highvol sid Normal e)
              else if old = High then (Inr None, e)
              else attempt (highvol_confidence vol threshold) e (\<lambda>confidence.
                if confidence < signal_min_confidence cfg then (Inr None, e)
                else (Inr (Some (highvol_signal vol threshold confidence old)),
                      set_highvol sid High e))))"

definition evaluate_signals ::
  "settings \<Rightarrow> int \<Rightarrow> indicator_snapshot \<Rightarrow> trend_result option \<Rightarrow> signal_engine
     \<Rightarrow> signal_result list res \<times> signal_engine" where
  "evaluate_signals cfg sid s trend e =
     (let (pressure, e1) = evaluate_pressure cfg sid s trend e
      in attempt pressure e1 (\<lambda>p.
         let (highvol, e2) = evaluate_highvol cfg sid s e1
         in attempt highvol e2 (\<lambda>h. (Inr (opt_list p @ opt_list h), e2))))"


section \<open>The pressure machine as a transition system\<close>

text \<open>
  What one evaluation may do to the pressure of its symbol: keep it, reset it to neutral, or
  move to a different non-neutral state and emit the signal of that state.
\<close>

inductive pressure_step :: "pressure \<Rightarrow> signal_result option \<Rightarrow> pressure \<Rightarrow> bool" where
  hold: "pressure_step p None p"
| reset: "pressure_step p None Neutral"
| fire: "q \<noteq> Neutral \<Longrightarrow> q \<noteq> p \<Longrightarrow> sg_type sig = kind_of q \<Longrightarrow>
    sg_state_from sig = Pressure p \<Longrightarrow> sg_state_to sig = Pressure q \<Longrightarrow> pressure_step p (Some sig) q"

inductive_cases pressure_step_SomeE: "pressure_step p (Some sig) q"
inductive_cases pressure_step_NoneE: "pressure_step p None q"

lemma pressure_of_set [simp]:
  "pressure_of (set_pressure sid p e) sid' = (if sid' = sid then p else pressure_of e sid')"
  "pressure_of (set_highvol sid v e) sid' = pressure_of e sid'"
  by (simp_all add: pressure_of_def set_pressure_def set_highvol_def)

lemma highvol_of_set [simp]:
  "highvol_of (set_highvol sid v e) sid' = (if sid' = sid then v else highvol_of e sid')"
  "highvol_of (set_pressure sid p e) sid' = highvol_of e sid'"
  by (simp_all add: highvol_of_def set_pressure_def set_highvol_def)

lemma pressure_signal_sel [simp]:
  "sg_type (pressure_signal t r v c old new) = kind_of new"
  "sg_confidence (pressure_signal t r v c old new) = c"
  "sg_state_from (pressure_signal t r v c old new) = Pressure old"
  "sg_state_to (pressure_signal t r v c old new) = Pressure new"
  by (simp_all add: pressure_signal_def)

lemma highvol_signal_sel [simp]:
  "sg_type (highvol_signal v t c old) = KHighvol"
  "sg_confidence (highvol_signal v t c old) = c"
  "sg_state_from (highvol_signal v t c old) = Volatility old"
  "sg_state_to (highvol_signal v t c old) = Volatility High"
  by (simp_all add: highvol_signal_def)

lemmas evaluate_pressure_cases =
  evaluate_pressure_def Let_def attempt_def

lemma evaluate_pressure_step:
  "evaluate_pressure cfg sid s trend e = (Inr out, e') \<Longrightarrow>
     pressure_step (pressure_of e sid) out (pressure_of e' sid)"
  by (auto simp: evaluate_pressure_cases split: option.splits if_splits sum.splits
      intro: pressure_step.intros)

lemma evaluate_pressure_error:
  "evaluate_pressure cfg sid s trend e = (Inl x, e') \<Longrightarrow> e' = e"
  by (auto simp: evaluate_pressure_cases split: option.splits if_splits sum.splits)

lemma evaluate_pressure_frame:
  assumes "evaluate_pressure cfg sid s trend e = (out, e')"
  shows "sid' \<noteq> sid \<Longrightarrow> pressure_of e' sid' = pressure_of e sid'" "highvol_of e' sid' = highvol_of e sid'"
  using assms by (auto simp: evaluate_pressure_cases split: option.splits if_splits sum.splits)

lemma evaluate_highvol_frame:
  assumes "evaluate_highvol cfg sid s e = (out, e')"
  shows "sid' \<noteq> sid \<Longrightarrow> highvol_of e' sid' = highvol_of e sid'" "pressure_of e' sid' = pressure_of e sid'"
  using assms by (auto simp: evaluate_highvol_def Let_def attempt_def split: option.splits if_splits sum.splits)

lemma evaluate_highvol_kind:
  "evaluate_highvol cfg sid s e = (Inr (Some sig), e') \<Longrightarrow> sg_type sig = KHighvol"
  by (auto simp: evaluate_highvol_def Let_def attempt_def split: option.splits if_splits sum.splits)

lemma evaluate_signals_Inr:
  assumes "evaluate_signals cfg sid s trend e = (Inr sigs, e')"
  obtains p e1 h where "evaluate_pressure cfg sid s trend e = (Inr p, e1)"
    "evaluate_highvol cfg sid s e1 = (Inr h, e')" "sigs = opt_list p @ opt_list h"
  using assms by (auto simp: evaluate_signals_def Let_def attempt_def split: prod.splits sum.splits)


section \<open>Confidence\<close>

lemma pressure_confidence_range:
  "pressure_confidence t r v = Inr n \<Longrightarrow> 0 \<le> n \<and> n \<le> 100"
  unfolding pressure_confidence_def Let_def by (erule round_score_range(1) [rotated]) simp

text \<open>At or above a positive threshold the ratio is at least 1, so the confidence is at least 50.\<close>

lemma highvol_confidence_range:
  assumes "highvol_confidence vol thr = Inr n" "Fin 0 < thr" "thr \<le> vol" "is_fin thr"
  shows "50 \<le> n \<and> n \<le> 100"
proof -
  obtain b where b: "thr = Fin b" "0 < b" using assms(2,4) by (cases thr) auto
  have q: "Fin 1 \<le> quot vol thr"
    using assms(3) b to_dbl_mono [of 1 "a / b" for a] by (cases vol) (auto simp: signed_inf_def)
  then have q50: "Fin 50 \<le> quot vol thr * Fin 50"
    using to_dbl_mono [of 50 "a * 50" for a] by (cases "quot vol thr") (auto simp: signed_inf_def)
  have "in_range 50 100 (pymin (quot vol thr * Fin 50) (Fin 100))"
  proof -
    have "is_dbl (quot vol thr * Fin 50)" by simp
    then show ?thesis using q50
      by (cases "quot vol thr * Fin 50")
        (auto simp: pymin_def in_range_Fin is_dbl_Fin_endpoint simp del: is_dbl.simps(1))
  qed
  then show ?thesis
    using assms(1) b pyround_in_range [of 50 100 "pymin (quot vol thr * Fin 50) (Fin 100)"]
    by (auto simp: highvol_confidence_def fdiv_def)
qed

lemma evaluate_pressure_confidence:
  "evaluate_pressure cfg sid s trend e = (Inr (Some sig), e') \<Longrightarrow>
     signal_min_confidence cfg \<le> sg_confidence sig \<and> 0 \<le> sg_confidence sig \<and> sg_confidence sig \<le> 100"
  by (auto simp: evaluate_pressure_cases dest: pressure_confidence_range
      split: option.splits if_splits sum.splits)

lemma evaluate_highvol_confidence:
  assumes "evaluate_highvol cfg sid s e = (Inr (Some sig), e')" "Fin 0 < high_volatility_pct cfg"
    "is_fin (high_volatility_pct cfg)"
  shows "signal_min_confidence cfg \<le> sg_confidence sig \<and> 50 \<le> sg_confidence sig \<and> sg_confidence sig \<le> 100"
  using assms
  by (auto simp: evaluate_highvol_def Let_def attempt_def dest: highvol_confidence_range
      split: option.splits if_splits sum.splits)

text \<open>
  C31: signal confidence. For a positive finite volatility threshold, every signal any evaluation
  emits carries a confidence between 0 and 100 that is at least the configured minimum, and a
  HIGH VOLATILITY signal one of at least 50.
\<close>

theorem signal_confidence_bounds:
  assumes "evaluate_signals cfg sid s trend e = (Inr sigs, e')" "sig \<in> set sigs"
    "Fin 0 < high_volatility_pct cfg" "is_fin (high_volatility_pct cfg)"
  shows "signal_min_confidence cfg \<le> sg_confidence sig \<and> 0 \<le> sg_confidence sig \<and> sg_confidence sig \<le> 100 \<and>
    (sg_type sig = KHighvol \<longrightarrow> 50 \<le> sg_confidence sig)"
proof -
  obtain p e1 h where ph: "evaluate_pressure cfg sid s trend e = (Inr p, e1)"
    "evaluate_highvol cfg sid s e1 = (Inr h, e')" "sigs = opt_list p @ opt_list h"
    using assms(1) by (rule evaluate_signals_Inr)
  consider "p = Some sig" | "h = Some sig" using assms(2) ph(3) by (cases p; cases h) auto
  then show ?thesis
  proof cases
    case 1
    then have "sg_type sig \<noteq> KHighvol"
      using evaluate_pressure_step [OF ph(1)] by (auto elim!: pressure_step_SomeE elim: kind_of.elims)
    then show ?thesis using evaluate_pressure_confidence [of cfg sid s trend e sig e1] ph(1) 1 by simp
  next
    case 2
    then show ?thesis using evaluate_highvol_confidence [OF _ assms(3,4)] ph(2) by fastforce
  qed
qed

section \<open>No repeated signal without a reset\<close>

type_synonym signal_input = "int \<times> indicator_snapshot \<times> trend_result option"

definition signal_upd :: "settings \<Rightarrow> signal_input \<Rightarrow> signal_engine \<Rightarrow> signal_result list res \<times> signal_engine" where
  "signal_upd cfg i e = (case i of (sid, s, t) \<Rightarrow> evaluate_signals cfg sid s t e)"

text \<open>A candle of \<open>sid\<close> on which the pressure is neutral.\<close>

definition resets_pressure :: "int \<Rightarrow> signal_input \<Rightarrow> bool" where
  "resets_pressure sid i \<longleftrightarrow>
     (case i of (sid', s, t) \<Rightarrow> sid' = sid \<and>
        (case (t, sn_rsi s, sn_vol_rel s) of
           (Some tr, Some r, Some v) \<Rightarrow> pressure_target tr r = Neutral | _ \<Rightarrow> False))"

definition emits :: "signal_kind \<Rightarrow> signal_result list res \<Rightarrow> bool" where
  "emits k out \<longleftrightarrow> (case out of Inr sigs \<Rightarrow> \<exists>sig \<in> set sigs. sg_type sig = k | Inl _ \<Rightarrow> False)"

lemma emits_pressure_iff:
  assumes "evaluate_pressure cfg sid s trend e = (Inr p, e1)" "evaluate_highvol cfg sid s e1 = (Inr h, e')"
    "k \<noteq> KHighvol"
  shows "emits k (Inr (opt_list p @ opt_list h)) \<longleftrightarrow> (\<exists>sig. p = Some sig \<and> sg_type sig = k)"
  using assms evaluate_highvol_kind [of cfg sid s e1] by (cases p; cases h) (auto simp: emits_def)

lemma evaluate_pressure_no_reset:
  assumes "evaluate_pressure cfg sid s trend e = (Inr None, e')" "\<not> resets_pressure sid (sid, s, trend)"
  shows "pressure_of e' sid = pressure_of e sid"
  using assms by (auto simp: resets_pressure_def evaluate_pressure_cases
      split: option.splits if_splits sum.splits)

lemma emitting_state:
  assumes "signal_upd cfg (sid, s, t) e = (out, e')" "emits k out" "k \<noteq> KHighvol"
  shows "\<exists>q. q \<noteq> Neutral \<and> kind_of q = k \<and> pressure_of e' sid = q \<and> pressure_of e sid \<noteq> q"
proof -
  obtain sigs where o: "out = Inr sigs" using assms(2) by (auto simp: emits_def split: sum.splits)
  obtain p e1 h where ph: "evaluate_pressure cfg sid s t e = (Inr p, e1)"
    "evaluate_highvol cfg sid s e1 = (Inr h, e')" "sigs = opt_list p @ opt_list h"
    using assms(1) o by (auto simp: signal_upd_def elim: evaluate_signals_Inr)
  obtain sig where "p = Some sig" "sg_type sig = k"
    using emits_pressure_iff [OF ph(1,2) assms(3)] assms(2) o ph(3) by auto
  then show ?thesis
    using evaluate_pressure_step [OF ph(1)] evaluate_highvol_frame(2) [OF ph(2)]
    by (auto elim!: pressure_step_SomeE)
qed

lemma quiet_step_keeps:
  assumes "signal_upd cfg i e = (Inr sigs, e')" "pressure_of e sid = q" "q \<noteq> Neutral"
    "\<not> resets_pressure sid i" "fst i = sid \<longrightarrow> (\<forall>k. k \<noteq> KHighvol \<and> k \<noteq> kind_of q \<longrightarrow> \<not> emits k (Inr sigs))"
  shows "pressure_of e' sid = q"
proof -
  obtain sid' s t where i: "i = (sid', s, t)" by (cases i) auto
  obtain p e1 h where ph: "evaluate_pressure cfg sid' s t e = (Inr p, e1)"
    "evaluate_highvol cfg sid' s e1 = (Inr h, e')" "sigs = opt_list p @ opt_list h"
    using assms(1) i by (auto simp: signal_upd_def elim: evaluate_signals_Inr)
  note fr = evaluate_highvol_frame(2) [OF ph(2)]
  show ?thesis
  proof (cases "sid' = sid")
    case False
    then show ?thesis using evaluate_pressure_frame(1) [OF ph(1)] fr assms(2) by simp
  next
    case True
    show ?thesis
    proof (cases p)
      case None
      then show ?thesis using evaluate_pressure_no_reset ph(1) assms(2,4) fr i True by metis
    next
      case (Some sig)
      have em: "emits (sg_type sig) (Inr sigs)" using ph(3) Some by (auto simp: emits_def)
      have st: "pressure_step q (Some sig) (pressure_of e1 sid)"
        using evaluate_pressure_step [OF ph(1)] Some True assms(2) by simp
      then have "sg_type sig \<noteq> KHighvol" "sg_type sig \<noteq> kind_of q"
        using kind_of_inj assms(3) by (auto elim!: pressure_step_SomeE)
      then show ?thesis using assms(5) em i True by auto
    qed
  qed
qed

lemma quiet_run_keeps:
  assumes "pressure_of e sid = q" "q \<noteq> Neutral"
    "\<forall>i < length ys. \<not> resets_pressure sid (ys ! i) \<and>
       (\<exists>sigs. fst (run_all (signal_upd cfg) ys e) ! i = Inr sigs) \<and>
       (fst (ys ! i) = sid \<longrightarrow>
          (\<forall>k. k \<noteq> KHighvol \<and> k \<noteq> kind_of q \<longrightarrow> \<not> emits k (fst (run_all (signal_upd cfg) ys e) ! i)))"
  shows "pressure_of (snd (run_all (signal_upd cfg) ys e)) sid = q"
  using assms
proof (induction ys arbitrary: e)
  case (Cons y ys)
  obtain out e1 where y: "signal_upd cfg y e = (out, e1)" by fastforce
  have h0: "\<not> resets_pressure sid y" "\<exists>sigs. out = Inr sigs"
    "fst y = sid \<longrightarrow> (\<forall>k. k \<noteq> KHighvol \<and> k \<noteq> kind_of q \<longrightarrow> \<not> emits k out)"
    using Cons.prems(3) [THEN spec, of 0] y by (auto simp: split_beta)
  then have "pressure_of e1 sid = q" using y quiet_step_keeps Cons.prems(1,2) by metis
  moreover have "\<forall>i < length ys. \<not> resets_pressure sid (ys ! i) \<and>
       (\<exists>sigs. fst (run_all (signal_upd cfg) ys e1) ! i = Inr sigs) \<and>
       (fst (ys ! i) = sid \<longrightarrow>
          (\<forall>k. k \<noteq> KHighvol \<and> k \<noteq> kind_of q \<longrightarrow> \<not> emits k (fst (run_all (signal_upd cfg) ys e1) ! i)))"
    using Cons.prems(3) y by (auto simp: split_beta dest: spec [of _ "Suc i" for i])
  ultimately show ?case using Cons.IH Cons.prems(2) y by (simp add: split_beta)
qed simp

text \<open>
  C32: no duplicate pressure signal. Two evaluations of one symbol do not both emit a BUY (or both
  a SELL) signal unless, in between, a candle of that symbol was neutral or emitted the opposite
  signal, or an evaluation raised. Evaluations of other symbols in between do not matter.
\<close>

theorem no_repeated_pressure_signal:
  assumes "k \<noteq> KHighvol"
    and first: "signal_upd cfg (sid, s1, t1) e = (out1, e1)" "emits k out1"
    and quiet: "\<forall>i < length ys. \<not> resets_pressure sid (ys ! i) \<and>
       (\<exists>sigs. fst (run_all (signal_upd cfg) ys e1) ! i = Inr sigs) \<and>
       (fst (ys ! i) = sid \<longrightarrow>
          (\<forall>k'. k' \<noteq> KHighvol \<and> k' \<noteq> k \<longrightarrow> \<not> emits k' (fst (run_all (signal_upd cfg) ys e1) ! i)))"
  shows "\<not> emits k (fst (signal_upd cfg (sid, s2, t2) (snd (run_all (signal_upd cfg) ys e1))))"
proof
  let ?e2 = "snd (run_all (signal_upd cfg) ys e1)"
  assume em: "emits k (fst (signal_upd cfg (sid, s2, t2) ?e2))"
  obtain q where q: "q \<noteq> Neutral" "kind_of q = k" "pressure_of e1 sid = q"
    using emitting_state [OF first assms(1)] by blast
  then have "pressure_of ?e2 sid = q" using quiet by (intro quiet_run_keeps) auto
  moreover obtain q' where "q' \<noteq> Neutral" "kind_of q' = k" "pressure_of ?e2 sid \<noteq> q'"
    using emitting_state [OF prod.collapse [symmetric] em assms(1)] by blast
  ultimately show False using q kind_of_inj by metis
qed



definition snap_vol :: "pyfloat \<Rightarrow> indicator_snapshot" where
  "snap_vol v = (snap (Some (Fin 12)) (Some (Fin 10)))\<lparr>sn_vol_realized := Some v\<rparr>"

definition strong_up :: trend_result where
  "strong_up = \<lparr>tr_direction = Up, tr_strength = Fin 100, tr_slope = Fin 0, tr_score = Fin 100\<rparr>"

theorem signal_confidence_bounds_witness:
  "60 \<le> sg_confidence (highvol_signal (Fin 6) (Fin 3) 100 Normal) \<and>
   50 \<le> sg_confidence (highvol_signal (Fin 6) (Fin 3) 100 Normal)"
proof -
  have e: "evaluate_signals default_settings 1 (snap_vol (Fin 6)) None signal_engine_new =
      (Inr [highvol_signal (Fin 6) (Fin 3) 100 Normal], set_highvol 1 High signal_engine_new)"
    by (simp add: evaluate_signals_def evaluate_pressure_def evaluate_highvol_def snap_vol_def snap_def
        default_settings_def highvol_of_def signal_engine_new_def highvol_confidence_def fdiv_def
        pymin_def round_half_even_def)
  show ?thesis using signal_confidence_bounds [OF e] by (simp add: default_settings_def)
qed

text \<open>The confidence of a full-strength uptrend with RSI 60 and twice the usual volume.\<close>

lemma point_six: "to_dbl (3 / 5) = Fin (5404319552844595 / 9007199254740992)"
  using to_dbl_cert [of "- 1" "3 / 5" 5404319552844595] by (simp add: power_int_def power_divide)

lemma point_two: "to_dbl (1 / 5) = Fin (3602879701896397 / 18014398509481984)"
  using to_dbl_cert [of "- 3" "1 / 5" 7205759403792794] by (simp add: power_int_def power_divide)

lemma strong_up_confidence: "pressure_confidence strong_up (Fin 60) (Fin 2) = Inr 74"
proof -
  have a: "Fin (5404319552844595 / 9007199254740992) * Fin 100 = Fin 60"
    using to_dbl_cert [of 5 "5404319552844595 / 9007199254740992 * 100" "60 * 2 ^ 47"]
    by (simp add: power_int_def power_divide)
  have b: "Fin (3602879701896397 / 18014398509481984) * Fin 20 = Fin 4"
    using to_dbl_cert [of 2 "3602879701896397 / 18014398509481984 * 20" "2 ^ 52"]
    by (simp add: power_int_def power_divide)
  have c: "Fin (3602879701896397 / 18014398509481984) * Fin 50 = Fin 10"
    using to_dbl_cert [of 3 "3602879701896397 / 18014398509481984 * 50" "10 * 2 ^ 49"]
    by (simp add: power_int_def power_divide)
  have rc: "pymin (\<bar>Fin 60 - Fin 50\<bar> * Fin 2) (Fin 100) = Fin 20"
    by (simp add: minus_pyfloat_def pymin_def)
  have vc: "clamp ((Fin 2 - Fin 1) * Fin 50) 0 100 = Fin 50"
    by (simp add: minus_pyfloat_def clamp_def pymin_def pymax_def)
  have sc: "round_score (Fin 60 + Fin 4 + Fin 10) = Inr 74"
    by (simp add: round_score_def clamp_def pymin_def pymax_def round_half_even_def)
  show ?thesis
    by (simp add: pressure_confidence_def strong_up_def Let_def rc vc point_six point_two a b c sc
        del: times_pyfloat.simps plus_pyfloat.simps)
qed

theorem no_repeated_pressure_signal_witness:
  "\<not> emits KBuy (fst (signal_upd default_settings (1, snap (Some (Fin 12)) (Some (Fin 10)), Some strong_up)
     (snd (run_all (signal_upd default_settings) []
        (snd (signal_upd default_settings (1, snap (Some (Fin 12)) (Some (Fin 10)), Some strong_up)
           signal_engine_new))))))"
proof (rule no_repeated_pressure_signal [OF _ prod.collapse [symmetric]])
  have t: "pressure_target strong_up (Fin 60) = Buy"
    by (simp add: pressure_target_def strong_up_def rsi_overbought_def)
  show "emits KBuy (fst (signal_upd default_settings
      (1, snap (Some (Fin 12)) (Some (Fin 10)), Some strong_up) signal_engine_new))"
    by (simp add: signal_upd_def evaluate_signals_def evaluate_pressure_def evaluate_highvol_def snap_def
        pressure_of_def signal_engine_new_def t strong_up_confidence default_settings_def emits_def)
qed simp_all

section \<open>Symbols do not interfere\<close>

definition signal_view :: "int \<Rightarrow> signal_engine \<Rightarrow> pressure \<times> volstate" where
  "signal_view sid e = (pressure_of e sid, highvol_of e sid)"

lemma evaluate_signals_frame:
  assumes "sid' \<noteq> sid"
  shows "signal_view sid' (snd (evaluate_signals cfg sid s t e)) = signal_view sid' e"
proof -
  obtain p e1 where p: "evaluate_pressure cfg sid s t e = (p, e1)" by fastforce
  obtain h e2 where h: "evaluate_highvol cfg sid s e1 = (h, e2)" by fastforce
  show ?thesis
    using evaluate_pressure_frame [OF p] evaluate_highvol_frame [OF h] assms
    by (simp add: evaluate_signals_def p h attempt_def signal_view_def split: sum.split)
qed

lemma evaluate_pressure_local:
  "signal_view sid e = signal_view sid f \<Longrightarrow>
    fst (evaluate_pressure cfg sid s t e) = fst (evaluate_pressure cfg sid s t f) \<and>
    signal_view sid (snd (evaluate_pressure cfg sid s t e)) = signal_view sid (snd (evaluate_pressure cfg sid s t f))"
  by (auto simp: evaluate_pressure_cases signal_view_def split: option.split sum.split)

lemma evaluate_highvol_local:
  "signal_view sid e = signal_view sid f \<Longrightarrow>
    fst (evaluate_highvol cfg sid s e) = fst (evaluate_highvol cfg sid s f) \<and>
    signal_view sid (snd (evaluate_highvol cfg sid s e)) = signal_view sid (snd (evaluate_highvol cfg sid s f))"
  by (auto simp: evaluate_highvol_def Let_def attempt_def signal_view_def split: option.split sum.split)

lemma evaluate_signals_local:
  assumes "signal_view sid e = signal_view sid f"
  shows "fst (evaluate_signals cfg sid s t e) = fst (evaluate_signals cfg sid s t f) \<and>
    signal_view sid (snd (evaluate_signals cfg sid s t e)) = signal_view sid (snd (evaluate_signals cfg sid s t f))"
proof -
  obtain p e1 where e1: "evaluate_pressure cfg sid s t e = (p, e1)" by fastforce
  obtain h e2 where e2: "evaluate_highvol cfg sid s e1 = (h, e2)" by fastforce
  obtain q f1 where f1: "evaluate_pressure cfg sid s t f = (q, f1)" by fastforce
  obtain k f2 where f2: "evaluate_highvol cfg sid s f1 = (k, f2)" by fastforce
  have 1: "q = p" "signal_view sid e1 = signal_view sid f1"
    using evaluate_pressure_local [OF assms, of cfg s t] e1 f1 by auto
  have 2: "k = h" "signal_view sid e2 = signal_view sid f2"
    using evaluate_highvol_local [OF 1(2), of cfg s] e2 f2 by auto
  show ?thesis using 1 2 e1 e2 f1 f2 by (auto simp: evaluate_signals_def attempt_def split: sum.split)
qed

interpretation signal_keyed: keyed "signal_upd cfg" signal_view for cfg
  by unfold_locales
    (auto simp: signal_upd_def evaluate_signals_frame dest: evaluate_signals_local split: prod.splits)


section \<open>Where a volatility signal starts\<close>

text \<open>
  The configured HIGH VOLATILITY threshold is not where the signal starts. For any settings
  with a positive finite threshold and a minimum confidence above 50, a volatility exactly at the
  threshold emits nothing and leaves the state as it was, because the confidence there is 50: the
  signal needs a volatility above the threshold by the factor \<open>signal_min_confidence / 50\<close>.
\<close>

lemma highvol_threshold_does_not_fire:
  assumes "high_volatility_pct cfg = Fin thr" "0 < thr" "sn_vol_realized s = Some (Fin thr)"
    "50 < signal_min_confidence cfg"
  shows "evaluate_highvol cfg sid s e = (Inr None, e)"
proof -
  have "highvol_confidence (Fin thr) (Fin thr) = Inr 50"
    using assms(2) round_half_even_of_int [of 50]
    by (simp add: highvol_confidence_def fdiv_def pymin_def)
  then show ?thesis using assms by (simp add: evaluate_highvol_def Let_def)
qed

lemma highvol_threshold_does_not_fire_witness:
  "evaluate_highvol default_settings 1 (snap_vol (Fin 3)) signal_engine_new = (Inr None, signal_engine_new)"
  by (rule highvol_threshold_does_not_fire [of _ 3])
    (simp_all add: default_settings_def snap_vol_def snap_def)

end
