(* ===== verification/Events.thy ===== *)
theory Events
  imports Indicators
begin

text \<open>
  \<^verbatim>\<open>src/orvixa/analytics/events.py\<close>: breakout / breakdown, pump / dump and volatility-spike
  detection over bounded per-symbol histories that exclude the current candle.
\<close>

datatype event_kind = Breakout | Breakdown | Pump | Dump | VolSpike
datatype breakout_phase = BNone | BUp | BDown
datatype pump_phase = PNone | PPump | PDump
datatype spike_phase = SNone | SSpike
datatype payload_value = PFloat pyfloat | PInt int

record event_result =
  ev_type :: event_kind
  ev_magnitude :: pyfloat
  ev_severity :: int
  ev_price :: pyfloat
  ev_payload :: "(string \<times> payload_value) list"

record event_engine =
  ee_highs :: "int \<Rightarrow> pyfloat deque option"
  ee_lows :: "int \<Rightarrow> pyfloat deque option"
  ee_closes :: "int \<Rightarrow> pyfloat deque option"
  ee_vols :: "int \<Rightarrow> pyfloat deque option"
  ee_breakout :: "int \<Rightarrow> breakout_phase option"
  ee_pump :: "int \<Rightarrow> pump_phase option"
  ee_spike :: "int \<Rightarrow> spike_phase option"

definition event_engine_new :: event_engine where
  "event_engine_new = \<lparr>ee_highs = (\<lambda>_. None), ee_lows = (\<lambda>_. None), ee_closes = (\<lambda>_. None),
     ee_vols = (\<lambda>_. None), ee_breakout = (\<lambda>_. None), ee_pump = (\<lambda>_. None), ee_spike = (\<lambda>_. None)\<rparr>"

definition severity :: "pyfloat \<Rightarrow> int" where
  "severity ratio = (if ratio \<ge> Fin 3 then 3 else if ratio \<ge> to_dbl (3 / 2) then 2 else 1)"

definition set_breakout :: "int \<Rightarrow> breakout_phase \<Rightarrow> event_engine \<Rightarrow> event_engine" where
  "set_breakout sid p e = e\<lparr>ee_breakout := (ee_breakout e)(sid \<mapsto> p)\<rparr>"

definition set_pump :: "int \<Rightarrow> pump_phase \<Rightarrow> event_engine \<Rightarrow> event_engine" where
  "set_pump sid p e = e\<lparr>ee_pump := (ee_pump e)(sid \<mapsto> p)\<rparr>"

definition set_spike :: "int \<Rightarrow> spike_phase \<Rightarrow> event_engine \<Rightarrow> event_engine" where
  "set_spike sid p e = e\<lparr>ee_spike := (ee_spike e)(sid \<mapsto> p)\<rparr>"

text \<open>\<^verbatim>\<open>(a - b) / c * 100.0 if c > 0 else 0.0\<close>.\<close>

definition pct_move :: "pyfloat \<Rightarrow> pyfloat \<Rightarrow> pyfloat \<Rightarrow> pyfloat res" where
  "pct_move a b c =
     (if c > Fin 0 then rbind (fdiv (a - b) c) (\<lambda>q. Inr (q * Fin 100)) else Inr (Fin 0))"

definition check_breakout ::
  "settings \<Rightarrow> int \<Rightarrow> indicator_snapshot \<Rightarrow> event_engine \<Rightarrow> event_result option res \<times> event_engine" where
  "check_breakout cfg sid s e =
     (case (ee_highs e sid, ee_lows e sid) of
        (Some highs, Some lows) \<Rightarrow>
          (let window = breakout_window cfg; close = sn_close s in
           if int (length (items highs)) < window then (Inr None, e)
           else attempt (pymax_list (items highs)) e (\<lambda>prior_high.
                attempt (pymin_list (items lows)) e (\<lambda>prior_low.
             let old = get_or BNone (ee_breakout e sid) in
             if close > prior_high then
               (if old = BUp then (Inr None, e)
                else let e1 = set_breakout sid BUp e in
                  attempt (pct_move close prior_high prior_high) e1 (\<lambda>m.
                    (Inr (Some \<lparr>ev_type = Breakout, ev_magnitude = m, ev_severity = severity \<bar>m\<bar>,
                       ev_price = close,
                       ev_payload = [(''level'', PFloat prior_high), (''window'', PInt window)]\<rparr>), e1)))
             else if close < prior_low then
               (if old = BDown then (Inr None, e)
                else let e1 = set_breakout sid BDown e in
                  attempt (pct_move prior_low close prior_low) e1 (\<lambda>m.
                    (Inr (Some \<lparr>ev_type = Breakdown, ev_magnitude = m, ev_severity = severity \<bar>m\<bar>,
                       ev_price = close,
                       ev_payload = [(''level'', PFloat prior_low), (''window'', PInt window)]\<rparr>), e1)))
             else (Inr None, set_breakout sid BNone e))))
      | _ \<Rightarrow> (Inr None, e))"

definition first_item :: "'a list \<Rightarrow> 'a res" where
  "first_item xs = (case xs of [] \<Rightarrow> Inl IndexError | x # _ \<Rightarrow> Inr x)"

definition pump_event :: "event_kind \<Rightarrow> pyfloat \<Rightarrow> int \<Rightarrow> pyfloat \<Rightarrow> int \<Rightarrow> event_result" where
  "pump_event kind pct sev close window =
     \<lparr>ev_type = kind, ev_magnitude = pct, ev_severity = sev, ev_price = close,
      ev_payload = [(''window'', PInt window), (''pct'', PFloat (pyround_n pct 4))]\<rparr>"

definition check_pump_dump ::
  "settings \<Rightarrow> int \<Rightarrow> indicator_snapshot \<Rightarrow> event_engine \<Rightarrow> event_result option res \<times> event_engine" where
  "check_pump_dump cfg sid s e =
     (case ee_closes e sid of
        None \<Rightarrow> (Inr None, e)
      | Some closes \<Rightarrow>
          (let window = pump_dump_window cfg; close = sn_close s in
           if int (length (items closes)) < window then (Inr None, e)
           else attempt (first_item (items closes)) e (\<lambda>ref.
             if ref \<le> Fin 0 then (Inr None, e)
             else attempt (fdiv (close - ref) ref) e (\<lambda>q.
               let pct = q * Fin 100;
                   threshold = pump_dump_pct cfg;
                   old = get_or PNone (ee_pump e sid)
               in if pct \<ge> threshold then
                    (if old = PPump then (Inr None, e)
                     else let e1 = set_pump sid PPump e in
                       attempt (fdiv pct threshold) e1 (\<lambda>r.
                         (Inr (Some (pump_event Pump pct (severity r) close window)), e1)))
                  else if pct \<le> - threshold then
                    (if old = PDump then (Inr None, e)
                     else let e1 = set_pump sid PDump e in
                       attempt (fdiv \<bar>pct\<bar> threshold) e1 (\<lambda>r.
                         (Inr (Some (pump_event Dump pct (severity r) close window)), e1)))
                  else (Inr None, set_pump sid PNone e)))))"

definition check_vol_spike ::
  "settings \<Rightarrow> int \<Rightarrow> indicator_snapshot \<Rightarrow> event_engine \<Rightarrow> event_result option res \<times> event_engine" where
  "check_vol_spike cfg sid s e =
     (case (sn_vol_realized s, ee_vols e sid) of
        (Some vol, Some history) \<Rightarrow>
          (if int (length (items history)) < vol_spike_window cfg then (Inr None, e)
           else attempt (mean_of (items history)) e (\<lambda>baseline.
             if baseline \<le> Fin 0 then (Inr None, e)
             else let multiplier = vol_spike_multiplier cfg;
                      old = get_or SNone (ee_spike e sid)
                  in if vol \<ge> baseline * multiplier then
                       (if old = SSpike then (Inr None, e)
                        else let e1 = set_spike sid SSpike e in
                          attempt (fdiv vol (baseline * multiplier)) e1 (\<lambda>r.
                            (Inr (Some \<lparr>ev_type = VolSpike, ev_magnitude = vol, ev_severity = severity r,
                               ev_price = sn_close s,
                               ev_payload = [(''baseline'', PFloat (pyround_n baseline 4)),
                                             (''multiplier'', PFloat multiplier)]\<rparr>), e1)))
                     else (Inr None, set_spike sid SNone e)))
      | _ \<Rightarrow> (Inr None, e))"

text \<open>\<^verbatim>\<open>d.setdefault(sid, deque(maxlen=w)).append(x)\<close>: the constructor runs, and may raise, every time.\<close>

definition push :: "int \<Rightarrow> pyfloat \<Rightarrow> pyfloat deque option \<Rightarrow> pyfloat deque res" where
  "push w x d = rbind (deque_new w) (\<lambda>fresh. Inr (deque_append (get_or fresh d) x))"

definition update_history ::
  "settings \<Rightarrow> int \<Rightarrow> indicator_snapshot \<Rightarrow> event_engine \<Rightarrow> unit res \<times> event_engine" where
  "update_history cfg sid s e =
     attempt (push (breakout_window cfg) (sn_high s) (ee_highs e sid)) e (\<lambda>h.
       let e1 = e\<lparr>ee_highs := (ee_highs e)(sid \<mapsto> h)\<rparr> in
     attempt (push (breakout_window cfg) (sn_low s) (ee_lows e1 sid)) e1 (\<lambda>l.
       let e2 = e1\<lparr>ee_lows := (ee_lows e1)(sid \<mapsto> l)\<rparr> in
     attempt (push (pump_dump_window cfg) (sn_close s) (ee_closes e2 sid)) e2 (\<lambda>c.
       let e3 = e2\<lparr>ee_closes := (ee_closes e2)(sid \<mapsto> c)\<rparr> in
     case sn_vol_realized s of
       None \<Rightarrow> (Inr (), e3)
     | Some vol \<Rightarrow>
         attempt (push (vol_spike_window cfg) vol (ee_vols e3 sid)) e3 (\<lambda>v.
           (Inr (), e3\<lparr>ee_vols := (ee_vols e3)(sid \<mapsto> v)\<rparr>)))))"

definition evaluate_events ::
  "settings \<Rightarrow> int \<Rightarrow> indicator_snapshot \<Rightarrow> event_engine \<Rightarrow> event_result list res \<times> event_engine" where
  "evaluate_events cfg sid s e =
     (let (r1, e1) = check_breakout cfg sid s e in
      attempt r1 e1 (\<lambda>breakout.
      let (r2, e2) = check_pump_dump cfg sid s e1 in
      attempt r2 e2 (\<lambda>pump_dump.
      let (r3, e3) = check_vol_spike cfg sid s e2 in
      attempt r3 e3 (\<lambda>vol_spike.
      let (r4, e4) = update_history cfg sid s e3 in
      attempt r4 e4 (\<lambda>_.
        (Inr (opt_list breakout @ opt_list pump_dump @ opt_list vol_spike), e4))))))"


section \<open>The state of one symbol\<close>

text \<open>
  Everything the engine keeps for a symbol id. A check or an update for one id reads and writes
  only this tuple.
\<close>

definition event_view :: "int \<Rightarrow> event_engine \<Rightarrow>
    (pyfloat deque option \<times> pyfloat deque option \<times> pyfloat deque option \<times> pyfloat deque option) \<times>
    (breakout_phase option \<times> pump_phase option \<times> spike_phase option)" where
  "event_view sid e =
     ((ee_highs e sid, ee_lows e sid, ee_closes e sid, ee_vols e sid),
      (ee_breakout e sid, ee_pump e sid, ee_spike e sid))"

lemmas event_ops = set_breakout_def set_pump_def set_spike_def event_view_def

lemma check_breakout_frame: "sid' \<noteq> sid \<Longrightarrow> event_view sid' (snd (check_breakout cfg sid s e)) = event_view sid' e"
  by (auto simp: check_breakout_def Let_def attempt_def event_ops split: option.split sum.split)

lemma check_pump_dump_frame: "sid' \<noteq> sid \<Longrightarrow> event_view sid' (snd (check_pump_dump cfg sid s e)) = event_view sid' e"
  by (auto simp: check_pump_dump_def Let_def attempt_def event_ops split: option.split sum.split)

lemma check_vol_spike_frame: "sid' \<noteq> sid \<Longrightarrow> event_view sid' (snd (check_vol_spike cfg sid s e)) = event_view sid' e"
  by (auto simp: check_vol_spike_def Let_def attempt_def event_ops split: option.split sum.split)

lemma update_history_frame: "sid' \<noteq> sid \<Longrightarrow> event_view sid' (snd (update_history cfg sid s e)) = event_view sid' e"
  by (auto simp: update_history_def Let_def attempt_def event_ops split: option.split sum.split)

lemma check_breakout_local:
  "event_view sid e = event_view sid f \<Longrightarrow>
    fst (check_breakout cfg sid s e) = fst (check_breakout cfg sid s f) \<and>
    event_view sid (snd (check_breakout cfg sid s e)) = event_view sid (snd (check_breakout cfg sid s f))"
  by (auto simp: check_breakout_def Let_def attempt_def event_ops split: option.split sum.split)

lemma check_pump_dump_local:
  "event_view sid e = event_view sid f \<Longrightarrow>
    fst (check_pump_dump cfg sid s e) = fst (check_pump_dump cfg sid s f) \<and>
    event_view sid (snd (check_pump_dump cfg sid s e)) = event_view sid (snd (check_pump_dump cfg sid s f))"
  by (auto simp: check_pump_dump_def Let_def attempt_def event_ops split: option.split sum.split)

lemma check_vol_spike_local:
  "event_view sid e = event_view sid f \<Longrightarrow>
    fst (check_vol_spike cfg sid s e) = fst (check_vol_spike cfg sid s f) \<and>
    event_view sid (snd (check_vol_spike cfg sid s e)) = event_view sid (snd (check_vol_spike cfg sid s f))"
  by (auto simp: check_vol_spike_def Let_def attempt_def event_ops split: option.split sum.split)

lemma update_history_local:
  "event_view sid e = event_view sid f \<Longrightarrow>
    fst (update_history cfg sid s e) = fst (update_history cfg sid s f) \<and>
    event_view sid (snd (update_history cfg sid s e)) = event_view sid (snd (update_history cfg sid s f))"
  by (auto simp: update_history_def Let_def attempt_def event_ops split: option.split sum.split)


section \<open>Symbols do not interfere\<close>

type_synonym event_input = "int \<times> indicator_snapshot"

definition event_upd :: "settings \<Rightarrow> event_input \<Rightarrow> event_engine \<Rightarrow> event_result list res \<times> event_engine" where
  "event_upd cfg i e = (case i of (sid, s) \<Rightarrow> evaluate_events cfg sid s e)"

lemma evaluate_events_frame:
  "sid' \<noteq> sid \<Longrightarrow> event_view sid' (snd (evaluate_events cfg sid s e)) = event_view sid' e"
  using check_breakout_frame [of sid' sid cfg s e]
    check_pump_dump_frame [of sid' sid cfg s "snd (check_breakout cfg sid s e)"]
    check_vol_spike_frame [of sid' sid cfg s "snd (check_pump_dump cfg sid s (snd (check_breakout cfg sid s e)))"]
    update_history_frame [of sid' sid cfg s
      "snd (check_vol_spike cfg sid s (snd (check_pump_dump cfg sid s (snd (check_breakout cfg sid s e)))))"]
  by (auto simp: evaluate_events_def Let_def attempt_def split: prod.split sum.split)

lemma evaluate_events_local:
  assumes "event_view sid e = event_view sid f"
  shows "fst (evaluate_events cfg sid s e) = fst (evaluate_events cfg sid s f) \<and>
    event_view sid (snd (evaluate_events cfg sid s e)) = event_view sid (snd (evaluate_events cfg sid s f))"
proof -
  obtain r1 e1 where e1: "check_breakout cfg sid s e = (r1, e1)" by fastforce
  obtain r2 e2 where e2: "check_pump_dump cfg sid s e1 = (r2, e2)" by fastforce
  obtain r3 e3 where e3: "check_vol_spike cfg sid s e2 = (r3, e3)" by fastforce
  obtain r4 e4 where e4: "update_history cfg sid s e3 = (r4, e4)" by fastforce
  obtain q1 f1 where f1: "check_breakout cfg sid s f = (q1, f1)" by fastforce
  obtain q2 f2 where f2: "check_pump_dump cfg sid s f1 = (q2, f2)" by fastforce
  obtain q3 f3 where f3: "check_vol_spike cfg sid s f2 = (q3, f3)" by fastforce
  obtain q4 f4 where f4: "update_history cfg sid s f3 = (q4, f4)" by fastforce
  have 1: "q1 = r1" "event_view sid e1 = event_view sid f1"
    using check_breakout_local [OF assms, of cfg s] e1 f1 by auto
  have 2: "q2 = r2" "event_view sid e2 = event_view sid f2"
    using check_pump_dump_local [OF 1(2), of cfg s] e2 f2 by auto
  have 3: "q3 = r3" "event_view sid e3 = event_view sid f3"
    using check_vol_spike_local [OF 2(2), of cfg s] e3 f3 by auto
  have 4: "q4 = r4" "event_view sid e4 = event_view sid f4"
    using update_history_local [OF 3(2), of cfg s] e4 f4 by auto
  show ?thesis
    using 1 2 3 4 e1 e2 e3 e4 f1 f2 f3 f4
    by (auto simp: evaluate_events_def attempt_def split: sum.split)
qed

interpretation event_keyed: keyed "event_upd cfg" event_view for cfg
  by unfold_locales
    (auto simp: event_upd_def evaluate_events_frame dest: evaluate_events_local split: prod.splits)


section \<open>What the engine holds is the history of the symbol\<close>

text \<open>Settings under which no check can raise.\<close>

definition events_config_ok :: "settings \<Rightarrow> bool" where
  "events_config_ok cfg \<longleftrightarrow> 1 \<le> breakout_window cfg \<and> 1 \<le> pump_dump_window cfg \<and>
     1 \<le> vol_spike_window cfg \<and> vol_spike_window cfg \<le> 2 ^ 53 \<and>
     Fin 0 < pump_dump_pct cfg \<and> Fin 1 \<le> vol_spike_multiplier cfg"

text \<open>The window of the last snapshots, and the breakout phase they give.\<close>

definition window_of :: "int \<Rightarrow> ('a \<Rightarrow> 'b) \<Rightarrow> 'a list \<Rightarrow> 'b list" where
  "window_of w f prior = last_n (nat w) (map f prior)"

definition above :: "int \<Rightarrow> indicator_snapshot list \<Rightarrow> indicator_snapshot \<Rightarrow> bool" where
  "above w prior s \<longleftrightarrow> nat w \<le> length prior \<and> (\<forall>h \<in> set (window_of w sn_high prior). h < sn_close s)"

definition below :: "int \<Rightarrow> indicator_snapshot list \<Rightarrow> indicator_snapshot \<Rightarrow> bool" where
  "below w prior s \<longleftrightarrow> nat w \<le> length prior \<and> (\<forall>l \<in> set (window_of w sn_low prior). sn_close s < l)"

definition breakout_phase_at :: "int \<Rightarrow> indicator_snapshot list \<Rightarrow> indicator_snapshot \<Rightarrow> breakout_phase" where
  "breakout_phase_at w prior s = (if above w prior s then BUp else if below w prior s then BDown else BNone)"

definition since :: "('a list \<Rightarrow> 'a \<Rightarrow> 'b) \<Rightarrow> 'b \<Rightarrow> 'a list \<Rightarrow> 'b" where
  "since f d prior = (if prior = [] then d else f (butlast prior) (last prior))"

lemma since_simps [simp]: "since f d [] = d" "since f d (prior @ [x]) = f prior x"
  by (simp_all add: since_def)

text \<open>The move since the close \<open>w\<close> snapshots ago, and the pump phase it gives.\<close>

definition move_pct :: "int \<Rightarrow> indicator_snapshot list \<Rightarrow> indicator_snapshot \<Rightarrow> pyfloat" where
  "move_pct w prior s =
     (let ref = hd (window_of w sn_close prior) in quot (sn_close s - ref) ref * Fin 100)"

definition pump_phase_at :: "settings \<Rightarrow> indicator_snapshot list \<Rightarrow> indicator_snapshot \<Rightarrow> pump_phase" where
  "pump_phase_at cfg prior s =
     (let w = pump_dump_window cfg in
      if length prior < nat w then PNone
      else if pump_dump_pct cfg \<le> move_pct w prior s then PPump
      else if move_pct w prior s \<le> - pump_dump_pct cfg then PDump else PNone)"

definition realized :: "indicator_snapshot list \<Rightarrow> pyfloat list" where
  "realized prior = List.map_filter sn_vol_realized prior"

definition stored :: "int \<Rightarrow> 'a list \<Rightarrow> 'a deque option" where
  "stored w xs = (if xs = [] then None else Some (Deque (nat w) (last_n (nat w) xs)))"

definition event_inv :: "settings \<Rightarrow> indicator_snapshot list \<Rightarrow>
    (pyfloat deque option \<times> pyfloat deque option \<times> pyfloat deque option \<times> pyfloat deque option) \<times>
    (breakout_phase option \<times> pump_phase option \<times> spike_phase option) \<Rightarrow> bool" where
  "event_inv cfg prior v \<longleftrightarrow>
     (case v of ((hs, ls, cs, vs), (b, p, _)) \<Rightarrow>
        hs = stored (breakout_window cfg) (map sn_high prior) \<and>
        ls = stored (breakout_window cfg) (map sn_low prior) \<and>
        cs = stored (pump_dump_window cfg) (map sn_close prior) \<and>
        vs = stored (vol_spike_window cfg) (realized prior) \<and>
        get_or BNone b = since (breakout_phase_at (breakout_window cfg)) BNone prior \<and>
        get_or PNone p = since (pump_phase_at cfg) PNone prior)"

text \<open>Snapshots of real prices: no NaN, and a positive finite close.\<close>

definition snap_ok :: "indicator_snapshot \<Rightarrow> bool" where
  "snap_ok s \<longleftrightarrow> sn_high s \<noteq> NaN \<and> sn_low s \<noteq> NaN \<and> (\<exists>c. sn_close s = Fin c \<and> 0 < c)"

text \<open>The answer to the next snapshot.\<close>

definition emits_event :: "event_kind \<Rightarrow> event_result list res \<Rightarrow> bool" where
  "emits_event k out \<longleftrightarrow> (case out of Inr evs \<Rightarrow> k \<in> ev_type ` set evs | Inl _ \<Rightarrow> False)"

definition event_good :: "settings \<Rightarrow> indicator_snapshot list \<Rightarrow> indicator_snapshot \<Rightarrow> event_result list res \<Rightarrow> bool" where
  "event_good cfg prior s out \<longleftrightarrow>
     (\<exists>evs. out = Inr evs \<and> distinct (map ev_type evs) \<and>
        (\<forall>ev \<in> set evs. ev_severity ev \<in> {1, 2, 3} \<and> (ev_type ev \<noteq> VolSpike \<longrightarrow> ev_price ev = sn_close s))) \<and>
     (let now = breakout_phase_at (breakout_window cfg) prior s;
          before = since (breakout_phase_at (breakout_window cfg)) BNone prior
      in (emits_event Breakout out \<longleftrightarrow> now = BUp \<and> before \<noteq> BUp) \<and>
         (emits_event Breakdown out \<longleftrightarrow> now = BDown \<and> before \<noteq> BDown)) \<and>
     (let now = pump_phase_at cfg prior s; before = since (pump_phase_at cfg) PNone prior
      in (emits_event Pump out \<longleftrightarrow> now = PPump \<and> before \<noteq> PPump) \<and>
         (emits_event Dump out \<longleftrightarrow> now = PDump \<and> before \<noteq> PDump))"


subsection \<open>Bounded histories\<close>

lemma push_stored:
  "0 \<le> w \<Longrightarrow> push w x (stored w xs) = Inr (Deque (nat w) (last_n (nat w) (xs @ [x])))"
  by (auto simp: push_def stored_def deque_new_def deque_append_def last_n_snoc_last_n)

lemma stored_snoc: "Some (Deque (nat w) (last_n (nat w) (xs @ [x]))) = stored w (xs @ [x])"
  by (simp add: stored_def)

lemma realized_snoc:
  "realized (prior @ [s]) = (case sn_vol_realized s of None \<Rightarrow> realized prior | Some v \<Rightarrow> realized prior @ [v])"
  by (simp add: realized_def map_filter_def split: option.split)

lemma severity_range: "severity x \<in> {1, 2, 3}"
  by (simp add: severity_def)

lemma pct_move_total: "\<exists>m. pct_move a b c = Inr m"
  by (cases c) (auto simp: pct_move_def fdiv_def feq_def)


subsection \<open>Each check against the history\<close>

lemma window_of_facts:
  assumes "1 \<le> w" "nat w \<le> length prior"
  shows "last_n (nat w) (map f prior) = window_of w f prior" "window_of w f prior \<noteq> []"
    "length (window_of w f prior) = nat w" "set (window_of w f prior) \<subseteq> f ` set prior"
  using assms set_last_n [of "nat w" "map f prior"] by (auto simp: window_of_def last_n_def)

lemma check_breakout_history:
  fixes s :: indicator_snapshot and e :: event_engine
  assumes "event_inv cfg prior (event_view sid e)" "events_config_ok cfg" "\<forall>x \<in> set prior. snap_ok x"
  defines "w \<equiv> breakout_window cfg"
  defines "now \<equiv> breakout_phase_at w prior s" and "before \<equiv> since (breakout_phase_at w) BNone prior"
  shows "\<exists>out e'. check_breakout cfg sid s e = (Inr out, e') \<and>
    event_view sid e' = (fst (event_view sid e),
      (ee_breakout e' sid, ee_pump e sid, ee_spike e sid)) \<and> get_or BNone (ee_breakout e' sid) = now \<and>
    (out = None \<longleftrightarrow> now = before \<or> now = BNone) \<and>
    (\<forall>ev. out = Some ev \<longrightarrow> ev_type ev = (if now = BUp then Breakout else Breakdown) \<and>
       ev_price ev = sn_close s \<and> ev_severity ev \<in> {1, 2, 3})"
proof -
  have w: "1 \<le> w" using assms(2) by (simp add: events_config_ok_def w_def)
  have h: "ee_highs e sid = stored w (map sn_high prior)" "ee_lows e sid = stored w (map sn_low prior)"
    "get_or BNone (ee_breakout e sid) = before"
    using assms(1) by (auto simp: event_inv_def event_view_def w_def before_def)
  show ?thesis
  proof (cases "nat w \<le> length prior")
    case False
    then have "now = BNone" "before = BNone"
      by (auto simp: now_def before_def breakout_phase_at_def above_def below_def since_def)
    then show ?thesis using False h w
      by (auto simp: check_breakout_def stored_def event_view_def Let_def w_def)
  next
    case True
    note win = window_of_facts [OF w True]
    have ne: "prior \<noteq> []" using w True by auto
    obtain hi where hi: "pymax_list (window_of w sn_high prior) = Inr hi"
      "hi < sn_close s \<longleftrightarrow> (\<forall>x \<in> set (window_of w sn_high prior). x < sn_close s)"
      using pymax_list_less [of "window_of w sn_high prior"] win(2) win(4) [of sn_high] assms(3)
      by (fastforce simp: snap_ok_def)
    obtain lo where lo: "pymin_list (window_of w sn_low prior) = Inr lo"
      "sn_close s < lo \<longleftrightarrow> (\<forall>x \<in> set (window_of w sn_low prior). sn_close s < x)"
      using pymin_list_less [of "window_of w sn_low prior"] win(2) win(4) [of sn_low] assms(3)
      by (fastforce simp: snap_ok_def)
    have now: "now = (if hi < sn_close s then BUp else if sn_close s < lo then BDown else BNone)"
      using hi(2) lo(2) True by (simp add: now_def breakout_phase_at_def above_def below_def)
    obtain m1 m2 where m: "pct_move (sn_close s) hi hi = Inr m1" "pct_move lo (sn_close s) lo = Inr m2"
      using pct_move_total by metis
    have dq: "ee_highs e sid = Some (Deque (nat w) (window_of w sn_high prior))"
      "ee_lows e sid = Some (Deque (nat w) (window_of w sn_low prior))"
      using h(1,2) ne by (simp_all add: stored_def win(1))
    have len: "int (length (window_of w sn_high prior)) = w" using win(3) [of sn_high] w by simp
    show ?thesis
      using h(3) severity_range unfolding now
      by (simp add: check_breakout_def dq hi(1) lo(1) m len w_def [symmetric] Let_def event_view_def
          split del: if_split) (auto simp: Let_def m dq set_breakout_def split: if_split)
  qed
qed

lemma check_pump_dump_history:
  fixes s :: indicator_snapshot and e :: event_engine
  assumes "event_inv cfg prior (hist, (b, ee_pump e sid, k))" "fst (event_view sid e) = hist"
    "events_config_ok cfg" "\<forall>x \<in> set prior. snap_ok x" "snap_ok s"
  defines "now \<equiv> pump_phase_at cfg prior s" and "before \<equiv> since (pump_phase_at cfg) PNone prior"
  shows "\<exists>out e'. check_pump_dump cfg sid s e = (Inr out, e') \<and>
    event_view sid e' = (hist, (ee_breakout e sid, ee_pump e' sid, ee_spike e sid)) \<and>
    get_or PNone (ee_pump e' sid) = now \<and>
    (out = None \<longleftrightarrow> now = before \<or> now = PNone) \<and>
    (\<forall>ev. out = Some ev \<longrightarrow> ev_type ev = (if now = PPump then Pump else Dump) \<and>
       ev_price ev = sn_close s \<and> ev_severity ev \<in> {1, 2, 3})"
proof -
  let ?w = "pump_dump_window cfg"
  have w: "1 \<le> ?w" using assms(3) by (simp add: events_config_ok_def)
  have h: "ee_closes e sid = stored ?w (map sn_close prior)" "get_or PNone (ee_pump e sid) = before"
    using assms(1,2) by (auto simp: event_inv_def event_view_def before_def)
  show ?thesis
  proof (cases "nat ?w \<le> length prior")
    case False
    then have "now = PNone" "before = PNone"
      by (auto simp: now_def before_def pump_phase_at_def Let_def since_def)
    then show ?thesis using False h w assms(2)
      by (auto simp: check_pump_dump_def stored_def event_view_def Let_def)
  next
    case True
    note win = window_of_facts [OF w True]
    have ne: "prior \<noteq> []" using w True by auto
    obtain r rs where r: "window_of ?w sn_close prior = r # rs" using win(2) by (cases "window_of ?w sn_close prior") auto
    then have "\<exists>x. r = Fin x \<and> 0 < x" using win(4) [of sn_close] assms(4) by (force simp: snap_ok_def)
    then obtain x where x: "r = Fin x" "0 < x" by blast
    have ref: "fdiv (sn_close s - r) r = Inr (quot (sn_close s - r) r)" "\<not> r \<le> Fin 0"
      using x by (auto simp: fdiv_def feq_def)
    let ?pct = "quot (sn_close s - r) r * Fin 100"
    have thr: "\<And>y. fdiv y (pump_dump_pct cfg) = Inr (quot y (pump_dump_pct cfg))"
      using assms(3) by (auto simp: fdiv_def feq_def events_config_ok_def)
    have now: "now = (if pump_dump_pct cfg \<le> ?pct then PPump else if ?pct \<le> - pump_dump_pct cfg then PDump else PNone)"
      using True r by (simp add: now_def pump_phase_at_def move_pct_def Let_def)
    have dq: "ee_closes e sid = Some (Deque (nat ?w) (r # rs))"
      using h(1) ne by (simp add: stored_def win(1) r)
    have len: "1 + int (length rs) = ?w" using win(3) [of sn_close] w r by simp
    show ?thesis
      using h(2) ref(2) severity_range assms(2) unfolding now
      by (simp add: check_pump_dump_def dq ref(1) thr len Let_def event_view_def first_item_def
          split del: if_split) (auto simp: Let_def thr dq set_pump_def pump_event_def split: if_split)
  qed
qed


lemma product_not_zero:
  assumes "Fin 0 < b" "Fin 1 \<le> m" "is_dbl b"
  shows "b * m \<noteq> Fin 0"
proof (cases b; cases m)
  fix x y
  assume b: "b = Fin x" and m: "m = Fin y"
  then have "x \<le> x * y" using assms(1,2) by simp
  then have "to_dbl x \<le> to_dbl (x * y)" by (rule to_dbl_mono)
  moreover have "to_dbl x = Fin x" using assms(3) unfolding b is_dbl_Fin_endpoint by (rule to_dbl_endpoint)
  ultimately show ?thesis using assms(1) b m by auto
qed (use assms in \<open>auto simp: signed_inf_def\<close>)

lemma check_vol_spike_history:
  fixes s :: indicator_snapshot and e :: event_engine
  assumes "ee_vols e sid = stored (vol_spike_window cfg) (realized prior)" "events_config_ok cfg"
  shows "\<exists>out e'. check_vol_spike cfg sid s e = (Inr out, e') \<and>
    event_view sid e' = (fst (event_view sid e), (ee_breakout e sid, ee_pump e sid, ee_spike e' sid)) \<and>
    (\<forall>ev. out = Some ev \<longrightarrow> ev_type ev = VolSpike \<and> ev_severity ev \<in> {1, 2, 3})"
proof (cases "sn_vol_realized s = None \<or> realized prior = [] \<or> length (realized prior) < nat (vol_spike_window cfg)")
  case True
  then show ?thesis using assms
    by (auto simp: check_vol_spike_def stored_def event_view_def events_config_ok_def split: option.split)
next
  case False
  let ?w = "vol_spike_window cfg"
  let ?h = "last_n (nat ?w) (realized prior)"
  obtain v where v: "sn_vol_realized s = Some v" using False by auto
  have w: "1 \<le> ?w" "?w \<le> 2 ^ 53" "Fin 1 \<le> vol_spike_multiplier cfg"
    using assms(2) by (auto simp: events_config_ok_def)
  have len: "length ?h = nat ?w" using False by simp
  have "?h \<noteq> []"
  proof
    assume "?h = []"
    then have "nat ?w = 0" using len by (simp only: list.size)
    then show False using w(1) by simp
  qed
  moreover have "int (length ?h) \<le> 2 ^ 53" unfolding len using w by simp
  ultimately obtain b where b: "mean_of ?h = Inr b" using mean_of_total by blast
  show ?thesis
  proof (cases "b \<le> Fin 0")
    case True
    then show ?thesis using assms False v b len w
      by (auto simp: check_vol_spike_def stored_def event_view_def)
  next
    case nz: False
    have "\<exists>r. fdiv v (b * vol_spike_multiplier cfg) = Inr r" if "b * vol_spike_multiplier cfg \<le> v"
    proof (cases "b = NaN")
      case True
      then show ?thesis using that by simp
    next
      case False
      have "is_dbl b" using b by (auto simp: mean_of_def div_int_def fdiv_def rbind_eq_Inr split: if_splits)
      moreover have "Fin 0 < b" using nz False by (cases b) auto
      ultimately show ?thesis using product_not_zero [OF _ w(3)] by (auto simp: fdiv_def feq_def)
    qed
    then show ?thesis using assms False v b len w nz severity_range
      by (auto simp: check_vol_spike_def stored_def event_view_def set_spike_def Let_def simp del: insert_iff)
  qed
qed

lemma update_history_inv:
  fixes s :: indicator_snapshot and e :: event_engine
  assumes "fst (event_view sid e) = (stored (breakout_window cfg) (map sn_high prior),
      stored (breakout_window cfg) (map sn_low prior), stored (pump_dump_window cfg) (map sn_close prior),
      stored (vol_spike_window cfg) (realized prior))" "events_config_ok cfg"
  shows "\<exists>e'. update_history cfg sid s e = (Inr (), e') \<and> event_view sid e' =
    ((stored (breakout_window cfg) (map sn_high (prior @ [s])),
      stored (breakout_window cfg) (map sn_low (prior @ [s])), stored (pump_dump_window cfg) (map sn_close (prior @ [s])),
      stored (vol_spike_window cfg) (realized (prior @ [s]))), snd (event_view sid e))"
proof -
  have w: "0 \<le> breakout_window cfg" "0 \<le> pump_dump_window cfg" "0 \<le> vol_spike_window cfg"
    using assms(2) by (auto simp: events_config_ok_def)
  show ?thesis
    using assms(1) push_stored [OF w(1)] push_stored [OF w(2)] push_stored [OF w(3)]
    by (cases "sn_vol_realized s")
      (auto simp: update_history_def event_view_def Let_def stored_snoc realized_snoc)
qed

lemma event_types:
  fixes bn bb :: breakout_phase and pn pb :: pump_phase
  assumes "ts = (if bn = bb \<or> bn = BNone then [] else [if bn = BUp then Breakout else Breakdown]) @
      (if pn = pb \<or> pn = PNone then [] else [if pn = PPump then Pump else Dump]) @ v"
    "v = [] \<or> v = [VolSpike]"
  shows "distinct ts" "Breakout \<in> set ts \<longleftrightarrow> bn = BUp \<and> bb \<noteq> BUp" "Breakdown \<in> set ts \<longleftrightarrow> bn = BDown \<and> bb \<noteq> BDown"
    "Pump \<in> set ts \<longleftrightarrow> pn = PPump \<and> pb \<noteq> PPump" "Dump \<in> set ts \<longleftrightarrow> pn = PDump \<and> pb \<noteq> PDump"
  using assms(2) unfolding assms(1) by (cases bn; cases bb; cases pn; cases pb; auto)+

text \<open>One evaluation: what it answers and what it keeps.\<close>

lemma evaluate_events_history:
  fixes s :: indicator_snapshot and e :: event_engine
  assumes "event_inv cfg prior (event_view sid e)" "events_config_ok cfg"
    "\<forall>x \<in> set prior. snap_ok x" "snap_ok s"
  shows "event_inv cfg (prior @ [s]) (event_view sid (snd (evaluate_events cfg sid s e))) \<and>
    event_good cfg prior s (fst (evaluate_events cfg sid s e))"
proof -
  let ?bn = "breakout_phase_at (breakout_window cfg) prior s"
  let ?bb = "since (breakout_phase_at (breakout_window cfg)) BNone prior"
  let ?pn = "pump_phase_at cfg prior s" and ?pb = "since (pump_phase_at cfg) PNone prior"
  obtain o1 e1 where 1: "check_breakout cfg sid s e = (Inr o1, e1)"
    "event_view sid e1 = (fst (event_view sid e), (ee_breakout e1 sid, ee_pump e sid, ee_spike e sid))"
    "get_or BNone (ee_breakout e1 sid) = ?bn" "o1 = None \<longleftrightarrow> ?bn = ?bb \<or> ?bn = BNone"
    "\<forall>ev. o1 = Some ev \<longrightarrow> ev_type ev = (if ?bn = BUp then Breakout else Breakdown) \<and>
       ev_price ev = sn_close s \<and> ev_severity ev \<in> {1, 2, 3}"
    using check_breakout_history [OF assms(1-3)] by blast
  have pe: "ee_pump e1 sid = ee_pump e sid" "fst (event_view sid e1) = fst (event_view sid e)"
    using 1(2) by (auto simp: event_view_def)
  have "event_inv cfg prior (fst (event_view sid e), (ee_breakout e sid, ee_pump e1 sid, ee_spike e sid))"
    using assms(1) pe by (simp add: event_view_def)
  then obtain o2 e2 where 2: "check_pump_dump cfg sid s e1 = (Inr o2, e2)"
    "event_view sid e2 = (fst (event_view sid e), (ee_breakout e1 sid, ee_pump e2 sid, ee_spike e1 sid))"
    "get_or PNone (ee_pump e2 sid) = ?pn" "o2 = None \<longleftrightarrow> ?pn = ?pb \<or> ?pn = PNone"
    "\<forall>ev. o2 = Some ev \<longrightarrow> ev_type ev = (if ?pn = PPump then Pump else Dump) \<and>
       ev_price ev = sn_close s \<and> ev_severity ev \<in> {1, 2, 3}"
    using check_pump_dump_history [OF _ pe(2) assms(2-4)] by blast
  have hist: "fst (event_view sid e2) = (stored (breakout_window cfg) (map sn_high prior),
      stored (breakout_window cfg) (map sn_low prior), stored (pump_dump_window cfg) (map sn_close prior),
      stored (vol_spike_window cfg) (realized prior))"
    using assms(1) 2(2) by (simp add: event_inv_def event_view_def)
  then have "ee_vols e2 sid = stored (vol_spike_window cfg) (realized prior)" by (simp add: event_view_def)
  then obtain o3 e3 where 3: "check_vol_spike cfg sid s e2 = (Inr o3, e3)"
    "event_view sid e3 = (fst (event_view sid e2), (ee_breakout e2 sid, ee_pump e2 sid, ee_spike e3 sid))"
    "\<forall>ev. o3 = Some ev \<longrightarrow> ev_type ev = VolSpike \<and> ev_severity ev \<in> {1, 2, 3}"
    using check_vol_spike_history [OF _ assms(2)] by blast
  obtain e4 where 4: "update_history cfg sid s e3 = (Inr (), e4)"
    "event_view sid e4 = ((stored (breakout_window cfg) (map sn_high (prior @ [s])),
      stored (breakout_window cfg) (map sn_low (prior @ [s])), stored (pump_dump_window cfg) (map sn_close (prior @ [s])),
      stored (vol_spike_window cfg) (realized (prior @ [s]))), snd (event_view sid e3))"
    using update_history_inv [OF _ assms(2), of sid e3 prior s] 3(2) hist by auto
  have ev: "evaluate_events cfg sid s e = (Inr (opt_list o1 @ opt_list o2 @ opt_list o3), e4)"
    by (simp add: evaluate_events_def 1(1) 2(1) 3(1) 4(1))
  have "ee_breakout e2 sid = ee_breakout e1 sid" using 2(2) by (simp add: event_view_def)
  then have "event_inv cfg (prior @ [s]) (event_view sid e4)"
    unfolding event_inv_def 4(2) 3(2) using 1(3) 2(3) by simp
  moreover have "event_good cfg prior s (Inr (opt_list o1 @ opt_list o2 @ opt_list o3))"
  proof -
    let ?evs = "opt_list o1 @ opt_list o2 @ opt_list o3"
    have "map ev_type (opt_list o1) =
        (if ?bn = ?bb \<or> ?bn = BNone then [] else [if ?bn = BUp then Breakout else Breakdown])"
      using 1(4,5) by (cases o1) auto
    moreover have "map ev_type (opt_list o2) =
        (if ?pn = ?pb \<or> ?pn = PNone then [] else [if ?pn = PPump then Pump else Dump])"
      using 2(4,5) by (cases o2) auto
    ultimately have t: "map ev_type ?evs =
      (if ?bn = ?bb \<or> ?bn = BNone then [] else [if ?bn = BUp then Breakout else Breakdown]) @
      (if ?pn = ?pb \<or> ?pn = PNone then [] else [if ?pn = PPump then Pump else Dump]) @ map ev_type (opt_list o3)"
      by simp
    have v: "map ev_type (opt_list o3) = [] \<or> map ev_type (opt_list o3) = [VolSpike]"
      using 3(3) by (cases o3) auto
    let ?ok = "\<lambda>ev. ev_severity ev \<in> {1, 2, 3} \<and> (ev_type ev \<noteq> VolSpike \<longrightarrow> ev_price ev = sn_close s)"
    have "\<forall>ev \<in> set (opt_list o1). ?ok ev" using 1(5) by (cases o1) auto
    moreover have "\<forall>ev \<in> set (opt_list o2). ?ok ev" using 2(5) by (cases o2) auto
    moreover have "\<forall>ev \<in> set (opt_list o3). ?ok ev" using 3(3) by (cases o3) auto
    ultimately have sev: "\<forall>ev \<in> set ?evs. ?ok ev" by (simp only: set_append ball_Un)
    have em: "emits_event k (Inr ?evs) \<longleftrightarrow> k \<in> set (map ev_type ?evs)" for k
      by (simp add: emits_event_def image_Un)
    show ?thesis
      unfolding event_good_def Let_def em by (intro conjI exI [of _ ?evs] refl event_types [OF t v] sev)
  qed
  ultimately show ?thesis using ev by simp
qed

interpretation event_history: keyed_history "event_upd cfg" event_view
    "\<lambda>h v. event_inv cfg h v \<and> events_config_ok cfg" snap_ok "event_good cfg" for cfg
  by unfold_locales (auto simp: event_upd_def dest: evaluate_events_history)

lemma event_inv_new: "event_inv cfg [] (event_view sid event_engine_new)"
  by (simp add: event_inv_def event_view_def event_engine_new_def stored_def realized_def map_filter_def)



section \<open>Properties\<close>

text \<open>
  C33: breakouts. Under settings that cannot raise and over real prices, whatever snapshots of any
  symbols came before, the next snapshot of a symbol emits a breakout exactly if its close is above
  every high of the last \<open>breakout_window\<close> snapshots of that symbol, the window is full, and the
  previous snapshot of the symbol was not above its own window: one event per crossing, judged
  against a window that excludes the candle itself. A breakdown is the mirror image on the lows.
\<close>

theorem breakout_on_rising_edge:
  assumes "events_config_ok cfg" "\<forall>x \<in> set (own sid ins). snap_ok x" "snap_ok s"
  defines "prior \<equiv> own sid ins" and "w \<equiv> breakout_window cfg"
  shows "(emits_event Breakout (fst (event_upd cfg (sid, s) (snd (run_all (event_upd cfg) ins event_engine_new))))
      \<longleftrightarrow> above w prior s \<and> \<not> (prior \<noteq> [] \<and> above w (butlast prior) (last prior))) \<and>
    (emits_event Breakdown (fst (event_upd cfg (sid, s) (snd (run_all (event_upd cfg) ins event_engine_new))))
      \<longleftrightarrow> (below w prior s \<and> \<not> above w prior s) \<and>
        \<not> (prior \<noteq> [] \<and> below w (butlast prior) (last prior) \<and> \<not> above w (butlast prior) (last prior)))"
  using event_history.run_good [of cfg sid event_engine_new ins s] assms event_inv_new
  by (auto simp: event_good_def Let_def breakout_phase_at_def since_def)

text \<open>
  C26: pumps and dumps. Under the same conditions the next snapshot emits a pump exactly if the move
  from the close \<open>pump_dump_window\<close> snapshots of the symbol ago is at least the configured percentage
  and the previous snapshot of the symbol had no such move; a dump is the same for falling prices.
\<close>

theorem pump_on_rising_edge:
  assumes "events_config_ok cfg" "\<forall>x \<in> set (own sid ins). snap_ok x" "snap_ok s"
  defines "prior \<equiv> own sid ins" and "w \<equiv> pump_dump_window cfg"
  defines "pumped \<equiv> (\<lambda>h x. nat w \<le> length h \<and> pump_dump_pct cfg \<le> move_pct w h x)"
    and "dumped \<equiv> (\<lambda>h x. nat w \<le> length h \<and> \<not> pump_dump_pct cfg \<le> move_pct w h x \<and>
       move_pct w h x \<le> - pump_dump_pct cfg)"
  shows "(emits_event Pump (fst (event_upd cfg (sid, s) (snd (run_all (event_upd cfg) ins event_engine_new))))
      \<longleftrightarrow> pumped prior s \<and> \<not> (prior \<noteq> [] \<and> pumped (butlast prior) (last prior))) \<and>
    (emits_event Dump (fst (event_upd cfg (sid, s) (snd (run_all (event_upd cfg) ins event_engine_new))))
      \<longleftrightarrow> dumped prior s \<and> \<not> (prior \<noteq> [] \<and> dumped (butlast prior) (last prior)))"
  using event_history.run_good [of cfg sid event_engine_new ins s] assms event_inv_new
  by (auto simp: event_good_def Let_def pump_phase_at_def since_def not_le)

text \<open>
  No check raises. Under the same conditions the evaluation returns, with at most one event of
  each type, a severity of 1, 2 or 3 each, and breakout, breakdown, pump and dump events carry the
  close of the candle as their price.
\<close>

lemma events_never_raise:
  assumes "events_config_ok cfg" "\<forall>x \<in> set (own sid ins). snap_ok x" "snap_ok s"
  shows "\<exists>evs. fst (event_upd cfg (sid, s) (snd (run_all (event_upd cfg) ins event_engine_new))) = Inr evs \<and>
    distinct (map ev_type evs) \<and>
    (\<forall>ev \<in> set evs. ev_severity ev \<in> {1, 2, 3} \<and> (ev_type ev \<noteq> VolSpike \<longrightarrow> ev_price ev = sn_close s))"
  using event_history.run_good [of cfg sid event_engine_new ins s] assms event_inv_new
  by (simp add: event_good_def)

text \<open>A breakout window of 0 is accepted by the settings, but the maximum of the empty window raises.\<close>

lemma zero_window_step:
  assumes "breakout_window cfg = 0" "ee_highs e sid = Some (Deque 0 [])" "ee_lows e sid = Some (Deque 0 [])"
  shows "event_upd cfg (sid, s) e = (Inl ValueError, e)"
  using assms by (simp add: event_upd_def evaluate_events_def check_breakout_def Let_def pymax_list_def)

lemma zero_window_run:
  assumes "breakout_window cfg = 0" "ee_highs e sid = Some (Deque 0 [])" "ee_lows e sid = Some (Deque 0 [])"
  shows "fst (run_all (event_upd cfg) (map (Pair sid) ss) e) = replicate (length ss) (Inl ValueError)"
  using zero_window_step [OF assms] by (induction ss) (simp_all add: split_beta)

text \<open>
  With a breakout window of 0 the engine works for the first candle of a symbol only. Every later
  evaluation of the symbol raises \<open>ValueError\<close>.
\<close>

lemma zero_breakout_window_raises:
  assumes "breakout_window cfg = 0" "0 \<le> pump_dump_window cfg" "0 \<le> vol_spike_window cfg"
  shows "fst (run_all (event_upd cfg) (map (Pair sid) (s # ss)) event_engine_new) =
    Inr [] # replicate (length ss) (Inl ValueError)"
proof -
  obtain e where e: "event_upd cfg (sid, s) event_engine_new = (Inr [], e)"
    "ee_highs e sid = Some (Deque 0 [])" "ee_lows e sid = Some (Deque 0 [])"
    using assms by (cases "sn_vol_realized s")
      (auto simp: event_upd_def evaluate_events_def check_breakout_def check_pump_dump_def
        check_vol_spike_def event_engine_new_def update_history_def Let_def push_def deque_new_def deque_append_def)
  then show ?thesis using zero_window_run [OF assms(1) e(2,3)] by (simp add: split_beta)
qed


subsection \<open>Witnesses\<close>

definition price_snap :: "rat \<Rightarrow> indicator_snapshot" where
  "price_snap p = \<lparr>sn_close = Fin p, sn_high = Fin p, sn_low = Fin p, sn_volume = Fin 1,
     sn_ema_fast = None, sn_ema_slow = None, sn_ema_slow_prev = None, sn_rsi = None,
     sn_atr = None, sn_vol_realized = None, sn_vol_rel = None\<rparr>"

definition one_candle_settings :: settings where
  "one_candle_settings = default_settings\<lparr>breakout_window := 1, pump_dump_window := 1\<rparr>"

lemma one_candle_ok: "events_config_ok one_candle_settings" "0 < p \<Longrightarrow> snap_ok (price_snap p)"
  by (simp_all add: events_config_ok_def one_candle_settings_def default_settings_def snap_ok_def price_snap_def)

theorem breakout_on_rising_edge_witness:
  "emits_event Breakout (fst (event_upd one_candle_settings (1, price_snap 12)
     (snd (run_all (event_upd one_candle_settings) [(1, price_snap 10)] event_engine_new))))"
  using breakout_on_rising_edge [of one_candle_settings 1 "[(1, price_snap 10)]" "price_snap 12"]
  by (simp add: one_candle_ok above_def window_of_def last_n_def)
    (simp add: one_candle_settings_def default_settings_def price_snap_def)

theorem pump_on_rising_edge_witness:
  "emits_event Pump (fst (event_upd one_candle_settings (1, price_snap 12)
     (snd (run_all (event_upd one_candle_settings) [(1, price_snap 8)] event_engine_new))))"
proof -
  have "move_pct 1 [price_snap 8] (price_snap 12) = Fin 50"
    using to_dbl_endpoint [of "1 / 2"] endpoint_inverse_power [of 1]
    by (simp add: move_pct_def window_of_def last_n_def price_snap_def minus_pyfloat_def)
  then show ?thesis
    using pump_on_rising_edge [of one_candle_settings 1 "[(1, price_snap 8)]" "price_snap 12"]
    by (simp add: one_candle_ok) (simp add: one_candle_settings_def default_settings_def)
qed

lemma events_never_raise_witness:
  "\<exists>evs. fst (event_upd one_candle_settings (1, price_snap 12)
     (snd (run_all (event_upd one_candle_settings) [(1, price_snap 10)] event_engine_new))) = Inr evs"
  using events_never_raise [of one_candle_settings 1 "[(1, price_snap 10)]" "price_snap 12"]
  by (auto simp: one_candle_ok)

lemma zero_breakout_window_raises_witness:
  "fst (run_all (event_upd (default_settings\<lparr>breakout_window := 0\<rparr>)) (map (Pair 1) [price_snap 10, price_snap 12])
     event_engine_new) = [Inr [], Inl ValueError]"
  using zero_breakout_window_raises [of "default_settings\<lparr>breakout_window := 0\<rparr>" 1 "price_snap 10" "[price_snap 12]"]
  by (simp add: default_settings_def)

end
