(* ===== verification/Breadth.thy ===== *)
theory Breadth
  imports Market
begin

text \<open>
  \<^verbatim>\<open>src/orvixa/symbols/breadth.py\<close> and the \<^verbatim>\<open>BreadthSnapshot\<close> of \<^verbatim>\<open>symbols/models.py\<close>: the
  whole-market breadth engine, a bounded price history per symbol and one tally per snapshot.
\<close>

record breadth_snapshot =
  bs_total :: int
  bs_advancers :: int
  bs_decliners :: int
  bs_unchanged :: int
  bs_ad_ratio :: pyfloat
  bs_pct_above_trend :: pyfloat
  bs_new_highs :: int
  bs_new_lows :: int

type_synonym price_history = "string \<Rightarrow> pyfloat deque option"

record breadth_engine =
  be_window :: int
  be_history :: price_history

definition min_trend_window :: int where
  "min_trend_window = 2"

definition breadth_engine_new :: "int \<Rightarrow> breadth_engine" where
  "breadth_engine_new trend_window = \<lparr>be_window = max min_trend_window trend_window, be_history = (\<lambda>_. None)\<rparr>"

text \<open>What one row adds to the counters.\<close>

record price_marks =
  mk_above :: bool
  mk_high :: bool
  mk_low :: bool

definition no_marks :: price_marks where
  "no_marks = \<lparr>mk_above = False, mk_high = False, mk_low = False\<rparr>"

definition note_price :: "int \<Rightarrow> string \<times> pyfloat \<Rightarrow> price_history \<Rightarrow> price_marks res \<times> price_history" where
  "note_price w i hs =
     (case i of (key, price) \<Rightarrow>
      attempt (deque_new w) hs (\<lambda>fresh.
        let d = get_or fresh (hs key); hs1 = hs(key \<mapsto> d); xs = items d in
        attempt (if xs = [] then Inr no_marks
                 else rbind (mean_of xs) (\<lambda>trend. rbind (pymax_list xs) (\<lambda>hi. rbind (pymin_list xs) (\<lambda>lo.
                   Inr \<lparr>mk_above = price > trend, mk_high = price > hi, mk_low = price < lo\<rparr>)))) hs1
          (\<lambda>m. (Inr m, hs1(key \<mapsto> deque_append d price)))))"

record tally =
  ty_advancers :: int
  ty_decliners :: int
  ty_unchanged :: int
  ty_above_trend :: int
  ty_new_highs :: int
  ty_new_lows :: int

definition tally_new :: tally where
  "tally_new = \<lparr>ty_advancers = 0, ty_decliners = 0, ty_unchanged = 0, ty_above_trend = 0,
     ty_new_highs = 0, ty_new_lows = 0\<rparr>"

definition count_direction :: "ticker_row \<Rightarrow> tally \<Rightarrow> tally" where
  "count_direction row t =
     (if tk_change_pct row > Fin 0 then t\<lparr>ty_advancers := ty_advancers t + 1\<rparr>
      else if tk_change_pct row < Fin 0 then t\<lparr>ty_decliners := ty_decliners t + 1\<rparr>
      else t\<lparr>ty_unchanged := ty_unchanged t + 1\<rparr>)"

definition count_marks :: "price_marks \<Rightarrow> tally \<Rightarrow> tally" where
  "count_marks m t =
     t\<lparr>ty_above_trend := ty_above_trend t + of_bool (mk_above m),
       ty_new_highs := ty_new_highs t + of_bool (mk_high m),
       ty_new_lows := ty_new_lows t + of_bool (mk_low m)\<rparr>"

fun count_rows :: "int \<Rightarrow> ticker_row list \<Rightarrow> tally \<Rightarrow> price_history \<Rightarrow> tally res \<times> price_history" where
  "count_rows w [] t hs = (Inr t, hs)"
| "count_rows w (row # rows) t hs =
     (let (r, hs1) = note_price w (tk_symbol row, tk_price row) hs in
      attempt r hs1 (\<lambda>m. count_rows w rows (count_marks m (count_direction row t)) hs1))"

definition breadth_update :: "ticker_row list \<Rightarrow> breadth_engine \<Rightarrow> breadth_snapshot res \<times> breadth_engine" where
  "breadth_update rows e =
     (let total = int (length rows);
          (r, hs) = count_rows (be_window e) rows tally_new (be_history e);
          e1 = e\<lparr>be_history := hs\<rparr>
      in attempt r e1 (\<lambda>t.
         attempt (if ty_decliners t \<noteq> 0 then int_div (ty_advancers t) (ty_decliners t)
                  else i2f (ty_advancers t)) e1 (\<lambda>ad_ratio.
         attempt (if total \<noteq> 0 then rbind (int_div (ty_above_trend t) total) (\<lambda>q. Inr (q * Fin 100))
                  else Inr (Fin 0)) e1 (\<lambda>pct.
           (Inr \<lparr>bs_total = total, bs_advancers = ty_advancers t, bs_decliners = ty_decliners t,
                 bs_unchanged = ty_unchanged t, bs_ad_ratio = ad_ratio, bs_pct_above_trend = pct,
                 bs_new_highs = ty_new_highs t, bs_new_lows = ty_new_lows t\<rparr>, e1)))))"


section \<open>The history of one symbol\<close>

definition price_view :: "string \<Rightarrow> price_history \<Rightarrow> pyfloat deque option" where
  "price_view key hs = hs key"

definition history_inv :: "int \<Rightarrow> pyfloat list \<Rightarrow> pyfloat deque option \<Rightarrow> bool" where
  "history_inv w h d \<longleftrightarrow> d = (if h = [] then None else Some (Deque (nat w) (last_n (nat w) h)))"

definition marks_good :: "int \<Rightarrow> pyfloat list \<Rightarrow> pyfloat \<Rightarrow> price_marks res \<Rightarrow> bool" where
  "marks_good w h price out \<longleftrightarrow>
     (\<exists>m. out = Inr m \<and>
        (mk_high m \<longleftrightarrow> h \<noteq> [] \<and> (\<forall>p \<in> set (last_n (nat w) h). p < price)) \<and>
        (mk_low m \<longleftrightarrow> h \<noteq> [] \<and> (\<forall>p \<in> set (last_n (nat w) h). price < p)) \<and>
        (mk_above m \<longleftrightarrow> h \<noteq> [] \<and> (\<exists>mean. mean_of (last_n (nat w) h) = Inr mean \<and> mean < price)))"

lemma note_price_other: "key' \<noteq> fst i \<Longrightarrow> snd (note_price w i hs) key' = hs key'"
  by (auto simp: note_price_def Let_def attempt_def split: prod.split sum.split)

lemma note_price_local:
  "hs (fst i) = hs' (fst i) \<Longrightarrow> fst (note_price w i hs) = fst (note_price w i hs') \<and>
    snd (note_price w i hs) (fst i) = snd (note_price w i hs') (fst i)"
  by (auto simp: note_price_def Let_def attempt_def split: prod.split sum.split)

lemma last_n_nonempty: "1 \<le> m \<Longrightarrow> h \<noteq> [] \<Longrightarrow> last_n m h \<noteq> []"
  by (cases h) (auto simp: last_n_def)

lemma note_price_step:
  assumes "history_inv w h (hs key)" "2 \<le> w" "w \<le> 2 ^ 53" "\<forall>p \<in> set h. p \<noteq> NaN"
  shows "history_inv w (h @ [price]) (snd (note_price w (key, price) hs) key) \<and>
    marks_good w h price (fst (note_price w (key, price) hs))"
proof (cases "h = []")
  case True
  then show ?thesis using assms
    by (simp add: history_inv_def marks_good_def note_price_def deque_new_def no_marks_def deque_append_def Let_def)
next
  case False
  let ?xs = "last_n (nat w) h"
  have ne: "?xs \<noteq> []" using False assms(2) by (intro last_n_nonempty) auto
  have "\<forall>p \<in> set ?xs. p \<noteq> NaN" using assms(4) set_last_n by fastforce
  note mm = pymax_list_less [OF ne this] pymin_list_less [OF ne this]
  have "length ?xs \<le> nat w" by simp
  then have "int (length ?xs) \<le> 2 ^ 53" using assms(2,3) by linarith
  then obtain mean where mean: "mean_of ?xs = Inr mean" using mean_of_total [OF ne] by blast
  have d: "hs key = Some (Deque (nat w) ?xs)" using assms(1) False by (simp add: history_inv_def)
  show ?thesis
    using mm mean d ne False assms(2)
    by (auto simp: history_inv_def marks_good_def note_price_def deque_new_def Let_def deque_append_def
        last_n_snoc_last_n)
qed

interpretation price_keyed: keyed "note_price w" price_view for w
  by unfold_locales (auto simp: price_view_def note_price_other dest: note_price_local)

interpretation price_log: keyed_history "note_price w" price_view
    "\<lambda>h d. history_inv w h d \<and> 2 \<le> w \<and> w \<le> 2 ^ 53" "\<lambda>p. p \<noteq> NaN" "marks_good w" for w
  by unfold_locales (use note_price_step in \<open>fastforce simp: price_view_def\<close>)+


section \<open>The counters of one snapshot\<close>

definition price_of :: "ticker_row \<Rightarrow> string \<times> pyfloat" where
  "price_of row = (tk_symbol row, tk_price row)"

definition mark_count :: "(price_marks \<Rightarrow> bool) \<Rightarrow> price_marks res list \<Rightarrow> int" where
  "mark_count f outs = int (length (filter (\<lambda>r. case r of Inr m \<Rightarrow> f m | Inl e \<Rightarrow> False) outs))"

lemma count_rows_run:
  assumes "\<forall>out \<in> set (fst (run_all (note_price w) (map price_of rows) hs)). \<exists>m. out = Inr m"
  shows "\<exists>t'. count_rows w rows t hs = (Inr t', snd (run_all (note_price w) (map price_of rows) hs)) \<and>
    ty_advancers t' = ty_advancers t + int (length (filter (\<lambda>r. tk_change_pct r > Fin 0) rows)) \<and>
    ty_decliners t' = ty_decliners t + int (length (filter (\<lambda>r. tk_change_pct r < Fin 0) rows)) \<and>
    ty_advancers t' + ty_decliners t' + ty_unchanged t' =
      ty_advancers t + ty_decliners t + ty_unchanged t + int (length rows) \<and> ty_unchanged t \<le> ty_unchanged t' \<and>
    (let outs = fst (run_all (note_price w) (map price_of rows) hs) in
      ty_above_trend t' = ty_above_trend t + mark_count mk_above outs \<and>
      ty_new_highs t' = ty_new_highs t + mark_count mk_high outs \<and>
      ty_new_lows t' = ty_new_lows t + mark_count mk_low outs)"
  using assms
proof (induction rows arbitrary: t hs)
  case Nil
  then show ?case by (simp add: mark_count_def)
next
  case (Cons row rows)
  obtain r hs1 where n: "note_price w (price_of row) hs = (r, hs1)" by fastforce
  then obtain m where m: "r = Inr m" using Cons.prems by (auto simp: split_beta)
  let ?t = "count_marks m (count_direction row t)"
  have up: "\<not> (tk_change_pct row > Fin 0 \<and> tk_change_pct row < Fin 0)" by (cases "tk_change_pct row") auto
  have "\<forall>out \<in> set (fst (run_all (note_price w) (map price_of rows) hs1)). \<exists>m. out = Inr m"
    using Cons.prems n by (auto simp: split_beta)
  from Cons.IH [OF this, of ?t] show ?case
    using n m up by (auto simp: split_beta Let_def price_of_def count_marks_def count_direction_def mark_count_def)
qed

definition row_ok :: "ticker_row \<Rightarrow> bool" where
  "row_ok r \<longleftrightarrow> tk_price r \<noteq> NaN"

definition noted :: "int \<Rightarrow> ticker_row list \<Rightarrow> price_history" where
  "noted w rows = snd (run_all (note_price w) (map price_of rows) (\<lambda>_. None))"

lemma noted_append: "noted w (rows @ rest) = snd (run_all (note_price w) (map price_of rest) (noted w rows))"
  by (simp add: noted_def run_all_append split_beta)

lemma own_ok: "\<forall>r \<in> set rows. row_ok r \<Longrightarrow> \<forall>p \<in> set (own key (map price_of rows)). p \<noteq> NaN"
  by (fastforce simp: set_own price_of_def row_ok_def)

text \<open>Every row's marks are those of the history of its symbol, over all rows seen so far.\<close>

lemma marks_of_row:
  assumes "\<forall>r \<in> set (seen @ rows). row_ok r" "2 \<le> w" "w \<le> 2 ^ 53" "i < length rows"
  shows "marks_good w (own (tk_symbol (rows ! i)) (map price_of (seen @ take i rows))) (tk_price (rows ! i))
    (fst (run_all (note_price w) (map price_of rows) (noted w seen)) ! i)"
proof -
  have eq: "fst (run_all (note_price w) (map price_of rows) (noted w seen)) ! i =
      fst (note_price w (price_of (rows ! i)) (noted w (seen @ take i rows)))"
    using assms(4) by (simp add: run_all_nth noted_append take_map)
  have "\<forall>r \<in> set (seen @ take i rows). row_ok r" using assms(1) by (auto dest: in_set_takeD)
  then have ok: "\<forall>p \<in> set (own (tk_symbol (rows ! i)) (map price_of (seen @ take i rows))). p \<noteq> NaN"
    by (rule own_ok)
  have "tk_price (rows ! i) \<noteq> NaN" using assms(1,4) by (auto simp: row_ok_def)
  then show ?thesis
    unfolding eq unfolding noted_def price_of_def [of "rows ! i"]
    using price_log.run_good [of w "tk_symbol (rows ! i)" "\<lambda>_. None" "map price_of (seen @ take i rows)"
        "tk_price (rows ! i)"] ok assms(2,3) by (simp add: history_inv_def price_view_def)
qed

lemma marks_good_cases:
  assumes "marks_good w h price out"
  shows "\<exists>m. out = Inr m \<and> (mk_high m \<longleftrightarrow> h \<noteq> [] \<and> (\<forall>p \<in> set (last_n (nat w) h). p < price))"
    "\<exists>m. out = Inr m \<and> (mk_low m \<longleftrightarrow> h \<noteq> [] \<and> (\<forall>p \<in> set (last_n (nat w) h). price < p))"
  using assms by (auto simp: marks_good_def)

lemma marks_good_Inr: "marks_good w h price out \<Longrightarrow> \<exists>m. out = Inr m"
  by (auto simp: marks_good_def)

lemma marks_total:
  assumes "\<forall>r \<in> set (seen @ rows). row_ok r" "2 \<le> w" "w \<le> 2 ^ 53"
  shows "\<forall>out \<in> set (fst (run_all (note_price w) (map price_of rows) (noted w seen))). \<exists>m. out = Inr m"
proof
  fix out
  assume "out \<in> set (fst (run_all (note_price w) (map price_of rows) (noted w seen)))"
  then obtain i where "i < length rows" "out = fst (run_all (note_price w) (map price_of rows) (noted w seen)) ! i"
    unfolding in_set_conv_nth run_all_length length_map by blast
  then show "\<exists>m. out = Inr m" using marks_of_row [OF assms] marks_good_Inr by blast
qed

definition breadth_window :: "int \<Rightarrow> int" where
  "breadth_window tw = max min_trend_window tw"

lemma breadth_run_history:
  assumes "\<forall>r \<in> set (concat batches). row_ok r" "tw \<le> 2 ^ 53"
  shows "snd (run_all breadth_update batches (breadth_engine_new tw)) =
    \<lparr>be_window = breadth_window tw, be_history = noted (breadth_window tw) (concat batches)\<rparr>"
  using assms(1)
proof (induction batches rule: rev_induct)
  case Nil
  then show ?case by (simp add: breadth_engine_new_def breadth_window_def noted_def)
next
  case (snoc rows batches)
  let ?w = "breadth_window tw"
  have w: "2 \<le> ?w" "?w \<le> 2 ^ 53" using assms(2) by (auto simp: breadth_window_def min_trend_window_def)
  have "\<forall>r \<in> set (concat batches @ rows). row_ok r" using snoc.prems by auto
  from count_rows_run [OF marks_total [OF this w], of tally_new]
  obtain t where "count_rows ?w rows tally_new (noted ?w (concat batches)) =
      (Inr t, noted ?w (concat batches @ rows))" by (auto simp: noted_append)
  then show ?case
    using snoc by (simp add: run_all_snoc_state breadth_update_def Let_def attempt_def split: sum.split)
qed


section \<open>Properties\<close>

lemma mark_count_nth:
  assumes "length outs = n" "\<And>i. i < n \<Longrightarrow> \<exists>m. outs ! i = Inr m \<and> (f m \<longleftrightarrow> P i)"
  shows "mark_count f outs = int (length (filter P [0..<n]))"
proof -
  have "outs = map (\<lambda>i. outs ! i) [0..<n]" using assms(1) by (auto intro: nth_equalityI)
  then have "filter (\<lambda>r. case r of Inr m \<Rightarrow> f m | Inl e \<Rightarrow> False) outs =
      map (\<lambda>i. outs ! i) (filter (\<lambda>i. case outs ! i of Inr m \<Rightarrow> f m | Inl e \<Rightarrow> False) [0..<n])"
    by (metis (no_types, lifting) comp_apply filter_cong filter_map)
  moreover have "filter (\<lambda>i. case outs ! i of Inr m \<Rightarrow> f m | Inl e \<Rightarrow> False) [0..<n] = filter P [0..<n]"
    using assms(2) by (intro filter_cong) fastforce+
  ultimately show ?thesis by (simp add: mark_count_def)
qed

lemma mark_count_bounds: "0 \<le> mark_count f outs" "mark_count f outs \<le> int (length outs)"
  by (simp_all add: mark_count_def)

lemma int_div_range:
  assumes "0 \<le> a" "a \<le> b" "0 < b"
  shows "\<exists>q. int_div a b = Inr q \<and> in_range 0 1 q"
proof -
  have "in_range 0 1 (to_dbl (of_int a / of_int b))" using assms by (intro to_dbl_in_range) auto
  then show ?thesis using assms by (auto simp: int_div_def in_range_def)
qed

lemma int_div_small:
  assumes "0 \<le> a" "a \<le> 2 ^ 53" "0 < b"
  shows "\<exists>q. int_div a b = Inr q \<and> in_range 0 (2 ^ 53) q"
proof -
  have "(of_int a :: rat) \<le> of_int (2 ^ 53)" using assms(2) by (simp only: of_int_le_iff)
  moreover have "(of_int a :: rat) / of_int b \<le> of_int a" using assms by (simp add: field_simps mult_le_cancel_left1)
  ultimately have "in_range 0 (2 ^ 53) (to_dbl (of_int a / of_int b))"
    using assms endpoint_power [of 53] by (intro to_dbl_in_range) auto
  then show ?thesis using assms by (auto simp: int_div_def in_range_def)
qed

text \<open>What an update answers after any batches.\<close>

lemma breadth_update_after:
  assumes "\<forall>r \<in> set (concat batches @ rows). row_ok r" "tw \<le> 2 ^ 53" "int (length rows) \<le> 2 ^ 53"
  defines "w \<equiv> breadth_window tw" and "seen \<equiv> concat batches"
  shows "\<exists>b. fst (breadth_update rows (snd (run_all breadth_update batches (breadth_engine_new tw)))) = Inr b \<and>
    bs_total b = int (length rows) \<and> bs_advancers b + bs_decliners b + bs_unchanged b = bs_total b \<and>
    0 \<le> bs_unchanged b \<and>
    bs_advancers b = int (length (filter (\<lambda>r. tk_change_pct r > Fin 0) rows)) \<and>
    bs_decliners b = int (length (filter (\<lambda>r. tk_change_pct r < Fin 0) rows)) \<and>
    in_range 0 100 (bs_pct_above_trend b) \<and> in_range 0 (2 ^ 53) (bs_ad_ratio b) \<and>
    (let outs = fst (run_all (note_price w) (map price_of rows) (noted w seen)) in
      bs_new_highs b = mark_count mk_high outs \<and> bs_new_lows b = mark_count mk_low outs)"
proof -
  have w: "2 \<le> w" "w \<le> 2 ^ 53" using assms(2) by (auto simp: w_def breadth_window_def min_trend_window_def)
  have ok: "\<forall>r \<in> set (concat batches). row_ok r" using assms(1) by auto
  obtain t where t: "count_rows w rows tally_new (noted w seen) = (Inr t, noted w (seen @ rows))"
    "ty_advancers t = int (length (filter (\<lambda>r. tk_change_pct r > Fin 0) rows))"
    "ty_decliners t = int (length (filter (\<lambda>r. tk_change_pct r < Fin 0) rows))"
    "ty_advancers t + ty_decliners t + ty_unchanged t = int (length rows)" "0 \<le> ty_unchanged t"
    "(let outs = fst (run_all (note_price w) (map price_of rows) (noted w seen)) in
      ty_above_trend t = mark_count mk_above outs \<and>
      ty_new_highs t = mark_count mk_high outs \<and> ty_new_lows t = mark_count mk_low outs)"
    using count_rows_run [OF marks_total [OF assms(1) w], of tally_new]
    by (auto simp: noted_append tally_new_def seen_def)
  let ?above = "ty_above_trend t"
  have above: "0 \<le> ?above" "?above \<le> int (length rows)"
    using t(6) mark_count_bounds [of mk_above "fst (run_all (note_price w) (map price_of rows) (noted w seen))"]
    by (simp_all add: Let_def)
  have adv: "0 \<le> ty_advancers t" "ty_advancers t \<le> 2 ^ 53" "0 \<le> ty_decliners t"
    using t(2-5) assms(3) by auto
  have "\<exists>ad. (if ty_decliners t \<noteq> 0 then int_div (ty_advancers t) (ty_decliners t) else i2f (ty_advancers t)) = Inr ad
      \<and> in_range 0 (2 ^ 53) ad"
  proof (cases "ty_decliners t = 0")
    case True
    have "(of_int (ty_advancers t) :: rat) \<le> of_int (2 ^ 53)" using adv by (simp only: of_int_le_iff)
    then show ?thesis using True adv endpoint_of_int [of "ty_advancers t"] by (simp add: in_range_Fin)
  next
    case False
    then show ?thesis using adv int_div_small [of "ty_advancers t" "ty_decliners t"] by auto
  qed
  then obtain ad where ad: "(if ty_decliners t \<noteq> 0 then int_div (ty_advancers t) (ty_decliners t)
      else i2f (ty_advancers t)) = Inr ad" "in_range 0 (2 ^ 53) ad" by blast
  have "\<exists>pct. (if rows \<noteq> [] then rbind (int_div ?above (int (length rows))) (\<lambda>q. Inr (q * Fin 100))
      else Inr (Fin 0)) = Inr pct \<and> in_range 0 100 pct"
  proof (cases "rows = []")
    case True
    then show ?thesis by (simp add: in_range_Fin)
  next
    case False
    then obtain q where q: "int_div ?above (int (length rows)) = Inr q" "in_range 0 1 q"
      using int_div_range [of ?above "int (length rows)"] above by auto
    obtain x where x: "q = Fin x" "0 \<le> x" "x \<le> 1" using q(2) by (auto simp: in_range_def)
    have "in_range 0 100 (to_dbl (x * 100))" using x by (intro to_dbl_in_range) auto
    then show ?thesis using False q(1) x(1) by simp
  qed
  then obtain pct where pct: "(if rows \<noteq> [] then rbind (int_div ?above (int (length rows)))
      (\<lambda>q. Inr (q * Fin 100)) else Inr (Fin 0)) = Inr pct" "in_range 0 100 pct" by blast
  have "fst (breadth_update rows \<lparr>be_window = w, be_history = noted w seen\<rparr>) =
    Inr \<lparr>bs_total = int (length rows), bs_advancers = ty_advancers t, bs_decliners = ty_decliners t,
         bs_unchanged = ty_unchanged t, bs_ad_ratio = ad, bs_pct_above_trend = pct,
         bs_new_highs = ty_new_highs t, bs_new_lows = ty_new_lows t\<rparr>"
    by (simp add: breadth_update_def t(1) ad(1) pct(1) Let_def split del: if_split)
  then show ?thesis
    using t(2-6) ad(2) pct(2) breadth_run_history [OF ok assms(2)] by (simp add: w_def seen_def Let_def)
qed

text \<open>
  C34: breadth counts. Whatever snapshots came before, for a snapshot without NaN prices the update
  returns; advancers, decliners and unchanged rows add up to the number of rows, the percentage above
  trend is a double between 0 and 100, and the advance / decline ratio a finite non-negative one,
  also when there are no decliners.
\<close>

theorem breadth_counts:
  assumes "\<forall>r \<in> set (concat batches @ rows). row_ok r" "tw \<le> 2 ^ 53" "int (length rows) \<le> 2 ^ 53"
  shows "\<exists>b. fst (breadth_update rows (snd (run_all breadth_update batches (breadth_engine_new tw)))) = Inr b \<and>
    bs_total b = int (length rows) \<and> bs_advancers b + bs_decliners b + bs_unchanged b = bs_total b \<and>
    0 \<le> bs_unchanged b \<and>
    bs_advancers b = int (length (filter (\<lambda>r. tk_change_pct r > Fin 0) rows)) \<and>
    bs_decliners b = int (length (filter (\<lambda>r. tk_change_pct r < Fin 0) rows)) \<and>
    in_range 0 100 (bs_pct_above_trend b) \<and> in_range 0 (2 ^ 53) (bs_ad_ratio b)"
  using breadth_update_after [OF assms] by (auto simp: Let_def)

text \<open>
  New highs and lows. They count the rows whose price is above (below) every one of the last
  \<open>max 2 trend_window\<close> prices of the same symbol in all rows before, of this and of earlier snapshots;
  the first row of a symbol counts as neither.
\<close>

lemma new_highs_and_lows:
  assumes "\<forall>r \<in> set (concat batches @ rows). row_ok r" "tw \<le> 2 ^ 53" "int (length rows) \<le> 2 ^ 53"
  defines "prior \<equiv> (\<lambda>i. own (tk_symbol (rows ! i)) (map price_of (concat batches @ take i rows)))"
    and "m \<equiv> nat (max 2 tw)"
  shows "\<exists>b. fst (breadth_update rows (snd (run_all breadth_update batches (breadth_engine_new tw)))) = Inr b \<and>
    bs_new_highs b = int (length (filter (\<lambda>i. prior i \<noteq> [] \<and>
      (\<forall>p \<in> set (last_n m (prior i)). p < tk_price (rows ! i))) [0..<length rows])) \<and>
    bs_new_lows b = int (length (filter (\<lambda>i. prior i \<noteq> [] \<and>
      (\<forall>p \<in> set (last_n m (prior i)). tk_price (rows ! i) < p)) [0..<length rows]))"
proof -
  let ?w = "breadth_window tw"
  have w: "2 \<le> ?w" "?w \<le> 2 ^ 53" "m = nat ?w"
    using assms(2) by (auto simp: breadth_window_def min_trend_window_def m_def)
  let ?outs = "fst (run_all (note_price ?w) (map price_of rows) (noted ?w (concat batches)))"
  obtain b where b: "fst (breadth_update rows (snd (run_all breadth_update batches (breadth_engine_new tw)))) = Inr b"
    "bs_new_highs b = mark_count mk_high ?outs" "bs_new_lows b = mark_count mk_low ?outs"
    using breadth_update_after [OF assms(1-3)] by (auto simp: Let_def)
  have good: "marks_good ?w (prior i) (tk_price (rows ! i)) (?outs ! i)" if "i < length rows" for i
    unfolding prior_def by (rule marks_of_row [OF assms(1) w(1,2) that])
  have len: "length ?outs = length rows" by simp
  have "mark_count mk_high ?outs = int (length (filter (\<lambda>i. prior i \<noteq> [] \<and>
      (\<forall>p \<in> set (last_n m (prior i)). p < tk_price (rows ! i))) [0..<length rows]))"
    unfolding w(3) by (intro mark_count_nth [OF len] marks_good_cases(1) good)
  moreover have "mark_count mk_low ?outs = int (length (filter (\<lambda>i. prior i \<noteq> [] \<and>
      (\<forall>p \<in> set (last_n m (prior i)). tk_price (rows ! i) < p)) [0..<length rows]))"
    unfolding w(3) by (intro mark_count_nth [OF len] marks_good_cases(2) good)
  ultimately show ?thesis using b by auto
qed

definition quote :: "string \<Rightarrow> rat \<Rightarrow> rat \<Rightarrow> ticker_row" where
  "quote key price change =
     \<lparr>tk_symbol = key, tk_price = Fin price, tk_change_pct = Fin change, tk_quote_volume = Fin 1\<rparr>"

theorem breadth_counts_witness:
  "\<exists>b. fst (breadth_update [quote ''A'' 12 1, quote ''B'' 5 0] (snd (run_all breadth_update
      [[quote ''A'' 10 1]] (breadth_engine_new 20)))) = Inr b \<and>
    bs_total b = 2 \<and> bs_advancers b = 1 \<and> bs_decliners b = 0 \<and> bs_unchanged b = 1"
  using breadth_counts [of "[[quote ''A'' 10 1]]" "[quote ''A'' 12 1, quote ''B'' 5 0]" 20]
  by (auto simp: row_ok_def quote_def)

lemma new_highs_and_lows_witness:
  "\<exists>b. fst (breadth_update [quote ''A'' 12 1, quote ''B'' 5 0] (snd (run_all breadth_update
      [[quote ''A'' 10 1]] (breadth_engine_new 20)))) = Inr b \<and> bs_new_highs b = 1 \<and> bs_new_lows b = 0"
  using new_highs_and_lows [of "[[quote ''A'' 10 1]]" "[quote ''A'' 12 1, quote ''B'' 5 0]" 20]
  by (simp add: row_ok_def quote_def price_of_def upt_rec nth_Cons')

end
