(* ===== verification/Regime.thy ===== *)
theory Regime
  imports Breadth
begin

text \<open>
  \<^verbatim>\<open>src/orvixa/analytics/health.py\<close> and \<^verbatim>\<open>src/orvixa/analytics/regime.py\<close>: the market health score
  and the regime classifier.
\<close>

section \<open>Health score\<close>

datatype vol_regime = LowVol | NormalVol | HighVol

definition ad_ratio_saturation :: pyfloat where
  "ad_ratio_saturation = Fin 2"

definition high_vol_penalty :: pyfloat where
  "high_vol_penalty = Fin 15"

definition low_vol_bonus :: pyfloat where
  "low_vol_bonus = Fin 5"

text \<open>\<^verbatim>\<open>0.4 * ad + 0.3 * trend + 0.3 * participation\<close>, then the volatility adjustment.\<close>

definition weighted_score :: "pyfloat \<Rightarrow> pyfloat \<Rightarrow> pyfloat \<Rightarrow> pyfloat" where
  "weighted_score ad trend participation =
     to_dbl (4 / 10) * ad + to_dbl (3 / 10) * trend + to_dbl (3 / 10) * participation"

definition vol_adjust :: "vol_regime \<Rightarrow> pyfloat \<Rightarrow> pyfloat" where
  "vol_adjust v score =
     (case v of HighVol \<Rightarrow> score - high_vol_penalty | LowVol \<Rightarrow> score + low_vol_bonus | NormalVol \<Rightarrow> score)"

definition compute_health_score :: "breadth_snapshot \<Rightarrow> pyfloat \<Rightarrow> vol_regime \<Rightarrow> int res" where
  "compute_health_score b trend_up_frac v =
     rbind (fdiv (bs_ad_ratio b) ad_ratio_saturation) (\<lambda>q.
     let ad_component = clamp q 0 1 * Fin 100;
         trend_component_pct = clamp (bs_pct_above_trend b) 0 100;
         participation_component = clamp trend_up_frac 0 1 * Fin 100;
         score = weighted_score ad_component trend_component_pct participation_component
     in round_score (vol_adjust v score))"

text \<open>The three components, for inputs that are numbers.\<close>

definition number :: "pyfloat \<Rightarrow> bool" where
  "number x \<longleftrightarrow> is_dbl x \<and> x \<noteq> NaN"

lemma weights: "in_range 0 1 (to_dbl (4 / 10))" "in_range 0 1 (to_dbl (3 / 10))"
  by (auto intro: to_dbl_in_range)

lemma percent_component: "number x \<Longrightarrow> in_range 0 100 (clamp x 0 1 * Fin 100)"
  unfolding number_def
  by (rule in_range_mult [of 0 1 _ 100 100]) (auto simp: in_range_Fin intro!: clamp_in_range)

lemma ad_number: "number x \<Longrightarrow> number (quot x ad_ratio_saturation)"
  by (cases x) (auto simp: number_def ad_ratio_saturation_def signed_inf_def)

lemma weighted_score_range:
  assumes "in_range 0 100 a" "in_range 0 100 t" "in_range 0 100 p"
  shows "in_range 0 300 (weighted_score a t p)"
proof -
  have "in_range 0 100 (to_dbl (4 / 10) * a)" "in_range 0 100 (to_dbl (3 / 10) * t)"
    "in_range 0 100 (to_dbl (3 / 10) * p)"
    by (rule in_range_mult [OF weights(1) assms(1)] in_range_mult [OF weights(2) assms(2)]
        in_range_mult [OF weights(2) assms(3)]; simp)+
  then have "in_range 0 200 (to_dbl (4 / 10) * a + to_dbl (3 / 10) * t)" "in_range 0 100 (to_dbl (3 / 10) * p)"
    by (auto intro: in_range_add)
  then show ?thesis unfolding weighted_score_def by (rule in_range_add) auto
qed

lemma weighted_score_mono:
  assumes "in_range 0 100 a" "in_range 0 100 t" "in_range 0 100 p"
    "in_range 0 100 a'" "in_range 0 100 t'" "in_range 0 100 p'" "a \<le> a'" "t \<le> t'" "p \<le> p'"
  shows "weighted_score a t p \<le> weighted_score a' t' p'"
proof -
  have w: "\<exists>c. to_dbl (4 / 10) = Fin c \<and> 0 \<le> c" "\<exists>c. to_dbl (3 / 10) = Fin c \<and> 0 \<le> c"
    using weights by (auto simp: in_range_def)
  have r: "in_range 0 100 (to_dbl (4 / 10) * x)" "in_range 0 100 (to_dbl (3 / 10) * x)" if "in_range 0 100 x" for x
    by (rule in_range_mult [OF weights(1) that] in_range_mult [OF weights(2) that]; simp)+
  have m: "to_dbl (4 / 10) * a \<le> to_dbl (4 / 10) * a'" "to_dbl (3 / 10) * t \<le> to_dbl (3 / 10) * t'"
    "to_dbl (3 / 10) * p \<le> to_dbl (3 / 10) * p'"
    using times_mono_const(2) assms w by metis+
  have s: "in_range 0 200 (to_dbl (4 / 10) * x + to_dbl (3 / 10) * y)"
    if "in_range 0 100 x" "in_range 0 100 y" for x y
    by (rule in_range_add [OF r(1) [OF that(1)] r(2) [OF that(2)]]) simp_all
  show ?thesis
    unfolding weighted_score_def using assms by (intro plus_mono_range [OF s s r(2) r(2)] plus_mono_range [OF r(1) r(1) r(2) r(2)] m)
qed

definition health_input :: "breadth_snapshot \<Rightarrow> pyfloat \<Rightarrow> bool" where
  "health_input b part \<longleftrightarrow> number (bs_ad_ratio b) \<and> number (bs_pct_above_trend b) \<and> number part"

definition health_value :: "breadth_snapshot \<Rightarrow> pyfloat \<Rightarrow> pyfloat" where
  "health_value b part = weighted_score (clamp (quot (bs_ad_ratio b) ad_ratio_saturation) 0 1 * Fin 100)
     (clamp (bs_pct_above_trend b) 0 100) (clamp part 0 1 * Fin 100)"

lemma compute_health_score_eq: "compute_health_score b part v = round_score (vol_adjust v (health_value b part))"
  by (simp add: compute_health_score_def health_value_def ad_ratio_saturation_def fdiv_def Let_def)

lemma health_parts:
  assumes "health_input b part"
  shows "in_range 0 100 (clamp (quot (bs_ad_ratio b) ad_ratio_saturation) 0 1 * Fin 100)"
    "in_range 0 100 (clamp (bs_pct_above_trend b) 0 100)" "in_range 0 100 (clamp part 0 1 * Fin 100)"
  using assms percent_component ad_number
  by (auto simp: health_input_def number_def intro!: clamp_in_range)

lemma vol_adjust_range: "in_range 0 300 s \<Longrightarrow> in_range (- 15) 305 (vol_adjust v s)"
  by (cases v) (auto simp: vol_adjust_def high_vol_penalty_def low_vol_bonus_def in_range_Fin
      intro: in_range_mono in_range_diff [of 0 300 _ 15 15] in_range_add [of 0 300 _ 5 5])

lemma health_in_range:
  assumes "health_input b part"
  shows "in_range 0 300 (health_value b part)" "in_range (- 15) 305 (vol_adjust v (health_value b part))"
  using weighted_score_range [OF health_parts [OF assms]] vol_adjust_range by (auto simp: health_value_def)

fun vol_level :: "vol_regime \<Rightarrow> int" where
  "vol_level LowVol = 0"
| "vol_level NormalVol = 1"
| "vol_level HighVol = 2"

lemma vol_adjust_mono:
  assumes "in_range 0 300 s" "in_range 0 300 s'" "s \<le> s'" "vol_level v' \<le> vol_level v"
  shows "vol_adjust v s \<le> vol_adjust v' s'"
proof -
  obtain p q where e: "s = Fin p" "s' = Fin q" "endpoint p" "endpoint q" "p \<le> q"
    using assms(1-3) by (auto elim!: in_rangeE)
  have "to_dbl p = Fin p" "to_dbl q = Fin q" using e by (auto intro: to_dbl_endpoint)
  then show ?thesis
    using assms(4) e(5) to_dbl_mono [of "p - 15" "q - 15"] to_dbl_mono [of "p - 15" q]
      to_dbl_mono [of "p - 15" "q + 5"] to_dbl_mono [of p "q + 5"] to_dbl_mono [of "p + 5" "q + 5"]
    by (cases v; cases v')
      (auto simp: e(1,2) vol_adjust_def high_vol_penalty_def low_vol_bonus_def minus_pyfloat_def)
qed

lemma health_total:
  assumes "health_input b part"
  shows "\<exists>n. compute_health_score b part v = Inr n \<and> 0 \<le> n \<and> n \<le> 100"
  using round_score_range [of "vol_adjust v (health_value b part)"] health_in_range(2) [OF assms, of v]
  unfolding compute_health_score_eq by (auto simp: in_range_def is_dbl_Fin_endpoint simp del: is_dbl.simps)

text \<open>
  C35: the health score is total, stays between 0 and 100 and is monotone. For breadth figures and a
  participation that are numbers (infinities allowed) it returns, and a market whose advance /
  decline ratio, share above trend and participation are no lower and whose volatility regime is no
  higher never scores lower, rounding included.
\<close>

theorem health_score_monotone:
  assumes "health_input b part" "health_input b' part'" "bs_ad_ratio b \<le> bs_ad_ratio b'"
    "bs_pct_above_trend b \<le> bs_pct_above_trend b'" "part \<le> part'" "vol_level v' \<le> vol_level v"
  shows "\<exists>n n'. compute_health_score b part v = Inr n \<and> compute_health_score b' part' v' = Inr n' \<and>
    0 \<le> n \<and> n \<le> n' \<and> n' \<le> 100"
proof -
  have c: "in_range 0 1 (clamp x 0 1)" if "number x" for x
    using that by (auto simp: number_def intro!: clamp_in_range)
  have pct: "clamp x 0 1 * Fin 100 \<le> clamp y 0 1 * Fin 100" if "number x" "number y" "x \<le> y" for x y
    using c that clamp_mono [of x y 0 1] by (intro times_mono_const(1)) auto
  have ad: "quot (bs_ad_ratio b) ad_ratio_saturation \<le> quot (bs_ad_ratio b') ad_ratio_saturation"
    unfolding ad_ratio_saturation_def using assms(3) by (intro quot_mono_const) auto
  have "health_value b part \<le> health_value b' part'"
    unfolding health_value_def
    using assms(1,2,4,5) ad ad_number
    by (intro weighted_score_mono health_parts pct clamp_mono) (auto simp: health_input_def)
  then have "vol_adjust v (health_value b part) \<le> vol_adjust v' (health_value b' part')"
    using health_in_range(1) assms by (intro vol_adjust_mono) auto
  then show ?thesis
    using health_total [OF assms(1), of v] health_total [OF assms(2), of v'] round_score_mono
    unfolding compute_health_score_eq by blast
qed


section \<open>Regime\<close>

datatype regime = RiskOn | RiskOff | Rotational

record regime_snapshot =
  rs_ad_ratio :: pyfloat
  rs_pct_above_trend :: pyfloat
  rs_advancers :: int
  rs_decliners :: int
  rs_unchanged :: int
  rs_new_highs :: int
  rs_new_lows :: int
  rs_trend_up_frac :: pyfloat
  rs_trend_down_frac :: pyfloat
  rs_avg_vol_realized :: "pyfloat option"

record regime_result =
  rg_regime :: regime
  rg_vol_regime :: vol_regime
  rg_breadth :: pyfloat
  rg_health_score :: int
  rg_snapshot :: regime_snapshot

definition risk_on_ad_ratio :: pyfloat where
  "risk_on_ad_ratio = to_dbl (12 / 10)"

definition risk_on_pct_above_trend :: pyfloat where
  "risk_on_pct_above_trend = Fin 55"

definition risk_off_ad_ratio :: pyfloat where
  "risk_off_ad_ratio = to_dbl (8 / 10)"

definition risk_off_pct_above_trend :: pyfloat where
  "risk_off_pct_above_trend = Fin 45"

definition classify_regime :: "breadth_snapshot \<Rightarrow> pyfloat \<Rightarrow> pyfloat \<Rightarrow> regime" where
  "classify_regime b up down =
     (if bs_ad_ratio b \<ge> risk_on_ad_ratio \<and> bs_pct_above_trend b \<ge> risk_on_pct_above_trend \<and> up > down
      then RiskOn
      else if bs_ad_ratio b \<le> risk_off_ad_ratio \<and> bs_pct_above_trend b \<le> risk_off_pct_above_trend \<and> down > up
      then RiskOff
      else Rotational)"

definition classify_vol :: "settings \<Rightarrow> pyfloat option \<Rightarrow> vol_regime res" where
  "classify_vol cfg avg_vol =
     (case avg_vol of
        None \<Rightarrow> Inr NormalVol
      | Some v \<Rightarrow>
          (let threshold = high_volatility_pct cfg in
           if v \<ge> threshold then Inr HighVol
           else rbind (fdiv threshold (Fin 3)) (\<lambda>third.
             Inr (if v \<le> third then LowVol else NormalVol))))"

definition regime_evaluate ::
  "settings \<Rightarrow> breadth_snapshot \<Rightarrow> pyfloat \<Rightarrow> pyfloat \<Rightarrow> pyfloat option \<Rightarrow> regime_result res" where
  "regime_evaluate cfg b up down avg_vol =
     (let regime = classify_regime b up down in
      rbind (classify_vol cfg avg_vol) (\<lambda>vol.
      rbind (compute_health_score b up vol) (\<lambda>health.
      let snapshot = \<lparr>rs_ad_ratio = bs_ad_ratio b, rs_pct_above_trend = bs_pct_above_trend b,
            rs_advancers = bs_advancers b, rs_decliners = bs_decliners b, rs_unchanged = bs_unchanged b,
            rs_new_highs = bs_new_highs b, rs_new_lows = bs_new_lows b,
            rs_trend_up_frac = pyround_n up 4, rs_trend_down_frac = pyround_n down 4,
            rs_avg_vol_realized = avg_vol\<rparr>
      in Inr \<lparr>rg_regime = regime, rg_vol_regime = vol, rg_breadth = bs_ad_ratio b,
              rg_health_score = health, rg_snapshot = snapshot\<rparr>)))"

lemma classify_vol_total: "\<exists>v. classify_vol cfg avg = Inr v"
  by (auto simp: classify_vol_def Let_def fdiv_def split: option.split)

text \<open>The market with advancing and declining sides exchanged.\<close>

definition risk_on_side :: "breadth_snapshot \<Rightarrow> bool" where
  "risk_on_side b \<longleftrightarrow> risk_on_ad_ratio \<le> bs_ad_ratio b \<and> risk_on_pct_above_trend \<le> bs_pct_above_trend b"

definition risk_off_side :: "breadth_snapshot \<Rightarrow> bool" where
  "risk_off_side b \<longleftrightarrow> bs_ad_ratio b \<le> risk_off_ad_ratio \<and> bs_pct_above_trend b \<le> risk_off_pct_above_trend"

lemma sides_exclusive: "\<not> (risk_on_side b \<and> risk_off_side b)"
  by (cases "bs_pct_above_trend b")
    (auto simp: risk_on_side_def risk_off_side_def risk_on_pct_above_trend_def risk_off_pct_above_trend_def)

text \<open>
  The regime evaluation. For breadth figures and participations that are numbers the evaluation
  returns a health score between 0 and 100; risk-on needs breadth on the risk-on side and more
  symbols trending up than down, risk-off the opposite, and the two sides exclude each other for
  whatever participation, so that every other market is rotational.
\<close>

lemma regime_classification:
  assumes "health_input b up"
  shows "\<exists>r. regime_evaluate cfg b up down avg_vol = Inr r \<and> 0 \<le> rg_health_score r \<and> rg_health_score r \<le> 100 \<and>
    (rg_regime r = RiskOn \<longleftrightarrow> risk_on_side b \<and> down < up) \<and>
    (rg_regime r = RiskOff \<longleftrightarrow> risk_off_side b \<and> up < down) \<and>
    (rg_vol_regime r = HighVol \<longleftrightarrow> (\<exists>v. avg_vol = Some v \<and> high_volatility_pct cfg \<le> v))"
proof -
  obtain vol where vol: "classify_vol cfg avg_vol = Inr vol" using classify_vol_total by blast
  obtain n where n: "compute_health_score b up vol = Inr n" "0 \<le> n" "n \<le> 100"
    using health_total [OF assms] by blast
  have "(vol = HighVol) \<longleftrightarrow> (\<exists>v. avg_vol = Some v \<and> high_volatility_pct cfg \<le> v)"
    using vol by (auto simp: classify_vol_def Let_def fdiv_def split: option.splits if_splits)
  moreover have "classify_regime b up down = RiskOn \<longleftrightarrow> risk_on_side b \<and> down < up"
    "classify_regime b up down = RiskOff \<longleftrightarrow> risk_off_side b \<and> up < down"
    using sides_exclusive [of b] by (auto simp: classify_regime_def risk_on_side_def risk_off_side_def)
  ultimately show ?thesis using n by (simp add: regime_evaluate_def vol Let_def)
qed


subsection \<open>Witnesses\<close>

definition market :: "rat \<Rightarrow> rat \<Rightarrow> breadth_snapshot" where
  "market ad pct = \<lparr>bs_total = 10, bs_advancers = 6, bs_decliners = 3, bs_unchanged = 1, bs_ad_ratio = Fin ad,
     bs_pct_above_trend = Fin pct, bs_new_highs = 0, bs_new_lows = 0\<rparr>"

lemma market_input: "endpoint ad \<Longrightarrow> endpoint pct \<Longrightarrow> endpoint f \<Longrightarrow> health_input (market ad pct) (Fin f)"
  by (simp add: health_input_def number_def market_def is_dbl_Fin_endpoint del: is_dbl.simps)

theorem health_score_monotone_witness:
  "\<exists>n n'. compute_health_score (market 1 40) (Fin 0) HighVol = Inr n \<and>
    compute_health_score (market 2 60) (Fin 1) LowVol = Inr n' \<and> 0 \<le> n \<and> n \<le> n' \<and> n' \<le> 100"
  by (rule health_score_monotone [OF market_input market_input]) (simp_all add: market_def)

lemma regime_classification_witness:
  "\<exists>r. regime_evaluate default_settings (market 2 60) (Fin 1) (Fin 0) None = Inr r \<and> rg_regime r = RiskOn"
proof -
  have "to_dbl (6 / 5) \<le> Fin 2" using to_dbl_mono [of "6 / 5" 2] by simp
  then show ?thesis
    using regime_classification [of "market 2 60" "Fin 1" default_settings "Fin 0" None] market_input [of 2 60 1]
    by (auto simp: risk_on_side_def risk_on_ad_ratio_def risk_on_pct_above_trend_def market_def)
qed

end
