(* ===== verification/Timestamps.thy ===== *)
theory Timestamps
  imports Pyfloat
begin

text \<open>
  The conversions between epoch milliseconds and \<^verbatim>\<open>datetime\<close> that the engine, the candle sink, the
  CSV loader and the replay use. A timezone-aware UTC \<^verbatim>\<open>datetime\<close> is its number of microseconds since
  the epoch, which is also what a \<^verbatim>\<open>timestamptz\<close> column holds.
\<close>

type_synonym datetime = int

definition datetime_min :: datetime where
  "datetime_min = - 62135596800000000"

definition datetime_end :: datetime where
  "datetime_end = 253402300800000000"

text \<open>
  \<^verbatim>\<open>datetime.fromtimestamp(x, tz=UTC)\<close>: the fractional part is scaled to microseconds in double
  arithmetic and rounded half to even; years outside 1..9999 raise.
\<close>

fun fromtimestamp :: "pyfloat \<Rightarrow> datetime res" where
  "fromtimestamp (Fin q) =
     rbind (pyround (to_dbl ((q - of_int (trunc q)) * 10 ^ 6))) (\<lambda>us.
     let t = trunc q * 10 ^ 6 + us in
     if datetime_min \<le> t \<and> t < datetime_end then Inr t else Inl ValueError)"
| "fromtimestamp NaN = Inl ValueError"
| "fromtimestamp _ = Inl OverflowError"

text \<open>\<^verbatim>\<open>datetime.fromtimestamp(ts / 1000, tz=UTC)\<close> and \<^verbatim>\<open>int(dt.timestamp() * 1000)\<close>.\<close>

definition from_ms :: "int \<Rightarrow> datetime res" where
  "from_ms ts = rbind (int_div ts 1000) fromtimestamp"

definition to_ms :: "datetime \<Rightarrow> int res" where
  "to_ms t = rbind (int_div t 1000000) (\<lambda>x. pyint (x * Fin 1000))"

lemma to_dbl_small: "\<bar>q\<bar> \<le> 2 ^ 53 \<Longrightarrow> to_dbl q = Fin (rnd q)"
proof -
  assume q: "\<bar>q\<bar> \<le> 2 ^ 53"
  have "- (2 ^ 53) \<le> q" "q \<le> 2 ^ 53" using q by (auto simp: abs_le_iff)
  then have "in_range (- (2 ^ 53)) (2 ^ 53) (to_dbl q)"
    by (intro to_dbl_in_range endpoint_minus endpoint_power) auto
  then show ?thesis by (auto simp: in_range_def to_dbl_def Let_def split: if_splits)
qed

lemma scaled_error:
  fixes q x a b :: rat
  assumes "\<bar>q - x\<bar> \<le> e" "x = a + b / 1000"
  shows "\<bar>(q - a) * 10 ^ 6 - 1000 * b\<bar> \<le> 10 ^ 6 * e"
proof -
  have "(q - a) * 10 ^ 6 - 1000 * b = (q - x) * 10 ^ 6" by (simp add: assms(2) algebra_simps)
  then show ?thesis using assms(1) unfolding abs_mult by (simp only: abs_mult) simp
qed

lemma between_halves:
  fixes r y z :: rat
  shows "\<bar>y - z\<bar> \<le> 1 / 4 \<Longrightarrow> \<bar>r - y\<bar> \<le> 1 / 100 \<Longrightarrow> z - 1 / 2 < r \<and> r < z + 1 / 2"
  by linarith

text \<open>Every millisecond of the years 1970 to 2105 becomes exactly its microsecond.\<close>

lemma from_ms_exact:
  assumes "0 \<le> ts" "ts < 2 ^ 32 * 1000"
  shows "from_ms ts = Inr (1000 * ts)"
proof -
  let ?s = "ts div 1000" and ?m = "ts mod 1000"
  let ?x = "of_int ts / 1000 :: rat"
  have x: "?x = of_int ?s + of_int ?m / 1000"
  proof -
    have "of_int ts = (of_int (1000 * ?s + ?m) :: rat)" by simp
    also have "\<dots> = 1000 * of_int ?s + of_int ?m" by (simp only: of_int_add of_int_mult of_int_numeral)
    finally show ?thesis by simp
  qed
  have s: "0 \<le> ?s" "?s < 2 ^ 32" and m: "0 \<le> ?m" "?m \<le> 999" using assms by auto
  have "(of_int ?s :: rat) \<le> of_int (2 ^ 32 - 1)" using s by (simp only: of_int_le_iff)
  then have srat: "(0 :: rat) \<le> of_int ?s" "(of_int ?s :: rat) \<le> 2 ^ 32 - 1" using s by simp_all
  have "(of_int ?m :: rat) \<le> of_int 999" using m by (simp only: of_int_le_iff)
  then have mrat: "(0 :: rat) \<le> of_int ?m" "(of_int ?m :: rat) \<le> 999" using m by simp_all
  have xb: "0 \<le> ?x" "?x < 2 ^ 32" using srat mrat unfolding x by linarith+
  let ?q = "rnd ?x"
  have "(2 :: rat) powi 32 = 2 ^ 32" "(2 :: rat) powi (32 - 54) = 1 / 4194304" by (simp_all add: power_int_def power_divide)
  then have err: "\<bar>?q - ?x\<bar> \<le> 1 / 4194304" using rnd_error [of ?x 32] xb by simp
  have d: "int_div ts 1000 = Inr (Fin ?q)" using to_dbl_small [of ?x] xb by (simp add: int_div_def)
  have lo: "of_int ?s \<le> ?q"
  proof -
    have "of_int ?s \<le> ?x" unfolding x using mrat by simp
    then have "rnd (of_int ?s) \<le> ?q" by (rule rnd_mono)
    moreover have "rnd (of_int ?s) = of_int ?s" using s by (intro rnd_of_int) simp
    ultimately show ?thesis by simp
  qed
  have hi: "?q < of_int ?s + 1" using err mrat x by linarith
  have tr: "trunc ?q = ?s"
    using lo hi srat by (auto simp: trunc_def floor_eq_iff)
  let ?y = "(?q - of_int ?s) * 10 ^ 6"
  have yb: "0 \<le> ?y" "?y < 2 ^ 20" using lo hi by simp_all
  have ye: "\<bar>?y - of_int (1000 * ?m)\<bar> \<le> 1 / 4"
    using scaled_error [OF err x] by simp
  have "(2 :: rat) powi 20 = 2 ^ 20" "(2 :: rat) powi (20 - 54) \<le> 1 / 100" by (simp_all add: power_int_def power_divide)
  then have re: "\<bar>rnd ?y - ?y\<bar> \<le> 1 / 100" using rnd_error [of ?y 20] yb by simp
  have td: "to_dbl ?y = Fin (rnd ?y)" using yb by (intro to_dbl_small) simp
  have "round_half_even (rnd ?y) = 1000 * ?m"
    using between_halves [OF ye re] by (intro round_half_even_cert) auto
  then have us: "pyround (to_dbl ?y) = Inr (1000 * ?m)" unfolding td by simp
  have t: "?s * 10 ^ 6 + 1000 * ?m = 1000 * ts" using div_mult_mod_eq [of ts 1000] by (simp, linarith)
  have "fromtimestamp (Fin ?q) = Inr (1000 * ts)"
    using us assms t unfolding fromtimestamp.simps tr by (simp add: Let_def datetime_min_def datetime_end_def)
  then show ?thesis using d by (simp add: from_ms_def)
qed

lemma to_ms_whole:
  assumes "0 \<le> s" "s < 2 ^ 32"
  shows "to_ms (1000000 * s) = Inr (1000 * s)"
proof -
  have a: "\<bar>s\<bar> \<le> 2 ^ 53" "\<bar>s * 1000\<bar> \<le> 2 ^ 53" using assms by auto
  have "int_div (1000000 * s) 1000000 = Inr (Fin (of_int s))"
    using to_dbl_of_int [OF a(1)] by (simp add: int_div_def)
  moreover have "Fin (of_int s) * Fin 1000 = Fin (of_int (s * 1000))"
    using to_dbl_of_int [OF a(2)] by simp
  moreover have "trunc (of_int (s * 1000)) = 1000 * s"
    unfolding trunc_def floor_of_int using assms by simp
  ultimately show ?thesis by (simp add: to_ms_def)
qed

text \<open>
  Candle times survive the trip through the database. A candle that opens on a whole second of
  the years 1970 to 2105 is stored with exactly that time, and the replay reads back the same
  number of milliseconds; and every millisecond in that span is stored as exactly its microsecond.
\<close>

lemma timestamp_roundtrip:
  assumes "0 \<le> ts" "ts < 2 ^ 32 * 1000"
  shows "\<exists>t. from_ms ts = Inr t \<and> t = 1000 * ts \<and> (ts mod 1000 = 0 \<longrightarrow> to_ms t = Inr ts)"
proof -
  have "to_ms (1000 * ts) = Inr ts" if "ts mod 1000 = 0"
  proof -
    obtain s where s: "ts = 1000 * s" using \<open>ts mod 1000 = 0\<close> by (auto simp: mod_eq_0_iff_dvd)
    then show ?thesis using to_ms_whole [of s] assms by simp
  qed
  then show ?thesis using from_ms_exact [OF assms] by simp
qed

lemma timestamp_roundtrip_witness:
  "\<exists>t. from_ms 1700000040000 = Inr t \<and> to_ms t = Inr 1700000040000"
  using timestamp_roundtrip [of 1700000040000] by auto

end
