(* ===== verification/Text.thy ===== *)
theory Text
  imports Pyfloat "HOL-Library.Char_ord"
begin

text \<open>
  Python's \<^verbatim>\<open>str\<close> methods and number parsing, on ASCII text: case mapping, white space, digits,
  \<^verbatim>\<open>float(s)\<close> and \<^verbatim>\<open>int(s)\<close>, and the decoded JSON values the feeds and clients read.
\<close>

section \<open>Characters\<close>

definition code :: "char \<Rightarrow> nat" where
  "code c = of_char c"

definition is_digit :: "char \<Rightarrow> bool" where
  "is_digit c \<longleftrightarrow> 48 \<le> code c \<and> code c \<le> 57"

definition is_space :: "char \<Rightarrow> bool" where
  "is_space c \<longleftrightarrow> code c = 32 \<or> 9 \<le> code c \<and> code c \<le> 13 \<or> 28 \<le> code c \<and> code c \<le> 31"

definition upper_char :: "char \<Rightarrow> char" where
  "upper_char c = (if 97 \<le> code c \<and> code c \<le> 122 then char_of (code c - 32) else c)"

definition lower_char :: "char \<Rightarrow> char" where
  "lower_char c = (if 65 \<le> code c \<and> code c \<le> 90 then char_of (code c + 32) else c)"

definition upper :: "string \<Rightarrow> string" where
  "upper s = map upper_char s"

definition lower :: "string \<Rightarrow> string" where
  "lower s = map lower_char s"

definition strip :: "string \<Rightarrow> string" where
  "strip s = rev (dropWhile is_space (rev (dropWhile is_space s)))"

lemma code_less [simp]: "code c < 256"
  by (simp add: code_def)

lemma code_char_of: "n < 256 \<Longrightarrow> code (char_of n) = n"
  by (simp add: code_def of_char_of)

lemma upper_char_idem [simp]: "upper_char (upper_char c) = upper_char c"
proof (cases "97 \<le> code c \<and> code c \<le> 122")
  case True
  then have "code (upper_char c) = code c - 32"
    using code_char_of [of "code c - 32"] by (auto simp: upper_char_def)
  moreover have "code c \<le> 122" using True by simp
  ultimately have "\<not> 97 \<le> code (upper_char c)" by linarith
  then show ?thesis by (simp add: upper_char_def [of "upper_char c"])
next
  case False
  then have "upper_char c = c" by (auto simp: upper_char_def)
  then show ?thesis by simp
qed

lemma upper_idem [simp]: "upper (upper s) = upper s"
  by (simp add: upper_def)

lemma upper_append: "upper (s @ t) = upper s @ upper t"
  by (simp add: upper_def)

lemma upper_length [simp]: "length (upper s) = length s"
  by (simp add: upper_def)

lemma upper_lower_char [simp]: "upper_char (lower_char c) = upper_char c"
proof (cases "65 \<le> code c \<and> code c \<le> 90")
  case True
  then have c: "code (lower_char c) = code c + 32"
    using code_char_of [of "code c + 32"] by (auto simp: lower_char_def)
  then have "upper_char (lower_char c) = char_of (code c)" using True by (simp add: upper_char_def)
  then show ?thesis using True by (simp add: code_def upper_char_def)
qed (auto simp: lower_char_def)

lemma upper_lower [simp]: "upper (lower s) = upper s"
  by (simp add: upper_def lower_def)


section \<open>Numbers\<close>

definition digit_value :: "char \<Rightarrow> int" where
  "digit_value c = int (code c) - 48"

definition digits_value :: "string \<Rightarrow> int" where
  "digits_value ds = foldl (\<lambda>n d. 10 * n + digit_value d) 0 ds"

text \<open>The longest run of digits, single underscores between two digits left out, and the rest.\<close>

function take_digits :: "string \<Rightarrow> string \<times> string" where
  "take_digits [] = ([], [])"
| "take_digits (c # cs) =
     (if is_digit c then
        (let rest = (if cs \<noteq> [] \<and> hd cs = CHR ''_'' \<and> tl cs \<noteq> [] \<and> is_digit (hd (tl cs)) then tl cs else cs);
             (ds, r) = take_digits rest
         in (c # ds, r))
      else ([], c # cs))"
  by pat_completeness auto
termination by (relation "measure length") auto

definition take_sign :: "string \<Rightarrow> bool \<times> string" where
  "take_sign s =
     (if s \<noteq> [] \<and> hd s = CHR ''-'' then (True, tl s)
      else if s \<noteq> [] \<and> hd s = CHR ''+'' then (False, tl s) else (False, s))"

text \<open>\<^verbatim>\<open>int(text)\<close>: CPython refuses more than 4300 digits.\<close>

definition int_of_text :: "string \<Rightarrow> int res" where
  "int_of_text text =
     (let (neg, body) = take_sign (strip text); (ds, rest) = take_digits body in
      if ds = [] \<or> rest \<noteq> [] \<or> 4300 < length ds then Inl ValueError
      else Inr (if neg then - digits_value ds else digits_value ds))"

text \<open>\<^verbatim>\<open>float(text)\<close>: the decimal is read exactly and rounded once.\<close>

definition take_exponent :: "string \<Rightarrow> int option" where
  "take_exponent s =
     (if s = [] then Some 0
      else if lower_char (hd s) = CHR ''e'' then
        (let (neg, body) = take_sign (tl s); (ds, rest) = take_digits body in
         if ds = [] \<or> rest \<noteq> [] then None else Some (if neg then - digits_value ds else digits_value ds))
      else None)"

definition decimal_of :: "string \<Rightarrow> rat option" where
  "decimal_of s =
     (let (whole, r1) = take_digits s;
          (fraction, r2) = (if r1 \<noteq> [] \<and> hd r1 = CHR ''.'' then take_digits (tl r1) else ([], r1))
      in if whole = [] \<and> fraction = [] then None
         else map_option (\<lambda>e. of_int (digits_value (whole @ fraction)) * 10 powi (e - int (length fraction)))
                (take_exponent r2))"

definition float_of_text :: "string \<Rightarrow> pyfloat res" where
  "float_of_text text =
     (let (neg, body) = take_sign (strip text); word = lower body;
          signed = (\<lambda>x. if neg then - x else x)
      in if word = ''inf'' \<or> word = ''infinity'' then Inr (signed PInf)
         else if word = ''nan'' then Inr NaN
         else case decimal_of body of
             None \<Rightarrow> Inl ValueError
           | Some q \<Rightarrow> Inr (signed (to_dbl q)))"

lemma float_of_text_dbl: "float_of_text s = Inr x \<Longrightarrow> is_dbl x"
  by (auto simp: float_of_text_def Let_def split: prod.splits if_splits option.splits)


section \<open>Decoded JSON\<close>

datatype json =
    JNull
  | JBool bool
  | JInt int
  | JFloat pyfloat
  | JStr string
  | JList "json list"
  | JObj "(string \<times> json) list"

text \<open>\<^verbatim>\<open>value[key]\<close> with a string key: only a dictionary has one.\<close>

fun jitem :: "string \<Rightarrow> json \<Rightarrow> json res" where
  "jitem k (JObj m) = (case map_of m k of None \<Rightarrow> Inl KeyError | Some v \<Rightarrow> Inr v)"
| "jitem k _ = Inl TypeError"

text \<open>\<^verbatim>\<open>value.get(key, default)\<close>: only a dictionary has the method.\<close>

fun jget :: "string \<Rightarrow> json \<Rightarrow> json \<Rightarrow> json res" where
  "jget k d (JObj m) = Inr (get_or d (map_of m k))"
| "jget k d _ = Inl AttributeError"

text \<open>\<^verbatim>\<open>value[i]\<close> with a non-negative number: a list or a string is indexed, a dictionary has only string keys.\<close>

fun jnth :: "nat \<Rightarrow> json \<Rightarrow> json res" where
  "jnth i (JList xs) = (if i < length xs then Inr (xs ! i) else Inl IndexError)"
| "jnth i (JStr s) = (if i < length s then Inr (JStr [s ! i]) else Inl IndexError)"
| "jnth i (JObj m) = Inl KeyError"
| "jnth i _ = Inl TypeError"

fun jfloat :: "json \<Rightarrow> pyfloat res" where
  "jfloat (JBool b) = Inr (Fin (of_bool b))"
| "jfloat (JInt n) = i2f n"
| "jfloat (JFloat x) = Inr x"
| "jfloat (JStr s) = float_of_text s"
| "jfloat _ = Inl TypeError"

fun jint :: "json \<Rightarrow> int res" where
  "jint (JBool b) = Inr (of_bool b)"
| "jint (JInt n) = Inr n"
| "jint (JFloat x) = pyint x"
| "jint (JStr s) = int_of_text s"
| "jint _ = Inl TypeError"

fun jtruthy :: "json \<Rightarrow> bool" where
  "jtruthy JNull = False"
| "jtruthy (JBool b) = b"
| "jtruthy (JInt n) = (n \<noteq> 0)"
| "jtruthy (JFloat x) = (\<not> feq x (Fin 0))"
| "jtruthy (JStr s) = (s \<noteq> [])"
| "jtruthy (JList xs) = (xs \<noteq> [])"
| "jtruthy (JObj m) = (m \<noteq> [])"

text \<open>Iterating a value: a dictionary yields its keys, a string its characters.\<close>

fun jiter :: "json \<Rightarrow> json list res" where
  "jiter (JList xs) = Inr xs"
| "jiter (JObj m) = Inr (map (JStr \<circ> fst) m)"
| "jiter (JStr s) = Inr (map (\<lambda>c. JStr [c]) s)"
| "jiter _ = Inl TypeError"

lemma jfloat_dbl:
  assumes "jfloat v = Inr x" "\<And>y. v = JFloat y \<Longrightarrow> is_dbl y"
  shows "is_dbl x"
proof (cases v)
  case (JInt n)
  then have "x = to_dbl (of_int n)" using assms(1) by (auto simp: i2f_def split: pyfloat.splits)
  then show ?thesis by (simp only: is_dbl_to_dbl)
next
  case (JBool b)
  then show ?thesis using assms(1) rnd_of_int [of "of_bool b"] by auto
qed (use assms in \<open>auto simp: float_of_text_dbl\<close>)

end
