(* ===== verification/Rows.thy ===== *)
theory Rows
  imports Signals Events Regime Timestamps Text
begin

text \<open>
  \<^verbatim>\<open>src/orvixa/db/models.py\<close>: the rows the platform writes. A \<^verbatim>\<open>jsonb\<close> column holds the value it
  was given, a \<^verbatim>\<open>numeric\<close> one the double, a \<^verbatim>\<open>timestamptz\<close> one the microsecond.
\<close>

record symbol_row =
  sy_symbol :: string
  sy_base :: string
  sy_quote :: string
  sy_klass :: string
  sy_tier :: int
  sy_status :: string
  sy_tags :: "string list"

record candle_row =
  cr_symbol_id :: int
  cr_ts :: datetime
  cr_open :: pyfloat
  cr_high :: pyfloat
  cr_low :: pyfloat
  cr_close :: pyfloat
  cr_volume :: pyfloat
  cr_quote_volume :: pyfloat
  cr_trades :: int
  cr_taker_buy_volume :: pyfloat
  cr_interval :: string

record indicator_row =
  ir_symbol_id :: int
  ir_ts :: datetime
  ir_ema_fast :: "pyfloat option"
  ir_ema_slow :: "pyfloat option"
  ir_rsi :: "pyfloat option"
  ir_atr :: "pyfloat option"
  ir_vol_realized :: "pyfloat option"
  ir_vol_rel :: "pyfloat option"
  ir_trend_score :: "pyfloat option"

record tier_change_row =
  tc_symbol_id :: int
  tc_ts :: datetime
  tc_from_tier :: int
  tc_to_tier :: int
  tc_reason :: string

record metrics_row =
  mr_symbol_id :: int
  mr_ts :: datetime
  mr_tier :: int
  mr_quote_volume_24h :: pyfloat
  mr_price_change_pct_24h :: pyfloat
  mr_trade_count_24h :: int
  mr_last_price :: pyfloat

record breadth_row =
  br_ts :: datetime
  br_total :: int
  br_advancers :: int
  br_decliners :: int
  br_unchanged :: int
  br_ad_ratio :: pyfloat
  br_pct_above_trend :: pyfloat
  br_new_highs :: int
  br_new_lows :: int
  br_price_change_dispersion :: pyfloat
  br_btc_dominance :: pyfloat

record signal_row =
  gr_symbol_id :: int
  gr_ts :: datetime
  gr_type :: signal_kind
  gr_confidence :: int
  gr_components :: "(string \<times> component) list"
  gr_state_from :: signal_state
  gr_state_to :: signal_state

record market_event_row =
  vr_symbol_id :: int
  vr_ts :: datetime
  vr_type :: event_kind
  vr_magnitude :: pyfloat
  vr_severity :: int
  vr_price :: pyfloat
  vr_payload :: "(string \<times> payload_value) list"

record market_memory_row =
  yr_ts :: datetime
  yr_regime :: regime
  yr_vol_regime :: vol_regime
  yr_breadth :: pyfloat
  yr_health_score :: int
  yr_snapshot :: regime_snapshot

record market_report_row =
  mp_ts :: datetime
  mp_regime :: "string option"
  mp_scenarios :: "(string \<times> json) list"
  mp_headline :: "string option"
  mp_body :: "string option"
  mp_model :: "string option"
  mp_tokens_used :: "int option"
  mp_digest_hash :: "string option"

record telegram_alert_row =
  al_ref_type :: string
  al_ref_id :: int
  al_ts :: datetime
  al_status :: string
  al_dedupe_key :: "string option"
  al_chat_id :: "string option"
  al_message :: "string option"

end
