(* ===== verification/Engine.thy ===== *)
theory Engine
  imports Rows
begin

text \<open>
  \<^verbatim>\<open>src/orvixa/analytics/engine.py\<close>: the pipeline per closed candle and the periodic regime refresh.
  The symbol registry, the indicator writer and the three repositories are injected objects; they
  are a record of functions over a state \<open>'w\<close> of their own, each of which may raise.
\<close>

record 'w backend =
  bk_get_id :: "string \<Rightarrow> 'w \<Rightarrow> int option res \<times> 'w"
  bk_add_indicator :: "indicator_row \<Rightarrow> 'w \<Rightarrow> unit res \<times> 'w"
  bk_insert_signal :: "signal_row \<Rightarrow> 'w \<Rightarrow> unit res \<times> 'w"
  bk_insert_event :: "market_event_row \<Rightarrow> 'w \<Rightarrow> unit res \<times> 'w"
  bk_insert_memory :: "market_memory_row \<Rightarrow> 'w \<Rightarrow> unit res \<times> 'w"

record engine =
  en_settings :: settings
  en_symbol_ids :: "string \<Rightarrow> int option"
  en_indicators :: "(int \<times> symbol_indicators) list"
  en_latest_trend :: "(int \<times> trend_result) list"
  en_signals :: signal_engine
  en_events :: event_engine
  en_breadth :: breadth_engine
  en_latest_breadth :: "breadth_snapshot option"
  en_candles_processed :: int
  en_signals_emitted :: int
  en_events_emitted :: int
  en_regime_refresh_count :: int

definition engine_new :: "settings \<Rightarrow> (string \<Rightarrow> int option) \<Rightarrow> engine" where
  "engine_new cfg ids =
     \<lparr>en_settings = cfg, en_symbol_ids = ids, en_indicators = [], en_latest_trend = [],
      en_signals = signal_engine_new, en_events = event_engine_new,
      en_breadth = breadth_engine_new (breadth_trend_window cfg), en_latest_breadth = None,
      en_candles_processed = 0, en_signals_emitted = 0, en_events_emitted = 0, en_regime_refresh_count = 0\<rparr>"

section \<open>The candle pipeline\<close>

definition resolve_symbol_id :: "'w backend \<Rightarrow> string \<Rightarrow> engine \<times> 'w \<Rightarrow> int option res \<times> (engine \<times> 'w)" where
  "resolve_symbol_id bk base s =
     (case s of (e, w) \<Rightarrow>
        case en_symbol_ids e base of
          Some sid \<Rightarrow> (Inr (Some sid), (e, w))
        | None \<Rightarrow>
            (let (r, w1) = bk_get_id bk base w in
             attempt r (e, w1) (\<lambda>found. case found of
               None \<Rightarrow> (Inr None, (e, w1))
             | Some sid \<Rightarrow> (Inr (Some sid), (e\<lparr>en_symbol_ids := (en_symbol_ids e)(base \<mapsto> sid)\<rparr>, w1)))))"

definition indicator_row_of :: "int \<Rightarrow> datetime \<Rightarrow> indicator_snapshot \<Rightarrow> trend_result option \<Rightarrow> indicator_row" where
  "indicator_row_of sid ts s trend =
     \<lparr>ir_symbol_id = sid, ir_ts = ts, ir_ema_fast = sn_ema_fast s, ir_ema_slow = sn_ema_slow s,
      ir_rsi = sn_rsi s, ir_atr = sn_atr s, ir_vol_realized = sn_vol_realized s, ir_vol_rel = sn_vol_rel s,
      ir_trend_score = map_option tr_score trend\<rparr>"

definition signal_row_of :: "int \<Rightarrow> datetime \<Rightarrow> signal_result \<Rightarrow> signal_row" where
  "signal_row_of sid ts sig =
     \<lparr>gr_symbol_id = sid, gr_ts = ts, gr_type = sg_type sig, gr_confidence = sg_confidence sig,
      gr_components = sg_components sig, gr_state_from = sg_state_from sig, gr_state_to = sg_state_to sig\<rparr>"

definition event_row_of :: "int \<Rightarrow> datetime \<Rightarrow> event_result \<Rightarrow> market_event_row" where
  "event_row_of sid ts ev =
     \<lparr>vr_symbol_id = sid, vr_ts = ts, vr_type = ev_type ev, vr_magnitude = ev_magnitude ev,
      vr_severity = ev_severity ev, vr_price = ev_price ev, vr_payload = ev_payload ev\<rparr>"

text \<open>The two insertion loops: each row is awaited and counted before the next one.\<close>

fun insert_all :: "('r \<Rightarrow> 'w \<Rightarrow> unit res \<times> 'w) \<Rightarrow> (engine \<Rightarrow> engine) \<Rightarrow> 'r list \<Rightarrow> engine \<times> 'w
    \<Rightarrow> unit res \<times> (engine \<times> 'w)" where
  "insert_all put count [] s = (Inr (), s)"
| "insert_all put count (row # rows) (e, w) =
     (let (r, w1) = put row w in attempt r (e, w1) (\<lambda>_. insert_all put count rows (count e, w1)))"

definition count_signal :: "engine \<Rightarrow> engine" where
  "count_signal e = e\<lparr>en_signals_emitted := en_signals_emitted e + 1\<rparr>"

definition count_event :: "engine \<Rightarrow> engine" where
  "count_event e = e\<lparr>en_events_emitted := en_events_emitted e + 1\<rparr>"

text \<open>\<^verbatim>\<open>setdefault\<close>: the constructor runs every time, the stored object is kept when there is one.\<close>

definition indicators_of :: "int \<Rightarrow> engine \<Rightarrow> symbol_indicators res" where
  "indicators_of sid e =
     rbind (symbol_indicators_new (en_settings e)) (\<lambda>fresh.
     Inr (get_or fresh (map_of (en_indicators e) sid)))"

definition set_indicators :: "int \<Rightarrow> symbol_indicators \<Rightarrow> engine \<Rightarrow> engine" where
  "set_indicators sid st e = e\<lparr>en_indicators := alput sid st (en_indicators e)\<rparr>"

definition note_trend :: "int \<Rightarrow> trend_result option \<Rightarrow> engine \<Rightarrow> engine" where
  "note_trend sid trend e =
     e\<lparr>en_latest_trend := (case trend of
          Some t \<Rightarrow> alput sid t (en_latest_trend e)
        | None \<Rightarrow> aldel sid (en_latest_trend e))\<rparr>"

definition analyze_events :: "'w backend \<Rightarrow> int \<Rightarrow> datetime \<Rightarrow> indicator_snapshot \<Rightarrow> engine \<times> 'w \<Rightarrow> unit res \<times> (engine \<times> 'w)" where
  "analyze_events bk sid ts snapshot s =
     (case s of (e, w) \<Rightarrow>
      let (events, ee) = evaluate_events (en_settings e) sid snapshot (en_events e);
          e1 = e\<lparr>en_events := ee\<rparr>
      in attempt events (e1, w) (\<lambda>evs.
         let (r, s2) = insert_all (bk_insert_event bk) count_event (map (event_row_of sid ts) evs) (e1, w)
         in attempt r s2 (\<lambda>_. case s2 of (e2, w2) \<Rightarrow>
              (Inr (), (e2\<lparr>en_candles_processed := en_candles_processed e2 + 1\<rparr>, w2)))))"

definition analyze_signals ::
  "'w backend \<Rightarrow> int \<Rightarrow> datetime \<Rightarrow> indicator_snapshot \<Rightarrow> trend_result option \<Rightarrow> engine \<times> 'w \<Rightarrow> unit res \<times> (engine \<times> 'w)" where
  "analyze_signals bk sid ts snapshot trend s =
     (case s of (e, w) \<Rightarrow>
      if enable_signals (en_settings e) then
        (let (signals, se) = evaluate_signals (en_settings e) sid snapshot trend (en_signals e);
             e1 = e\<lparr>en_signals := se\<rparr>
         in attempt signals (e1, w) (\<lambda>sigs. insert_all (bk_insert_signal bk) count_signal (map (signal_row_of sid ts) sigs) (e1, w)))
      else (Inr (), (e, w)))"

definition process_candle ::
  "'w backend \<Rightarrow> (pyfloat \<Rightarrow> pyfloat res) \<Rightarrow> int \<Rightarrow> candle \<Rightarrow> engine \<times> 'w \<Rightarrow> unit res \<times> (engine \<times> 'w)" where
  "process_candle bk logf sid c s =
     (case s of (e, w) \<Rightarrow>
      attempt (indicators_of sid e) (e, w) (\<lambda>st.
      let (snapshot, st1) = symbol_indicators_update logf c st;
          e1 = set_indicators sid st1 e
      in attempt snapshot (e1, w) (\<lambda>snap.
         attempt (compute_trend snap) (e1, w) (\<lambda>trend.
         let e2 = note_trend sid trend e1
         in attempt (from_ms (cd_ts c)) (e2, w) (\<lambda>ts.
            let (r, w1) = bk_add_indicator bk (indicator_row_of sid ts snap trend) w
            in attempt r (e2, w1) (\<lambda>_.
               let (r2, s2) = analyze_signals bk sid ts snap trend (e2, w1)
               in attempt r2 s2 (\<lambda>_. analyze_events bk sid ts snap s2)))))))"

definition handle_candle ::
  "'w backend \<Rightarrow> (pyfloat \<Rightarrow> pyfloat res) \<Rightarrow> candle \<Rightarrow> engine \<times> 'w \<Rightarrow> unit res \<times> (engine \<times> 'w)" where
  "handle_candle bk logf c s =
     (if \<not> cd_closed c then (Inr (), s)
      else let (r, s1) = resolve_symbol_id bk (cd_symbol c) s in
        attempt r s1 (\<lambda>found. case found of
          None \<Rightarrow> (Inr (), s1)
        | Some sid \<Rightarrow> process_candle bk logf sid c s1))"


section \<open>Breadth and regime\<close>

definition handle_snapshot :: "ticker_row list \<Rightarrow> engine \<Rightarrow> unit res \<times> engine" where
  "handle_snapshot rows e =
     (let (r, b) = breadth_update rows (en_breadth e); e1 = e\<lparr>en_breadth := b\<rparr>
      in attempt r e1 (\<lambda>snapshot. (Inr (), e1\<lparr>en_latest_breadth := Some snapshot\<rparr>)))"

definition realized_vols :: "engine \<Rightarrow> pyfloat list" where
  "realized_vols e = List.map_filter (\<lambda>i. rv_value (si_vol_realized (snd i))) (en_indicators e)"

definition trend_count :: "direction \<Rightarrow> engine \<Rightarrow> int" where
  "trend_count d e = int (length (filter (\<lambda>i. tr_direction (snd i) = d) (en_latest_trend e)))"

definition refresh_regime ::
  "'w backend \<Rightarrow> datetime \<Rightarrow> engine \<times> 'w \<Rightarrow> regime_result option res \<times> (engine \<times> 'w)" where
  "refresh_regime bk now s =
     (case s of (e, w) \<Rightarrow>
      case en_latest_breadth e of
        None \<Rightarrow> (Inr None, (e, w))
      | Some breadth \<Rightarrow>
          if en_latest_trend e = [] then (Inr None, (e, w))
          else
            (let total = int (length (en_latest_trend e)); vols = realized_vols e
             in attempt (int_div (trend_count Up e) total) (e, w) (\<lambda>up_frac.
                attempt (int_div (trend_count Down e) total) (e, w) (\<lambda>down_frac.
                attempt (if vols = [] then Inr None else rbind (mean_of vols) (\<lambda>m. Inr (Some m))) (e, w) (\<lambda>avg_vol.
                attempt (regime_evaluate (en_settings e) breadth up_frac down_frac avg_vol) (e, w) (\<lambda>result.
                let (r, w1) = bk_insert_memory bk
                      \<lparr>yr_ts = now, yr_regime = rg_regime result, yr_vol_regime = rg_vol_regime result,
                       yr_breadth = rg_breadth result, yr_health_score = rg_health_score result,
                       yr_snapshot = rg_snapshot result\<rparr> w
                in attempt r (e, w1) (\<lambda>_.
                   (Inr (Some result),
                    (e\<lparr>en_regime_refresh_count := en_regime_refresh_count e + 1\<rparr>, w1)))))))))"

section \<open>What belongs to one symbol\<close>

definition engine_view :: "int \<Rightarrow> engine \<Rightarrow> _" where
  "engine_view k e = (en_settings e, map_of (en_indicators e) k, map_of (en_latest_trend e) k,
     signal_view k (en_signals e), event_view k (en_events e))"

definition state_view :: "(int \<Rightarrow> 'w \<Rightarrow> 'v) \<Rightarrow> int \<Rightarrow> engine \<times> 'w \<Rightarrow> _" where
  "state_view wview k s = (engine_view k (fst s), wview k (snd s))"

text \<open>A write names the symbol of its row: it neither reads nor changes what belongs to another one.\<close>

definition partitioned :: "('r \<Rightarrow> int) \<Rightarrow> ('r \<Rightarrow> 'w \<Rightarrow> unit res \<times> 'w) \<Rightarrow> (int \<Rightarrow> 'w \<Rightarrow> 'v) \<Rightarrow> bool" where
  "partitioned id_of f wview \<longleftrightarrow>
     (\<forall>row w k. k \<noteq> id_of row \<longrightarrow> wview k (snd (f row w)) = wview k w) \<and>
     (\<forall>row w w'. wview (id_of row) w = wview (id_of row) w' \<longrightarrow>
        fst (f row w) = fst (f row w') \<and> wview (id_of row) (snd (f row w)) = wview (id_of row) (snd (f row w')))"

lemma partitioned_other: "partitioned id_of f wview \<Longrightarrow> f row w = (r, w1) \<Longrightarrow> k \<noteq> id_of row \<Longrightarrow> wview k w1 = wview k w"
  unfolding partitioned_def by (metis snd_conv)

lemma partitioned_local:
  "partitioned id_of f wview \<Longrightarrow> f row w = (r, w1) \<Longrightarrow> f row w' = (r', w1') \<Longrightarrow>
    wview (id_of row) w = wview (id_of row) w' \<Longrightarrow> r' = r \<and> wview (id_of row) w1 = wview (id_of row) w1'"
  unfolding partitioned_def by (metis fst_conv snd_conv)

lemma engine_view_counters [simp]:
  "engine_view k (count_signal e) = engine_view k e"
  "engine_view k (count_event e) = engine_view k e"
  "engine_view k (e\<lparr>en_candles_processed := n\<rparr>) = engine_view k e"
  "engine_view k (e\<lparr>en_symbol_ids := m\<rparr>) = engine_view k e"
  by (simp_all add: engine_view_def count_signal_def count_event_def)

lemma engine_view_set:
  "engine_view k (set_indicators k' st e) = (case engine_view k e of (cfg, i, t, sg, ev) \<Rightarrow>
     (cfg, if k = k' then Some st else i, t, sg, ev))"
  "engine_view k (note_trend k' t' e) = (case engine_view k e of (cfg, i, t, sg, ev) \<Rightarrow>
     (cfg, i, if k = k' then t' else t, sg, ev))"
  by (auto simp: engine_view_def set_indicators_def note_trend_def split: option.split)

lemma insert_all_other:
  assumes "partitioned id_of put wview" "\<And>e. engine_view k (count e) = engine_view k e" "k \<noteq> sid"
  shows "\<forall>r \<in> set rows. id_of r = sid \<Longrightarrow>
    state_view wview k (snd (insert_all put count rows s)) = state_view wview k s"
proof (induction rows arbitrary: s)
  case (Cons row rows)
  obtain e w r w1 where s: "s = (e, w)" "put row w = (r, w1)" by (metis surj_pair)
  have "wview k w1 = wview k w" using partitioned_other [OF assms(1) s(2)] assms(3) Cons.prems by auto
  then show ?case using Cons s assms(2) by (auto simp: state_view_def attempt_def split: sum.split)
qed simp

lemma insert_all_local:
  assumes "partitioned id_of put wview" "\<And>e. engine_view sid (count e) = engine_view sid e"
  shows "\<forall>r \<in> set rows. id_of r = sid \<Longrightarrow> state_view wview sid s = state_view wview sid s' \<Longrightarrow>
    fst (insert_all put count rows s) = fst (insert_all put count rows s') \<and>
    state_view wview sid (snd (insert_all put count rows s)) =
      state_view wview sid (snd (insert_all put count rows s'))"
proof (induction rows arbitrary: s s')
  case (Cons row rows)
  obtain e w r w1 where s: "s = (e, w)" "put row w = (r, w1)" by (metis surj_pair)
  obtain e' w' r' w1' where s': "s' = (e', w')" "put row w' = (r', w1')" by (metis surj_pair)
  have "r' = r" "wview sid w1 = wview sid w1'"
    using partitioned_local [OF assms(1) s(2) s'(2)] Cons.prems s(1) s'(1) by (auto simp: state_view_def)
  moreover have "engine_view sid e = engine_view sid e'" using Cons.prems s(1) s'(1) by (simp add: state_view_def)
  ultimately show ?case
    using Cons.IH [of "(count e, w1)" "(count e', w1')"] Cons.prems s s' assms(2)
    by (auto simp: state_view_def attempt_def split: sum.split)
qed simp

lemma rows_of_symbol [simp]:
  "gr_symbol_id (signal_row_of sid ts sig) = sid" "vr_symbol_id (event_row_of sid ts ev) = sid"
  "ir_symbol_id (indicator_row_of sid ts sn t) = sid"
  by (simp_all add: signal_row_of_def event_row_of_def indicator_row_of_def)

lemma engine_view_engines:
  "k \<noteq> sid \<Longrightarrow> engine_view k (e\<lparr>en_signals := snd (evaluate_signals cfg sid sn t (en_signals e))\<rparr>) = engine_view k e"
  "k \<noteq> sid \<Longrightarrow> engine_view k (e\<lparr>en_events := snd (evaluate_events cfg sid sn (en_events e))\<rparr>) = engine_view k e"
  by (simp_all add: engine_view_def evaluate_signals_frame evaluate_events_frame)

section \<open>The store behind the engine\<close>

locale partitioned_store =
  fixes bk :: "'w backend" and wview :: "int \<Rightarrow> 'w \<Rightarrow> 'v"
  assumes add_indicator: "partitioned ir_symbol_id (bk_add_indicator bk) wview"
    and insert_signal: "partitioned gr_symbol_id (bk_insert_signal bk) wview"
    and insert_event: "partitioned vr_symbol_id (bk_insert_event bk) wview"
begin

lemma analyze_events_other:
  assumes "k \<noteq> sid"
  shows "state_view wview k (snd (analyze_events bk sid ts sn s)) = state_view wview k s"
proof -
  obtain e w where s: "s = (e, w)" by (cases s)
  obtain r ee where ev: "evaluate_events (en_settings e) sid sn (en_events e) = (r, ee)" by fastforce
  have v: "engine_view k (e\<lparr>en_events := ee\<rparr>) = engine_view k e"
    using engine_view_engines(2) [OF assms, where e = e and cfg = "en_settings e" and sn = sn] ev by simp
  show ?thesis
  proof (cases r)
    case (Inl x)
    then show ?thesis using s ev v by (simp add: analyze_events_def state_view_def)
  next
    case (Inr evs)
    obtain r2 s2 where ins: "insert_all (bk_insert_event bk) count_event (map (event_row_of sid ts) evs)
        (e\<lparr>en_events := ee\<rparr>, w) = (r2, s2)" by (metis surj_pair)
    have "state_view wview k s2 = state_view wview k (e\<lparr>en_events := ee\<rparr>, w)"
      using insert_all_other [OF insert_event _ assms, of count_event "map (event_row_of sid ts) evs"
          "(e\<lparr>en_events := ee\<rparr>, w)"] ins by simp
    then show ?thesis using s ev v Inr ins
      by (auto simp: analyze_events_def state_view_def attempt_def split: sum.split prod.split)
  qed
qed

lemma analyze_events_local:
  assumes "state_view wview sid s = state_view wview sid s'"
  shows "fst (analyze_events bk sid ts sn s) = fst (analyze_events bk sid ts sn s') \<and>
    state_view wview sid (snd (analyze_events bk sid ts sn s)) = state_view wview sid (snd (analyze_events bk sid ts sn s'))"
proof -
  obtain e w e' w' where s: "s = (e, w)" "s' = (e', w')" by (metis surj_pair)
  have st: "en_settings e' = en_settings e" "event_view sid (en_events e) = event_view sid (en_events e')"
    "wview sid w = wview sid w'"
    using assms s by (auto simp: state_view_def engine_view_def)
  obtain r ee where ev: "evaluate_events (en_settings e) sid sn (en_events e) = (r, ee)" by fastforce
  obtain r' ee' where ev': "evaluate_events (en_settings e) sid sn (en_events e') = (r', ee')" by fastforce
  have r: "r' = r" "event_view sid ee = event_view sid ee'"
    using evaluate_events_local [OF st(2), of "en_settings e" sn] ev ev' by auto
  have v: "state_view wview sid (e\<lparr>en_events := ee\<rparr>, w) = state_view wview sid (e'\<lparr>en_events := ee'\<rparr>, w')"
    using assms s r by (simp add: state_view_def engine_view_def)
  show ?thesis
  proof (cases r)
    case (Inl x)
    then show ?thesis using s ev ev' v r st(1) by (simp add: analyze_events_def)
  next
    case (Inr evs)
    let ?ins = "insert_all (bk_insert_event bk) count_event (map (event_row_of sid ts) evs)"
    obtain r2 e2 w2 where ins: "?ins (e\<lparr>en_events := ee\<rparr>, w) = (r2, (e2, w2))" by (metis surj_pair)
    obtain r2' e2' w2' where ins': "?ins (e'\<lparr>en_events := ee'\<rparr>, w') = (r2', (e2', w2'))" by (metis surj_pair)
    have "r2' = r2" "state_view wview sid (e2, w2) = state_view wview sid (e2', w2')"
      using insert_all_local [OF insert_event _ _ v, of count_event "map (event_row_of sid ts) evs"] ins ins' by auto
    then show ?thesis using s ev ev' st(1) r(1) Inr ins ins'
      by (auto simp: analyze_events_def state_view_def attempt_def split: sum.split)
  qed
qed

lemma analyze_signals_other:
  assumes "k \<noteq> sid"
  shows "state_view wview k (snd (analyze_signals bk sid ts sn t s)) = state_view wview k s"
proof -
  obtain e w where s: "s = (e, w)" by (cases s)
  obtain r se where sg: "evaluate_signals (en_settings e) sid sn t (en_signals e) = (r, se)" by fastforce
  have v: "engine_view k (e\<lparr>en_signals := se\<rparr>) = engine_view k e"
    using engine_view_engines(1) [OF assms, where e = e and cfg = "en_settings e" and sn = sn and t = t] sg by simp
  show ?thesis
  proof (cases r)
    case (Inl x)
    then show ?thesis using s sg v by (simp add: analyze_signals_def state_view_def)
  next
    case (Inr sigs)
    have "state_view wview k (snd (insert_all (bk_insert_signal bk) count_signal (map (signal_row_of sid ts) sigs)
        (e\<lparr>en_signals := se\<rparr>, w))) = state_view wview k (e\<lparr>en_signals := se\<rparr>, w)"
      using insert_all_other [OF insert_signal _ assms, of count_signal "map (signal_row_of sid ts) sigs"
          "(e\<lparr>en_signals := se\<rparr>, w)"] by simp
    then show ?thesis using s sg v Inr by (simp add: analyze_signals_def state_view_def)
  qed
qed

lemma analyze_signals_local:
  assumes "state_view wview sid s = state_view wview sid s'"
  shows "fst (analyze_signals bk sid ts sn t s) = fst (analyze_signals bk sid ts sn t s') \<and>
    state_view wview sid (snd (analyze_signals bk sid ts sn t s)) = state_view wview sid (snd (analyze_signals bk sid ts sn t s'))"
proof -
  obtain e w e' w' where s: "s = (e, w)" "s' = (e', w')" by (metis surj_pair)
  have st: "en_settings e' = en_settings e" "signal_view sid (en_signals e) = signal_view sid (en_signals e')"
    using assms s by (auto simp: state_view_def engine_view_def)
  obtain r se where sg: "evaluate_signals (en_settings e) sid sn t (en_signals e) = (r, se)" by fastforce
  obtain r' se' where sg': "evaluate_signals (en_settings e) sid sn t (en_signals e') = (r', se')" by fastforce
  have r: "r' = r" "signal_view sid se = signal_view sid se'"
    using evaluate_signals_local [OF st(2), of "en_settings e" sn t] sg sg' by auto
  have v: "state_view wview sid (e\<lparr>en_signals := se\<rparr>, w) = state_view wview sid (e'\<lparr>en_signals := se'\<rparr>, w')"
    using assms s r by (simp add: state_view_def engine_view_def)
  have "fst (insert_all (bk_insert_signal bk) count_signal (map (signal_row_of sid ts) sigs) (e\<lparr>en_signals := se\<rparr>, w)) =
      fst (insert_all (bk_insert_signal bk) count_signal (map (signal_row_of sid ts) sigs) (e'\<lparr>en_signals := se'\<rparr>, w')) \<and>
    state_view wview sid (snd (insert_all (bk_insert_signal bk) count_signal (map (signal_row_of sid ts) sigs)
      (e\<lparr>en_signals := se\<rparr>, w))) =
    state_view wview sid (snd (insert_all (bk_insert_signal bk) count_signal (map (signal_row_of sid ts) sigs)
      (e'\<lparr>en_signals := se'\<rparr>, w')))" for sigs
    by (rule insert_all_local [OF insert_signal _ _ v]) simp_all
  then show ?thesis using s sg sg' st(1) r(1) v assms
    by (cases r) (auto simp: analyze_signals_def)
qed

lemma process_candle_other:
  assumes "k \<noteq> sid"
  shows "state_view wview k (snd (process_candle bk logf sid c s)) = state_view wview k s"
proof -
  obtain e w where s: "s = (e, w)" by (cases s)
  let ?P = "\<lambda>s'. state_view wview k s' = state_view wview k (e, w)"
  have set: "?P (set_indicators sid st e, w)" "?P (note_trend sid t (set_indicators sid st e), w)" for st t
    using assms by (simp_all add: state_view_def engine_view_set split: prod.split)
  have ind: "?P (note_trend sid t (set_indicators sid st e), snd (bk_add_indicator bk (indicator_row_of sid ts sn t') w))"
    for st t ts sn t'
    using set(2) partitioned_other [OF add_indicator prod.collapse [symmetric], of k _ w] assms
    by (simp add: state_view_def)
  show ?thesis
    unfolding s process_candle_def prod.case Let_def split_beta
    using set ind
    by (auto intro!: attempt_keeps [where P = ?P]
        simp: analyze_events_other [OF assms] analyze_signals_other [OF assms])
qed

lemma process_candle_local:
  assumes "state_view wview sid s = state_view wview sid s'"
  shows "fst (process_candle bk logf sid c s) = fst (process_candle bk logf sid c s') \<and>
    state_view wview sid (snd (process_candle bk logf sid c s)) =
      state_view wview sid (snd (process_candle bk logf sid c s'))"
proof -
  obtain e w e' w' where s: "s = (e, w)" "s' = (e', w')" by (metis surj_pair)
  let ?Q = "\<lambda>s s'. state_view wview sid s = state_view wview sid s'"
  have w: "wview sid w = wview sid w'" "engine_view sid e = engine_view sid e'"
    using assms s by (auto simp: state_view_def)
  have ind: "indicators_of sid e' = indicators_of sid e" using w(2) by (simp add: indicators_of_def engine_view_def)
  have set: "?Q (set_indicators sid st e, w) (set_indicators sid st e', w')"
    "?Q (note_trend sid t (set_indicators sid st e), w) (note_trend sid t (set_indicators sid st e'), w')" for st t
    using w by (simp_all add: state_view_def engine_view_set)
  have add: "fst (bk_add_indicator bk (indicator_row_of sid ts sn t) w') = fst (bk_add_indicator bk (indicator_row_of sid ts sn t) w)"
    "?Q (note_trend sid t' (set_indicators sid st e), snd (bk_add_indicator bk (indicator_row_of sid ts sn t) w))
      (note_trend sid t' (set_indicators sid st e'), snd (bk_add_indicator bk (indicator_row_of sid ts sn t) w'))"
    for ts sn t t' st
    using partitioned_local [OF add_indicator prod.collapse [symmetric] prod.collapse [symmetric],
        of "indicator_row_of sid ts sn t" w w'] w(1) set(2) [of t' st] by (simp_all add: state_view_def)
  note sg = conjunct1 [OF analyze_signals_local, symmetric] conjunct2 [OF analyze_signals_local]
  show ?thesis
    unfolding s process_candle_def prod.case Let_def split_beta fst_conv snd_conv
    by (intro attempt_agree [where Q = ?Q] ind set add sg analyze_events_local refl assms [unfolded s])
qed

end

section \<open>Candles of many symbols\<close>

text \<open>A registry that does not change while candles are handled, and a cache that agrees with it.\<close>

definition cache_ok :: "(string \<Rightarrow> int option) \<Rightarrow> engine \<Rightarrow> bool" where
  "cache_ok ids e \<longleftrightarrow> (\<forall>base sid. en_symbol_ids e base = Some sid \<longrightarrow> ids base = Some sid)"

lemma insert_all_ids:
  assumes "\<And>e. en_symbol_ids (count e) = en_symbol_ids e"
  shows "en_symbol_ids (fst (snd (insert_all put count rows s))) = en_symbol_ids (fst s)"
proof (induction rows arbitrary: s)
  case (Cons row rows)
  then show ?case using assms by (cases s) (auto simp: attempt_def split_beta split: sum.split)
qed simp

lemma count_ids [simp]:
  "en_symbol_ids (count_signal e) = en_symbol_ids e" "en_symbol_ids (count_event e) = en_symbol_ids e"
  by (simp_all add: count_signal_def count_event_def)

lemma analyze_ids:
  "en_symbol_ids (fst (snd (analyze_events bk sid ts sn s))) = en_symbol_ids (fst s)"
  "en_symbol_ids (fst (snd (analyze_signals bk sid ts sn t s))) = en_symbol_ids (fst s)"
  by (cases s; auto simp: analyze_events_def analyze_signals_def Let_def split_beta insert_all_ids
      intro!: attempt_keeps [where P = "\<lambda>s'. en_symbol_ids (fst s') = _"])+

lemma process_candle_ids: "en_symbol_ids (fst (snd (process_candle bk logf sid c s))) = en_symbol_ids (fst s)"
  by (cases s) (auto simp: process_candle_def Let_def split_beta analyze_ids set_indicators_def note_trend_def
      intro!: attempt_keeps [where P = "\<lambda>s'. en_symbol_ids (fst s') = _"])

definition belongs :: "(string \<Rightarrow> int option) \<Rightarrow> int \<Rightarrow> candle \<Rightarrow> bool" where
  "belongs ids k c \<longleftrightarrow> cd_closed c \<and> ids (cd_symbol c) = Some k"

locale resolving_store = partitioned_store bk wview
  for bk :: "'w backend" and wview :: "int \<Rightarrow> 'w \<Rightarrow> 'v" +
  fixes ids :: "string \<Rightarrow> int option"
  assumes get_id: "bk_get_id bk base w = (Inr (ids base), w)"
begin

lemma resolve_view:
  assumes "cache_ok ids (fst s)"
  shows "\<exists>s1. resolve_symbol_id bk base s = (Inr (ids base), s1) \<and> state_view wview k s1 = state_view wview k s \<and>
    cache_ok ids (fst s1)"
  using assms by (cases s) (auto simp: resolve_symbol_id_def get_id state_view_def cache_ok_def split: option.split)

lemma handle_candle_cache:
  assumes "cache_ok ids (fst s)"
  shows "cache_ok ids (fst (snd (handle_candle bk logf c s)))"
proof -
  obtain s1 where 1: "resolve_symbol_id bk (cd_symbol c) s = (Inr (ids (cd_symbol c)), s1)" "cache_ok ids (fst s1)"
    using resolve_view [OF assms, of "cd_symbol c"] by blast
  have "cache_ok ids (fst (snd (process_candle bk logf sid c s1)))" for sid
    using 1(2) by (simp add: cache_ok_def process_candle_ids)
  then show ?thesis using 1 assms by (simp add: handle_candle_def split: option.split)
qed

lemma handle_candle_foreign:
  assumes "cache_ok ids (fst s)" "\<not> belongs ids k c"
  shows "state_view wview k (snd (handle_candle bk logf c s)) = state_view wview k s"
proof (cases "cd_closed c")
  case True
  obtain s1 where "resolve_symbol_id bk (cd_symbol c) s = (Inr (ids (cd_symbol c)), s1)"
    "state_view wview k s1 = state_view wview k s"
    using resolve_view assms(1) by blast
  then show ?thesis using assms(2) True process_candle_other [of k _ logf c s1]
    by (auto simp: handle_candle_def belongs_def split: option.split)
qed (simp add: handle_candle_def)

lemma handle_candle_own:
  assumes "cache_ok ids (fst s)" "cache_ok ids (fst s')" "belongs ids k c"
    "state_view wview k s = state_view wview k s'"
  shows "fst (handle_candle bk logf c s) = fst (handle_candle bk logf c s') \<and>
    state_view wview k (snd (handle_candle bk logf c s)) = state_view wview k (snd (handle_candle bk logf c s'))"
proof -
  obtain s1 where 1: "resolve_symbol_id bk (cd_symbol c) s = (Inr (Some k), s1)"
    "state_view wview k s1 = state_view wview k s"
    using resolve_view [OF assms(1), of "cd_symbol c" k] assms(3) by (auto simp: belongs_def)
  obtain s2 where 2: "resolve_symbol_id bk (cd_symbol c) s' = (Inr (Some k), s2)"
    "state_view wview k s2 = state_view wview k s'"
    using resolve_view [OF assms(2), of "cd_symbol c" k] assms(3) by (auto simp: belongs_def)
  have "state_view wview k s1 = state_view wview k s2" using 1(2) 2(2) assms(4) by simp
  from process_candle_local [OF this] show ?thesis
    using 1(1) 2(1) assms(3) by (simp add: handle_candle_def belongs_def)
qed

lemma run_cache: "cache_ok ids (fst s) \<Longrightarrow> cache_ok ids (fst (snd (run_all (handle_candle bk logf) cs s)))"
  by (induction cs arbitrary: s) (auto simp: split_beta handle_candle_cache)

text \<open>What a symbol sees of a mixed stream is what it sees of its own candles alone.\<close>

lemma run_isolated:
  assumes "cache_ok ids (fst s)" "cache_ok ids (fst s')" "state_view wview k s = state_view wview k s'"
  shows "state_view wview k (snd (run_all (handle_candle bk logf) cs s)) =
    state_view wview k (snd (run_all (handle_candle bk logf) (filter (belongs ids k) cs) s'))"
  using assms
proof (induction cs arbitrary: s s')
  case (Cons c cs)
  note cache = handle_candle_cache [OF Cons.prems(1)] handle_candle_cache [OF Cons.prems(2)]
  show ?case
  proof (cases "belongs ids k c")
    case True
    then show ?thesis
      using Cons.IH [OF cache(1) cache(2)] handle_candle_own [OF Cons.prems(1,2) True Cons.prems(3)]
      by (simp add: split_beta)
  next
    case False
    then show ?thesis
      using Cons.IH [OF cache(1) Cons.prems(2)] handle_candle_foreign [OF Cons.prems(1) False] Cons.prems(3)
      by (simp add: split_beta)
  qed
qed simp

lemma run_foreign:
  "cache_ok ids (fst s) \<Longrightarrow> \<forall>c \<in> set cs. \<not> belongs ids k c \<Longrightarrow>
    state_view wview k (snd (run_all (handle_candle bk logf) cs s)) = state_view wview k s"
  using run_isolated [of s s k logf cs] by (simp add: filter_False)

end


section \<open>The in-memory sinks of a replay\<close>

text \<open>
  \<^verbatim>\<open>src/orvixa/backtest/capture.py\<close>: \<^verbatim>\<open>NullSink\<close> discards, \<^verbatim>\<open>SignalCaptureSink\<close> keeps the signal rows
  in order. The registry answers from a fixed table \<open>ids\<close>.
\<close>

definition null_sink :: "'r \<Rightarrow> 'w \<Rightarrow> unit res \<times> 'w" where
  "null_sink row w = (Inr (), w)"

definition capture_signal :: "signal_row \<Rightarrow> signal_row list \<Rightarrow> unit res \<times> signal_row list" where
  "capture_signal row rows = (Inr (), rows @ [row])"

definition capture_backend :: "(string \<Rightarrow> int option) \<Rightarrow> signal_row list backend" where
  "capture_backend ids =
     \<lparr>bk_get_id = (\<lambda>base w. (Inr (ids base), w)), bk_add_indicator = null_sink,
      bk_insert_signal = capture_signal, bk_insert_event = null_sink, bk_insert_memory = null_sink\<rparr>"

definition captured :: "int \<Rightarrow> signal_row list \<Rightarrow> signal_row list" where
  "captured k rows = filter (\<lambda>r. gr_symbol_id r = k) rows"

interpretation capture_store: resolving_store "capture_backend ids" captured ids for ids
  by unfold_locales
    (simp_all add: capture_backend_def partitioned_def null_sink_def capture_signal_def captured_def)

lemma engine_new_cache: "cache_ok ids (engine_new cfg ids)"
  by (simp add: cache_ok_def engine_new_def)

end
