(* ===== verification/Pipeline.thy ===== *)
theory Pipeline
  imports Engine
begin

text \<open>
  The analytics pipeline as a whole: under valid settings and on real candles no step of
  \<^verbatim>\<open>AnalyticsEngine.handle_candle\<close> raises, so every closed candle of a known symbol is processed.
\<close>

section \<open>One symbol's indicators\<close>

definition pipeline_config_ok :: "settings \<Rightarrow> bool" where
  "pipeline_config_ok cfg \<longleftrightarrow>
     period_ok (ema_fast_period cfg) \<and> ema_fast_period cfg < 2 ^ 53 \<and>
     period_ok (ema_slow_period cfg) \<and> ema_slow_period cfg < 2 ^ 53 \<and>
     period_ok (rsi_period cfg) \<and> period_ok (atr_period cfg) \<and>
     1 \<le> realized_vol_window cfg \<and> realized_vol_window cfg \<le> 2 ^ 53 \<and>
     0 \<le> relative_volume_window cfg \<and> relative_volume_window cfg \<le> 2 ^ 53 \<and>
     events_config_ok cfg \<and> Fin 0 < high_volatility_pct cfg \<and> is_fin (high_volatility_pct cfg)"

definition candle_ok :: "candle \<Rightarrow> bool" where
  "candle_ok c \<longleftrightarrow> level_ok (cd_close c) \<and> price_ok (cd_high c) \<and> price_ok (cd_low c) \<and> price_ok (cd_volume c) \<and>
     cd_low c \<le> cd_high c \<and> 0 \<le> cd_ts c \<and> cd_ts c < 2 ^ 32 * 1000"

lemma level_price: "level_ok x \<Longrightarrow> price_ok x"
  unfolding level_ok_def price_ok_def
  by (erule in_range_mono) (simp_all add: price_bound_def power_increasing)

lemma candle_closes:
  assumes "candle_ok c"
  shows "price_ok (cd_close c)" "bar_ok (cd_high c, cd_low c, cd_close c)" "\<exists>q. cd_close c = Fin q \<and> 0 < q"
proof -
  show p: "price_ok (cd_close c)" using assms level_price by (simp add: candle_ok_def)
  then show "bar_ok (cd_high c, cd_low c, cd_close c)" using assms by (simp add: candle_ok_def bar_ok_def)
  have "(0 :: rat) < 1 / 2 ^ 400" by simp
  then show "\<exists>q. cd_close c = Fin q \<and> 0 < q"
    using assms by (fastforce simp: candle_ok_def level_ok_def in_range_def)
qed

text \<open>What the six calculators hold after the candles \<open>h\<close> of the symbol.\<close>

definition indicators_at :: "(pyfloat \<Rightarrow> pyfloat res) \<Rightarrow> settings \<Rightarrow> candle list \<Rightarrow> symbol_indicators \<Rightarrow> bool" where
  "indicators_at logf cfg h st \<longleftrightarrow>
     ema_at (length h) (si_ema_fast st) \<and> ema_at (length h) (si_ema_slow st) \<and>
     rsi_at (rsi_period cfg) (length h) (si_rsi st) \<and> atr_at (atr_period cfg) (length h) (si_atr st) \<and>
     si_vol_realized st = rvol_repr logf (realized_vol_window cfg) (map cd_close h) \<and>
     si_vol_rel st = relvol_repr (relative_volume_window cfg) (map cd_volume h)"

text \<open>Snapshots whose parts are in range.\<close>

definition snapshot_good :: "indicator_snapshot \<Rightarrow> bool" where
  "snapshot_good s \<longleftrightarrow> snap_ok s \<and>
     (\<exists>f l. sn_ema_fast s = Some f \<and> sn_ema_slow s = Some l \<and> price_ok f \<and> price_ok l) \<and>
     (\<forall>r. sn_rsi s = Some r \<longrightarrow> in_range 0 100 r) \<and>
     (\<forall>v. sn_vol_rel s = Some v \<longrightarrow> number v)"

lemma symbol_indicators_new_at:
  assumes "pipeline_config_ok cfg"
  shows "\<exists>st. symbol_indicators_new cfg = Inr st \<and> indicators_at logf cfg [] st"
proof -
  obtain ef es where e: "ema_new (ema_fast_period cfg) = Inr ef" "ema_at 0 ef"
    "ema_new (ema_slow_period cfg) = Inr es" "ema_at 0 es"
    using assms ema_new_at unfolding pipeline_config_ok_def by blast
  have "rvol_new (realized_vol_window cfg) = Inr (rvol_repr logf (realized_vol_window cfg) [])"
    using assms by (simp add: pipeline_config_ok_def rvol_new_def deque_new_def rvol_repr_def rvol_reference_def)
  moreover have "relvol_new (relative_volume_window cfg) = Inr (relvol_repr (relative_volume_window cfg) [])"
    using assms by (simp add: pipeline_config_ok_def relvol_new_def deque_new_def relvol_repr_def)
  ultimately show ?thesis
    using e rsi_new_at atr_new_at assms by (simp add: symbol_indicators_new_def indicators_at_def pipeline_config_ok_def)
qed

lemma relvol_number:
  assumes "0 \<le> w" "w \<le> 2 ^ 53" "price_ok v" "relvol_reference w vs v = Inr (Some x)"
  shows "number x"
proof -
  obtain avg where "x = quot v avg" "Fin 0 < avg"
    using assms(4) by (auto simp: relvol_reference_def Let_def rbind_eq_Inr split: if_splits)
  moreover obtain q where "v = Fin q" using assms(3) by (auto simp: price_ok_def in_range_def)
  ultimately show ?thesis by (cases avg) (auto simp: number_def signed_inf_def)
qed

lemma symbol_indicators_step:
  assumes "pipeline_config_ok cfg" "libm_log logf" "indicators_at logf cfg h st" "\<forall>c \<in> set h. candle_ok c" "candle_ok c"
  shows "\<exists>sn st'. symbol_indicators_update logf c st = (Inr sn, st') \<and> indicators_at logf cfg (h @ [c]) st' \<and>
    snapshot_good sn \<and> sn_close sn = cd_close c"
proof -
  note cl = candle_closes [OF assms(5)]
  let ?n = "length h"
  have at: "ema_at ?n (si_ema_fast st)" "ema_at ?n (si_ema_slow st)" "rsi_at (rsi_period cfg) ?n (si_rsi st)"
    "atr_at (atr_period cfg) ?n (si_atr st)"
    and rv: "si_vol_realized st = rvol_repr logf (realized_vol_window cfg) (map cd_close h)"
    and rl: "si_vol_rel st = relvol_repr (relative_volume_window cfg) (map cd_volume h)"
    using assms(3) by (auto simp: indicators_at_def)
  obtain ef emaf where ef: "ema_update (cd_close c) (si_ema_fast st) = (ef, emaf)" "ema_at (Suc ?n) emaf" "price_ok ef"
    using ema_step [OF at(1) cl(1)] by (metis prod.collapse)
  obtain es emas where es: "ema_update (cd_close c) (si_ema_slow st) = (es, emas)" "ema_at (Suc ?n) emas" "price_ok es"
    using ema_step [OF at(2) cl(1)] by (metis prod.collapse)
  obtain r r1 where r: "rsi_update (cd_close c) (si_rsi st) = (Inr r, r1)" "rsi_at (rsi_period cfg) (Suc ?n) r1"
    "\<forall>v. r = Some v \<longrightarrow> in_range 0 100 v"
    using rsi_step [OF at(3) cl(1)] by (cases "rsi_update (cd_close c) (si_rsi st)") (auto simp: rsi_good_def split: if_splits)
  have "\<exists>a a1. atr_upd (cd_high c, cd_low c, cd_close c) (si_atr st) = (Inr a, a1) \<and> atr_at (atr_period cfg) (Suc ?n) a1"
    using atr_step [OF at(4) cl(2)]
    by (cases "atr_upd (cd_high c, cd_low c, cd_close c) (si_atr st)") (auto simp: atr_good_def split: if_splits)
  then obtain a a1 where a: "atr_update (cd_high c) (cd_low c) (cd_close c) (si_atr st) = (Inr a, a1)"
    "atr_at (atr_period cfg) (Suc ?n) a1"
    by (auto simp: atr_upd_def)
  have cfg: "1 \<le> realized_vol_window cfg" "realized_vol_window cfg \<le> 2 ^ 53"
    "0 \<le> relative_volume_window cfg" "relative_volume_window cfg \<le> 2 ^ 53"
    using assms(1) by (auto simp: pipeline_config_ok_def)
  have lv: "\<forall>x \<in> set (map cd_close (h @ [c])). level_ok x" using assms(4,5) by (auto simp: candle_ok_def)
  have "rvol_update logf (cd_close c) (rvol_repr logf (realized_vol_window cfg) (map cd_close h)) =
      (rvol_reference logf (realized_vol_window cfg) (map cd_close h @ [cd_close c]),
       rvol_repr logf (realized_vol_window cfg) (map cd_close h @ [cd_close c]))"
    using rvol_calc.upd_repr [where hist = "map cd_close h" and x = "cd_close c"] lv cfg assms(2) by auto
  moreover have "\<exists>v. rvol_reference logf (realized_vol_window cfg) (map cd_close h @ [cd_close c]) = Inr v"
    using rvol_reference_ok [OF assms(2) lv cfg(1,2)] by (auto simp: not_le)
  ultimately obtain v where v: "rvol_update logf (cd_close c) (si_vol_realized st) =
      (Inr v, rvol_repr logf (realized_vol_window cfg) (map cd_close (h @ [c])))"
    using rv by auto
  obtain vr where vr: "relvol_reference (relative_volume_window cfg) (map cd_volume h) (cd_volume c) = Inr vr"
    using relvol_reference_total [OF cfg(3,4)] by blast
  have "relvol_update (cd_volume c) (si_vol_rel st) =
      (Inr vr, relvol_repr (relative_volume_window cfg) (map cd_volume (h @ [c])))"
    using relvol_calc.upd_repr [where hist = "map cd_volume h" and x = "cd_volume c"] cfg(3,4) rl vr by auto
  moreover have "\<forall>x. vr = Some x \<longrightarrow> number x"
    using relvol_number [OF cfg(3,4)] vr assms(5) by (auto simp: candle_ok_def)
  moreover have nan: "cd_high c \<noteq> NaN" "cd_low c \<noteq> NaN"
    using assms(5) in_range_not_NaN by (auto simp: candle_ok_def price_ok_def)
  ultimately show ?thesis
    using ef es r a v cl(3) nan
    by (auto simp: symbol_indicators_update_def indicators_at_def snapshot_good_def snap_ok_def)
qed


section \<open>Trend and signals on such snapshots\<close>

lemma trend_in_range:
  assumes "snapshot_good s" "compute_trend s = Inr (Some t)"
  shows "in_range 0 100 (tr_strength t)"
proof -
  obtain f l where fl: "sn_ema_fast s = Some f" "sn_ema_slow s = Some l" "price_ok f" "price_ok l"
    using assms(1) by (auto simp: snapshot_good_def)
  have "l \<noteq> Fin 0" using assms(2) fl by (auto simp: compute_trend_def feq_def)
  then have "emas_ok s" using fl by (auto simp: emas_ok_def)
  then show ?thesis using compute_trend_signed assms(2) by fastforce
qed

lemma times_const_not_NaN: "x \<noteq> NaN \<Longrightarrow> c \<noteq> 0 \<Longrightarrow> x * Fin c \<noteq> NaN"
  by (cases x) (auto simp: signed_inf_def)

lemma pressure_confidence_total:
  assumes "in_range 0 100 (tr_strength t)" "in_range 0 100 r" "number v"
  shows "\<exists>n. pressure_confidence t r v = Inr n"
proof -
  have d: "in_range (- 50) 50 (r - Fin 50)"
    by (rule in_range_diff [OF assms(2), of 50 50]) (simp_all add: in_range_Fin)
  then obtain q where q: "r - Fin 50 = Fin q" "\<bar>q\<bar> \<le> 50" "endpoint q" by (auto simp: in_range_def)
  have "in_range 0 50 \<bar>r - Fin 50\<bar>" 
    by (cases "0 \<le> q") (use q endpoint_minus [of q] in \<open>auto simp: in_range_def\<close>)
  then have "in_range 0 100 (\<bar>r - Fin 50\<bar> * Fin 2)"
    by (rule in_range_mult [of _ _ _ 2 2]) (simp_all add: in_range_Fin)
  then have rc: "in_range 0 100 (pymin (\<bar>r - Fin 50\<bar> * Fin 2) (Fin 100))"
    by (rule in_range_pymin [of _ _ _ 100 100]) (simp_all add: in_range_Fin)
  have "v - Fin 1 \<noteq> NaN" using assms(3) by (cases v) (auto simp: number_def minus_pyfloat_def)
  then have "(v - Fin 1) * Fin 50 \<noteq> NaN" by (rule times_const_not_NaN) simp
  then have vc: "in_range 0 100 (clamp ((v - Fin 1) * Fin 50) 0 100)" by (intro clamp_in_range) simp_all
  have w: "in_range 0 1 (to_dbl (6 / 10))" "in_range 0 1 (to_dbl (2 / 10))" by (auto intro: to_dbl_in_range)
  have "in_range 0 100 (to_dbl (6 / 10) * tr_strength t)"
    "in_range 0 100 (to_dbl (2 / 10) * pymin (\<bar>r - Fin 50\<bar> * Fin 2) (Fin 100))"
    "in_range 0 100 (to_dbl (2 / 10) * clamp ((v - Fin 1) * Fin 50) 0 100)"
    by (rule in_range_mult [OF w(1) assms(1)] in_range_mult [OF w(2) rc] in_range_mult [OF w(2) vc]; simp)+
  note s = in_range_add [OF in_range_add [OF this(1,2), of 0 200] this(3), of 0 300]
  show ?thesis
    using in_range_not_NaN [OF s] round_score_range(2)
    unfolding pressure_confidence_def Let_def by simp
qed

lemma highvol_confidence_total:
  assumes "Fin 0 < thr" "is_fin thr" "thr \<le> vol"
  shows "\<exists>n. highvol_confidence vol thr = Inr n"
proof -
  obtain b where b: "thr = Fin b" "0 < b" using assms(1,2) by (cases thr) auto
  have "Fin 1 \<le> quot vol thr"
    using assms(3) b to_dbl_mono [of 1 "a / b" for a] by (cases vol) (auto simp: signed_inf_def)
  then have "Fin 50 \<le> quot vol thr * Fin 50"
    using to_dbl_mono [of 50 "a * 50" for a] by (cases "quot vol thr") (auto simp: signed_inf_def)
  then have "\<exists>q. pymin (quot vol thr * Fin 50) (Fin 100) = Fin q"
    by (cases "quot vol thr * Fin 50") (auto simp: pymin_def)
  then show ?thesis using b by (auto simp: highvol_confidence_def fdiv_def feq_def)
qed

lemma evaluate_signals_total:
  assumes "pipeline_config_ok cfg" "snapshot_good s" "compute_trend s = Inr t"
  shows "\<exists>sigs. fst (evaluate_signals cfg sid s t e) = Inr sigs"
proof -
  have "\<exists>p. fst (evaluate_pressure cfg sid s t e) = Inr p"
    using pressure_confidence_total trend_in_range assms(2,3)
    by (fastforce simp: evaluate_pressure_cases snapshot_good_def split: option.split sum.split)
  moreover have "\<exists>h. fst (evaluate_highvol cfg sid s e') = Inr h" for e'
    using highvol_confidence_total assms(1)
    by (fastforce simp: evaluate_highvol_def pipeline_config_ok_def Let_def attempt_def split: option.split sum.split)
  ultimately obtain p h where "fst (evaluate_pressure cfg sid s t e) = Inr p"
    "fst (evaluate_highvol cfg sid s (snd (evaluate_pressure cfg sid s t e))) = Inr h" by blast
  then show ?thesis by (simp add: evaluate_signals_def split_beta)
qed


section \<open>One candle\<close>

definition symbol_inv :: "(pyfloat \<Rightarrow> pyfloat res) \<Rightarrow> settings \<Rightarrow> candle list \<Rightarrow> int \<Rightarrow> engine \<Rightarrow> bool" where
  "symbol_inv logf cfg h sid e \<longleftrightarrow>
     en_settings e = cfg \<and>
     (case map_of (en_indicators e) sid of None \<Rightarrow> h = [] | Some st \<Rightarrow> indicators_at logf cfg h st) \<and>
     (\<exists>snaps. event_inv cfg snaps (event_view sid (en_events e)) \<and> (\<forall>x \<in> set snaps. snap_ok x))"

lemma symbol_inv_view: "engine_view sid e = engine_view sid e' \<Longrightarrow> symbol_inv logf cfg h sid e = symbol_inv logf cfg h sid e'"
  by (simp add: engine_view_def symbol_inv_def)

lemma symbol_inv_new: "symbol_inv logf cfg [] sid (engine_new cfg ids)"
  using event_inv_new [of cfg sid] by (auto simp: symbol_inv_def engine_new_def intro!: exI [of _ "[]"])

lemma symbol_inv_counters [simp]:
  "symbol_inv logf cfg h sid (count_signal e) = symbol_inv logf cfg h sid e"
  "symbol_inv logf cfg h sid (count_event e) = symbol_inv logf cfg h sid e"
  "symbol_inv logf cfg h sid (e\<lparr>en_candles_processed := n\<rparr>) = symbol_inv logf cfg h sid e"
  "symbol_inv logf cfg h sid (e\<lparr>en_signals := se\<rparr>) = symbol_inv logf cfg h sid e"
  "symbol_inv logf cfg h sid (note_trend k t e) = symbol_inv logf cfg h sid e"
  by (simp_all add: symbol_inv_def count_signal_def count_event_def note_trend_def)

lemma insert_all_reliable:
  assumes "\<And>row w. fst (put row w) = Inr ()" "\<And>e. P (count e) = P e"
  shows "fst (insert_all put count rows s) = Inr () \<and> P (fst (snd (insert_all put count rows s))) = P (fst s)"
proof (induction rows arbitrary: s)
  case (Cons row rows)
  obtain e w where s: "s = (e, w)" by (cases s)
  show ?case using Cons [of "(count e, snd (put row w))"] assms s by (simp add: split_beta)
qed simp

definition known :: "(string \<Rightarrow> int option) \<Rightarrow> candle \<Rightarrow> bool" where
  "known ids c \<longleftrightarrow> cd_closed c \<and> ids (cd_symbol c) \<noteq> None"

locale reliable_store = resolving_store bk wview ids
  for bk :: "'w backend" and wview :: "int \<Rightarrow> 'w \<Rightarrow> 'v" and ids :: "string \<Rightarrow> int option" +
  assumes add_ok: "fst (bk_add_indicator bk row w) = Inr ()"
    and signal_ok: "fst (bk_insert_signal bk srow w) = Inr ()"
    and event_ok: "fst (bk_insert_event bk erow w) = Inr ()"
begin

lemma analyze_signals_total:
  assumes "pipeline_config_ok cfg" "snapshot_good sn" "compute_trend sn = Inr t" "symbol_inv logf cfg h sid (fst s)"
  shows "fst (analyze_signals bk sid ts sn t s) = Inr () \<and>
    symbol_inv logf cfg h sid (fst (snd (analyze_signals bk sid ts sn t s))) \<and>
    en_candles_processed (fst (snd (analyze_signals bk sid ts sn t s))) = en_candles_processed (fst s)"
proof -
  obtain e w where s: "s = (e, w)" by (cases s)
  have cfg: "en_settings e = cfg" using assms(4) s by (simp add: symbol_inv_def)
  obtain sigs se where sg: "evaluate_signals cfg sid sn t (en_signals e) = (Inr sigs, se)"
    using evaluate_signals_total [OF assms(1-3), of sid "en_signals e"] by (metis prod.collapse)
  let ?s = "(e\<lparr>en_signals := se\<rparr>, w)"
  note ins = insert_all_reliable [where put = "bk_insert_signal bk" and count = count_signal, OF signal_ok]
  have "symbol_inv logf cfg h sid (fst (snd (insert_all (bk_insert_signal bk) count_signal rows ?s)))" for rows
    using ins [where P = "symbol_inv logf cfg h sid" and s = ?s] assms(4) s by simp
  moreover have "en_candles_processed (fst (snd (insert_all (bk_insert_signal bk) count_signal rows ?s))) =
      en_candles_processed e" for rows
    using ins [where P = en_candles_processed and s = ?s] by (simp add: count_signal_def)
  moreover have "fst (insert_all (bk_insert_signal bk) count_signal rows ?s) = Inr ()" for rows
    using ins [where P = "\<lambda>_. ()" and s = ?s] by simp
  ultimately show ?thesis
    using s sg cfg assms(4) by (simp add: analyze_signals_def)
qed

lemma analyze_events_total:
  assumes "pipeline_config_ok cfg" "snapshot_good sn" "symbol_inv logf cfg h sid (fst s)"
  shows "fst (analyze_events bk sid ts sn s) = Inr () \<and>
    symbol_inv logf cfg h sid (fst (snd (analyze_events bk sid ts sn s))) \<and>
    en_candles_processed (fst (snd (analyze_events bk sid ts sn s))) = en_candles_processed (fst s) + 1"
proof -
  obtain e w where s: "s = (e, w)" by (cases s)
  obtain snaps where sn: "event_inv cfg snaps (event_view sid (en_events e))" "\<forall>x \<in> set snaps. snap_ok x"
    and cfg: "en_settings e = cfg"
    using assms(3) s by (auto simp: symbol_inv_def)
  have ok: "events_config_ok cfg" "snap_ok sn" using assms(1,2) by (auto simp: pipeline_config_ok_def snapshot_good_def)
  note ev = evaluate_events_history [OF sn(1) ok(1) sn(2) ok(2)]
  obtain evs ee where e1: "evaluate_events cfg sid sn (en_events e) = (Inr evs, ee)"
    using ev by (cases "evaluate_events cfg sid sn (en_events e)") (auto simp: event_good_def)
  let ?s = "(e\<lparr>en_events := ee\<rparr>, w)"
  have "event_inv cfg (snaps @ [sn]) (event_view sid ee)" using ev e1 by simp
  then have inv: "symbol_inv logf cfg h sid (e\<lparr>en_events := ee\<rparr>)"
    using assms(3) s sn(2) ok(2) by (auto simp: symbol_inv_def intro!: exI [of _ "snaps @ [sn]"])
  note ins = insert_all_reliable [where put = "bk_insert_event bk" and count = count_event, OF event_ok]
  have "symbol_inv logf cfg h sid (fst (snd (insert_all (bk_insert_event bk) count_event rows ?s)))" for rows
    using ins [where P = "symbol_inv logf cfg h sid" and s = ?s] inv by simp
  moreover have "en_candles_processed (fst (snd (insert_all (bk_insert_event bk) count_event rows ?s))) =
      en_candles_processed e" for rows
    using ins [where P = en_candles_processed and s = ?s] by (simp add: count_event_def)
  moreover have "fst (insert_all (bk_insert_event bk) count_event rows ?s) = Inr ()" for rows
    using ins [where P = "\<lambda>_. ()" and s = ?s] by simp
  ultimately show ?thesis
    using s e1 cfg by (simp add: analyze_events_def split_beta Let_def)
qed

lemma process_candle_total:
  assumes "pipeline_config_ok cfg" "libm_log logf" "symbol_inv logf cfg h sid (fst s)"
    "\<forall>c \<in> set h. candle_ok c" "candle_ok c"
  shows "fst (process_candle bk logf sid c s) = Inr () \<and>
    symbol_inv logf cfg (h @ [c]) sid (fst (snd (process_candle bk logf sid c s))) \<and>
    en_candles_processed (fst (snd (process_candle bk logf sid c s))) = en_candles_processed (fst s) + 1"
proof -
  obtain e w where s: "s = (e, w)" by (cases s)
  have cfg: "en_settings e = cfg" using assms(3) s by (simp add: symbol_inv_def)
  obtain fresh where fresh: "symbol_indicators_new cfg = Inr fresh" "indicators_at logf cfg [] fresh"
    using symbol_indicators_new_at [OF assms(1)] by blast
  let ?st = "get_or fresh (map_of (en_indicators e) sid)"
  have st: "indicators_of sid e = Inr ?st" "indicators_at logf cfg h ?st"
    using fresh cfg assms(3) s by (auto simp: indicators_of_def symbol_inv_def split: option.splits)
  obtain sn st' where sn: "symbol_indicators_update logf c ?st = (Inr sn, st')"
    "indicators_at logf cfg (h @ [c]) st'" "snapshot_good sn"
    using symbol_indicators_step [OF assms(1,2) st(2) assms(4,5)] by blast
  obtain t where t: "compute_trend sn = Inr t" using compute_trend_total by blast
  let ?e2 = "note_trend sid t (set_indicators sid st' e)"
  have ts: "from_ms (cd_ts c) = Inr (1000 * cd_ts c)"
    using assms(5) by (intro from_ms_exact) (simp_all add: candle_ok_def)
  obtain w1 where w1: "bk_add_indicator bk (indicator_row_of sid (1000 * cd_ts c) sn t) w = (Inr (), w1)"
    using add_ok by (metis prod.collapse)
  have inv: "symbol_inv logf cfg (h @ [c]) sid (fst (?e2, w1))"
    using assms(3) s sn(2) by (simp add: symbol_inv_def set_indicators_def note_trend_def)
  have cnt: "en_candles_processed ?e2 = en_candles_processed e" by (simp add: note_trend_def set_indicators_def)
  obtain s2 where s2: "analyze_signals bk sid (1000 * cd_ts c) sn t (?e2, w1) = (Inr (), s2)"
    "symbol_inv logf cfg (h @ [c]) sid (fst s2)" "en_candles_processed (fst s2) = en_candles_processed e"
    using analyze_signals_total [OF assms(1) sn(3) t inv] cnt by (metis fst_conv prod.collapse)
  show ?thesis
    using analyze_events_total [OF assms(1) sn(3) s2(2)] s st(1) sn(1) t ts w1 s2
    by (simp add: process_candle_def)
qed

lemma resolve_known:
  fixes base :: string
  assumes "cache_ok ids (fst s)"
  defines "out \<equiv> resolve_symbol_id bk base s"
  shows "fst out = Inr (ids base) \<and> (\<forall>k. engine_view k (fst (snd out)) = engine_view k (fst s)) \<and>
    en_candles_processed (fst (snd out)) = en_candles_processed (fst s)"
proof -
  obtain e w where s: "s = (e, w)" by (cases s)
  show ?thesis
  proof (cases "en_symbol_ids e base")
    case None
    then show ?thesis
      using s by (cases "ids base") (simp_all add: out_def resolve_symbol_id_def get_id)
  next
    case (Some sid)
    then have "ids base = Some sid" using assms(1) s by (auto simp: cache_ok_def)
    then show ?thesis using s Some by (simp add: out_def resolve_symbol_id_def)
  qed
qed

lemma handle_candle_total:
  assumes "pipeline_config_ok cfg" "libm_log logf" "cache_ok ids (fst s)"
    "\<forall>k. symbol_inv logf cfg (filter (belongs ids k) h) k (fst s)" "\<forall>c \<in> set h. known ids c \<longrightarrow> candle_ok c"
    "known ids c \<longrightarrow> candle_ok c"
  shows "fst (handle_candle bk logf c s) = Inr () \<and>
    (\<forall>k. symbol_inv logf cfg (filter (belongs ids k) (h @ [c])) k (fst (snd (handle_candle bk logf c s)))) \<and>
    en_candles_processed (fst (snd (handle_candle bk logf c s))) = en_candles_processed (fst s) + of_bool (known ids c)"
proof (cases "cd_closed c")
  case False
  then show ?thesis using assms(4) by (simp add: handle_candle_def belongs_def known_def)
next
  case True
  obtain s1 where s1: "resolve_symbol_id bk (cd_symbol c) s = (Inr (ids (cd_symbol c)), s1)"
    "\<forall>k. engine_view k (fst s1) = engine_view k (fst s)" "en_candles_processed (fst s1) = en_candles_processed (fst s)"
    using resolve_known [OF assms(3), of "cd_symbol c"] by (metis prod.collapse)
  have inv1: "\<forall>k. symbol_inv logf cfg (filter (belongs ids k) h) k (fst s1)"
    using assms(4) s1(2) symbol_inv_view by blast
  show ?thesis
  proof (cases "ids (cd_symbol c)")
    case None
    then show ?thesis using True s1 inv1 by (simp add: handle_candle_def belongs_def known_def)
  next
    case (Some sid)
    have c: "candle_ok c" using assms(6) True Some by (simp add: known_def)
    have h: "\<forall>c \<in> set (filter (belongs ids sid) h). candle_ok c"
      using assms(5) by (auto simp: belongs_def known_def)
    note step = process_candle_total [OF assms(1,2) spec [OF inv1] h c]
    have "symbol_inv logf cfg (filter (belongs ids k) h) k (fst (snd (process_candle bk logf sid c s1)))" if "k \<noteq> sid" for k
      using process_candle_other [OF that, of logf c s1] inv1 symbol_inv_view
      by (metis Pair_inject state_view_def)
    then show ?thesis using step True Some s1 by (auto simp: handle_candle_def belongs_def known_def)
  qed
qed

lemma run_total:
  fixes w :: 'w
  assumes "pipeline_config_ok cfg" "libm_log logf" "\<forall>c \<in> set cs. known ids c \<longrightarrow> candle_ok c"
  defines "out \<equiv> \<lambda>cs. run_all (handle_candle bk logf) cs (engine_new cfg ids, w)"
  shows "set (fst (out cs)) \<subseteq> {Inr ()} \<and>
    (\<forall>k. symbol_inv logf cfg (filter (belongs ids k) cs) k (fst (snd (out cs)))) \<and>
    en_candles_processed (fst (snd (out cs))) = int (length (filter (known ids) cs))"
  using assms(3)
proof (induction cs rule: rev_induct)
  case Nil
  then show ?case using symbol_inv_new by (simp add: out_def engine_new_def)
next
  case (snoc c cs)
  let ?s = "snd (out cs)"
  have cache: "cache_ok ids (fst ?s)" unfolding out_def by (rule run_cache) (simp add: engine_new_cache)
  have ih: "set (fst (out cs)) \<subseteq> {Inr ()}" "\<forall>k. symbol_inv logf cfg (filter (belongs ids k) cs) k (fst ?s)"
    "en_candles_processed (fst ?s) = int (length (filter (known ids) cs))"
    using snoc by auto
  have ok: "\<forall>c \<in> set cs. known ids c \<longrightarrow> candle_ok c" "known ids c \<longrightarrow> candle_ok c" using snoc.prems by auto
  note step = handle_candle_total [OF assms(1,2) cache ih(2) ok]
  have out: "out (cs @ [c]) = (fst (out cs) @ [fst (handle_candle bk logf c ?s)], snd (handle_candle bk logf c ?s))"
    by (simp add: out_def run_all_append split_beta)
  show ?case unfolding out using step ih by auto
qed

end

interpretation capture_reliable: reliable_store "capture_backend ids" captured ids for ids
  by unfold_locales (simp_all add: capture_backend_def null_sink_def capture_signal_def)


section \<open>The count of emitted signals\<close>

definition counted :: "engine \<times> signal_row list \<Rightarrow> bool" where
  "counted s \<longleftrightarrow> en_signals_emitted (fst s) = int (length (snd s))"

lemma counted_fields [simp]:
  "counted (e\<lparr>en_signals := se\<rparr>, w) = counted (e, w)" "counted (e\<lparr>en_events := ee\<rparr>, w) = counted (e, w)"
  "counted (e\<lparr>en_symbol_ids := m\<rparr>, w) = counted (e, w)" "counted (e\<lparr>en_candles_processed := n\<rparr>, w) = counted (e, w)"
  "counted (set_indicators sid st e, w) = counted (e, w)" "counted (note_trend sid t e, w) = counted (e, w)"
  "counted (count_event e, w) = counted (e, w)" "counted (count_signal e, w @ [row]) = counted (e, w)"
  by (simp_all add: counted_def set_indicators_def note_trend_def count_event_def count_signal_def)

lemma counted_insert:
  "counted s \<Longrightarrow> counted (snd (insert_all null_sink count_event rows s))"
  "counted s \<Longrightarrow> counted (snd (insert_all capture_signal count_signal srows s))"
  by (induction rows arbitrary: s; case_tac s; simp add: null_sink_def)
    (induction srows arbitrary: s; case_tac s; simp add: capture_signal_def)

lemma counted_process:
  "counted s \<Longrightarrow> counted (snd (process_candle (capture_backend ids) logf sid c s))"
  by (cases s) (auto simp: process_candle_def analyze_signals_def analyze_events_def capture_backend_def Let_def
      split_beta null_sink_def intro!: attempt_keeps [where P = counted] counted_insert)

lemma counted_handle:
  "counted s \<Longrightarrow> counted (snd (handle_candle (capture_backend ids) logf c s))"
  by (cases s) (auto simp: handle_candle_def resolve_symbol_id_def capture_backend_def split: option.split
      intro!: counted_process [unfolded capture_backend_def])

lemma counted_run:
  "counted s \<Longrightarrow> counted (snd (run_all (handle_candle (capture_backend ids) logf) cs s))"
  by (induction cs arbitrary: s) (auto simp: split_beta counted_handle)

text \<open>
  C5: liveness of the pipeline. Under valid settings and with plausible candles of the known symbols
  (prices in range, timestamps of this century), no candle makes the engine raise, in any
  interleaving of symbols and however long the run: every closed candle of a known symbol is processed
  and counted, and the emitted signals counted by the engine are exactly the rows handed to the sink.
\<close>

theorem pipeline_never_raises:
  assumes "pipeline_config_ok cfg" "libm_log logf" "\<forall>c \<in> set cs. known ids c \<longrightarrow> candle_ok c"
  shows "case run_all (handle_candle (capture_backend ids) logf) cs (engine_new cfg ids, []) of
    (results, e, rows) \<Rightarrow>
      (\<forall>r \<in> set results. r = Inr ()) \<and>
      en_candles_processed e = int (length (filter (known ids) cs)) \<and>
      en_signals_emitted e = int (length rows)"
proof -
  have "counted (snd (run_all (handle_candle (capture_backend ids) logf) cs (engine_new cfg ids, [])))"
    by (rule counted_run) (simp add: counted_def engine_new_def)
  then show ?thesis
    using capture_reliable.run_total [OF assms, where w = "[]"]
    by (auto simp: counted_def split: prod.split)
qed

definition sample_candle :: candle where
  "sample_candle = \<lparr>cd_symbol = ''BTC'', cd_ts = 1700000000000, cd_open = Fin 100, cd_high = Fin 110, cd_low = Fin 90,
     cd_close = Fin 100, cd_volume = Fin 10, cd_quote_volume = Fin 1000, cd_trades = 5, cd_closed = True,
     cd_taker_buy_volume = Fin 5\<rparr>"

theorem pipeline_never_raises_witness:
  "case run_all (handle_candle (capture_backend [''BTC'' \<mapsto> 1]) (\<lambda>_. Inr (Fin 0)))
      [sample_candle, sample_candle\<lparr>cd_symbol := ''ETH''\<rparr>, sample_candle] (engine_new default_settings [''BTC'' \<mapsto> 1], []) of
    (results, e, rows) \<Rightarrow>
      (\<forall>r \<in> set results. r = Inr ()) \<and> en_candles_processed e = 2 \<and> en_signals_emitted e = int (length rows)"
proof -
  have c: "candle_ok sample_candle"
    by (simp add: candle_ok_def sample_candle_def level_ok_def price_ok_def in_range_Fin price_bound_def)
  have cfg: "pipeline_config_ok default_settings"
    by (simp add: pipeline_config_ok_def events_config_ok_def default_settings_def period_ok_def)
  have l: "libm_log (\<lambda>_. Inr (Fin 0))" by (simp add: libm_log_def in_range_Fin)
  show ?thesis
    using pipeline_never_raises [OF cfg l, of "[sample_candle, sample_candle\<lparr>cd_symbol := ''ETH''\<rparr>, sample_candle]"
        "[''BTC'' \<mapsto> 1]"] c
    by (simp add: known_def sample_candle_def)
qed

end
