(* ===== verification/Payloads.thy ===== *)
theory Payloads
  imports Text Market
begin

text \<open>
  The exchange's wire formats: \<^verbatim>\<open>src/orvixa/feeds/normalize.py\<close> (candles and ticker rows of the
  streams) and \<^verbatim>\<open>src/orvixa/symbols/client.py\<close> with the payload classes of
  \<^verbatim>\<open>src/orvixa/symbols/models.py\<close> (the REST universe and 24h statistics). A payload is a decoded JSON
  value of any shape; indexing, conversions and attribute look-ups raise as in Python.
\<close>

section \<open>Symbols\<close>

definition quote_suffixes :: "string list" where
  "quote_suffixes = [''USDT'', ''FDUSD'', ''USDC'', ''BUSD'', ''TUSD'']"

definition thousand_prefix :: string where
  "thousand_prefix = ''1000''"

definition ends_with :: "string \<Rightarrow> string \<Rightarrow> bool" where
  "ends_with s suf \<longleftrightarrow> length suf \<le> length s \<and> drop (length s - length suf) s = suf"

definition starts_with :: "string \<Rightarrow> string \<Rightarrow> bool" where
  "starts_with s p \<longleftrightarrow> take (length p) s = p"

text \<open>The loop over the suffixes stops at the first that fits.\<close>

fun strip_quote :: "string list \<Rightarrow> string \<Rightarrow> string" where
  "strip_quote [] s = s"
| "strip_quote (suf # sufs) s =
     (if ends_with s suf \<and> length suf < length s then take (length s - length suf) s else strip_quote sufs s)"

definition normalize_symbol :: "string \<Rightarrow> string" where
  "normalize_symbol pair =
     (let s = strip_quote quote_suffixes (upper pair) in
      if starts_with s thousand_prefix \<and> length thousand_prefix < length s then drop (length thousand_prefix) s else s)"

definition to_stream_symbol :: "string \<Rightarrow> string" where
  "to_stream_symbol pair = lower pair"

text \<open>\<^verbatim>\<open>normalize_symbol\<close> of a payload value: only a string has \<^verbatim>\<open>upper\<close>.\<close>

fun symbol_of :: "json \<Rightarrow> string res" where
  "symbol_of (JStr s) = Inr (normalize_symbol s)"
| "symbol_of _ = Inl AttributeError"

lemma ends_with_append [simp]: "ends_with (s @ suf) suf"
  by (simp add: ends_with_def)

lemma starts_with_append [simp]: "starts_with (p @ s) p"
  by (simp add: starts_with_def)

lemma strip_usdt: "s \<noteq> [] \<Longrightarrow> strip_quote quote_suffixes (s @ ''USDT'') = s"
  by (simp add: quote_suffixes_def ends_with_def)

lemma normalize_upper: "normalize_symbol (upper s) = normalize_symbol s"
  by (simp add: normalize_symbol_def)

text \<open>Display symbols: upper case, not empty, without the multiplier.\<close>

definition display_name :: "string \<Rightarrow> bool" where
  "display_name b \<longleftrightarrow> b \<noteq> [] \<and> upper b = b \<and> \<not> starts_with b thousand_prefix"


section \<open>Stream payloads\<close>

definition kline_event_to_candle :: "json \<Rightarrow> candle res" where
  "kline_event_to_candle data =
     rbind (jitem ''k'' data) (\<lambda>k.
     rbind (rbind (jitem ''s'' data) symbol_of) (\<lambda>symbol.
     rbind (rbind (jitem ''t'' k) jint) (\<lambda>ts.
     rbind (rbind (jitem ''o'' k) jfloat) (\<lambda>open_price.
     rbind (rbind (jitem ''h'' k) jfloat) (\<lambda>high.
     rbind (rbind (jitem ''l'' k) jfloat) (\<lambda>low.
     rbind (rbind (jitem ''c'' k) jfloat) (\<lambda>close.
     rbind (rbind (jitem ''v'' k) jfloat) (\<lambda>volume.
     rbind (rbind (jitem ''q'' k) jfloat) (\<lambda>quote_volume.
     rbind (rbind (jitem ''n'' k) jint) (\<lambda>trades.
     rbind (jitem ''x'' k) (\<lambda>x.
     rbind (rbind (jget ''V'' (JFloat (Fin 0)) k) jfloat) (\<lambda>taker.
     Inr \<lparr>cd_symbol = symbol, cd_ts = ts, cd_open = open_price, cd_high = high, cd_low = low, cd_close = close,
          cd_volume = volume, cd_quote_volume = quote_volume, cd_trades = trades, cd_closed = jtruthy x,
          cd_taker_buy_volume = taker\<rparr>))))))))))))"

definition rest_kline_to_candle :: "string \<Rightarrow> json \<Rightarrow> candle res" where
  "rest_kline_to_candle pair row =
     rbind (rbind (jnth 0 row) jint) (\<lambda>ts.
     rbind (rbind (jnth 1 row) jfloat) (\<lambda>open_price.
     rbind (rbind (jnth 2 row) jfloat) (\<lambda>high.
     rbind (rbind (jnth 3 row) jfloat) (\<lambda>low.
     rbind (rbind (jnth 4 row) jfloat) (\<lambda>close.
     rbind (rbind (jnth 5 row) jfloat) (\<lambda>volume.
     rbind (rbind (jnth 7 row) jfloat) (\<lambda>quote_volume.
     rbind (rbind (jnth 8 row) jint) (\<lambda>trades.
     rbind (rbind (jnth 9 row) jfloat) (\<lambda>taker.
     Inr \<lparr>cd_symbol = normalize_symbol pair, cd_ts = ts, cd_open = open_price, cd_high = high, cd_low = low,
          cd_close = close, cd_volume = volume, cd_quote_volume = quote_volume, cd_trades = trades, cd_closed = True,
          cd_taker_buy_volume = taker\<rparr>)))))))))"

definition change_pct_of :: "pyfloat \<Rightarrow> pyfloat \<Rightarrow> pyfloat res" where
  "change_pct_of open_price last_price =
     (if feq open_price (Fin 0) then Inr (Fin 0)
      else rbind (fdiv (last_price - open_price) open_price) (\<lambda>q. Inr (q * Fin 100)))"

definition miniticker_row :: "json \<Rightarrow> ticker_row res" where
  "miniticker_row item =
     rbind (rbind (jitem ''o'' item) jfloat) (\<lambda>open_price.
     rbind (rbind (jitem ''c'' item) jfloat) (\<lambda>last_price.
     rbind (change_pct_of open_price last_price) (\<lambda>change.
     rbind (rbind (jitem ''s'' item) symbol_of) (\<lambda>symbol.
     rbind (rbind (jitem ''q'' item) jfloat) (\<lambda>quote_volume.
     Inr \<lparr>tk_symbol = symbol, tk_price = last_price, tk_change_pct = change, tk_quote_volume = quote_volume\<rparr>)))))"

text \<open>\<^verbatim>\<open>except (KeyError, ValueError, TypeError): continue\<close>.\<close>

definition payload_error :: "pyerr \<Rightarrow> bool" where
  "payload_error e \<longleftrightarrow> e \<in> {KeyError, ValueError, TypeError}"

fun skip_malformed :: "('a \<Rightarrow> 'b option res) \<Rightarrow> 'a list \<Rightarrow> 'b list res" where
  "skip_malformed f [] = Inr []"
| "skip_malformed f (x # xs) =
     (case f x of
        Inl e \<Rightarrow> if payload_error e then skip_malformed f xs else Inl e
      | Inr None \<Rightarrow> skip_malformed f xs
      | Inr (Some y) \<Rightarrow> rbind (skip_malformed f xs) (\<lambda>ys. Inr (y # ys)))"

definition miniticker_array_to_rows :: "json list \<Rightarrow> ticker_row list res" where
  "miniticker_array_to_rows array = skip_malformed (\<lambda>item. rbind (miniticker_row item) (\<lambda>row. Inr (Some row))) array"


section \<open>The REST client\<close>

record exchange_symbol =
  es_pair :: string
  es_base_asset :: string
  es_quote_asset :: string
  es_status :: string

definition es_base :: "exchange_symbol \<Rightarrow> string" where
  "es_base e = normalize_symbol (es_pair e)"

record ticker_stats =
  st_pair :: string
  st_last_price :: pyfloat
  st_quote_volume :: pyfloat
  st_price_change_pct :: pyfloat
  st_count :: int

text \<open>\<^verbatim>\<open>str(value)\<close>: the text of a string is the string; \<open>fmt\<close> formats any other value.\<close>

fun text_of :: "(json \<Rightarrow> string) \<Rightarrow> json \<Rightarrow> string" where
  "text_of fmt (JStr s) = s"
| "text_of fmt v = fmt v"

definition exchange_symbol_of :: "(json \<Rightarrow> string) \<Rightarrow> json \<Rightarrow> exchange_symbol option res" where
  "exchange_symbol_of fmt item =
     rbind (jitem ''quoteAsset'' item) (\<lambda>quote.
     if upper (text_of fmt quote) \<noteq> ''USDT'' then Inr None
     else rbind (jget ''isSpotTradingAllowed'' (JBool False) item) (\<lambda>spot.
     if \<not> jtruthy spot then Inr None
     else rbind (jitem ''symbol'' item) (\<lambda>symbol.
          rbind (jitem ''baseAsset'' item) (\<lambda>asset.
          rbind (jget ''status'' (JStr ''TRADING'') item) (\<lambda>status.
          Inr (Some \<lparr>es_pair = upper (text_of fmt symbol), es_base_asset = upper (text_of fmt asset),
                     es_quote_asset = upper (text_of fmt quote), es_status = upper (text_of fmt status)\<rparr>))))))"

definition fetch_exchange_info :: "(json \<Rightarrow> string) \<Rightarrow> json res \<Rightarrow> exchange_symbol list res" where
  "fetch_exchange_info fmt response =
     rbind response (\<lambda>data.
     rbind (rbind (jget ''symbols'' (JList []) data) jiter) (\<lambda>entries.
     skip_malformed (exchange_symbol_of fmt) entries))"

definition ticker_stats_of :: "(json \<Rightarrow> string) \<Rightarrow> json \<Rightarrow> ticker_stats option res" where
  "ticker_stats_of fmt item =
     rbind (jitem ''symbol'' item) (\<lambda>symbol.
     let pair = upper (text_of fmt symbol) in
     if \<not> ends_with pair ''USDT'' then Inr None
     else rbind (rbind (jitem ''lastPrice'' item) jfloat) (\<lambda>last_price.
          rbind (rbind (jitem ''quoteVolume'' item) jfloat) (\<lambda>quote_volume.
          rbind (rbind (jitem ''priceChangePercent'' item) jfloat) (\<lambda>change.
          rbind (rbind (jitem ''count'' item) jint) (\<lambda>count.
          Inr (Some \<lparr>st_pair = pair, st_last_price = last_price, st_quote_volume = quote_volume,
                     st_price_change_pct = change, st_count = count\<rparr>))))))"

definition keep_latest :: "ticker_stats list \<Rightarrow> (string \<times> ticker_stats) list" where
  "keep_latest stats = foldl (\<lambda>out s. alput (st_pair s) s out) [] stats"

definition fetch_ticker_24hr :: "(json \<Rightarrow> string) \<Rightarrow> json res \<Rightarrow> (string \<times> ticker_stats) list res" where
  "fetch_ticker_24hr fmt response =
     rbind response (\<lambda>data.
     rbind (jiter data) (\<lambda>entries.
     rbind (skip_malformed (ticker_stats_of fmt) entries) (\<lambda>stats. Inr (keep_latest stats))))"


section \<open>What decoding promises\<close>

lemma skip_malformed_run:
  "(\<forall>x \<in> set xs. \<forall>e. f x = Inl e \<longrightarrow> payload_error e) \<Longrightarrow>
    skip_malformed f xs = Inr (List.map_filter (\<lambda>x. case f x of Inl e \<Rightarrow> None | Inr y \<Rightarrow> y) xs)"
  by (induction xs) (auto simp: List.map_filter_simps split: sum.split option.split)

lemma skip_malformed_fatal:
  assumes "f x = Inl e" "\<not> payload_error e" "\<forall>x \<in> set xs. \<forall>e. f x = Inl e \<longrightarrow> payload_error e"
  shows "skip_malformed f (xs @ x # ys) = Inl e"
  using assms(3) by (induction xs) (auto simp: assms(1,2) split: sum.split option.split)

lemma skip_malformed_set:
  "skip_malformed f xs = Inr ys \<Longrightarrow> y \<in> set ys \<Longrightarrow> \<exists>x \<in> set xs. f x = Inr (Some y)"
  by (induction xs arbitrary: ys) (auto simp: rbind_eq_Inr split: sum.splits option.splits if_splits)

lemma keep_latest_keys:
  "distinct (map fst (keep_latest stats)) \<and> fst ` set (keep_latest stats) = st_pair ` set stats \<and>
    (\<forall>(k, s) \<in> set (keep_latest stats). st_pair s = k \<and> s \<in> set stats)"
proof (induction stats rule: rev_induct)
  case (snoc s stats)
  have put: "set (alput k v m) \<subseteq> insert (k, v) (set m)" for k v and m :: "(string \<times> ticker_stats) list"
    by (induction k v m rule: alput.induct) auto
  have step: "keep_latest (stats @ [s]) = alput (st_pair s) s (keep_latest stats)" by (simp add: keep_latest_def)
  have "fst ` set (keep_latest (stats @ [s])) = st_pair ` set (stats @ [s])"
    using snoc set_keys_alput [of "st_pair s" s "keep_latest stats"] by (simp add: step)
  then show ?case using snoc put [of "st_pair s" s "keep_latest stats"] unfolding step by auto
qed (simp add: keep_latest_def)

text \<open>Payload entries whose fields have the shapes the exchange documents, whatever their values.\<close>

definition field_ok :: "(json \<Rightarrow> bool) \<Rightarrow> string \<Rightarrow> json \<Rightarrow> bool" where
  "field_ok ok k item = (case item of JObj m \<Rightarrow> (case map_of m k of None \<Rightarrow> True | Some v \<Rightarrow> ok v) | _ \<Rightarrow> True)"

fun number_field :: "json \<Rightarrow> bool" where
  "number_field (JInt n) = (\<bar>n\<bar> \<le> 2 ^ 53)"
| "number_field _ = True"

fun text_field :: "json \<Rightarrow> bool" where
  "text_field (JStr s) = True"
| "text_field _ = False"

lemma payload_errors [simp]: "payload_error KeyError" "payload_error ValueError" "payload_error TypeError"
  by (simp_all add: payload_error_def)

lemma jfloat_error: "number_field v \<Longrightarrow> jfloat v = Inl e \<Longrightarrow> payload_error e"
  by (cases v) (auto simp: payload_error_def float_of_text_def Let_def split: prod.splits if_splits option.splits)

lemma jitem_error: "jitem k item = Inl e \<Longrightarrow> payload_error e"
  by (cases item) (auto simp: payload_errors split: option.splits)

lemma field_float_error: "field_ok number_field k item \<Longrightarrow> rbind (jitem k item) jfloat = Inl e \<Longrightarrow> payload_error e"
  by (cases item) (auto simp: field_ok_def rbind_eq_Inl dest: jfloat_error jitem_error split: option.splits)

lemma field_symbol_error: "field_ok text_field k item \<Longrightarrow> rbind (jitem k item) symbol_of = Inl e \<Longrightarrow> payload_error e"
proof (cases item)
  case (JObj m)
  assume "field_ok text_field k item" "rbind (jitem k item) symbol_of = Inl e"
  then show ?thesis using JObj
    by (cases "map_of m k"; cases "the (map_of m k)") (auto simp: field_ok_def payload_error_def)
qed (auto simp: payload_error_def)

lemma change_pct_total: "\<exists>c. change_pct_of o_price l_price = Inr c"
  by (cases o_price) (auto simp: change_pct_of_def fdiv_def feq_def)

definition well_shaped :: "json \<Rightarrow> bool" where
  "well_shaped item \<longleftrightarrow> field_ok text_field ''s'' item \<and> (\<forall>k \<in> {''o'', ''c'', ''q''}. field_ok number_field k item)"

definition skippable :: "'a res \<Rightarrow> bool" where
  "skippable m \<longleftrightarrow> (\<forall>e. m = Inl e \<longrightarrow> payload_error e)"

lemma skippable_bind: "skippable m \<Longrightarrow> (\<And>x. skippable (f x)) \<Longrightarrow> skippable (rbind m f)"
  by (auto simp: skippable_def rbind_eq_Inl)

lemma miniticker_row_error: "well_shaped item \<Longrightarrow> miniticker_row item = Inl e \<Longrightarrow> payload_error e"
proof -
  assume w: "well_shaped item" and e: "miniticker_row item = Inl e"
  have number: "skippable (rbind (jitem k item) jfloat)" if "k \<in> {''o'', ''c'', ''q''}" for k
    using w that field_float_error unfolding well_shaped_def skippable_def by blast
  have pair: "skippable (rbind (jitem ''s'' item) symbol_of)"
    using w field_symbol_error unfolding well_shaped_def skippable_def by blast
  have change: "skippable (change_pct_of a b)" for a b
    using change_pct_total [of a b] by (auto simp: skippable_def)
  have "skippable (miniticker_row item)"
    unfolding miniticker_row_def
    by (rule number [of "''o''", simplified] number [of "''c''", simplified] number [of "''q''", simplified] pair change
        skippable_bind | simp add: skippable_def)+
  then show ?thesis using e by (simp add: skippable_def)
qed

definition good_rows :: "json list \<Rightarrow> ticker_row list" where
  "good_rows entries = List.map_filter (\<lambda>item. case miniticker_row item of Inl e \<Rightarrow> None | Inr row \<Rightarrow> Some row) entries"

text \<open>
  Display symbols. In any letter case the pair \<open><b>USDT\<close> and the pair \<open>1000<b>USDT\<close> are both shown as
  the asset \<open>b\<close>, for every asset name \<open>b\<close> that does not itself start with the multiplier.
\<close>

lemma pairs_shown_as_asset:
  assumes "display_name b" "upper pair = b @ ''USDT'' \<or> upper pair = ''1000'' @ b @ ''USDT''"
  shows "normalize_symbol pair = b"
proof -
  have b: "b \<noteq> []" "\<not> starts_with b thousand_prefix" using assms(1) by (auto simp: display_name_def)
  from assms(2) show ?thesis
  proof
    assume "upper pair = b @ ''USDT''"
    then show ?thesis using b by (simp add: normalize_symbol_def strip_usdt)
  next
    assume "upper pair = ''1000'' @ b @ ''USDT''"
    then have "strip_quote quote_suffixes (upper pair) = thousand_prefix @ b"
      using strip_usdt [of "thousand_prefix @ b"] by (simp add: thousand_prefix_def)
    then show ?thesis using b by (simp add: normalize_symbol_def)
  qed
qed

lemma pairs_shown_as_asset_witness: "normalize_symbol ''1000PepeUsdt'' = ''PEPE''"
  by (rule pairs_shown_as_asset) code_simp+

text \<open>
  C36: malformed ticker entries are skipped, not fatal. On any array of JSON values whose symbols, where
  present, are strings and whose integers are at most 2^53, the conversion does not raise and returns
  the rows of exactly the entries that decode, in the order of the array.
\<close>

theorem malformed_entries_skipped:
  assumes "\<forall>item \<in> set entries. well_shaped item"
  shows "miniticker_array_to_rows entries = Inr (good_rows entries)"
proof -
  let ?f = "\<lambda>item. rbind (miniticker_row item) (\<lambda>row. Inr (Some row))"
  have "\<forall>x \<in> set entries. \<forall>e. ?f x = Inl e \<longrightarrow> payload_error e"
    using assms miniticker_row_error by (auto simp: rbind_eq_Inl)
  from skip_malformed_run [OF this] show ?thesis
    by (auto simp: miniticker_array_to_rows_def good_rows_def rbind_def intro!: arg_cong [where f = "\<lambda>g. List.map_filter g entries"] split: sum.split)
qed

definition sample_tickers :: "json list" where
  "sample_tickers = [JObj [(''s'', JStr ''BTCUSDT''), (''o'', JInt 0), (''c'', JInt 7), (''q'', JInt 1)],
     JObj [(''s'', JStr ''ETHUSDT'')], JNull, JObj [(''s'', JStr ''X''), (''o'', JStr ''?''), (''c'', JInt 7)]]"

theorem malformed_entries_skipped_witness:
  "miniticker_array_to_rows sample_tickers =
     Inr [\<lparr>tk_symbol = ''BTC'', tk_price = Fin 7, tk_change_pct = Fin 0, tk_quote_volume = Fin 1\<rparr>]"
proof -
  have btc: "normalize_symbol ''BTCUSDT'' = ''BTC''"
    by code_simp
  have "float_of_text ''?'' = Inl ValueError" by code_simp
  then have "good_rows sample_tickers =
      [\<lparr>tk_symbol = ''BTC'', tk_price = Fin 7, tk_change_pct = Fin 0, tk_quote_volume = Fin 1\<rparr>]"
    using btc by (simp add: good_rows_def sample_tickers_def miniticker_row_def change_pct_of_def feq_def List.map_filter_simps)
  then show ?thesis
    using malformed_entries_skipped [of sample_tickers]
    by (simp add: sample_tickers_def well_shaped_def field_ok_def)
qed

text \<open>
  One entry can be fatal. An entry with prices but a symbol that is not a string raises
  \<open>AttributeError\<close>, which is not among the skipped exceptions: however many good entries come before
  and after it, the whole array is lost.
\<close>

lemma symbol_not_text_is_fatal:
  assumes "\<forall>item \<in> set before. well_shaped item"
    "rbind (jitem ''o'' bad) jfloat = Inr open_price" "rbind (jitem ''c'' bad) jfloat = Inr last_price"
    "jitem ''s'' bad = Inr s" "\<not> text_field s"
  shows "miniticker_array_to_rows (before @ bad # after) = Inl AttributeError"
proof -
  obtain c where "change_pct_of open_price last_price = Inr c" using change_pct_total by blast
  moreover have "symbol_of s = Inl AttributeError" using assms(5) by (cases s) auto
  ultimately have "miniticker_row bad = Inl AttributeError" using assms(2-4) by (simp add: miniticker_row_def)
  then show ?thesis
    unfolding miniticker_array_to_rows_def using assms(1) miniticker_row_error
    by (intro skip_malformed_fatal) (auto simp: payload_error_def rbind_eq_Inl)
qed

lemma symbol_not_text_is_fatal_witness:
  "miniticker_array_to_rows (sample_tickers @ JObj [(''s'', JInt 5), (''o'', JInt 1), (''c'', JInt 1)] # sample_tickers) =
     Inl AttributeError"
  by (rule symbol_not_text_is_fatal [where open_price = "Fin 1" and last_price = "Fin 1" and s = "JInt 5"])
    (simp_all add: sample_tickers_def well_shaped_def field_ok_def)

text \<open>
  The 24h statistics are keyed by their own pair. Whatever the response holds, each pair has one
  entry, its statistics name that pair, and every pair is an upper-case USDT pair of the response.
\<close>

lemma tickers_keyed_by_pair:
  assumes "fetch_ticker_24hr fmt response = Inr tickers"
  shows "distinct (map fst tickers) \<and>
    (\<forall>(pair, stats) \<in> set tickers. st_pair stats = pair \<and> upper pair = pair \<and> ends_with pair ''USDT'')"
proof -
  obtain entries stats where s: "skip_malformed (ticker_stats_of fmt) entries = Inr stats" "tickers = keep_latest stats"
    using assms by (auto simp: fetch_ticker_24hr_def rbind_eq_Inr)
  have "upper (st_pair x) = st_pair x \<and> ends_with (st_pair x) ''USDT''" if "x \<in> set stats" for x
    using skip_malformed_set [OF s(1) that] by (auto simp: ticker_stats_of_def rbind_eq_Inr Let_def split: if_splits)
  then show ?thesis using keep_latest_keys [of stats] s(2) by fastforce
qed

lemma tickers_keyed_by_pair_witness:
  "distinct (map fst [(''BTCUSDT'', \<lparr>st_pair = ''BTCUSDT'', st_last_price = Fin 7, st_quote_volume = Fin 1,
       st_price_change_pct = Fin 0, st_count = 3\<rparr>)]) \<and> ends_with ''BTCUSDT'' ''USDT''"
proof -
  have up: "upper ''btcusdt'' = ''BTCUSDT''" "upper [] = []" by code_simp+
  have ends: "ends_with ''BTCUSDT'' ''USDT''" "\<not> ends_with [] ''USDT''" by code_simp+
  have "fetch_ticker_24hr (\<lambda>_. []) (Inr (JList [JObj [(''symbol'', JStr ''btcusdt''), (''lastPrice'', JInt 7),
      (''quoteVolume'', JInt 1), (''priceChangePercent'', JInt 0), (''count'', JInt 3)], JObj [(''symbol'', JNull)]])) =
    Inr [(''BTCUSDT'', \<lparr>st_pair = ''BTCUSDT'', st_last_price = Fin 7, st_quote_volume = Fin 1,
       st_price_change_pct = Fin 0, st_count = 3\<rparr>)]"
    using up ends by (simp add: fetch_ticker_24hr_def ticker_stats_of_def keep_latest_def Let_def)
  from tickers_keyed_by_pair [OF this] show ?thesis by simp
qed

text \<open>
  A REST kline becomes a closed candle whatever its close time says. The row's close time (position
  6) is never read: replacing it by any value gives the same candle, and the candle is marked closed, so
  the bar of the minute still in progress, which the endpoint returns last, passes as final.
\<close>

lemma rest_kline_ignores_close_time:
  "rest_kline_to_candle pair (JList (row[6 := close_time])) = rest_kline_to_candle pair (JList row) \<and>
   (case rest_kline_to_candle pair (JList row) of Inl e \<Rightarrow> True | Inr c \<Rightarrow> cd_closed c)"
proof
  have "jnth i (JList (row[6 := close_time])) = jnth i (JList row)" if "i \<noteq> 6" for i
    using that by simp
  then show "rest_kline_to_candle pair (JList (row[6 := close_time])) = rest_kline_to_candle pair (JList row)"
    by (simp add: rest_kline_to_candle_def del: jnth.simps)
  show "case rest_kline_to_candle pair (JList row) of Inl e \<Rightarrow> True | Inr c \<Rightarrow> cd_closed c"
    by (auto simp: rest_kline_to_candle_def rbind_eq_Inr simp del: jnth.simps split: sum.split)
qed

end
