(* ===== verification/Repository.thy ===== *)
theory Repository
  imports Rows
begin

text \<open>
  \<^verbatim>\<open>src/orvixa/db/repository.py\<close>: one operation per repository method, over the tables that
  \<^verbatim>\<open>alembic/versions\<close> creates. A statement is read as SQL defines it: arguments are encoded first,
  defaults (a serial takes the next number of its sequence) and constraints come next, and a
  statement that fails changes no row, though its sequence has advanced. \<^verbatim>\<open>executemany\<close> is one
  transaction. \<^verbatim>\<open>numeric\<close> columns hold the double exactly; \<^verbatim>\<open>jsonb\<close> has no NaN or infinity.
\<close>

section \<open>Tables\<close>

definition int16 :: "int \<Rightarrow> bool" where
  "int16 n \<longleftrightarrow> - (2 ^ 15) \<le> n \<and> n < 2 ^ 15"

definition int32 :: "int \<Rightarrow> bool" where
  "int32 n \<longleftrightarrow> - (2 ^ 31) \<le> n \<and> n < 2 ^ 31"

definition int64 :: "int \<Rightarrow> bool" where
  "int64 n \<longleftrightarrow> - (2 ^ 63) \<le> n \<and> n < 2 ^ 63"

definition data_error :: pyerr where
  "data_error = BackendError ''DataError''"

definition unique_violation :: pyerr where
  "unique_violation = BackendError ''UniqueViolationError''"

definition check_violation :: pyerr where
  "check_violation = BackendError ''CheckViolationError''"

definition foreign_key_violation :: pyerr where
  "foreign_key_violation = BackendError ''ForeignKeyViolationError''"

text \<open>An append-only table with a serial key.\<close>

record 'r log =
  lg_rows :: "(int \<times> 'r) list"
  lg_next :: int

definition log_new :: "'r log" where
  "log_new = \<lparr>lg_rows = [], lg_next = 1\<rparr>"

record ranking_metrics =
  rm_quote_volume :: pyfloat
  rm_price_change_pct :: pyfloat
  rm_last_price :: pyfloat
  rm_count :: int

record symbol_entry =
  se_id :: int
  se_row :: symbol_row
  se_rank :: "int option"
  se_metrics :: "ranking_metrics option"
  se_first_seen :: datetime
  se_last_synced :: "datetime option"

type_synonym candle_key = "int \<times> string \<times> datetime"
type_synonym indicator_key = "int \<times> datetime"

record db =
  db_now :: datetime
  db_symbols :: "symbol_entry list"
  db_next_symbol :: int
  db_candles :: "(candle_key \<times> candle_row) list"
  db_indicators :: "(indicator_key \<times> indicator_row) list"
  db_signals :: "signal_row log"
  db_events :: "market_event_row log"
  db_memory :: "market_memory_row log"
  db_alerts :: "telegram_alert_row log"
  db_tier_changes :: "tier_change_row log"
  db_metrics :: "metrics_row log"
  db_breadth :: "breadth_row log"
  db_reports :: "market_report_row log"

definition db_new :: "datetime \<Rightarrow> db" where
  "db_new now =
     \<lparr>db_now = now, db_symbols = [], db_next_symbol = 1, db_candles = [], db_indicators = [], db_signals = log_new,
      db_events = log_new, db_memory = log_new, db_alerts = log_new, db_tier_changes = log_new,
      db_metrics = log_new, db_breadth = log_new, db_reports = log_new\<rparr>"

definition symbol_exists :: "int \<Rightarrow> db \<Rightarrow> bool" where
  "symbol_exists sid db \<longleftrightarrow> list_ex (\<lambda>e. se_id e = sid) (db_symbols db)"

text \<open>
  Appending to a log: \<open>encodable\<close> says whether the arguments can be sent, \<open>violated\<close> which
  constraint the row breaks.
\<close>

definition append_row :: "bool \<Rightarrow> pyerr option \<Rightarrow> 'r \<Rightarrow> 'r log \<Rightarrow> int res \<times> 'r log" where
  "append_row encodable violated row lg =
     (if \<not> encodable then (Inl data_error, lg)
      else let n = lg_next lg; lg1 = lg\<lparr>lg_next := n + 1\<rparr> in
        case violated of
          Some e \<Rightarrow> (Inl e, lg1)
        | None \<Rightarrow> (Inr n, lg1\<lparr>lg_rows := lg_rows lg @ [(n, row)]\<rparr>))"

definition references :: "int \<Rightarrow> db \<Rightarrow> pyerr option" where
  "references sid db = (if symbol_exists sid db then None else Some foreign_key_violation)"


section \<open>SymbolRepository\<close>

definition symbol_check :: "symbol_row \<Rightarrow> bool" where
  "symbol_check row \<longleftrightarrow> sy_klass row \<in> {''core'', ''alt'', ''meme''} \<and> sy_status row \<in> {''trading'', ''frozen''}"

definition has_base :: "string \<Rightarrow> symbol_entry \<Rightarrow> bool" where
  "has_base base e \<longleftrightarrow> sy_base (se_row e) = base"

definition upsert_symbol :: "symbol_row \<Rightarrow> db \<Rightarrow> int res \<times> db" where
  "upsert_symbol row db =
     (if \<not> int16 (sy_tier row) then (Inl data_error, db)
      else let n = db_next_symbol db; db1 = db\<lparr>db_next_symbol := n + 1\<rparr> in
        if \<not> symbol_check row then (Inl check_violation, db1)
        else if list_ex (\<lambda>e. sy_symbol (se_row e) = sy_symbol row \<and> \<not> has_base (sy_base row) e) (db_symbols db)
          then (Inl unique_violation, db1)
        else case find (has_base (sy_base row)) (db_symbols db) of
            Some old \<Rightarrow>
              (Inr (se_id old),
               db1\<lparr>db_symbols := map (\<lambda>e. if has_base (sy_base row) e then e\<lparr>se_row := row\<rparr> else e) (db_symbols db)\<rparr>)
          | None \<Rightarrow>
              (Inr n,
               db1\<lparr>db_symbols := db_symbols db @
                 [\<lparr>se_id = n, se_row = row, se_rank = None, se_metrics = None, se_first_seen = db_now db,
                   se_last_synced = None\<rparr>]\<rparr>))"

fun ensure_seeded :: "symbol_row list \<Rightarrow> (string \<times> int) list \<Rightarrow> db \<Rightarrow> (string \<times> int) list res \<times> db" where
  "ensure_seeded [] out db = (Inr out, db)"
| "ensure_seeded (row # rows) out db =
     (let (r, db1) = upsert_symbol row db
      in attempt r db1 (\<lambda>sid. ensure_seeded rows (alput (sy_base row) sid out) db1))"

definition get_id :: "string \<Rightarrow> db \<Rightarrow> int option" where
  "get_id base db = map_option se_id (find (has_base base) (db_symbols db))"

definition list_all_symbols :: "db \<Rightarrow> symbol_entry list" where
  "list_all_symbols db = sort_key se_id (db_symbols db)"

definition json_number :: "pyfloat \<Rightarrow> bool" where
  "json_number x \<longleftrightarrow> is_fin x"

definition update_ranking :: "string \<Rightarrow> int option \<Rightarrow> ranking_metrics \<Rightarrow> db \<Rightarrow> unit res \<times> db" where
  "update_ranking base rank metrics db =
     (if pred_option int16 rank \<and>
         list_all json_number [rm_quote_volume metrics, rm_price_change_pct metrics, rm_last_price metrics] then
        (Inr (),
         db\<lparr>db_symbols := map (\<lambda>e. if has_base base e
              then e\<lparr>se_rank := rank, se_metrics := Some metrics, se_last_synced := Some (db_now db)\<rparr> else e) (db_symbols db)\<rparr>)
      else (Inl data_error, db))"


section \<open>Candles and indicators\<close>

text \<open>\<^verbatim>\<open>INSERT ... ON CONFLICT (key) DO UPDATE\<close> for each row of a batch, in one transaction.\<close>

fun upsert_rows :: "('r \<Rightarrow> 'k) \<Rightarrow> ('r \<Rightarrow> pyerr option) \<Rightarrow> 'r list \<Rightarrow> ('k \<times> 'r) list \<Rightarrow> ('k \<times> 'r) list res" where
  "upsert_rows key violated [] table = Inr table"
| "upsert_rows key violated (row # rows) table =
     (case violated row of
        Some e \<Rightarrow> Inl e
      | None \<Rightarrow> upsert_rows key violated rows (alput (key row) row table))"

definition candle_key_of :: "candle_row \<Rightarrow> candle_key" where
  "candle_key_of r = (cr_symbol_id r, cr_interval r, cr_ts r)"

definition candle_violation :: "db \<Rightarrow> candle_row \<Rightarrow> pyerr option" where
  "candle_violation db r =
     (if \<not> int32 (cr_symbol_id r) \<or> \<not> int32 (cr_trades r) then Some data_error else references (cr_symbol_id r) db)"

definition insert_candles :: "candle_row list \<Rightarrow> db \<Rightarrow> int res \<times> db" where
  "insert_candles rows db =
     (if rows = [] then (Inr 0, db)
      else case upsert_rows candle_key_of (candle_violation db) rows (db_candles db) of
          Inl e \<Rightarrow> (Inl e, db)
        | Inr table \<Rightarrow> (Inr (int (length rows)), db\<lparr>db_candles := table\<rparr>))"

definition candles_of :: "int \<Rightarrow> string \<Rightarrow> db \<Rightarrow> candle_row list" where
  "candles_of sid interval db =
     filter (\<lambda>r. cr_symbol_id r = sid \<and> cr_interval r = interval) (map snd (db_candles db))"

definition select_range :: "int \<Rightarrow> string \<Rightarrow> datetime option \<Rightarrow> datetime option \<Rightarrow> db \<Rightarrow> candle_row list" where
  "select_range sid interval start end_ts db =
     sort_key cr_ts (filter (\<lambda>r. pred_option (\<lambda>a. a \<le> cr_ts r) start \<and> pred_option (\<lambda>b. cr_ts r \<le> b) end_ts)
       (candles_of sid interval db))"

definition limited :: "int \<Rightarrow> 'a list \<Rightarrow> 'a list res" where
  "limited n xs = (if n < 0 then Inl (BackendError ''InvalidRowCountInLimitClauseError'') else Inr (take (nat n) xs))"

definition recent_candles :: "int \<Rightarrow> string \<Rightarrow> int \<Rightarrow> db \<Rightarrow> candle_row list res" where
  "recent_candles sid interval n db = limited n (sort_key (\<lambda>r. - cr_ts r) (candles_of sid interval db))"

definition indicator_key_of :: "indicator_row \<Rightarrow> indicator_key" where
  "indicator_key_of r = (ir_symbol_id r, ir_ts r)"

definition indicator_violation :: "db \<Rightarrow> indicator_row \<Rightarrow> pyerr option" where
  "indicator_violation db r =
     (if \<not> int32 (ir_symbol_id r) then Some data_error else references (ir_symbol_id r) db)"

definition upsert_indicators :: "indicator_row list \<Rightarrow> db \<Rightarrow> int res \<times> db" where
  "upsert_indicators rows db =
     (if rows = [] then (Inr 0, db)
      else case upsert_rows indicator_key_of (indicator_violation db) rows (db_indicators db) of
          Inl e \<Rightarrow> (Inl e, db)
        | Inr table \<Rightarrow> (Inr (int (length rows)), db\<lparr>db_indicators := table\<rparr>))"

definition upsert_indicator :: "indicator_row \<Rightarrow> db \<Rightarrow> unit res \<times> db" where
  "upsert_indicator row db =
     (case upsert_rows indicator_key_of (indicator_violation db) [row] (db_indicators db) of
        Inl e \<Rightarrow> (Inl e, db)
      | Inr table \<Rightarrow> (Inr (), db\<lparr>db_indicators := table\<rparr>))"

definition latest_indicator :: "int \<Rightarrow> db \<Rightarrow> indicator_row option" where
  "latest_indicator sid db =
     (case sort_key (\<lambda>r. - ir_ts r) (filter (\<lambda>r. ir_symbol_id r = sid) (map snd (db_indicators db))) of
        [] \<Rightarrow> None
      | r # rs \<Rightarrow> Some r)"


section \<open>The logs\<close>

fun component_json :: "component \<Rightarrow> bool" where
  "component_json (CNum x) = json_number x"
| "component_json (CDirection d) = True"

fun payload_json :: "payload_value \<Rightarrow> bool" where
  "payload_json (PFloat x) = json_number x"
| "payload_json (PInt n) = True"

definition snapshot_json :: "regime_snapshot \<Rightarrow> bool" where
  "snapshot_json s \<longleftrightarrow>
     list_all json_number [rs_ad_ratio s, rs_pct_above_trend s, rs_trend_up_frac s, rs_trend_down_frac s] \<and>
     pred_option json_number (rs_avg_vol_realized s)"

definition insert_signal :: "signal_row \<Rightarrow> db \<Rightarrow> int res \<times> db" where
  "insert_signal row db =
     (let (r, lg) = append_row
            (int32 (gr_symbol_id row) \<and> int16 (gr_confidence row) \<and> list_all (\<lambda>c. component_json (snd c)) (gr_components row))
            (references (gr_symbol_id row) db) row (db_signals db)
      in (r, db\<lparr>db_signals := lg\<rparr>))"

definition insert_event :: "market_event_row \<Rightarrow> db \<Rightarrow> int res \<times> db" where
  "insert_event row db =
     (let (r, lg) = append_row
            (int32 (vr_symbol_id row) \<and> int16 (vr_severity row) \<and> list_all (\<lambda>c. payload_json (snd c)) (vr_payload row))
            (references (vr_symbol_id row) db) row (db_events db)
      in (r, db\<lparr>db_events := lg\<rparr>))"

definition insert_memory :: "market_memory_row \<Rightarrow> db \<Rightarrow> int res \<times> db" where
  "insert_memory row db =
     (let (r, lg) = append_row (int16 (yr_health_score row) \<and> snapshot_json (yr_snapshot row)) None row (db_memory db)
      in (r, db\<lparr>db_memory := lg\<rparr>))"

definition insert_tier_change :: "tier_change_row \<Rightarrow> db \<Rightarrow> int res \<times> db" where
  "insert_tier_change row db =
     (let (r, lg) = append_row (int32 (tc_symbol_id row) \<and> int16 (tc_from_tier row) \<and> int16 (tc_to_tier row))
            (references (tc_symbol_id row) db) row (db_tier_changes db)
      in (r, db\<lparr>db_tier_changes := lg\<rparr>))"

fun append_all :: "('r \<Rightarrow> bool) \<Rightarrow> ('r \<Rightarrow> pyerr option) \<Rightarrow> 'r list \<Rightarrow> 'r log \<Rightarrow> unit res \<times> 'r log" where
  "append_all encodable violated [] lg = (Inr (), lg)"
| "append_all encodable violated (row # rows) lg =
     (let (r, lg1) = append_row (encodable row) (violated row) row lg
      in attempt r lg1 (\<lambda>_. append_all encodable violated rows lg1))"

text \<open>A failed batch is rolled back, its sequence is not.\<close>

definition insert_metrics :: "metrics_row list \<Rightarrow> db \<Rightarrow> int res \<times> db" where
  "insert_metrics rows db =
     (if rows = [] then (Inr 0, db)
      else let (r, lg) = append_all
             (\<lambda>m. int32 (mr_symbol_id m) \<and> int16 (mr_tier m) \<and> int32 (mr_trade_count_24h m))
             (\<lambda>m. references (mr_symbol_id m) db) rows (db_metrics db)
        in case r of
            Inl e \<Rightarrow> (Inl e, db\<lparr>db_metrics := (db_metrics db)\<lparr>lg_next := lg_next lg\<rparr>\<rparr>)
          | Inr _ \<Rightarrow> (Inr (int (length rows)), db\<lparr>db_metrics := lg\<rparr>))"

definition insert_breadth :: "breadth_row \<Rightarrow> db \<Rightarrow> unit res \<times> db" where
  "insert_breadth row db =
     (let (r, lg) = append_row
            (list_all int32 [br_total row, br_advancers row, br_decliners row, br_unchanged row, br_new_highs row, br_new_lows row])
            None row (db_breadth db)
      in (rbind r (\<lambda>_. Inr ()), db\<lparr>db_breadth := lg\<rparr>))"

text \<open>
  The \<^verbatim>\<open>scenarios\<close> dictionary is handed over as it is: \<open>encodes\<close> says which dictionaries the connection's encoder of \<^verbatim>\<open>jsonb\<close>
  takes. The driver's own takes text only, and so no dictionary.
\<close>

definition insert_report :: "((string \<times> json) list \<Rightarrow> bool) \<Rightarrow> market_report_row \<Rightarrow> db \<Rightarrow> int res \<times> db" where
  "insert_report encodes row db =
     (let (r, lg) = append_row (encodes (mp_scenarios row) \<and> pred_option int32 (mp_tokens_used row)) None row (db_reports db)
      in (r, db\<lparr>db_reports := lg\<rparr>))"

definition latest_report :: "db \<Rightarrow> market_report_row option" where
  "latest_report db = (case sort_key (\<lambda>r. - mp_ts r) (map snd (lg_rows (db_reports db))) of [] \<Rightarrow> None | r # rs \<Rightarrow> Some r)"

text \<open>\<^verbatim>\<open>ON CONFLICT (dedupe_key) WHERE dedupe_key IS NOT NULL DO NOTHING\<close>: no row comes back, -1 is returned.\<close>

definition alert_check :: "telegram_alert_row \<Rightarrow> pyerr option" where
  "alert_check row =
     (if al_ref_type row \<in> {''event'', ''signal''} \<and> al_status row \<in> {''sent'', ''throttled'', ''fail''} then None
      else Some check_violation)"

definition duplicate_alert :: "telegram_alert_row \<Rightarrow> telegram_alert_row log \<Rightarrow> bool" where
  "duplicate_alert row lg \<longleftrightarrow>
     al_dedupe_key row \<noteq> None \<and> list_ex (\<lambda>r. al_dedupe_key (snd r) = al_dedupe_key row) (lg_rows lg)"

definition insert_alert :: "telegram_alert_row \<Rightarrow> db \<Rightarrow> int res \<times> db" where
  "insert_alert row db =
     (let lg = db_alerts db in
      if \<not> int64 (al_ref_id row) then (Inl data_error, db)
      else if alert_check row = None \<and> duplicate_alert row lg then
        (Inr (- 1), db\<lparr>db_alerts := lg\<lparr>lg_next := lg_next lg + 1\<rparr>\<rparr>)
      else let (r, lg1) = append_row True (alert_check row) row lg in (r, db\<lparr>db_alerts := lg1\<rparr>))"

definition recent :: "('r \<Rightarrow> datetime) \<Rightarrow> ('r \<Rightarrow> bool) \<Rightarrow> int \<Rightarrow> 'r log \<Rightarrow> 'r list res" where
  "recent ts_of wanted n lg = limited n (sort_key (\<lambda>r. - ts_of r) (filter wanted (map snd (lg_rows lg))))"

definition recent_signals :: "int option \<Rightarrow> int \<Rightarrow> db \<Rightarrow> signal_row list res" where
  "recent_signals sid n db = recent gr_ts (\<lambda>r. pred_option (\<lambda>k. gr_symbol_id r = k) sid) n (db_signals db)"

definition recent_events :: "int option \<Rightarrow> int \<Rightarrow> db \<Rightarrow> market_event_row list res" where
  "recent_events sid n db = recent vr_ts (\<lambda>r. pred_option (\<lambda>k. vr_symbol_id r = k) sid) n (db_events db)"

definition recent_tier_changes :: "int option \<Rightarrow> int \<Rightarrow> db \<Rightarrow> tier_change_row list res" where
  "recent_tier_changes sid n db = recent tc_ts (\<lambda>r. pred_option (\<lambda>k. tc_symbol_id r = k) sid) n (db_tier_changes db)"

definition recent_metrics :: "int \<Rightarrow> int \<Rightarrow> db \<Rightarrow> metrics_row list res" where
  "recent_metrics sid n db = recent mr_ts (\<lambda>r. mr_symbol_id r = sid) n (db_metrics db)"

definition recent_breadth :: "int \<Rightarrow> db \<Rightarrow> breadth_row list res" where
  "recent_breadth n db = recent br_ts (\<lambda>r. True) n (db_breadth db)"

definition recent_memory :: "int \<Rightarrow> db \<Rightarrow> market_memory_row list res" where
  "recent_memory n db = recent yr_ts (\<lambda>r. True) n (db_memory db)"

definition recent_alerts :: "int \<Rightarrow> db \<Rightarrow> telegram_alert_row list res" where
  "recent_alerts n db = recent al_ts (\<lambda>r. True) n (db_alerts db)"

end
