(* ===== verification/Schema.thy ===== *)
theory Schema
  imports Repository
begin

text \<open>
  What the schema and the repositories guarantee: upserts as a table interface, and the constraints
  of \<^verbatim>\<open>alembic/versions\<close> (primary keys, unique and foreign keys, checks) as an invariant of
  every state the repositories can write.
\<close>

section \<open>Tables with an upsert\<close>

locale upsert_table =
  fixes put :: "'r \<Rightarrow> 't \<Rightarrow> 't" and lookup :: "'t \<Rightarrow> 'k \<Rightarrow> 'r option"
    and order :: "'t \<Rightarrow> 'k list" and key :: "'r \<Rightarrow> 'k"
  assumes lookup_put: "lookup (put r t) k = (if k = key r then Some r else lookup t k)"
    and order_put: "order (put r t) = (if key r \<in> set (order t) then order t else order t @ [key r])"
    and ext: "distinct (order s) \<Longrightarrow> order s = order t \<Longrightarrow> (\<And>k. lookup s k = lookup t k) \<Longrightarrow> s = t"
begin

lemma lookup_fold:
  "lookup (fold put rows t) k = (case find (\<lambda>r. key r = k) (rev rows) of Some r \<Rightarrow> Some r | None \<Rightarrow> lookup t k)"
  by (induction rows rule: rev_induct) (auto simp: lookup_put)

lemma order_fold: "set (order (fold put rows t)) = key ` set rows \<union> set (order t)"
  by (induction rows arbitrary: t) (auto simp: order_put)

lemma order_distinct: "distinct (order t) \<Longrightarrow> distinct (order (fold put rows t))"
  by (induction rows arbitrary: t) (auto simp: order_put)

lemma order_known: "key ` set rows \<subseteq> set (order t) \<Longrightarrow> order (fold put rows t) = order t"
  by (induction rows arbitrary: t) (auto simp: order_put)

lemma fold_idem:
  assumes "distinct (order t)"
  shows "fold put rows (fold put rows t) = fold put rows t"
proof (rule ext)
  have "order (fold put rows (fold put rows t)) = order (fold put rows t)"
    by (rule order_known) (simp add: order_fold)
  then show "order (fold put rows (fold put rows t)) = order (fold put rows t)" .
  show "distinct (order (fold put rows (fold put rows t)))" using assms order_distinct by blast
  show "lookup (fold put rows (fold put rows t)) k = lookup (fold put rows t) k" for k
    by (simp add: lookup_fold split: option.split)
qed

end

lemma alist_ext: "distinct (map fst s) \<Longrightarrow> map fst s = map fst t \<Longrightarrow> (\<And>k. map_of s k = map_of t k) \<Longrightarrow> s = t"
proof (induction s arbitrary: t)
  case (Cons x s)
  obtain k v where x: "x = (k, v)" by (cases x)
  obtain v' t' where t: "t = (k, v') # t'" "map fst s = map fst t'" using Cons.prems(2) x by (cases t) auto
  have "v' = v" using Cons.prems(3) [of k] x t by simp
  moreover have "map_of s k' = map_of t' k'" for k'
  proof (cases "k' = k")
    case True
    then have "k' \<notin> set (map fst s)" "k' \<notin> set (map fst t')" using Cons.prems(1) x t(2) by auto
    then show ?thesis by (metis map_of_eq_None_iff set_map)
  qed (use Cons.prems(3) [of k'] x t in auto)
  ultimately show ?case using Cons.IH [of t'] Cons.prems(1) x t by simp
qed simp

interpretation candle_table: upsert_table "\<lambda>r. alput (candle_key_of r) r" map_of "map fst" candle_key_of
  by unfold_locales (auto simp: keys_alput alist_ext)

interpretation indicator_table: upsert_table "\<lambda>r. alput (indicator_key_of r) r" map_of "map fst" indicator_key_of
  by unfold_locales (auto simp: keys_alput alist_ext)

lemma upsert_rows_fold:
  "upsert_rows key violated rows table =
     (case find (\<lambda>r. violated r \<noteq> None) rows of
        Some r \<Rightarrow> Inl (the (violated r))
      | None \<Rightarrow> Inr (fold (\<lambda>r. alput (key r) r) rows table))"
  by (induction rows arbitrary: table) (auto split: option.split)

lemma upsert_rows_Inr:
  "upsert_rows key violated rows table = Inr t \<longleftrightarrow>
     (\<forall>r \<in> set rows. violated r = None) \<and> t = fold (\<lambda>r. alput (key r) r) rows table"
  by (auto simp: upsert_rows_fold find_None_iff find_Some_iff split: option.split)


section \<open>The invariant\<close>

definition log_ok :: "'r log \<Rightarrow> bool" where
  "log_ok lg \<longleftrightarrow> sorted_wrt (<) (map fst (lg_rows lg)) \<and> (\<forall>i \<in> set (map fst (lg_rows lg)). 1 \<le> i \<and> i < lg_next lg) \<and> 1 \<le> lg_next lg"

definition refers :: "('r \<Rightarrow> int) \<Rightarrow> 'r list \<Rightarrow> db \<Rightarrow> bool" where
  "refers id_of rows db \<longleftrightarrow> (\<forall>r \<in> set rows. symbol_exists (id_of r) db)"

definition symbols_ok :: "db \<Rightarrow> bool" where
  "symbols_ok db \<longleftrightarrow>
     sorted_wrt (<) (map se_id (db_symbols db)) \<and>
     (\<forall>e \<in> set (db_symbols db). 1 \<le> se_id e \<and> se_id e < db_next_symbol db \<and> symbol_check (se_row e)) \<and>
     1 \<le> db_next_symbol db \<and>
     distinct (map (sy_base \<circ> se_row) (db_symbols db)) \<and> distinct (map (sy_symbol \<circ> se_row) (db_symbols db))"

definition keyed_rows :: "('r \<Rightarrow> 'k) \<Rightarrow> ('k \<times> 'r) list \<Rightarrow> bool" where
  "keyed_rows key table \<longleftrightarrow> distinct (map fst table) \<and> (\<forall>(k, r) \<in> set table. k = key r)"

definition dedupe_keys :: "telegram_alert_row log \<Rightarrow> string list" where
  "dedupe_keys lg = List.map_filter (\<lambda>r. al_dedupe_key (snd r)) (lg_rows lg)"

definition alerts_ok :: "telegram_alert_row log \<Rightarrow> bool" where
  "alerts_ok lg \<longleftrightarrow> log_ok lg \<and> distinct (dedupe_keys lg) \<and> (\<forall>r \<in> set (map snd (lg_rows lg)).
     al_ref_type r \<in> {''event'', ''signal''} \<and> al_status r \<in> {''sent'', ''throttled'', ''fail''})"

definition db_ok :: "db \<Rightarrow> bool" where
  "db_ok db \<longleftrightarrow> symbols_ok db \<and>
     keyed_rows candle_key_of (db_candles db) \<and> refers cr_symbol_id (map snd (db_candles db)) db \<and>
     keyed_rows indicator_key_of (db_indicators db) \<and> refers ir_symbol_id (map snd (db_indicators db)) db \<and>
     (log_ok (db_signals db) \<and> refers gr_symbol_id (map snd (lg_rows (db_signals db))) db) \<and>
     (log_ok (db_events db) \<and> refers vr_symbol_id (map snd (lg_rows (db_events db))) db) \<and>
     (log_ok (db_tier_changes db) \<and> refers tc_symbol_id (map snd (lg_rows (db_tier_changes db))) db) \<and>
     (log_ok (db_metrics db) \<and> refers mr_symbol_id (map snd (lg_rows (db_metrics db))) db) \<and>
     log_ok (db_memory db) \<and> log_ok (db_breadth db) \<and> log_ok (db_reports db) \<and> alerts_ok (db_alerts db)"

text \<open>Every state that repository calls can reach from the migrated, empty schema; time may pass between them.\<close>

inductive written :: "db \<Rightarrow> bool" where
  new: "written (db_new now)"
| clock: "written db \<Longrightarrow> written (db\<lparr>db_now := now\<rparr>)"
| symbol: "written db \<Longrightarrow> written (snd (upsert_symbol row db))"
| ranking: "written db \<Longrightarrow> written (snd (update_ranking base rank metrics db))"
| candles: "written db \<Longrightarrow> written (snd (insert_candles candle_rows db))"
| indicator: "written db \<Longrightarrow> written (snd (upsert_indicator ind db))"
| indicators: "written db \<Longrightarrow> written (snd (upsert_indicators inds db))"
| signal: "written db \<Longrightarrow> written (snd (insert_signal sig db))"
| event: "written db \<Longrightarrow> written (snd (insert_event ev db))"
| memory: "written db \<Longrightarrow> written (snd (insert_memory mem db))"
| tier_change: "written db \<Longrightarrow> written (snd (insert_tier_change tc db))"
| metrics: "written db \<Longrightarrow> written (snd (insert_metrics ms db))"
| breadth: "written db \<Longrightarrow> written (snd (insert_breadth br db))"
| report: "written db \<Longrightarrow> written (snd (insert_report encodes rep db))"
| alert: "written db \<Longrightarrow> written (snd (insert_alert al db))"

lemma append_row_ok: "log_ok lg \<Longrightarrow> log_ok (snd (append_row enc viol row lg))"
  by (auto simp: append_row_def log_ok_def sorted_wrt_append Let_def split: option.split)

lemma append_row_rows:
  "lg_rows (snd (append_row enc viol row lg)) = lg_rows lg @ (if enc \<and> viol = None then [(lg_next lg, row)] else [])"
  by (simp add: append_row_def Let_def split: option.split)

lemma references_None: "references sid db = None \<longleftrightarrow> symbol_exists sid db"
  by (simp add: references_def)

lemma append_row_refers:
  "refers id_of (map snd (lg_rows lg)) db \<Longrightarrow>
    refers id_of (map snd (lg_rows (snd (append_row enc (references (id_of row) db) row lg)))) db"
  by (auto simp: append_row_rows refers_def references_None)

lemma symbol_exists_tables [simp]:
  "symbol_exists sid (db\<lparr>db_now := a\<rparr>) = symbol_exists sid db"
  "symbol_exists sid (db\<lparr>db_candles := cs\<rparr>) = symbol_exists sid db"
  "symbol_exists sid (db\<lparr>db_indicators := is\<rparr>) = symbol_exists sid db"
  "symbol_exists sid (db\<lparr>db_signals := s\<rparr>) = symbol_exists sid db"
  "symbol_exists sid (db\<lparr>db_events := e\<rparr>) = symbol_exists sid db"
  "symbol_exists sid (db\<lparr>db_memory := m\<rparr>) = symbol_exists sid db"
  "symbol_exists sid (db\<lparr>db_alerts := al\<rparr>) = symbol_exists sid db"
  "symbol_exists sid (db\<lparr>db_tier_changes := tc\<rparr>) = symbol_exists sid db"
  "symbol_exists sid (db\<lparr>db_metrics := ms\<rparr>) = symbol_exists sid db"
  "symbol_exists sid (db\<lparr>db_breadth := b\<rparr>) = symbol_exists sid db"
  "symbol_exists sid (db\<lparr>db_reports := rp\<rparr>) = symbol_exists sid db"
  "symbol_exists sid (db\<lparr>db_next_symbol := n\<rparr>) = symbol_exists sid db"
  by (simp_all add: symbol_exists_def)

lemma refers_tables [simp]:
  "refers f rows (db\<lparr>db_now := a\<rparr>) = refers f rows db" "refers f rows (db\<lparr>db_candles := cs\<rparr>) = refers f rows db"
  "refers f rows (db\<lparr>db_indicators := is\<rparr>) = refers f rows db" "refers f rows (db\<lparr>db_signals := s\<rparr>) = refers f rows db"
  "refers f rows (db\<lparr>db_events := e\<rparr>) = refers f rows db" "refers f rows (db\<lparr>db_memory := m\<rparr>) = refers f rows db"
  "refers f rows (db\<lparr>db_alerts := al\<rparr>) = refers f rows db" "refers f rows (db\<lparr>db_tier_changes := tc\<rparr>) = refers f rows db"
  "refers f rows (db\<lparr>db_metrics := ms\<rparr>) = refers f rows db" "refers f rows (db\<lparr>db_breadth := b\<rparr>) = refers f rows db"
  "refers f rows (db\<lparr>db_reports := rp\<rparr>) = refers f rows db"
  by (simp_all add: refers_def)

lemma symbols_ok_tables [simp]:
  "symbols_ok (db\<lparr>db_now := a\<rparr>) = symbols_ok db" "symbols_ok (db\<lparr>db_candles := cs\<rparr>) = symbols_ok db"
  "symbols_ok (db\<lparr>db_indicators := is\<rparr>) = symbols_ok db" "symbols_ok (db\<lparr>db_signals := s\<rparr>) = symbols_ok db"
  "symbols_ok (db\<lparr>db_events := e\<rparr>) = symbols_ok db" "symbols_ok (db\<lparr>db_memory := m\<rparr>) = symbols_ok db"
  "symbols_ok (db\<lparr>db_alerts := al\<rparr>) = symbols_ok db" "symbols_ok (db\<lparr>db_tier_changes := tc\<rparr>) = symbols_ok db"
  "symbols_ok (db\<lparr>db_metrics := ms\<rparr>) = symbols_ok db" "symbols_ok (db\<lparr>db_breadth := b\<rparr>) = symbols_ok db"
  "symbols_ok (db\<lparr>db_reports := rp\<rparr>) = symbols_ok db"
  by (simp_all add: symbols_ok_def)

text \<open>Symbol upserts keep every id, base and check, and only add ids.\<close>

lemma entry_update_same:
  "map se_id (map (\<lambda>e. if P e then e\<lparr>se_row := row\<rparr> else e) es) = map se_id es"
  by (induction es) auto

lemma entry_bases_same:
  "map (sy_base \<circ> se_row) (map (\<lambda>e. if has_base (sy_base row) e then e\<lparr>se_row := row\<rparr> else e) es) = map (sy_base \<circ> se_row) es"
  by (induction es) (auto simp: has_base_def)

lemma distinct_map_head: "distinct (map f (e # es)) \<Longrightarrow> x \<in> set es \<Longrightarrow> f x \<noteq> f e"
  by simp (metis imageI)

lemma entry_symbols_distinct:
  assumes "distinct (map (sy_symbol \<circ> se_row) es)" "distinct (map (sy_base \<circ> se_row) es)"
    "\<not> list_ex (\<lambda>e. sy_symbol (se_row e) = sy_symbol row \<and> \<not> has_base (sy_base row) e) es"
  shows "distinct (map (sy_symbol \<circ> se_row) (map (\<lambda>e. if has_base (sy_base row) e then e\<lparr>se_row := row\<rparr> else e) es))"
  using assms
proof (induction es)
  case (Cons e es)
  have tail: "sy_symbol (se_row x) \<noteq> sy_symbol row" if "x \<in> set es" "\<not> has_base (sy_base row) x" for x
    using Cons.prems(3) that by (auto simp: list_ex_iff)
  show ?case
  proof (cases "has_base (sy_base row) e")
    case True
    then have "\<not> has_base (sy_base row) x" if "x \<in> set es" for x
      using Cons.prems(2) that by (force simp: has_base_def)
    then show ?thesis using Cons True tail by (force simp: has_base_def)
  next
    case False
    then have "sy_symbol (se_row e) \<noteq> sy_symbol row" using Cons.prems(3) by auto
    moreover have "sy_symbol (se_row x) \<noteq> sy_symbol (se_row e)" if "x \<in> set es" for x
      using distinct_map_head [OF Cons.prems(1) that] by simp
    ultimately show ?thesis using Cons False by (auto split: if_splits)
  qed
qed simp

lemma upsert_symbol_cases:
  obtains (failed) err n where "upsert_symbol row db = (Inl err, db\<lparr>db_next_symbol := n\<rparr>)" "db_next_symbol db \<le> n"
  | (updated) sid where
      "upsert_symbol row db = (Inr sid, db\<lparr>db_next_symbol := db_next_symbol db + 1, db_symbols :=
         map (\<lambda>e. if has_base (sy_base row) e then e\<lparr>se_row := row\<rparr> else e) (db_symbols db)\<rparr>)"
      "get_id (sy_base row) db = Some sid" "symbol_check row"
      "\<not> list_ex (\<lambda>e. sy_symbol (se_row e) = sy_symbol row \<and> \<not> has_base (sy_base row) e) (db_symbols db)"
  | (inserted) entry where
      "upsert_symbol row db = (Inr (db_next_symbol db), db\<lparr>db_next_symbol := db_next_symbol db + 1, db_symbols := db_symbols db @ [entry]\<rparr>)"
      "get_id (sy_base row) db = None" "se_id entry = db_next_symbol db" "se_row entry = row" "symbol_check row"
      "\<not> list_ex (\<lambda>e. sy_symbol (se_row e) = sy_symbol row \<and> \<not> has_base (sy_base row) e) (db_symbols db)"
proof -
  let ?clash = "list_ex (\<lambda>e. sy_symbol (se_row e) = sy_symbol row \<and> \<not> has_base (sy_base row) e) (db_symbols db)"
  show thesis
  proof (cases "int16 (sy_tier row) \<and> symbol_check row \<and> \<not> ?clash")
    case False
    then consider "\<not> int16 (sy_tier row)" | "int16 (sy_tier row)" "\<not> symbol_check row"
      | "int16 (sy_tier row)" "symbol_check row" "?clash" by blast
    then show thesis
    proof cases
      case 1
      then show thesis by (intro failed [of data_error "db_next_symbol db"]) (simp_all add: upsert_symbol_def)
    next
      case 2
      then show thesis
        by (intro failed [of check_violation "db_next_symbol db + 1"]) (simp_all add: upsert_symbol_def Let_def)
    next
      case 3
      then show thesis
        by (intro failed [of unique_violation "db_next_symbol db + 1"]) (simp_all add: upsert_symbol_def Let_def)
    qed
  next
    case True
    show thesis
    proof (cases "find (has_base (sy_base row)) (db_symbols db)")
      case None
      then show thesis using True by (intro inserted) (auto simp: upsert_symbol_def get_id_def Let_def)
    next
      case (Some old)
      then show thesis using True by (intro updated [of "se_id old"]) (auto simp: upsert_symbol_def get_id_def Let_def)
    qed
  qed
qed

lemma symbol_exists_iff: "symbol_exists sid db \<longleftrightarrow> sid \<in> set (map se_id (db_symbols db))"
  by (auto simp: symbol_exists_def list_ex_iff)

lemma upsert_symbol_ids:
  "symbol_exists sid db \<Longrightarrow> symbol_exists sid (snd (upsert_symbol row db))"
  unfolding symbol_exists_iff
  by (rule upsert_symbol_cases [of row db]) (simp_all add: entry_update_same del: map_map set_map)

lemma upsert_symbol_symbols_ok:
  assumes "symbols_ok db"
  shows "symbols_ok (snd (upsert_symbol row db))"
proof (rule upsert_symbol_cases [of row db])
  fix err n assume "upsert_symbol row db = (Inl err, db\<lparr>db_next_symbol := n\<rparr>)" "db_next_symbol db \<le> n"
  then show ?thesis using assms by (fastforce simp: symbols_ok_def)
next
  fix sid assume "upsert_symbol row db = (Inr sid, db\<lparr>db_next_symbol := db_next_symbol db + 1, db_symbols :=
         map (\<lambda>e. if has_base (sy_base row) e then e\<lparr>se_row := row\<rparr> else e) (db_symbols db)\<rparr>)" "symbol_check row"
    "\<not> list_ex (\<lambda>e. sy_symbol (se_row e) = sy_symbol row \<and> \<not> has_base (sy_base row) e) (db_symbols db)"
  then show ?thesis using assms entry_symbols_distinct [of "db_symbols db" row]
    by (auto simp: symbols_ok_def entry_update_same entry_bases_same simp del: map_map)
next
  fix entry assume u: "upsert_symbol row db = (Inr (db_next_symbol db), db\<lparr>db_next_symbol := db_next_symbol db + 1, db_symbols := db_symbols db @ [entry]\<rparr>)"
      "get_id (sy_base row) db = None" "se_id entry = db_next_symbol db" "se_row entry = row" "symbol_check row"
      "\<not> list_ex (\<lambda>e. sy_symbol (se_row e) = sy_symbol row \<and> \<not> has_base (sy_base row) e) (db_symbols db)"
  have "\<forall>e \<in> set (db_symbols db). sy_base (se_row e) \<noteq> sy_base row"
    using u(2) by (auto simp: get_id_def find_None_iff has_base_def)
  moreover have "\<forall>e \<in> set (db_symbols db). sy_symbol (se_row e) \<noteq> sy_symbol row"
    using u(6) calculation by (auto simp: list_ex_iff has_base_def)
  ultimately show ?thesis using assms u by (fastforce simp: symbols_ok_def sorted_wrt_append)
qed

lemma refers_ids: "(\<And>sid. symbol_exists sid db \<Longrightarrow> symbol_exists sid db') \<Longrightarrow> refers f rows db \<Longrightarrow> refers f rows db'"
  by (simp add: refers_def)

lemma upsert_symbol_frame:
  "\<exists>n es. snd (upsert_symbol row db) = db\<lparr>db_next_symbol := n, db_symbols := es\<rparr>"
proof (rule upsert_symbol_cases [of row db])
  fix err n assume "upsert_symbol row db = (Inl err, db\<lparr>db_next_symbol := n\<rparr>)"
  then have "snd (upsert_symbol row db) = db\<lparr>db_next_symbol := n, db_symbols := db_symbols db\<rparr>" by simp
  then show ?thesis by blast
qed auto

lemma upsert_symbol_tables [simp]:
  "db_candles (snd (upsert_symbol row db)) = db_candles db" "db_indicators (snd (upsert_symbol row db)) = db_indicators db"
  "db_signals (snd (upsert_symbol row db)) = db_signals db" "db_events (snd (upsert_symbol row db)) = db_events db"
  "db_memory (snd (upsert_symbol row db)) = db_memory db" "db_alerts (snd (upsert_symbol row db)) = db_alerts db"
  "db_tier_changes (snd (upsert_symbol row db)) = db_tier_changes db" "db_metrics (snd (upsert_symbol row db)) = db_metrics db"
  "db_breadth (snd (upsert_symbol row db)) = db_breadth db" "db_reports (snd (upsert_symbol row db)) = db_reports db"
  "db_now (snd (upsert_symbol row db)) = db_now db"
  using upsert_symbol_frame [of row db] by auto

lemma upsert_symbol_ok: "db_ok db \<Longrightarrow> db_ok (snd (upsert_symbol row db))"
  by (auto simp: db_ok_def upsert_symbol_symbols_ok intro: refers_ids [OF upsert_symbol_ids])

lemma update_ranking_ok:
  assumes "db_ok db"
  shows "db_ok (snd (update_ranking base rank metrics db))"
proof -
  let ?f = "\<lambda>e. if has_base base e then e\<lparr>se_rank := rank, se_metrics := Some metrics, se_last_synced := Some (db_now db)\<rparr> else e"
  have same: "map (g \<circ> se_row) (map ?f es) = map (g \<circ> se_row) es" "map se_id (map ?f es) = map se_id es"
    for g :: "symbol_row \<Rightarrow> string" and es
    by (induction es) auto
  have exists: "symbol_exists sid (db\<lparr>db_symbols := map ?f (db_symbols db)\<rparr>) = symbol_exists sid db" for sid
    by (simp add: symbol_exists_iff same(2) del: map_map set_map)
  have "symbols_ok (db\<lparr>db_symbols := map ?f (db_symbols db)\<rparr>)"
    using assms by (auto simp: db_ok_def symbols_ok_def same simp del: map_map)
  then show ?thesis using assms by (simp add: update_ranking_def db_ok_def refers_def exists)
qed

lemma alput_pairs: "set (alput k v m) \<subseteq> insert (k, v) (set m)"
  by (induction k v m rule: alput.induct) auto

lemma keyed_rows_put: "keyed_rows key t \<Longrightarrow> keyed_rows key (alput (key r) r t)"
  using alput_pairs [of "key r" r t] by (auto simp: keyed_rows_def)

lemma alput_rows: "set (map snd (alput k v m)) \<subseteq> insert v (set (map snd m))"
  using alput_pairs [of k v m] by auto

lemma upsert_rows_ok:
  assumes "keyed_rows key t" "refers id_of (map snd t) db" "\<And>r. violated r = None \<Longrightarrow> symbol_exists (id_of r) db"
  shows "upsert_rows key violated rows t = Inr t' \<Longrightarrow> keyed_rows key t' \<and> refers id_of (map snd t') db"
  using assms(1,2)
proof (induction rows arbitrary: t)
  case (Cons r rows)
  have v: "violated r = None" "upsert_rows key violated rows (alput (key r) r t) = Inr t'"
    using Cons.prems(1) by (auto split: option.splits)
  have refs: "refers id_of (map snd (alput (key r) r t)) db"
    using Cons.prems(3) assms(3) [OF v(1)] alput_rows [of "key r" r t] unfolding refers_def by blast
  show ?case by (rule Cons.IH [OF v(2) keyed_rows_put [OF Cons.prems(2)] refs])
qed simp

lemma violation_exists:
  "candle_violation db r = None \<Longrightarrow> symbol_exists (cr_symbol_id r) db"
  "indicator_violation db s = None \<Longrightarrow> symbol_exists (ir_symbol_id s) db"
  by (auto simp: candle_violation_def indicator_violation_def references_def split: if_splits)

lemma candle_rows_ok:
  assumes "db_ok db" "upsert_rows candle_key_of (candle_violation db) rows (db_candles db) = Inr t"
  shows "db_ok (db\<lparr>db_candles := t\<rparr>)"
proof -
  have "keyed_rows candle_key_of t \<and> refers cr_symbol_id (map snd t) db"
    by (rule upsert_rows_ok [OF _ _ violation_exists(1) assms(2)]) (use assms(1) in \<open>simp_all add: db_ok_def\<close>)
  then show ?thesis using assms(1) by (simp add: db_ok_def)
qed

lemma indicator_rows_ok:
  assumes "db_ok db" "upsert_rows indicator_key_of (indicator_violation db) rows (db_indicators db) = Inr t"
  shows "db_ok (db\<lparr>db_indicators := t\<rparr>)"
proof -
  have "keyed_rows indicator_key_of t \<and> refers ir_symbol_id (map snd t) db"
    by (rule upsert_rows_ok [OF _ _ violation_exists(2) assms(2)]) (use assms(1) in \<open>simp_all add: db_ok_def\<close>)
  then show ?thesis using assms(1) by (simp add: db_ok_def)
qed

lemma insert_candles_ok: "db_ok db \<Longrightarrow> db_ok (snd (insert_candles rows db))"
  by (simp add: insert_candles_def candle_rows_ok split: sum.split)

lemma upsert_indicators_ok:
  "db_ok db \<Longrightarrow> db_ok (snd (upsert_indicators rows db))" "db_ok db \<Longrightarrow> db_ok (snd (upsert_indicator row db))"
  by (simp_all add: upsert_indicators_def upsert_indicator_def indicator_rows_ok del: upsert_rows.simps split: sum.split)

lemma log_inserts_ok:
  assumes "db_ok db"
  shows "db_ok (snd (insert_signal s db))" "db_ok (snd (insert_event e db))" "db_ok (snd (insert_memory y db))"
    "db_ok (snd (insert_tier_change tc db))" "db_ok (snd (insert_breadth b db))"
    "db_ok (snd (insert_report encodes rep db))"
  using assms append_row_refers [where id_of = gr_symbol_id and lg = "db_signals db" and db = db]
    append_row_refers [where id_of = vr_symbol_id and lg = "db_events db" and db = db]
    append_row_refers [where id_of = tc_symbol_id and lg = "db_tier_changes db" and db = db]
  by (simp_all add: db_ok_def insert_signal_def insert_event_def insert_memory_def insert_tier_change_def
      insert_breadth_def insert_report_def split_beta append_row_ok)

lemma append_all_ok:
  "log_ok lg \<Longrightarrow> refers id_of (map snd (lg_rows lg)) db \<Longrightarrow>
    log_ok (snd (append_all enc (\<lambda>r. references (id_of r) db) rows lg)) \<and>
    refers id_of (map snd (lg_rows (snd (append_all enc (\<lambda>r. references (id_of r) db) rows lg)))) db"
proof (induction rows arbitrary: lg)
  case (Cons row rows)
  let ?lg = "snd (append_row (enc row) (references (id_of row) db) row lg)"
  have "log_ok ?lg" "refers id_of (map snd (lg_rows ?lg)) db"
    by (rule append_row_ok append_row_refers Cons.prems)+
  then show ?case using Cons.IH [of ?lg] by (auto simp: split_beta attempt_def split: sum.split)
qed simp

lemma append_row_next: "lg_next lg \<le> lg_next (snd (append_row enc viol row lg))"
  by (simp add: append_row_def Let_def split: option.split)

lemma append_all_next: "lg_next lg \<le> lg_next (snd (append_all enc viol rows lg))"
proof (induction rows arbitrary: lg)
  case (Cons row rows)
  show ?case
    using Cons.IH [of "snd (append_row (enc row) (viol row) row lg)"] append_row_next [of lg "enc row" "viol row" row]
    by (auto simp: split_beta attempt_def split: sum.split)
qed simp

lemma log_ok_later: "log_ok lg \<Longrightarrow> lg_next lg \<le> n \<Longrightarrow> log_ok (lg\<lparr>lg_next := n\<rparr>)"
  by (fastforce simp: log_ok_def)

lemma insert_metrics_ok:
  assumes "db_ok db"
  shows "db_ok (snd (insert_metrics rows db))"
proof -
  let ?enc = "\<lambda>m. int32 (mr_symbol_id m) \<and> int16 (mr_tier m) \<and> int32 (mr_trade_count_24h m)"
  let ?out = "append_all ?enc (\<lambda>m. references (mr_symbol_id m) db) rows (db_metrics db)"
  have lg: "log_ok (db_metrics db)" "refers mr_symbol_id (map snd (lg_rows (db_metrics db))) db"
    using assms by (auto simp: db_ok_def)
  note out = append_all_ok [OF lg, of ?enc rows]
  have "log_ok ((db_metrics db)\<lparr>lg_next := lg_next (snd ?out)\<rparr>)" by (intro log_ok_later lg append_all_next)
  then show ?thesis using assms out lg
    by (cases "fst ?out") (auto simp: insert_metrics_def db_ok_def split_beta)
qed

lemma alerts_ok_append:
  assumes "alerts_ok lg" "\<not> (alert_check row = None \<and> duplicate_alert row lg)"
  shows "alerts_ok (snd (append_row True (alert_check row) row lg))"
proof (cases "alert_check row = None")
  case True
  then have "k \<notin> set (dedupe_keys lg)" if "al_dedupe_key row = Some k" for k
    using assms(2) that by (auto simp: duplicate_alert_def dedupe_keys_def list_ex_iff List.map_filter_def)
  moreover have "al_ref_type row \<in> {''event'', ''signal''} \<and> al_status row \<in> {''sent'', ''throttled'', ''fail''}"
    using True by (simp only: alert_check_def option.distinct split: if_splits)
  ultimately show ?thesis using True assms(1) append_row_ok [of lg True "alert_check row" row]
    by (cases "al_dedupe_key row") (auto simp: alerts_ok_def dedupe_keys_def append_row_rows List.map_filter_def)
next
  case False
  then have "lg_rows (snd (append_row True (alert_check row) row lg)) = lg_rows lg" by (simp add: append_row_rows)
  then show ?thesis using assms(1) append_row_ok [of lg True "alert_check row" row] unfolding alerts_ok_def dedupe_keys_def by metis
qed

lemma insert_alert_ok:
  assumes "db_ok db"
  shows "db_ok (snd (insert_alert row db))"
proof -
  let ?lg = "db_alerts db"
  have lg: "alerts_ok ?lg" using assms by (simp add: db_ok_def)
  have "alerts_ok (?lg\<lparr>lg_next := lg_next ?lg + 1\<rparr>)"
    using lg log_ok_later [of ?lg "lg_next ?lg + 1"] by (simp add: alerts_ok_def dedupe_keys_def)
  then show ?thesis using assms lg alerts_ok_append [OF lg, of row]
    by (auto simp: insert_alert_def db_ok_def Let_def split_beta)
qed

lemma db_new_ok: "db_ok (db_new now)"
  by (simp add: db_ok_def db_new_def symbols_ok_def keyed_rows_def refers_def log_ok_def log_new_def alerts_ok_def dedupe_keys_def
      List.map_filter_def)

lemma db_ok_clock: "db_ok db \<Longrightarrow> db_ok (db\<lparr>db_now := now\<rparr>)"
  by (simp add: db_ok_def)

lemma written_ok: "written db \<Longrightarrow> db_ok db"
  by (induction rule: written.induct)
    (assumption | rule db_new_ok db_ok_clock upsert_symbol_ok update_ranking_ok insert_candles_ok upsert_indicators_ok log_inserts_ok
      insert_metrics_ok insert_alert_ok)+

section \<open>What callers rely on\<close>

lemma candle_lookup:
  assumes "db_ok db" "r \<in> set (map snd (db_candles db))"
  shows "map_of (db_candles db) (candle_key_of r) = Some r"
  using assms by (force simp: db_ok_def keyed_rows_def intro!: map_of_is_SomeI)

lemma candles_of_iff:
  assumes "db_ok db"
  shows "r \<in> set (candles_of sid interval db) \<longleftrightarrow>
    cr_symbol_id r = sid \<and> cr_interval r = interval \<and> map_of (db_candles db) (sid, interval, cr_ts r) = Some r"
  using candle_lookup [OF assms, of r] by (force simp: candles_of_def candle_key_of_def dest: map_of_SomeD)

lemma candles_of_times:
  assumes "db_ok db"
  shows "distinct (map cr_ts (candles_of sid interval db))"
proof -
  let ?P = "\<lambda>r. cr_symbol_id r = sid \<and> cr_interval r = interval"
  have "distinct (map candle_key_of (map snd (db_candles db)))"
  proof -
    have eq: "map (candle_key_of \<circ> snd) (db_candles db) = map fst (db_candles db)"
      using assms by (auto simp: db_ok_def keyed_rows_def)
    show ?thesis unfolding map_map eq using assms by (simp add: db_ok_def keyed_rows_def)
  qed
  then have "distinct (map candle_key_of (filter ?P (map snd (db_candles db))))" by (rule distinct_map_filter)
  then have "distinct (filter ?P (map snd (db_candles db)))" "inj_on candle_key_of (set (filter ?P (map snd (db_candles db))))"
    by (auto simp: distinct_map)
  then show ?thesis unfolding candles_of_def distinct_map
    by (auto simp: inj_on_def candle_key_of_def)
qed

lemma sorted_strict: "sorted (map f xs) \<Longrightarrow> distinct (map f xs) \<Longrightarrow> sorted_wrt (\<lambda>a b. f a < (f b :: int)) xs"
  by (induction xs) (auto simp: less_le)

text \<open>
  C6: the schema's constraints hold whatever the program writes. After any sequence of repository calls
  on the migrated schema, failing ones included: ids and serials ascend, pairs and bases are unique, classes
  and statuses are legal, candles and indicators have unique keys, every row refers to a registered symbol,
  every alert has a legal reference type and status, and no two alerts share a dedupe key. (The checks on the types
  of signals and events hold by the types of their rows.)
\<close>

theorem schema_invariant:
  assumes "written db"
  shows "db_ok db"
  using assms by (rule written_ok)

definition sample_alert :: telegram_alert_row where
  "sample_alert = \<lparr>al_ref_type = ''event'', al_ref_id = 1, al_ts = 0, al_status = ''sent'', al_dedupe_key = Some ''k'',
     al_chat_id = None, al_message = None\<rparr>"

theorem schema_invariant_witness:
  "let db = snd (insert_alert sample_alert (snd (insert_alert sample_alert (snd (insert_alert (sample_alert\<lparr>al_status := ''lost''\<rparr>)
       (snd (upsert_symbol \<lparr>sy_symbol = ''BTCUSDT'', sy_base = ''BTC'', sy_quote = ''USDT'', sy_klass = ''core'', sy_tier = 0,
         sy_status = ''trading'', sy_tags = []\<rparr> (db_new 0))))))))
   in db_ok db \<and> map snd (lg_rows (db_alerts db)) = [sample_alert] \<and> map se_id (db_symbols db) = [1]"
  unfolding Let_def
proof (intro conjI)
  show "db_ok (snd (insert_alert sample_alert (snd (insert_alert sample_alert (snd (insert_alert (sample_alert\<lparr>al_status := ''lost''\<rparr>)
       (snd (upsert_symbol \<lparr>sy_symbol = ''BTCUSDT'', sy_base = ''BTC'', sy_quote = ''USDT'', sy_klass = ''core'', sy_tier = 0,
         sy_status = ''trading'', sy_tags = []\<rparr> (db_new 0)))))))))"
    by (rule schema_invariant) (rule written.intros)+
qed (simp_all add: insert_alert_def sample_alert_def alert_check_def duplicate_alert_def append_row_def upsert_symbol_def int64_def
    int16_def symbol_check_def db_new_def log_new_def Let_def)

text \<open>
  C37: candle batches. A batch that is accepted stores, under each key it names, its last row with that key,
  keeps every other candle, and can be delivered again without changing anything; a batch that is refused
  leaves the table as it was.
\<close>

theorem candles_last_write_wins:
  assumes "written db"
  shows "case insert_candles rows db of
      (Inl e, db') \<Rightarrow> db' = db
    | (Inr n, db') \<Rightarrow> n = int (length rows) \<and>
        (\<forall>k. map_of (db_candles db') k =
           (case find (\<lambda>r. candle_key_of r = k) (rev rows) of Some r \<Rightarrow> Some r | None \<Rightarrow> map_of (db_candles db) k)) \<and>
        insert_candles rows db' = (Inr n, db')"
proof (cases "rows = []")
  case False
  show ?thesis
  proof (cases "upsert_rows candle_key_of (candle_violation db) rows (db_candles db)")
    case (Inl e)
    then show ?thesis using False by (simp add: insert_candles_def)
  next
    case (Inr t)
    have ok: "\<forall>r \<in> set rows. candle_violation db r = None" and t: "t = fold (\<lambda>r. alput (candle_key_of r) r) rows (db_candles db)"
      using Inr by (auto simp: upsert_rows_Inr)
    have "candle_violation (db\<lparr>db_candles := t\<rparr>) r = candle_violation db r" for r
      by (simp add: candle_violation_def references_def)
    moreover have "distinct (map fst (db_candles db))" using written_ok [OF assms] by (simp add: db_ok_def keyed_rows_def)
    ultimately have "upsert_rows candle_key_of (candle_violation (db\<lparr>db_candles := t\<rparr>)) rows t = Inr t"
      using ok candle_table.fold_idem t by (simp add: upsert_rows_Inr)
    then show ?thesis using False Inr candle_table.lookup_fold t by (simp add: insert_candles_def)
  qed
qed (simp add: insert_candles_def)

theorem candles_last_write_wins_witness:
  "let db = snd (upsert_symbol \<lparr>sy_symbol = ''BTCUSDT'', sy_base = ''BTC'', sy_quote = ''USDT'', sy_klass = ''core'', sy_tier = 0,
       sy_status = ''trading'', sy_tags = []\<rparr> (db_new 0));
     row = \<lparr>cr_symbol_id = 1, cr_ts = 5, cr_open = 1, cr_high = 1, cr_low = 1, cr_close = 1, cr_volume = 1, cr_quote_volume = 1,
       cr_trades = 3, cr_taker_buy_volume = 1, cr_interval = ''1m''\<rparr>
   in \<exists>db'. insert_candles [row, row\<lparr>cr_trades := 4\<rparr>] db = (Inr 2, db') \<and>
     map_of (db_candles db') (1, ''1m'', 5) = Some (row\<lparr>cr_trades := 4\<rparr>)"
proof -
  define db where "db = snd (upsert_symbol \<lparr>sy_symbol = ''BTCUSDT'', sy_base = ''BTC'', sy_quote = ''USDT'', sy_klass = ''core'', sy_tier = 0,
       sy_status = ''trading'', sy_tags = []\<rparr> (db_new 0))"
  define row where "row = \<lparr>cr_symbol_id = 1, cr_ts = 5, cr_open = 1, cr_high = 1, cr_low = 1, cr_close = 1, cr_volume = 1, cr_quote_volume = 1,
       cr_trades = 3, cr_taker_buy_volume = 1, cr_interval = ''1m''\<rparr>"
  have w: "written db" unfolding db_def by (rule written.intros)+
  have "candle_violation db row = None" "candle_violation db (row\<lparr>cr_trades := 4\<rparr>) = None"
    by (simp_all add: row_def candle_violation_def references_def symbol_exists_def db_def
      upsert_symbol_def db_new_def symbol_check_def int16_def int32_def Let_def)
  then obtain db' where i: "insert_candles [row, row\<lparr>cr_trades := 4\<rparr>] db = (Inr 2, db')" by (simp add: insert_candles_def)
  have key: "candle_key_of (row\<lparr>cr_trades := 4\<rparr>) = (1, ''1m'', 5)" by (simp add: row_def candle_key_of_def)
  have "map_of (db_candles db') (1, ''1m'', 5) = Some (row\<lparr>cr_trades := 4\<rparr>)"
    using candles_last_write_wins [OF w, of "[row, row\<lparr>cr_trades := 4\<rparr>]"] i key by simp
  then show ?thesis unfolding Let_def db_def [symmetric] row_def [symmetric] using i by blast
qed



text \<open>
  Alerts are sent once. An alert whose dedupe key is already stored is answered with -1 and adds no row;
  one with a new key, or none, is stored.
\<close>

lemma alerts_deduplicated:
  assumes "alert_check row = None" "int64 (al_ref_id row)"
  shows "case insert_alert row db of
    (r, db') \<Rightarrow> if al_dedupe_key row \<noteq> None \<and> al_dedupe_key row \<in> set (map (al_dedupe_key \<circ> snd) (lg_rows (db_alerts db)))
      then r = Inr (- 1) \<and> lg_rows (db_alerts db') = lg_rows (db_alerts db)
      else r = Inr (lg_next (db_alerts db)) \<and>
        lg_rows (db_alerts db') = lg_rows (db_alerts db) @ [(lg_next (db_alerts db), row)]"
proof -
  have "duplicate_alert row (db_alerts db) \<longleftrightarrow> al_dedupe_key row \<noteq> None \<and>
      al_dedupe_key row \<in> set (map (al_dedupe_key \<circ> snd) (lg_rows (db_alerts db)))"
    by (force simp: duplicate_alert_def list_ex_iff)
  then show ?thesis using assms by (simp add: insert_alert_def append_row_def Let_def)
qed

lemma alerts_deduplicated_witness:
  "fst (insert_alert sample_alert (snd (insert_alert sample_alert (db_new 0)))) = Inr (- 1)"
  using alerts_deduplicated [of sample_alert "snd (insert_alert sample_alert (db_new 0))"]
    alerts_deduplicated [of sample_alert "db_new 0"]
  by (auto simp: alert_check_def int64_def sample_alert_def db_new_def log_new_def split_beta)

end
