(* ===== verification/Registry.thy ===== *)
theory Registry
  imports Schema Payloads
begin

text \<open>
  \<^verbatim>\<open>src/orvixa/persistence/registry.py\<close>: the rows that seed the symbol registry, and
  \<^verbatim>\<open>src/orvixa/backtest/dataset.py\<close>: the provenance of a dataset, read from the registry's tags.
\<close>

section \<open>Seeding\<close>

text \<open>\<^verbatim>\<open>Settings.all_symbols\<close>: a dictionary keeps the first occurrence of each symbol.\<close>

definition all_symbols :: "settings \<Rightarrow> string list" where
  "all_symbols cfg = map fst (foldl (\<lambda>ordered s. alput s () ordered) [] (core_symbols cfg @ seed_symbols cfg))"

definition classify_symbol :: "settings \<Rightarrow> string \<Rightarrow> string \<times> int" where
  "classify_symbol cfg base =
     (if base \<in> set (map normalize_symbol (core_symbols cfg)) then (''core'', 0)
      else if base \<in> set (map normalize_symbol (meme_symbols cfg)) then (''meme'', 1)
      else (''alt'', 1))"

definition seed_row :: "settings \<Rightarrow> string \<Rightarrow> symbol_row" where
  "seed_row cfg pair =
     (let base = normalize_symbol pair; (klass, tier) = classify_symbol cfg base
      in \<lparr>sy_symbol = upper pair, sy_base = base, sy_quote = ''USDT'', sy_klass = klass, sy_tier = tier,
          sy_status = ''trading'', sy_tags = [klass]\<rparr>)"

definition build_symbol_rows :: "settings \<Rightarrow> symbol_row list" where
  "build_symbol_rows cfg = map (seed_row cfg) (all_symbols cfg)"

definition seed_registry :: "settings \<Rightarrow> db \<Rightarrow> (string \<times> int) list res \<times> db" where
  "seed_registry cfg db = ensure_seeded (build_symbol_rows cfg) [] db"


section \<open>Provenance\<close>

datatype provenance = RealData | SyntheticData

definition synthetic_tag :: string where
  "synthetic_tag = ''synthetic_data''"

definition tags_by_base :: "db \<Rightarrow> (string \<times> string list) list" where
  "tags_by_base db = foldl (\<lambda>m e. alput (sy_base (se_row e)) (sy_tags (se_row e)) m) [] (list_all_symbols db)"

definition classify_dataset :: "string list \<Rightarrow> db \<Rightarrow> provenance" where
  "classify_dataset symbols db =
     (if list_ex (\<lambda>base. synthetic_tag \<in> set (get_or [] (map_of (tags_by_base db) base))) symbols
      then SyntheticData else RealData)"


section \<open>Registered rows\<close>

definition row_of :: "string \<Rightarrow> db \<Rightarrow> symbol_row option" where
  "row_of base db = map_option se_row (find (has_base base) (db_symbols db))"

text \<open>Every registered base is the display name of its pair.\<close>

definition bases_normal :: "db \<Rightarrow> bool" where
  "bases_normal db \<longleftrightarrow> (\<forall>e \<in> set (db_symbols db). sy_base (se_row e) = normalize_symbol (sy_symbol (se_row e)))"

definition row_ok :: "symbol_row \<Rightarrow> bool" where
  "row_ok row \<longleftrightarrow> int16 (sy_tier row) \<and> symbol_check row \<and> sy_base row = normalize_symbol (sy_symbol row)"

lemma find_map_entries:
  "find (has_base b) (map (\<lambda>e. if has_base (sy_base row) e then e\<lparr>se_row := row\<rparr> else e) es) =
    map_option (\<lambda>e. if has_base (sy_base row) e then e\<lparr>se_row := row\<rparr> else e) (find (has_base b) es)"
  by (induction es) (auto simp: has_base_def)

lemma find_append: "find P (xs @ ys) = (case find P xs of None \<Rightarrow> find P ys | Some x \<Rightarrow> Some x)"
  by (induction xs) auto

lemma find_member: "find P xs = Some x \<Longrightarrow> x \<in> set xs \<and> P x"
  by (induction xs) (auto split: if_splits)

lemma find_has_base: "find (has_base b) es = Some e \<Longrightarrow> has_base b e"
  by (auto simp: find_Some_iff)

lemma has_base_unique: "has_base b e \<Longrightarrow> has_base b' e \<Longrightarrow> b = b'"
  by (simp add: has_base_def)

lemma upsert_symbol_succeeds:
  assumes "bases_normal db" "row_ok row"
  defines "out \<equiv> upsert_symbol row db"
  shows "\<exists>sid. fst out = Inr sid \<and> get_id (sy_base row) (snd out) = Some sid \<and>
    pred_option (\<lambda>i. i = sid) (get_id (sy_base row) db) \<and> row_of (sy_base row) (snd out) = Some row \<and>
    (\<forall>b. b \<noteq> sy_base row \<longrightarrow> get_id b (snd out) = get_id b db \<and> row_of b (snd out) = row_of b db) \<and>
    bases_normal (snd out)"
proof -
  have noclash: "\<not> list_ex (\<lambda>e. sy_symbol (se_row e) = sy_symbol row \<and> \<not> has_base (sy_base row) e) (db_symbols db)"
    using assms(1,2) by (auto simp: list_ex_iff has_base_def bases_normal_def row_ok_def)
  have ok: "int16 (sy_tier row)" "symbol_check row" "sy_base row = normalize_symbol (sy_symbol row)"
    using assms(2) by (auto simp: row_ok_def)
  show ?thesis
  proof (cases "find (has_base (sy_base row)) (db_symbols db)")
    case None
    then show ?thesis using noclash ok assms(1)
      by (auto simp: out_def upsert_symbol_def get_id_def row_of_def bases_normal_def find_append has_base_def Let_def
          split: option.split)
  next
    case (Some old)
    have "bases_normal (db\<lparr>db_symbols := map (\<lambda>e. if has_base (sy_base row) e then e\<lparr>se_row := row\<rparr> else e) (db_symbols db)\<rparr>)"
      using assms(1) ok(3) by (auto simp: bases_normal_def)
    moreover have up: "out = (Inr (se_id old), db\<lparr>db_next_symbol := db_next_symbol db + 1, db_symbols :=
        map (\<lambda>e. if has_base (sy_base row) e then e\<lparr>se_row := row\<rparr> else e) (db_symbols db)\<rparr>)"
      using Some noclash ok by (simp add: out_def upsert_symbol_def Let_def)
    moreover have "get_id b (snd out) = get_id b db" for b
      by (cases "find (has_base b) (db_symbols db)") (simp_all add: up get_id_def find_map_entries)
    moreover have "row_of b (snd out) = row_of b db" if "b \<noteq> sy_base row" for b
      using that by (cases "find (has_base b) (db_symbols db)")
        (auto simp: up row_of_def find_map_entries dest!: find_has_base dest: has_base_unique)
    moreover have "row_of (sy_base row) (snd out) = Some row"
      using find_has_base [OF Some] by (simp add: up row_of_def find_map_entries Some)
    moreover have "get_id (sy_base row) db = Some (se_id old)" using Some by (simp add: get_id_def)
    ultimately show ?thesis by (simp add: bases_normal_def)
  qed
qed

lemma ensure_seeded_succeeds:
  assumes "bases_normal db" "\<forall>row \<in> set rows. row_ok row" "\<forall>(b, i) \<in> set out. get_id b db = Some i"
  shows "\<exists>ids. fst (ensure_seeded rows out db) = Inr ids \<and> bases_normal (snd (ensure_seeded rows out db)) \<and>
    (\<forall>(b, i) \<in> set ids. get_id b (snd (ensure_seeded rows out db)) = Some i) \<and>
    set (map fst ids) = set (map fst out) \<union> sy_base ` set rows \<and>
    (\<forall>b. pred_option (\<lambda>i. get_id b (snd (ensure_seeded rows out db)) = Some i) (get_id b db)) \<and>
    (\<forall>b \<in> sy_base ` set rows. \<exists>row \<in> set rows. row_of b (snd (ensure_seeded rows out db)) = Some row) \<and>
    (\<forall>b. b \<notin> sy_base ` set rows \<longrightarrow> row_of b (snd (ensure_seeded rows out db)) = row_of b db)"
  using assms
proof (induction rows arbitrary: out db)
  case Nil
  then show ?case by (auto simp: pred_option_def)
next
  case (Cons row rows)
  obtain sid db1 where up: "upsert_symbol row db = (Inr sid, db1)" "get_id (sy_base row) db1 = Some sid"
    "pred_option (\<lambda>i. i = sid) (get_id (sy_base row) db)" "row_of (sy_base row) db1 = Some row"
    "\<forall>b. b \<noteq> sy_base row \<longrightarrow> get_id b db1 = get_id b db \<and> row_of b db1 = row_of b db" "bases_normal db1"
    using upsert_symbol_succeeds [OF Cons.prems(1), of row] Cons.prems(2) by (cases "upsert_symbol row db") auto
  let ?out = "alput (sy_base row) sid out"
  have keep: "pred_option (\<lambda>i. get_id b db1 = Some i) (get_id b db)" for b
    using up(2,3,5) by (cases "b = sy_base row") (auto simp: pred_option_def)
  have "\<forall>(b, i) \<in> set ?out. get_id b db1 = Some i"
    using alput_pairs [of "sy_base row" sid out] Cons.prems(3) up(2) keep by (fastforce simp: pred_option_def)
  from Cons.IH [OF up(6) _ this] Cons.prems(2) obtain ids where
    ih: "fst (ensure_seeded rows ?out db1) = Inr ids" "bases_normal (snd (ensure_seeded rows ?out db1))"
      "\<forall>(b, i) \<in> set ids. get_id b (snd (ensure_seeded rows ?out db1)) = Some i"
      "set (map fst ids) = set (map fst ?out) \<union> sy_base ` set rows"
      "\<forall>b. pred_option (\<lambda>i. get_id b (snd (ensure_seeded rows ?out db1)) = Some i) (get_id b db1)"
      "\<forall>b \<in> sy_base ` set rows. \<exists>row \<in> set rows. row_of b (snd (ensure_seeded rows ?out db1)) = Some row"
      "\<forall>b. b \<notin> sy_base ` set rows \<longrightarrow> row_of b (snd (ensure_seeded rows ?out db1)) = row_of b db1"
    by auto
  have "pred_option (\<lambda>i. get_id b (snd (ensure_seeded rows ?out db1)) = Some i) (get_id b db)" for b
    using keep [of b] ih(5) by (auto simp: pred_option_def)
  moreover have "set (map fst ids) = set (map fst out) \<union> sy_base ` set (row # rows)"
    using ih(4) set_keys_alput [of "sy_base row" sid out] by auto
  moreover have "\<exists>r \<in> set (row # rows). row_of b (snd (ensure_seeded rows ?out db1)) = Some r" if "b \<in> sy_base ` set (row # rows)" for b
    using that ih(6,7) up(4) by (cases "b \<in> sy_base ` set rows") auto
  moreover have "row_of b (snd (ensure_seeded rows ?out db1)) = row_of b db" if "b \<notin> sy_base ` set (row # rows)" for b
    using that ih(7) up(5) by auto
  ultimately show ?case using ih(1-3) up(1) by (auto simp del: set_map)
qed

lemma seed_row_ok: "row_ok (seed_row cfg pair)"
  by (auto simp: row_ok_def seed_row_def classify_symbol_def symbol_check_def int16_def normalize_upper Let_def split: prod.split)

lemma all_symbols_set: "set (all_symbols cfg) = set (core_symbols cfg) \<union> set (seed_symbols cfg)"
proof -
  have "set (map fst (foldl (\<lambda>ordered s. alput s () ordered) out xs)) = set (map fst out) \<union> set xs"
    for out :: "(string \<times> unit) list" and xs
    by (induction xs arbitrary: out) (auto simp del: set_map)
  then show ?thesis by (simp add: all_symbols_def del: set_map)
qed

lemma tags_by_base_row:
  assumes "distinct (map (sy_base \<circ> se_row) (db_symbols db))"
  shows "map_of (tags_by_base db) base = map_option sy_tags (row_of base db)"
proof -
  have fold: "map_of (foldl (\<lambda>m e. alput (sy_base (se_row e)) (sy_tags (se_row e)) m) m es) base =
      (case find (has_base base) (rev es) of None \<Rightarrow> map_of m base | Some e \<Rightarrow> Some (sy_tags (se_row e)))" for m es
    by (induction es rule: rev_induct) (auto simp: has_base_def)
  have unique: "find (has_base base) es = find (has_base base) es'"
    if "set es = set (db_symbols db)" "set es' = set (db_symbols db)" for es es'
  proof -
    have one: "e = e'" if "e \<in> set (db_symbols db)" "e' \<in> set (db_symbols db)" "has_base base e" "has_base base e'" for e e'
      using assms that by (auto simp: distinct_map inj_on_def has_base_def)
    show ?thesis
    proof (cases "find (has_base base) es")
      case None
      then have "\<forall>e \<in> set es. \<not> has_base base e" by (auto simp: find_None_iff)
      then have "\<forall>e \<in> set es'. \<not> has_base base e" using that by simp
      then have "find (has_base base) es' = None" by (auto simp: find_None_iff)
      then show ?thesis using None by simp
    next
      case (Some e)
      note e = find_member [OF Some]
      then have "find (has_base base) es' \<noteq> None" using that by (auto simp: find_None_iff)
      then obtain e' where e': "find (has_base base) es' = Some e'" by blast
      then have "e' = e" using one [of e' e] e find_member [OF e'] that by blast
      then show ?thesis using Some e' by simp
    qed
  qed
  have "find (has_base base) (rev (list_all_symbols db)) = find (has_base base) (db_symbols db)"
    by (rule unique) (simp_all add: list_all_symbols_def)
  then show ?thesis by (simp add: tags_by_base_def fold row_of_def split: option.split)
qed

lemma seeding_facts:
  fixes cfg :: settings
  assumes "bases_normal db"
  defines "out \<equiv> seed_registry cfg db"
  shows "\<exists>ids. fst out = Inr ids \<and> bases_normal (snd out) \<and> (\<forall>(b, i) \<in> set ids. get_id b (snd out) = Some i) \<and>
    set (map fst ids) = normalize_symbol ` (set (core_symbols cfg) \<union> set (seed_symbols cfg)) \<and>
    (\<forall>b. get_id b db \<noteq> None \<longrightarrow> get_id b (snd out) = get_id b db) \<and>
    (\<forall>b \<in> normalize_symbol ` (set (core_symbols cfg) \<union> set (seed_symbols cfg)).
       \<exists>pair. row_of b (snd out) = Some (seed_row cfg pair))"
proof -
  have rows: "\<forall>row \<in> set (build_symbol_rows cfg). row_ok row" by (auto simp: build_symbol_rows_def seed_row_ok)
  have "sy_base (seed_row cfg pair) = normalize_symbol pair" for pair
    by (simp add: seed_row_def Let_def split: prod.split)
  then have bases: "sy_base ` set (build_symbol_rows cfg) = normalize_symbol ` (set (core_symbols cfg) \<union> set (seed_symbols cfg))"
    by (simp add: build_symbol_rows_def all_symbols_set image_image)
  have "\<exists>pair. row = seed_row cfg pair" if "row \<in> set (build_symbol_rows cfg)" for row
    using that by (auto simp: build_symbol_rows_def)
  note row = this
  obtain ids where s: "fst out = Inr ids" "bases_normal (snd out)" "\<forall>(b, i) \<in> set ids. get_id b (snd out) = Some i"
    "set (map fst ids) = set (map fst []) \<union> sy_base ` set (build_symbol_rows cfg)"
    "\<forall>b. pred_option (\<lambda>i. get_id b (snd out) = Some i) (get_id b db)"
    "\<forall>b \<in> sy_base ` set (build_symbol_rows cfg). \<exists>row \<in> set (build_symbol_rows cfg). row_of b (snd out) = Some row"
    using ensure_seeded_succeeds [OF assms(1) rows, of "[]"] unfolding out_def seed_registry_def by auto
  have "get_id b (snd out) = get_id b db" if "get_id b db \<noteq> None" for b
    using s(5) that by (cases "get_id b db") (auto simp: pred_option_def)
  moreover have "\<exists>pair. row_of b (snd out) = Some (seed_row cfg pair)" if "b \<in> sy_base ` set (build_symbol_rows cfg)" for b
    using s(6) row that by metis
  ultimately show ?thesis using s(1-4) bases by (intro exI [of _ ids]) simp
qed

text \<open>
  C38: seeding never fails and never renumbers. On a registry whose bases are the display names of their
  pairs, seeding the configured symbols succeeds whatever is stored; the ids it returns cover exactly the
  configured display symbols and are the registry's; symbols already registered keep their id; and the
  registry's bases remain the display names of their pairs, so seeding again succeeds too.
\<close>

theorem seeding_registers_every_symbol:
  assumes "bases_normal db"
  shows "case seed_registry cfg db of (r, db') \<Rightarrow>
    (\<exists>ids. r = Inr ids \<and> set (map fst ids) = normalize_symbol ` (set (core_symbols cfg) \<union> set (seed_symbols cfg)) \<and>
      (\<forall>(b, i) \<in> set ids. get_id b db' = Some i)) \<and>
    (\<forall>b. get_id b db \<noteq> None \<longrightarrow> get_id b db' = get_id b db) \<and> bases_normal db'"
  using seeding_facts [OF assms, of cfg] by (auto split: prod.split)

theorem seeding_registers_every_symbol_witness:
  "case seed_registry default_settings (db_new 0) of (r, db') \<Rightarrow>
    (\<exists>ids. r = Inr ids \<and> set (map fst ids) = {''BTC'', ''ETH'', ''SOL''} \<and> (\<forall>(b, i) \<in> set ids. get_id b db' = Some i)) \<and>
    bases_normal db'"
proof -
  have n: "normalize_symbol ''BTCUSDT'' = ''BTC''" "normalize_symbol ''ETHUSDT'' = ''ETH''" "normalize_symbol ''SOLUSDT'' = ''SOL''"
    by code_simp+
  have "core_symbols default_settings = [''BTCUSDT'', ''ETHUSDT'', ''SOLUSDT'']" "seed_symbols default_settings = []"
    by (simp_all add: default_settings_def)
  then show ?thesis
    using seeding_registers_every_symbol [of "db_new 0" default_settings] n
    by (simp add: bases_normal_def db_new_def split_beta)
qed

text \<open>
  Seeding erases provenance. Starting the ingest or analytics runner seeds the registry, which replaces
  the tags of every configured symbol by its class: whatever was tagged before, the dataset of any
  configured symbols is classified as real afterwards.
\<close>

lemma seeding_clears_provenance:
  assumes "written db" "bases_normal db"
    "set symbols \<subseteq> normalize_symbol ` (set (core_symbols cfg) \<union> set (seed_symbols cfg))"
  shows "classify_dataset symbols (snd (seed_registry cfg db)) = RealData"
proof -
  let ?db = "snd (seed_registry cfg db)"
  have "symbols_ok ?db"
  proof -
    have "symbols_ok (snd (ensure_seeded rows out db))" if "symbols_ok db" for rows out db
      using that
    proof (induction rows arbitrary: out db)
      case (Cons row rows)
      then show ?case using upsert_symbol_symbols_ok [of db row] by (auto simp: split_beta attempt_def split: sum.split)
    qed simp
    then show ?thesis using written_ok [OF assms(1)] by (simp add: seed_registry_def db_ok_def)
  qed
  then have d: "distinct (map (sy_base \<circ> se_row) (db_symbols ?db))" by (simp add: symbols_ok_def)
  have "synthetic_tag \<notin> set (sy_tags (seed_row cfg pair))" for pair
    by (auto simp: seed_row_def classify_symbol_def synthetic_tag_def Let_def split: prod.split if_splits)
  note clean = this
  have "synthetic_tag \<notin> set (get_or [] (map_of (tags_by_base ?db) base))" if base: "base \<in> set symbols" for base
  proof -
    have "base \<in> normalize_symbol ` (set (core_symbols cfg) \<union> set (seed_symbols cfg))" using base assms(3) by blast
    then obtain pair where "row_of base ?db = Some (seed_row cfg pair)" using seeding_facts [OF assms(2), of cfg] by blast
    then show ?thesis using clean by (simp add: tags_by_base_row [OF d])
  qed
  then show ?thesis by (auto simp: classify_dataset_def list_ex_iff)
qed

definition tagged_registry :: db where
  "tagged_registry = snd (upsert_symbol \<lparr>sy_symbol = ''BTCUSDT'', sy_base = ''BTC'', sy_quote = ''USDT'',
     sy_klass = ''core'', sy_tier = 0, sy_status = ''trading'', sy_tags = [''core'', ''synthetic_data'']\<rparr> (db_new 0))"

lemma seeding_clears_provenance_witness:
  "classify_dataset [''BTC''] tagged_registry = SyntheticData \<and>
   classify_dataset [''BTC''] (snd (seed_registry default_settings tagged_registry)) = RealData"
proof
  have n: "normalize_symbol ''BTCUSDT'' = ''BTC''" by code_simp
  have t: "written tagged_registry" unfolding tagged_registry_def by (intro written.intros)
  have s: "db_symbols tagged_registry = [\<lparr>se_id = 1, se_row = \<lparr>sy_symbol = ''BTCUSDT'', sy_base = ''BTC'', sy_quote = ''USDT'',
      sy_klass = ''core'', sy_tier = 0, sy_status = ''trading'', sy_tags = [''core'', ''synthetic_data'']\<rparr>,
      se_rank = None, se_metrics = None, se_first_seen = 0, se_last_synced = None\<rparr>]"
    by (simp add: tagged_registry_def upsert_symbol_def db_new_def int16_def symbol_check_def Let_def)
  show "classify_dataset [''BTC''] tagged_registry = SyntheticData"
    by (simp add: classify_dataset_def tags_by_base_def list_all_symbols_def s synthetic_tag_def)
  have "bases_normal tagged_registry" by (simp add: bases_normal_def s n)
  then show "classify_dataset [''BTC''] (snd (seed_registry default_settings tagged_registry)) = RealData"
  proof (rule seeding_clears_provenance [OF t])
    have "core_symbols default_settings = [''BTCUSDT'', ''ETHUSDT'', ''SOLUSDT'']" by (simp add: default_settings_def)
    then show "set [''BTC''] \<subseteq> normalize_symbol ` (set (core_symbols default_settings) \<union> set (seed_symbols default_settings))"
      using n by simp
  qed
qed

end
