(* ===== verification/Ranking.thy ===== *)
theory Ranking
  imports Payloads "HOL-Library.Multiset"
begin

text \<open>
  \<^verbatim>\<open>src/orvixa/symbols/ranking.py\<close> and \<^verbatim>\<open>src/orvixa/symbols/watchlist.py\<close>: the composite score and the
  descending stable sorts. Python's sort compares with \<open><\<close> only and keeps the order of equal keys,
  also with \<^verbatim>\<open>reverse=True\<close>; on keys without NaN its result is the one below.
\<close>

section \<open>Stable descending sort\<close>

fun insert_desc :: "('a \<Rightarrow> pyfloat) \<Rightarrow> 'a \<Rightarrow> 'a list \<Rightarrow> 'a list" where
  "insert_desc key x [] = [x]"
| "insert_desc key x (y # ys) = (if key x < key y then y # insert_desc key x ys else x # y # ys)"

definition sort_desc :: "('a \<Rightarrow> pyfloat) \<Rightarrow> 'a list \<Rightarrow> 'a list" where
  "sort_desc key xs = foldr (insert_desc key) xs []"

lemma mset_insert_desc [simp]: "mset (insert_desc key x xs) = add_mset x (mset xs)"
  by (induction xs) auto

lemma mset_sort_desc [simp]: "mset (sort_desc key xs) = mset xs"
  by (induction xs) (auto simp: sort_desc_def)

lemma set_sort_desc [simp]: "set (sort_desc key xs) = set xs"
  by (metis mset_sort_desc set_mset_mset)

lemma length_sort_desc [simp]: "length (sort_desc key xs) = length xs"
  by (metis mset_sort_desc size_mset)

lemma sorted_insert_desc:
  assumes "sorted_wrt (\<lambda>a b. key b \<le> key a) xs" "\<forall>y \<in> set (x # xs). key y \<noteq> NaN"
  shows "sorted_wrt (\<lambda>a b. key b \<le> key a) (insert_desc key x xs)"
  using assms
proof (induction xs)
  case (Cons y ys)
  have set: "set (insert_desc key x ys) = insert x (set ys)" by (metis mset_insert_desc set_mset_add_mset_insert set_mset_mset)
  show ?case
  proof (cases "key x < key y")
    case True
    then show ?thesis using Cons set by (auto simp: pf_less_le)
  next
    case False
    then have "key y \<le> key x" using Cons.prems(2) pf_not_less by auto
    then show ?thesis using Cons.prems False pf_trans by fastforce
  qed
qed simp

lemma sorted_sort_desc:
  "\<forall>x \<in> set xs. key x \<noteq> NaN \<Longrightarrow> sorted_wrt (\<lambda>a b. key b \<le> key a) (sort_desc key xs)"
proof (induction xs)
  case (Cons x xs)
  have "set (foldr (insert_desc key) xs []) = set xs" using set_sort_desc [of key xs] by (simp add: sort_desc_def)
  then show ?case using Cons sorted_insert_desc [of key "sort_desc key xs" x] by (simp add: sort_desc_def)
qed (simp add: sort_desc_def)

lemma stable_insert_desc:
  "filter (\<lambda>y. key y = k) (insert_desc key x xs) = filter (\<lambda>y. key y = k) (x # xs)"
  by (induction xs) auto

lemma stable_sort_desc: "filter (\<lambda>y. key y = k) (sort_desc key xs) = filter (\<lambda>y. key y = k) xs"
  by (induction xs) (auto simp: sort_desc_def stable_insert_desc)


section \<open>Scores\<close>

definition activity_saturation :: pyfloat where
  "activity_saturation = Fin 100000"

definition volatility_saturation :: pyfloat where
  "volatility_saturation = Fin 100"

definition compute_score :: "ticker_stats \<Rightarrow> pyfloat res" where
  "compute_score s =
     rbind (i2f (st_count s)) (\<lambda>count.
     rbind (fdiv count activity_saturation) (\<lambda>activity.
     rbind (fdiv \<bar>st_price_change_pct s\<bar> volatility_saturation) (\<lambda>volatility.
     let activity_factor = Fin 1 + pymin activity (Fin 1) * to_dbl (1 / 10);
         volatility_factor = Fin 1 + pymin volatility (to_dbl (1 / 2))
     in Inr (st_quote_volume s * activity_factor * volatility_factor))))"

definition rank_by_score :: "ticker_stats list \<Rightarrow> (ticker_stats \<times> pyfloat) list res" where
  "rank_by_score stats =
     rbind (rmap (\<lambda>s. rbind (compute_score s) (\<lambda>score. Inr (s, score))) stats) (\<lambda>scored.
     Inr (sort_desc snd scored))"


section \<open>The watchlist\<close>

record ranked_symbol =
  rk_base :: string
  rk_pair :: string
  rk_tier :: int
  rk_klass :: string
  rk_status :: string
  rk_rank :: "int option"
  rk_quote_volume :: pyfloat
  rk_price_change_pct :: pyfloat
  rk_last_price :: pyfloat
  rk_tags :: "string list"

definition watchlist_tiers :: "int list" where
  "watchlist_tiers = [0, 1]"

definition build_watchlist :: "ranked_symbol list \<Rightarrow> ranked_symbol list" where
  "build_watchlist symbols = filter (\<lambda>s. rk_tier s \<in> set watchlist_tiers) symbols"

definition sort_key_of :: "string \<Rightarrow> (ranked_symbol \<Rightarrow> pyfloat) option" where
  "sort_key_of sort_by =
     (if sort_by = ''volume'' then Some rk_quote_volume
      else if sort_by = ''volatility'' then Some (\<lambda>r. \<bar>rk_price_change_pct r\<bar>)
      else if sort_by = ''change'' then Some rk_price_change_pct
      else None)"

text \<open>\<^verbatim>\<open>sorted(symbols, key=key, reverse=descending)\<close>: ascending is descending on the opposite keys.\<close>

definition sort_watchlist :: "string \<Rightarrow> bool \<Rightarrow> ranked_symbol list \<Rightarrow> ranked_symbol list res" where
  "sort_watchlist sort_by descending symbols =
     (case sort_key_of sort_by of
        None \<Rightarrow> Inl ValueError
      | Some key \<Rightarrow> Inr (sort_desc (\<lambda>r. if descending then key r else - key r) symbols))"

lemma rmap_Inr_map: "rmap f xs = Inr ys \<Longrightarrow> list_all2 (\<lambda>x y. f x = Inr y) xs ys"
  by (induction xs arbitrary: ys) (auto simp: rbind_eq_Inr)

lemma rank_by_score_facts:
  assumes "rank_by_score stats = Inr ranked"
  shows "mset (map fst ranked) = mset stats" "\<forall>(s, score) \<in> set ranked. compute_score s = Inr score"
    "(\<forall>x \<in> set ranked. snd x \<noteq> NaN) \<Longrightarrow> sorted_wrt (\<lambda>a b. snd b \<le> snd a) ranked"
proof -
  obtain scored where s: "rmap (\<lambda>s. rbind (compute_score s) (\<lambda>score. Inr (s, score))) stats = Inr scored"
    "ranked = sort_desc snd scored"
    using assms by (auto simp: rank_by_score_def rbind_eq_Inr)
  have all2: "list_all2 (\<lambda>x y. fst y = x \<and> compute_score x = Inr (snd y)) stats scored"
    using rmap_Inr_map [OF s(1)] by (auto simp: rbind_eq_Inr elim: list_all2_mono)
  then have "map fst scored = stats" by (induction rule: list_all2_induct) auto
  then show "mset (map fst ranked) = mset stats" unfolding s(2) by (metis mset_map mset_sort_desc)
  have "\<forall>y \<in> set scored. compute_score (fst y) = Inr (snd y)"
    using all2 by (induction rule: list_all2_induct) auto
  then show "\<forall>(s, score) \<in> set ranked. compute_score s = Inr score" unfolding s(2) by auto
  show "(\<forall>x \<in> set ranked. snd x \<noteq> NaN) \<Longrightarrow> sorted_wrt (\<lambda>a b. snd b \<le> snd a) ranked"
    unfolding s(2) by (intro sorted_sort_desc) simp
qed

end
