(* ===== verification/Manager.thy ===== *)
theory Manager
  imports Ranking Registry "HOL-Library.List_Lexorder" "HOL-Library.Char_ord"
begin

text \<open>
  \<^verbatim>\<open>src/orvixa/symbols/manager.py\<close>: the state of the symbol manager and one definition per method.
  \<^verbatim>\<open>_states\<close> is a dictionary in insertion order. The repositories and the feed are a record of
  functions over a state \<open>'w\<close> of their own, each of which may raise; an optional one is an option.
\<close>

section \<open>State\<close>

definition tier_core :: int where "tier_core = 0"
definition tier_watch :: int where "tier_watch = 1"
definition tier_rest :: int where "tier_rest = 2"

definition active_statuses :: "string list" where
  "active_statuses = [''TRADING'']"

record symbol_state =
  ms_base :: string
  ms_pair :: string
  ms_tier :: int
  ms_klass :: string
  ms_status :: string
  ms_tags :: "string set"
  ms_rank :: "int option"
  ms_quote_volume :: pyfloat
  ms_price_change_pct :: pyfloat
  ms_last_price :: pyfloat
  ms_count :: int
  ms_prev_quote_volume :: "pyfloat option"
  ms_prev_count :: "int option"
  ms_calm_cycles :: int

definition symbol_state_new :: "string \<Rightarrow> string \<Rightarrow> symbol_state" where
  "symbol_state_new base pair =
     \<lparr>ms_base = base, ms_pair = pair, ms_tier = tier_rest, ms_klass = ''alt'', ms_status = ''trading'', ms_tags = {},
      ms_rank = None, ms_quote_volume = Fin 0, ms_price_change_pct = Fin 0, ms_last_price = Fin 0, ms_count = 0,
      ms_prev_quote_volume = None, ms_prev_count = None, ms_calm_cycles = 0\<rparr>"

record tier_change =
  ch_base :: string
  ch_pair :: string
  ch_from_tier :: int
  ch_to_tier :: int
  ch_reason :: string

type_synonym states = "(string \<times> symbol_state) list"

record manager =
  mg_settings :: settings
  mg_core :: "string set"
  mg_meme :: "string set"
  mg_states :: states
  mg_spike_promoted :: "string set"
  mg_subscribed :: "string set"
  mg_breadth :: breadth_engine
  mg_latest_breadth :: "breadth_snapshot option"
  mg_refresh_count :: int
  mg_last_tier_changes :: "tier_change list"

definition manager_new :: "settings \<Rightarrow> manager" where
  "manager_new cfg =
     \<lparr>mg_settings = cfg, mg_core = set (map normalize_symbol (core_symbols cfg)),
      mg_meme = set (map normalize_symbol (meme_symbols cfg)), mg_states = [], mg_spike_promoted = {},
      mg_subscribed = set (map upper (all_symbols cfg)), mg_breadth = breadth_engine_new (breadth_trend_window cfg),
      mg_latest_breadth = None, mg_refresh_count = 0, mg_last_tier_changes = []\<rparr>"

text \<open>One registry row as \<^verbatim>\<open>_load_existing\<close> reads it.\<close>

definition load_row :: "symbol_row \<times> int option \<Rightarrow> manager \<Rightarrow> manager" where
  "load_row entry m =
     (case entry of (row, rank) \<Rightarrow>
      let base = sy_base row; tags = set (sy_tags row);
          state = (symbol_state_new base (sy_symbol row))
            \<lparr>ms_tier := sy_tier row, ms_klass := sy_klass row, ms_status := sy_status row, ms_tags := tags, ms_rank := rank\<rparr>
      in m\<lparr>mg_states := alput base state (mg_states m),
           mg_spike_promoted := (if ''spike'' \<in> tags then insert base (mg_spike_promoted m) else mg_spike_promoted m)\<rparr>)"

definition load_existing :: "(symbol_row \<times> int option) list \<Rightarrow> manager \<Rightarrow> manager" where
  "load_existing rows m = fold load_row rows m"

definition manager_handle_snapshot :: "ticker_row list \<Rightarrow> manager \<Rightarrow> unit res \<times> manager" where
  "manager_handle_snapshot rows m =
     (let (r, b) = breadth_update rows (mg_breadth m); m1 = m\<lparr>mg_breadth := b\<rparr>
      in attempt r m1 (\<lambda>snapshot. (Inr (), m1\<lparr>mg_latest_breadth := Some snapshot\<rparr>)))"

definition ranked_of :: "symbol_state \<Rightarrow> ranked_symbol" where
  "ranked_of s =
     \<lparr>rk_base = ms_base s, rk_pair = ms_pair s, rk_tier = ms_tier s, rk_klass = ms_klass s, rk_status = ms_status s,
      rk_rank = ms_rank s, rk_quote_volume = ms_quote_volume s, rk_price_change_pct = ms_price_change_pct s,
      rk_last_price = ms_last_price s, rk_tags = sorted_list_of_set (ms_tags s)\<rparr>"

definition get_watchlist :: "string \<Rightarrow> manager \<Rightarrow> ranked_symbol list res" where
  "get_watchlist sort_by m =
     sort_watchlist sort_by True
       (build_watchlist (map ranked_of (filter (\<lambda>s. ms_status s = ''trading'') (map snd (mg_states m)))))"


section \<open>Ranking the universe\<close>

definition active_pairs :: "exchange_symbol list \<Rightarrow> (string \<times> exchange_symbol) list" where
  "active_pairs symbols =
     foldl (\<lambda>active es. if es_status es \<in> set active_statuses then alput (es_pair es) es active else active) [] symbols"

text \<open>\<^verbatim>\<open>xs[:n]\<close>: a negative bound counts from the end.\<close>

definition slice_to :: "int \<Rightarrow> 'a list \<Rightarrow> 'a list" where
  "slice_to n xs = (if 0 \<le> n then take (nat n) xs else take (length xs - nat (- n)) xs)"

definition rank_positions :: "(ticker_stats \<times> pyfloat) list \<Rightarrow> (string \<times> int) list" where
  "rank_positions ranked = foldl (\<lambda>ranks (i, s, score). alput (st_pair s) (i + 1) ranks) [] (zip (map int [0..<length ranked]) ranked)"

definition rank_universe ::
  "manager \<Rightarrow> (string \<times> exchange_symbol) list \<Rightarrow> (string \<times> ticker_stats) list \<Rightarrow> ((string \<times> int) list \<times> string set) res" where
  "rank_universe m active tickers =
     rbind (rank_by_score (List.map_filter (\<lambda>(pair, es). map_of tickers pair) active)) (\<lambda>ranked.
     rbind (rank_by_score (List.map_filter (\<lambda>(pair, es).
         if es_base es \<in> mg_core m \<or> es_base es \<in> mg_meme m then None else map_of tickers pair) active)) (\<lambda>alt_ranked.
     Inr (rank_positions ranked, set (map (st_pair \<circ> fst) (slice_to (tier1_size (mg_settings m)) alt_ranked)))))"


section \<open>Listings\<close>

fun mark_delistings :: "(string \<times> exchange_symbol) list \<Rightarrow> states \<Rightarrow> states \<times> tier_change list" where
  "mark_delistings active [] = ([], [])"
| "mark_delistings active ((base, s) # states) =
     (let (states', changes) = mark_delistings active states in
      if map_of active (ms_pair s) = None \<and> ms_status s \<noteq> ''frozen'' then
        ((base, s\<lparr>ms_status := ''frozen''\<rparr>) # states',
         \<lparr>ch_base = base, ch_pair = ms_pair s, ch_from_tier = ms_tier s, ch_to_tier = ms_tier s, ch_reason = ''delisted''\<rparr> # changes)
      else ((base, s) # states', changes))"

definition take_stats :: "ticker_stats option \<Rightarrow> symbol_state \<Rightarrow> symbol_state" where
  "take_stats stats s =
     (case stats of
        None \<Rightarrow> s
      | Some t \<Rightarrow> s\<lparr>ms_prev_quote_volume := Some (ms_quote_volume s), ms_prev_count := Some (ms_count s),
                   ms_quote_volume := st_quote_volume t, ms_price_change_pct := st_price_change_pct t,
                   ms_last_price := st_last_price t, ms_count := st_count t\<rparr>)"

definition sync_listing ::
  "(string \<times> ticker_stats) list \<Rightarrow> (string \<times> int) list \<Rightarrow> string \<times> exchange_symbol \<Rightarrow> states \<Rightarrow> states" where
  "sync_listing tickers ranks entry states =
     (case entry of (pair, es) \<Rightarrow>
      let base = es_base es;
          s = (case map_of states base of
                 None \<Rightarrow> symbol_state_new base pair
               | Some s \<Rightarrow> if ms_status s = ''frozen'' then s\<lparr>ms_status := ''trading''\<rparr> else s);
          s1 = take_stats (map_of tickers pair) (s\<lparr>ms_pair := pair\<rparr>)
      in alput base (s1\<lparr>ms_rank := map_of ranks pair\<rparr>) states)"

definition sync_listings ::
  "(string \<times> exchange_symbol) list \<Rightarrow> (string \<times> ticker_stats) list \<Rightarrow> (string \<times> int) list \<Rightarrow> states \<Rightarrow> states" where
  "sync_listings active tickers ranks states = fold (sync_listing tickers ranks) active states"


section \<open>Tiers\<close>

definition base_tier_of :: "manager \<Rightarrow> string set \<Rightarrow> string \<Rightarrow> symbol_state \<Rightarrow> int \<times> string" where
  "base_tier_of m top_n base s =
     (if base \<in> mg_core m then (tier_core, ''core'')
      else if base \<in> mg_meme m then (tier_watch, ''meme'')
      else if ms_pair s \<in> top_n then (tier_watch, ''alt'')
      else (tier_rest, ''alt''))"

text \<open>Comparing an integer with a float is exact.\<close>

fun int_ge :: "int \<Rightarrow> pyfloat \<Rightarrow> bool" where
  "int_ge n (Fin q) = (q \<le> of_int n)"
| "int_ge n NInf = True"
| "int_ge n _ = False"

definition is_spiking :: "settings \<Rightarrow> symbol_state \<Rightarrow> bool res" where
  "is_spiking cfg s =
     (let mult = promotion_volume_multiplier cfg;
          by_volume = (case ms_prev_quote_volume s of None \<Rightarrow> False | Some v \<Rightarrow> v > Fin 0 \<and> ms_quote_volume s \<ge> v * mult)
      in if by_volume then Inr True
         else rbind (case ms_prev_count s of
                 None \<Rightarrow> Inr False
               | Some n \<Rightarrow> if n > 0 then rbind (i2f n) (\<lambda>x. Inr (int_ge (ms_count s) (x * mult))) else Inr False)
           (\<lambda>by_count. Inr (by_count \<or> \<bar>ms_price_change_pct s\<bar> \<ge> promotion_volatility_pct cfg)))"

text \<open>The new tier and class, the calm cycles of the state, and the set of spike-promoted bases.\<close>

definition apply_spike_logic ::
  "settings \<Rightarrow> string \<Rightarrow> symbol_state \<Rightarrow> int \<Rightarrow> string \<Rightarrow> string set \<Rightarrow> (int \<times> string \<times> symbol_state \<times> string set) res" where
  "apply_spike_logic cfg base s base_tier klass spiked =
     (if base_tier \<noteq> tier_rest then Inr (base_tier, klass, s, spiked - {base})
      else rbind (is_spiking cfg s) (\<lambda>spiking.
        if spiking then Inr (tier_watch, ''alt'', s\<lparr>ms_calm_cycles := 0\<rparr>, insert base spiked)
        else if base \<in> spiked then
          (let calm = ms_calm_cycles s + 1 in
           if calm \<ge> demotion_grace_cycles cfg
           then Inr (tier_rest, klass, s\<lparr>ms_calm_cycles := 0\<rparr>, spiked - {base})
           else Inr (tier_watch, ''alt'', s\<lparr>ms_calm_cycles := calm\<rparr>, spiked))
        else Inr (tier_rest, klass, s, spiked)))"

definition change_reason :: "int \<Rightarrow> int \<Rightarrow> int \<Rightarrow> string" where
  "change_reason base_tier old_tier tier =
     (if tier = tier_watch \<and> base_tier = tier_rest then ''spike''
      else if old_tier = tier_watch \<and> tier = tier_rest then ''demote_spike''
      else ''ranking'')"

definition assign_tier ::
  "manager \<Rightarrow> string set \<Rightarrow> string \<Rightarrow> symbol_state \<Rightarrow> string set \<Rightarrow> (symbol_state \<times> string set \<times> tier_change list) res" where
  "assign_tier m top_n base s spiked =
     (if ms_status s = ''frozen'' then Inr (s, spiked, [])
      else let (base_tier, base_klass) = base_tier_of m top_n base s in
        rbind (apply_spike_logic (mg_settings m) base s base_tier base_klass spiked) (\<lambda>(tier, klass, s1, spiked1).
        Inr (s1\<lparr>ms_tags := insert klass (if base \<in> spiked1 \<and> base_tier = tier_rest then {''spike''} else {}),
                ms_tier := tier, ms_klass := klass\<rparr>,
             spiked1,
             if tier \<noteq> ms_tier s \<or> klass \<noteq> ms_klass s
             then [\<lparr>ch_base = base, ch_pair = ms_pair s, ch_from_tier = ms_tier s, ch_to_tier = tier,
                    ch_reason = change_reason base_tier (ms_tier s) tier\<rparr>]
             else [])))"

text \<open>The loop stops where an exception is raised, with the states before it already updated.\<close>

fun assign_tiers ::
  "manager \<Rightarrow> string set \<Rightarrow> states \<Rightarrow> string set \<Rightarrow> tier_change list res \<times> states \<times> string set" where
  "assign_tiers m top_n [] spiked = (Inr [], [], spiked)"
| "assign_tiers m top_n ((base, s) # states) spiked =
     (case assign_tier m top_n base s spiked of
        Inl e \<Rightarrow> (Inl e, (base, s) # states, spiked)
      | Inr (s1, spiked1, changes) \<Rightarrow>
          (case assign_tiers m top_n states spiked1 of
             (r, states', spiked2) \<Rightarrow> (rbind r (\<lambda>more_changes. Inr (changes @ more_changes)), (base, s1) # states', spiked2)))"


section \<open>Persistence\<close>

record 'w services =
  sv_now :: "'w \<Rightarrow> datetime"
  sv_upsert :: "symbol_row \<Rightarrow> 'w \<Rightarrow> int res \<times> 'w"
  sv_update_ranking :: "string \<Rightarrow> int option \<Rightarrow> ranking_metrics \<Rightarrow> 'w \<Rightarrow> unit res \<times> 'w"
  sv_get_id :: "string \<Rightarrow> 'w \<Rightarrow> int option res \<times> 'w"
  sv_tier_change :: "(tier_change_row \<Rightarrow> 'w \<Rightarrow> int res \<times> 'w) option"
  sv_metrics :: "(metrics_row list \<Rightarrow> 'w \<Rightarrow> int res \<times> 'w) option"
  sv_breadth :: "(breadth_row \<Rightarrow> 'w \<Rightarrow> unit res \<times> 'w) option"
  sv_subscribe :: "string set \<Rightarrow> 'w \<Rightarrow> unit res \<times> 'w"
  sv_unsubscribe :: "string set \<Rightarrow> 'w \<Rightarrow> unit res \<times> 'w"
  sv_has_feed :: bool

definition state_row :: "symbol_state \<Rightarrow> symbol_row" where
  "state_row s =
     \<lparr>sy_symbol = ms_pair s, sy_base = ms_base s, sy_quote = ''USDT'', sy_klass = ms_klass s, sy_tier = ms_tier s,
      sy_status = ms_status s, sy_tags = sorted_list_of_set (ms_tags s)\<rparr>"

definition state_metrics :: "symbol_state \<Rightarrow> ranking_metrics" where
  "state_metrics s =
     \<lparr>rm_quote_volume = ms_quote_volume s, rm_price_change_pct = ms_price_change_pct s,
      rm_last_price = ms_last_price s, rm_count = ms_count s\<rparr>"

definition persist :: "'w services \<Rightarrow> symbol_state \<Rightarrow> 'w \<Rightarrow> unit res \<times> 'w" where
  "persist sv s w =
     (let (r, w1) = sv_upsert sv (state_row s) w
      in attempt r w1 (\<lambda>_. sv_update_ranking sv (ms_base s) (ms_rank s) (state_metrics s) w1))"

fun persist_all :: "'w services \<Rightarrow> symbol_state list \<Rightarrow> 'w \<Rightarrow> unit res \<times> 'w" where
  "persist_all sv [] w = (Inr (), w)"
| "persist_all sv (s # ss) w = (let (r, w1) = persist sv s w in attempt r w1 (\<lambda>_. persist_all sv ss w1))"

fun log_changes :: "'w services \<Rightarrow> (tier_change_row \<Rightarrow> 'w \<Rightarrow> int res \<times> 'w) \<Rightarrow> datetime \<Rightarrow> tier_change list \<Rightarrow> 'w
    \<Rightarrow> unit res \<times> 'w" where
  "log_changes sv put ts [] w = (Inr (), w)"
| "log_changes sv put ts (c # cs) w =
     (let (r, w1) = sv_get_id sv (ch_base c) w
      in attempt r w1 (\<lambda>found. case found of
           None \<Rightarrow> log_changes sv put ts cs w1
         | Some sid \<Rightarrow>
             (let (r2, w2) = put \<lparr>tc_symbol_id = sid, tc_ts = ts, tc_from_tier = ch_from_tier c, tc_to_tier = ch_to_tier c,
                   tc_reason = ch_reason c\<rparr> w1
              in attempt r2 w2 (\<lambda>_. log_changes sv put ts cs w2))))"

definition persist_tier_changes :: "'w services \<Rightarrow> tier_change list \<Rightarrow> 'w \<Rightarrow> unit res \<times> 'w" where
  "persist_tier_changes sv changes w =
     (case sv_tier_change sv of
        None \<Rightarrow> (Inr (), w)
      | Some put \<Rightarrow> if changes = [] then (Inr (), w) else log_changes sv put (sv_now sv w) changes w)"

fun metrics_rows :: "'w services \<Rightarrow> datetime \<Rightarrow> symbol_state list \<Rightarrow> 'w \<Rightarrow> metrics_row list res \<times> 'w" where
  "metrics_rows sv ts [] w = (Inr [], w)"
| "metrics_rows sv ts (s # ss) w =
     (let (r, w1) = sv_get_id sv (ms_base s) w
      in attempt r w1 (\<lambda>found.
         let (rest, w2) = metrics_rows sv ts ss w1
         in attempt rest w2 (\<lambda>rows. (Inr (case found of
              None \<Rightarrow> rows
            | Some sid \<Rightarrow>
                \<lparr>mr_symbol_id = sid, mr_ts = ts, mr_tier = ms_tier s, mr_quote_volume_24h = ms_quote_volume s,
                 mr_price_change_pct_24h = ms_price_change_pct s, mr_trade_count_24h = ms_count s,
                 mr_last_price = ms_last_price s\<rparr> # rows), w2))))"

definition persist_metrics_snapshots :: "'w services \<Rightarrow> symbol_state list \<Rightarrow> 'w \<Rightarrow> unit res \<times> 'w" where
  "persist_metrics_snapshots sv ss w =
     (case sv_metrics sv of
        None \<Rightarrow> (Inr (), w)
      | Some put \<Rightarrow>
          (let (r, w1) = metrics_rows sv (sv_now sv w) ss w
           in attempt r w1 (\<lambda>rows. let (r2, w2) = put rows w1 in attempt r2 w2 (\<lambda>_. (Inr (), w2)))))"

text \<open>
  \<^verbatim>\<open>statistics.pstdev\<close>: the variance is computed exactly, its root is rounded once. A NaN or infinite
  value makes it raise (Python 3.11).
\<close>

fun fin_value :: "pyfloat \<Rightarrow> rat" where
  "fin_value (Fin q) = q"
| "fin_value _ = 0"

definition pstdev :: "pyfloat list \<Rightarrow> pyfloat res" where
  "pstdev xs =
     (if \<not> list_all is_fin xs then Inl AttributeError
      else let qs = map fin_value xs; n = of_nat (length qs); sx = sum_list qs; sxx = sum_list (map (\<lambda>q. q * q) qs)
        in Inr (to_dbl (sqrt_rat ((n * sxx - sx * sx) / n / n))))"

definition dispersion_of :: "symbol_state list \<Rightarrow> pyfloat res" where
  "dispersion_of ss = (if length ss > 1 then pstdev (map ms_price_change_pct ss) else Inr (Fin 0))"

definition dominance_of :: "states \<Rightarrow> pyfloat res" where
  "dominance_of states =
     (let total = fsum (map (ms_quote_volume \<circ> snd) states) in
      case map_of states ''BTC'' of
        Some btc \<Rightarrow> if total > Fin 0 then fdiv (ms_quote_volume btc) total else Inr (Fin 0)
      | None \<Rightarrow> Inr (Fin 0))"

definition persist_breadth_snapshot :: "'w services \<Rightarrow> manager \<Rightarrow> 'w \<Rightarrow> unit res \<times> 'w" where
  "persist_breadth_snapshot sv m w =
     (case (sv_breadth sv, mg_latest_breadth m) of
        (Some put, Some b) \<Rightarrow>
          attempt (dispersion_of (map snd (mg_states m))) w (\<lambda>dispersion.
          attempt (dominance_of (mg_states m)) w (\<lambda>dominance.
          put \<lparr>br_ts = sv_now sv w, br_total = bs_total b, br_advancers = bs_advancers b, br_decliners = bs_decliners b,
               br_unchanged = bs_unchanged b, br_ad_ratio = bs_ad_ratio b, br_pct_above_trend = bs_pct_above_trend b,
               br_new_highs = bs_new_highs b, br_new_lows = bs_new_lows b, br_price_change_dispersion = dispersion,
               br_btc_dominance = dominance\<rparr> w))
      | _ \<Rightarrow> (Inr (), w))"


section \<open>The refresh cycle\<close>

definition watchlist_pairs :: "states \<Rightarrow> string set" where
  "watchlist_pairs states =
     set (map ms_pair (filter (\<lambda>s. ms_tier s \<in> {tier_core, tier_watch} \<and> ms_status s = ''trading'') (map snd states)))"

definition sync_feed :: "'w services \<Rightarrow> manager \<times> 'w \<Rightarrow> unit res \<times> (manager \<times> 'w)" where
  "sync_feed sv s =
     (case s of (m, w) \<Rightarrow>
      let wanted = watchlist_pairs (mg_states m);
          added = wanted - mg_subscribed m;
          dropped = mg_subscribed m - wanted;
          (r1, w1) = (if added \<noteq> {} then sv_subscribe sv added w else (Inr (), w))
      in attempt r1 (m, w1) (\<lambda>_.
         let (r2, w2) = (if dropped \<noteq> {} then sv_unsubscribe sv dropped w1 else (Inr (), w1))
         in attempt r2 (m, w2) (\<lambda>_. (Inr (), (m\<lparr>mg_subscribed := wanted\<rparr>, w2)))))"

text \<open>The in-memory part of a cycle: rank, delist, list, tier.\<close>

definition retier ::
  "exchange_symbol list \<Rightarrow> (string \<times> ticker_stats) list \<Rightarrow> manager \<Rightarrow> tier_change list res \<times> manager" where
  "retier symbols tickers m =
     (let active = active_pairs symbols in
      attempt (rank_universe m active tickers) m (\<lambda>(ranks, top_n).
      let (delisted, changes1) = mark_delistings active (mg_states m);
          listed = sync_listings active tickers ranks delisted;
          (r, states, spiked) = assign_tiers m top_n listed (mg_spike_promoted m)
      in (rbind r (\<lambda>changes2. Inr (changes1 @ changes2)), m\<lparr>mg_states := states, mg_spike_promoted := spiked\<rparr>)))"

definition refresh_universe ::
  "'w services \<Rightarrow> exchange_symbol list res \<Rightarrow> (string \<times> ticker_stats) list res \<Rightarrow> manager \<times> 'w
    \<Rightarrow> tier_change list res \<times> (manager \<times> 'w)" where
  "refresh_universe sv exchange tickers s =
     (case s of (m, w) \<Rightarrow>
      attempt exchange (m, w) (\<lambda>symbols.
      attempt tickers (m, w) (\<lambda>stats.
      let (r, m1) = retier symbols stats m in
      attempt r (m1, w) (\<lambda>changes.
      let ss = map snd (mg_states m1); (r1, w1) = persist_all sv ss w in
      attempt r1 (m1, w1) (\<lambda>_.
      let (r2, w2) = persist_tier_changes sv changes w1 in
      attempt r2 (m1, w2) (\<lambda>_.
      let (r3, w3) = persist_metrics_snapshots sv ss w2 in
      attempt r3 (m1, w3) (\<lambda>_.
      let (r4, w4) = persist_breadth_snapshot sv m1 w3 in
      attempt r4 (m1, w4) (\<lambda>_.
      let m2 = m1\<lparr>mg_refresh_count := mg_refresh_count m1 + 1, mg_last_tier_changes := changes\<rparr>;
          (r5, s5) = (if sv_has_feed sv then sync_feed sv (m2, w4) else (Inr (), (m2, w4)))
      in attempt r5 s5 (\<lambda>_. (Inr changes, s5))))))))))"

end
