(* ===== verification/Tiering.thy ===== *)
theory Tiering
  imports Manager
begin

text \<open>
  What a refresh cycle of the symbol manager guarantees: ranks, tiers, the log of transitions, the
  grace period of spike promotions and the statuses.
\<close>

section \<open>Ranks\<close>

lemma rank_positions_distinct:
  assumes "distinct (map (st_pair \<circ> fst) ranked)"
  shows "rank_positions ranked = zip (map (st_pair \<circ> fst) ranked) (map (\<lambda>i. int i + 1) [0..<length ranked])"
  using assms
proof (induction ranked rule: rev_induct)
  case (snoc x xs)
  obtain s score where x: "x = (s, score)" by (cases x)
  have put: "alput k v m = m @ [(k, v)]" if "k \<notin> set (map fst m)" for k :: string and v :: int and m
    using that by (induction m) auto
  have keys: "map fst (zip (map (st_pair \<circ> fst) xs) (map (\<lambda>i. int i + 1) [0..<length xs])) = map (st_pair \<circ> fst) xs"
    by simp
  have "rank_positions (xs @ [x]) = alput (st_pair s) (int (length xs) + 1) (rank_positions xs)"
    by (simp add: rank_positions_def x)
  also have "\<dots> = rank_positions xs @ [(st_pair s, int (length xs) + 1)]"
    using snoc x by (intro put) (auto simp: keys)
  finally show ?case using snoc x by simp
qed (simp add: rank_positions_def)

lemma rank_positions_nth:
  assumes "distinct (map (st_pair \<circ> fst) ranked)" "i < length ranked"
  shows "map_of (rank_positions ranked) (st_pair (fst (ranked ! i))) = Some (int i + 1)"
proof -
  have "(st_pair (fst (ranked ! i)), int i + 1) \<in> set (rank_positions ranked)"
    using assms by (auto simp: rank_positions_distinct set_zip intro!: exI [of _ i])
  moreover have "distinct (map fst (rank_positions ranked))" using assms(1) by (simp add: rank_positions_distinct)
  ultimately show ?thesis by simp
qed

lemma filter_stats_pairs:
  assumes "distinct (map fst active)" "\<forall>(k, s) \<in> set tickers. st_pair s = k"
  shows "distinct (map st_pair (List.map_filter (\<lambda>(pair, es). map_of tickers pair) active)) \<and>
    st_pair ` set (List.map_filter (\<lambda>(pair, es). map_of tickers pair) active) \<subseteq> set (map fst active)"
  using assms(1)
proof (induction active)
  case (Cons a active)
  obtain pair es where a: "a = (pair, es)" by (cases a)
  have "st_pair s = pair" if "map_of tickers pair = Some s" for s
    using that assms(2) by (auto dest: map_of_SomeD)
  then show ?case using Cons a by (auto simp: List.map_filter_simps split: option.split)
qed (simp add: List.map_filter_simps)

lemma active_pairs_distinct: "distinct (map fst (active_pairs symbols))"
proof -
  have "distinct (map fst (foldl (\<lambda>active es. if es_status es \<in> set active_statuses then alput (es_pair es) es active else active) m symbols))"
    if "distinct (map fst m)" for m
    using that by (induction symbols arbitrary: m) auto
  then show ?thesis by (simp add: active_pairs_def)
qed

lemma active_pairs_keyed: "(pair, es) \<in> set (active_pairs symbols) \<Longrightarrow> es_pair es = pair \<and> es_status es = ''TRADING'' \<and> es \<in> set symbols"
proof (induction symbols rule: rev_induct)
  case (snoc x xs)
  then show ?case
    using alput_pairs [of "es_pair x" x "active_pairs xs"]
    by (auto simp: active_pairs_def active_statuses_def split: if_splits)
qed (simp add: active_pairs_def)

text \<open>
  C39: ranks order the universe by score. With statistics keyed by their own pair, the ranks of a cycle are
  1, 2, ... over the active pairs that have statistics, each once, and when no score is NaN a better rank
  never has a lower score.
\<close>

theorem ranks_order_the_universe:
  assumes "\<forall>(k, s) \<in> set tickers. st_pair s = k"
    "rank_universe m (active_pairs symbols) tickers = Inr (ranks, top_n)"
    "\<forall>(k, s) \<in> set tickers. compute_score s \<noteq> Inr NaN"
  shows "map snd ranks = map (\<lambda>i. int i + 1) [0..<length ranks] \<and> distinct (map fst ranks) \<and>
    set (map fst ranks) = {pair \<in> set (map fst (active_pairs symbols)). map_of tickers pair \<noteq> None} \<and>
    sorted_wrt (\<lambda>p q. \<exists>s t a b. map_of tickers (fst p) = Some s \<and> map_of tickers (fst q) = Some t \<and>
      compute_score s = Inr a \<and> compute_score t = Inr b \<and> b \<le> a) ranks"
proof -
  let ?stats = "List.map_filter (\<lambda>(pair, es). map_of tickers pair) (active_pairs symbols)"
  obtain ranked where r: "rank_by_score ?stats = Inr ranked" "ranks = rank_positions ranked"
    using assms(2) by (auto simp: rank_universe_def rbind_eq_Inr)
  note f = rank_by_score_facts [OF r(1)]
  have mem: "fst x \<in> set ?stats" if "x \<in> set ranked" for x
    using f(1) that by (metis image_eqI list.set_map set_mset_mset)
  have stat_iff: "s \<in> set ?stats \<longleftrightarrow> (\<exists>pair \<in> set (map fst (active_pairs symbols)). map_of tickers pair = Some s)" for s
    by (force simp: List.map_filter_def)
  have keyed: "st_pair s = pair" if "map_of tickers pair = Some s" for pair s
    using that assms(1) by (auto dest: map_of_SomeD)
  have stat: "map_of tickers (st_pair s) = Some s" if "s \<in> set ?stats" for s
    using that keyed unfolding stat_iff by auto
  have in_tickers: "(st_pair s, s) \<in> set tickers" if "s \<in> set ?stats" for s using stat [OF that] by (rule map_of_SomeD)
  have "mset (map (st_pair \<circ> fst) ranked) = mset (map st_pair ?stats)"
    using f(1) by (metis map_map mset_map)
  then have d: "distinct (map (st_pair \<circ> fst) ranked)"
    using filter_stats_pairs [OF active_pairs_distinct assms(1), of symbols] by (metis mset_eq_imp_distinct_iff)
  have nan: "\<forall>x \<in> set ranked. snd x \<noteq> NaN"
  proof
    fix x assume x: "x \<in> set ranked"
    have "compute_score (fst x) = Inr (snd x)" using bspec [OF f(2) x] by (cases x) simp
    then show "snd x \<noteq> NaN" using bspec [OF assms(3) in_tickers [OF mem [OF x]]] by auto
  qed
  have "sorted_wrt (\<lambda>x y. snd y \<le> snd x) ranked" using f(3) nan by blast
  then have sorted: "snd (ranked ! j) \<le> snd (ranked ! i)" if "i < j" "j < length ranked" for i j
    using that by (simp add: sorted_wrt_iff_nth_less)
  note rp = rank_positions_distinct [OF d, folded r(2)]
  have len: "length ranks = length ranked" by (simp add: rp)
  have "fst ` set ranked = set ?stats" using arg_cong [OF f(1), of set_mset] by simp
  then have "st_pair ` set ?stats = (st_pair \<circ> fst) ` set ranked" by (metis image_comp)
  then have "set (map fst ranks) = st_pair ` set ?stats" by (simp add: rp)
  moreover have "st_pair ` set ?stats = {pair \<in> set (map fst (active_pairs symbols)). map_of tickers pair \<noteq> None}"
  proof
    show "st_pair ` set ?stats \<subseteq> {pair \<in> set (map fst (active_pairs symbols)). map_of tickers pair \<noteq> None}"
    proof
      fix p assume "p \<in> st_pair ` set ?stats"
      then obtain s where s: "p = st_pair s" "s \<in> set ?stats" by blast
      then obtain pair where "pair \<in> set (map fst (active_pairs symbols))" "map_of tickers pair = Some s"
        using stat_iff by blast
      then show "p \<in> {pair \<in> set (map fst (active_pairs symbols)). map_of tickers pair \<noteq> None}" using s keyed by auto
    qed
    show "{pair \<in> set (map fst (active_pairs symbols)). map_of tickers pair \<noteq> None} \<subseteq> st_pair ` set ?stats"
    proof
      fix p assume "p \<in> {pair \<in> set (map fst (active_pairs symbols)). map_of tickers pair \<noteq> None}"
      then obtain s where "p \<in> set (map fst (active_pairs symbols))" "map_of tickers p = Some s" by blast
      then have "s \<in> set ?stats" "st_pair s = p" using stat_iff keyed by blast+
      then show "p \<in> st_pair ` set ?stats" by blast
    qed
  qed
  moreover have "\<exists>s t a b. map_of tickers (fst (ranks ! i)) = Some s \<and> map_of tickers (fst (ranks ! j)) = Some t \<and>
      compute_score s = Inr a \<and> compute_score t = Inr b \<and> b \<le> a" if "i < j" "j < length ranks" for i j
  proof -
    have ij: "i < length ranked" "j < length ranked" using that len by auto
    have "fst (ranks ! k) = st_pair (fst (ranked ! k))" if "k < length ranked" for k using that by (simp add: rp)
    moreover have "compute_score (fst (ranked ! k)) = Inr (snd (ranked ! k))" if "k < length ranked" for k
      using bspec [OF f(2) nth_mem [OF that]] by (simp add: split_beta)
    ultimately show ?thesis using stat [OF mem [OF nth_mem]] ij sorted [of i j] that len by auto
  qed
  ultimately show ?thesis by (auto simp: rp d sorted_wrt_iff_nth_less)
qed

definition btc_stats :: ticker_stats where
  "btc_stats = \<lparr>st_pair = ''BTCUSDT'', st_last_price = Fin 7, st_quote_volume = Fin 0, st_price_change_pct = Fin 0, st_count = 0\<rparr>"

definition btc_listing :: exchange_symbol where
  "btc_listing = \<lparr>es_pair = ''BTCUSDT'', es_base_asset = ''BTC'', es_quote_asset = ''USDT'', es_status = ''TRADING''\<rparr>"

lemma btc_score: "compute_score btc_stats = Inr (Fin 0)"
proof -
  have half: "to_dbl (1 / 2) = Fin (1 / 2)" using to_dbl_endpoint endpoint_inverse_power [of 1] by simp
  have "in_range 0 1 (to_dbl (1 / 10))" by (rule to_dbl_in_range) auto
  then obtain tenth where "to_dbl (1 / 10) = Fin tenth" by (auto simp: in_range_def)
  then show ?thesis
    by (simp add: compute_score_def btc_stats_def activity_saturation_def volatility_saturation_def fdiv_def feq_def
        pymin_def half)
qed

theorem ranks_order_the_universe_witness:
  "rank_universe (manager_new default_settings) (active_pairs [btc_listing]) [(''BTCUSDT'', btc_stats)] =
     Inr ([(''BTCUSDT'', 1)], {}) \<and>
   {''BTCUSDT''} = {pair \<in> set (map fst (active_pairs [btc_listing])). map_of [(''BTCUSDT'', btc_stats)] pair \<noteq> None}"
proof -
  have n: "normalize_symbol ''BTCUSDT'' = ''BTC''" by code_simp
  have core: "core_symbols default_settings = [''BTCUSDT'', ''ETHUSDT'', ''SOLUSDT'']" by (simp add: default_settings_def)
  have p: "st_pair btc_stats = ''BTCUSDT''" by (simp add: btc_stats_def)
  have active: "active_pairs [btc_listing] = [(''BTCUSDT'', btc_listing)]"
    by (simp add: active_pairs_def active_statuses_def btc_listing_def)
  have "es_base btc_listing = ''BTC''" by (simp add: es_base_def btc_listing_def n)
  then have r: "rank_universe (manager_new default_settings) (active_pairs [btc_listing]) [(''BTCUSDT'', btc_stats)] =
      Inr ([(''BTCUSDT'', 1)], {})"
    by (simp add: rank_universe_def active manager_new_def core n List.map_filter_simps rank_by_score_def btc_score
        sort_desc_def rank_positions_def p slice_to_def)
  then show ?thesis
    using ranks_order_the_universe [of "[(''BTCUSDT'', btc_stats)]", OF _ r] btc_score p by simp
qed


section \<open>Tiers\<close>

definition tier_rule :: "manager \<Rightarrow> string set \<Rightarrow> string set \<Rightarrow> string \<Rightarrow> symbol_state \<Rightarrow> int \<times> string" where
  "tier_rule m top_n spiked base s =
     (if base \<in> mg_core m then (0, ''core'')
      else if base \<in> mg_meme m then (1, ''meme'')
      else if ms_pair s \<in> top_n \<or> base \<in> spiked then (1, ''alt'')
      else (2, ''alt''))"

lemma apply_spike_cases:
  assumes "apply_spike_logic cfg base s bt klass sp = Inr (t, k, s1, sp')"
  shows "sp' - {base} = sp - {base} \<and> (\<exists>n. s1 = s\<lparr>ms_calm_cycles := n\<rparr>) \<and>
    (if bt = tier_rest then klass = ''alt'' \<longrightarrow> (t, k) = (if base \<in> sp' then tier_watch else tier_rest, ''alt'')
     else (t, k) = (bt, klass) \<and> base \<notin> sp')"
proof (cases "bt = tier_rest")
  case False
  moreover have "\<exists>n. s = s\<lparr>ms_calm_cycles := n\<rparr>" by (rule exI [of _ "ms_calm_cycles s"]) simp
  ultimately show ?thesis using assms by (simp add: apply_spike_logic_def) blast
next
  case True
  then obtain spiking where sp: "is_spiking cfg s = Inr spiking" using assms by (auto simp: apply_spike_logic_def rbind_eq_Inr)
  have same: "\<exists>n. s = s\<lparr>ms_calm_cycles := n\<rparr>" by (rule exI [of _ "ms_calm_cycles s"]) simp
  show ?thesis
  proof (cases "\<not> spiking \<and> base \<in> sp")
    case False
    then show ?thesis using assms True sp same by (cases spiking) (auto simp: apply_spike_logic_def)
  next
    case calm: True
    then show ?thesis using assms True sp
      by (cases "ms_calm_cycles s + 1 \<ge> demotion_grace_cycles cfg") (auto simp: apply_spike_logic_def Let_def)
  qed
qed

lemma spike_tier_rule:
  assumes "base_tier_of m top_n base s = (bt, klass)" "apply_spike_logic cfg base s bt klass sp = Inr (t, k, s1, sp')"
  shows "(t, k) = tier_rule m top_n sp' base s"
  using apply_spike_cases [OF assms(2)] assms(1)
  by (cases "base \<in> mg_core m"; cases "base \<in> mg_meme m"; cases "ms_pair s \<in> top_n"; cases "base \<in> sp'")
    (simp_all add: base_tier_of_def tier_rule_def tier_core_def tier_watch_def tier_rest_def)

lemma assign_tier_facts:
  assumes "assign_tier m top_n base s spiked = Inr (s', spiked', changes)"
  shows "spiked' - {base} = spiked - {base}" "ms_pair s' = ms_pair s" "ms_status s' = ms_status s" "ms_base s' = ms_base s"
    "ms_status s \<noteq> ''frozen'' \<Longrightarrow> (ms_tier s', ms_klass s') = tier_rule m top_n spiked' base s'"
    "map (\<lambda>c. (ch_base c, ch_from_tier c, ch_to_tier c)) changes =
       (if ms_status s \<noteq> ''frozen'' \<and> (ms_tier s, ms_klass s) \<noteq> (ms_tier s', ms_klass s') then [(base, ms_tier s, ms_tier s')] else [])"
proof -
  have "spiked' - {base} = spiked - {base} \<and> ms_pair s' = ms_pair s \<and> ms_status s' = ms_status s \<and> ms_base s' = ms_base s \<and>
    (ms_status s \<noteq> ''frozen'' \<longrightarrow> (ms_tier s', ms_klass s') = tier_rule m top_n spiked' base s') \<and>
    map (\<lambda>c. (ch_base c, ch_from_tier c, ch_to_tier c)) changes =
       (if ms_status s \<noteq> ''frozen'' \<and> (ms_tier s, ms_klass s) \<noteq> (ms_tier s', ms_klass s') then [(base, ms_tier s, ms_tier s')] else [])"
  proof (cases "ms_status s = ''frozen''")
    case True
    then show ?thesis using assms by (simp add: assign_tier_def)
  next
    case False
    obtain bt klass where b: "base_tier_of m top_n base s = (bt, klass)" by fastforce
    obtain t k s1 sp where a: "apply_spike_logic (mg_settings m) base s bt klass spiked = Inr (t, k, s1, sp)"
      "s' = s1\<lparr>ms_tags := insert k (if base \<in> sp \<and> bt = tier_rest then {''spike''} else {}), ms_tier := t, ms_klass := k\<rparr>"
      "spiked' = sp" "changes = (if t \<noteq> ms_tier s \<or> k \<noteq> ms_klass s
         then [\<lparr>ch_base = base, ch_pair = ms_pair s, ch_from_tier = ms_tier s, ch_to_tier = t,
                ch_reason = change_reason bt (ms_tier s) t\<rparr>] else [])"
      using assms False b by (auto simp: assign_tier_def rbind_eq_Inr)
    obtain n where n: "s1 = s\<lparr>ms_calm_cycles := n\<rparr>" "sp - {base} = spiked - {base}" using apply_spike_cases [OF a(1)] by blast
    have "tier_rule m top_n sp base s' = tier_rule m top_n sp base s" by (simp add: tier_rule_def a(2) n(1))
    then have "tier_rule m top_n sp base s' = (t, k)" using spike_tier_rule [OF b a(1)] by simp
    moreover have "ms_tier s' = t" "ms_klass s' = k" "ms_pair s' = ms_pair s" "ms_status s' = ms_status s" "ms_base s' = ms_base s"
      by (simp_all add: a(2) n(1))
    ultimately show ?thesis using n(2) False a(3,4) by auto
  qed
  then show "spiked' - {base} = spiked - {base}" "ms_pair s' = ms_pair s" "ms_status s' = ms_status s" "ms_base s' = ms_base s"
    "ms_status s \<noteq> ''frozen'' \<Longrightarrow> (ms_tier s', ms_klass s') = tier_rule m top_n spiked' base s'"
    "map (\<lambda>c. (ch_base c, ch_from_tier c, ch_to_tier c)) changes =
       (if ms_status s \<noteq> ''frozen'' \<and> (ms_tier s, ms_klass s) \<noteq> (ms_tier s', ms_klass s') then [(base, ms_tier s, ms_tier s')] else [])"
    by auto
qed

text \<open>What a whole pass does to each state, and what it logs.\<close>

definition transitions :: "states \<Rightarrow> states \<Rightarrow> (string \<times> int \<times> int) list" where
  "transitions old new =
     concat (map2 (\<lambda>(base, s) (_, s'). if ms_status s \<noteq> ''frozen'' \<and> (ms_tier s, ms_klass s) \<noteq> (ms_tier s', ms_klass s')
       then [(base, ms_tier s, ms_tier s')] else []) old new)"

lemma assign_tiers_facts:
  assumes "assign_tiers m top_n states spiked = (Inr changes, states', spiked')" "distinct (map fst states)"
  shows "map fst states' = map fst states" "spiked' - set (map fst states) = spiked - set (map fst states)"
    "list_all2 (\<lambda>(b, s) (b', s'). b' = b \<and> ms_pair s' = ms_pair s \<and> ms_status s' = ms_status s \<and> ms_base s' = ms_base s \<and>
       (ms_status s \<noteq> ''frozen'' \<longrightarrow> (ms_tier s', ms_klass s') = tier_rule m top_n spiked' b s')) states states'"
    "map (\<lambda>c. (ch_base c, ch_from_tier c, ch_to_tier c)) changes = transitions states states'"
proof -
  have "map fst states' = map fst states \<and> spiked' - set (map fst states) = spiked - set (map fst states) \<and>
    list_all2 (\<lambda>(b, s) (b', s'). b' = b \<and> ms_pair s' = ms_pair s \<and> ms_status s' = ms_status s \<and> ms_base s' = ms_base s \<and>
       (ms_status s \<noteq> ''frozen'' \<longrightarrow> (ms_tier s', ms_klass s') = tier_rule m top_n spiked' b s')) states states' \<and>
    map (\<lambda>c. (ch_base c, ch_from_tier c, ch_to_tier c)) changes = transitions states states'"
    using assms
  proof (induction states arbitrary: spiked changes states' spiked')
    case Nil
    then show ?case by (simp add: transitions_def)
  next
    case (Cons x states)
    obtain base s where x: "x = (base, s)" by (cases x)
    obtain s1 spiked1 changes1 rest_changes rest where
      a: "assign_tier m top_n base s spiked = Inr (s1, spiked1, changes1)"
      "assign_tiers m top_n states spiked1 = (Inr rest_changes, rest, spiked')"
      "states' = (base, s1) # rest" "changes = changes1 @ rest_changes"
      using Cons.prems(1) x by (auto simp: rbind_eq_Inr split: sum.splits prod.splits)
    have d: "distinct (map fst states)" "base \<notin> set (map fst states)" using Cons.prems(2) x by auto
    note ih = Cons.IH [OF a(2) d(1)]
    note f = assign_tier_facts [OF a(1)]
    have "base \<in> spiked' \<longleftrightarrow> base \<in> spiked1" using ih d(2) by blast
    then have "tier_rule m top_n spiked' base s1 = tier_rule m top_n spiked1 base s1" by (simp add: tier_rule_def)
    moreover have "spiked' - set (map fst (x # states)) = spiked - set (map fst (x # states))"
      using ih f(1) x by auto
    ultimately show ?case using ih f(2-6) a(3,4) x by (simp add: transitions_def)
  qed
  then show "map fst states' = map fst states" "spiked' - set (map fst states) = spiked - set (map fst states)"
    "list_all2 (\<lambda>(b, s) (b', s'). b' = b \<and> ms_pair s' = ms_pair s \<and> ms_status s' = ms_status s \<and> ms_base s' = ms_base s \<and>
       (ms_status s \<noteq> ''frozen'' \<longrightarrow> (ms_tier s', ms_klass s') = tier_rule m top_n spiked' b s')) states states'"
    "map (\<lambda>c. (ch_base c, ch_from_tier c, ch_to_tier c)) changes = transitions states states'"
    by auto
qed

section \<open>Statuses\<close>

definition universe_ok :: "states \<Rightarrow> bool" where
  "universe_ok states \<longleftrightarrow> distinct (map fst states) \<and>
     (\<forall>(b, s) \<in> set states. ms_base s = b \<and> normalize_symbol (ms_pair s) = b \<and> ms_status s \<in> {''trading'', ''frozen''})"

definition delist :: "(string \<times> exchange_symbol) list \<Rightarrow> symbol_state \<Rightarrow> symbol_state" where
  "delist active s = (if map_of active (ms_pair s) = None \<and> ms_status s \<noteq> ''frozen'' then s\<lparr>ms_status := ''frozen''\<rparr> else s)"

lemma mark_delistings_map: "fst (mark_delistings active states) = map (\<lambda>(b, s). (b, delist active s)) states"
  by (induction states) (auto simp: delist_def split: prod.split)

text \<open>Between the listing steps a frozen state either is not tradable or waits for its pair to come up.\<close>

definition settled :: "string set \<Rightarrow> string set \<Rightarrow> symbol_state \<Rightarrow> bool" where
  "settled active waiting s \<longleftrightarrow>
     ms_status s = ''trading'' \<and> ms_pair s \<in> active \<or>
     ms_status s = ''frozen'' \<and> (ms_pair s \<in> active \<longrightarrow> ms_pair s \<in> waiting)"

lemma map_of_keys: "map_of m k = None \<longleftrightarrow> k \<notin> set (map fst m)"
  by (simp add: map_of_eq_None_iff)

lemma mark_delistings_settled:
  assumes "universe_ok states"
  shows "universe_ok (fst (mark_delistings active states)) \<and>
    (\<forall>(b, s) \<in> set (fst (mark_delistings active states)). settled (set (map fst active)) (set (map fst active)) s)"
proof -
  have keys: "map fst (fst (mark_delistings active states)) = map fst states" by (auto simp: mark_delistings_map)
  have "ms_base (delist active s) = b \<and> normalize_symbol (ms_pair (delist active s)) = b \<and>
      ms_status (delist active s) \<in> {''trading'', ''frozen''} \<and> settled (set (map fst active)) (set (map fst active)) (delist active s)"
    if "(b, s) \<in> set states" for b s
  proof -
    have "ms_base s = b" "normalize_symbol (ms_pair s) = b" "ms_status s \<in> {''trading'', ''frozen''}"
      using assms that by (auto simp: universe_ok_def)
    then show ?thesis
      by (cases "ms_pair s \<in> set (map fst active)") (auto simp: delist_def settled_def map_of_keys simp del: set_map)
  qed
  moreover have "distinct (map fst (fst (mark_delistings active states)))" unfolding keys using assms by (simp add: universe_ok_def)
  ultimately show ?thesis by (auto simp: universe_ok_def mark_delistings_map simp del: map_map)
qed

lemma take_stats_fields [simp]:
  "ms_base (take_stats x s) = ms_base s" "ms_pair (take_stats x s) = ms_pair s" "ms_status (take_stats x s) = ms_status s"
  by (simp_all add: take_stats_def split: option.split)

lemma sync_listing_alput:
  assumes "universe_ok states" "es_pair es = pair"
  obtains s where "sync_listing tickers ranks (pair, es) states = alput (normalize_symbol pair) s states"
    "ms_base s = normalize_symbol pair" "ms_pair s = pair" "ms_status s = ''trading''"
proof -
  have base: "es_base es = normalize_symbol pair" using assms(2) by (simp add: es_base_def)
  let ?s0 = "case map_of states (normalize_symbol pair) of None \<Rightarrow> symbol_state_new (normalize_symbol pair) pair
    | Some s \<Rightarrow> if ms_status s = ''frozen'' then s\<lparr>ms_status := ''trading''\<rparr> else s"
  have "ms_base ?s0 = normalize_symbol pair \<and> ms_status ?s0 = ''trading''"
  proof (cases "map_of states (normalize_symbol pair)")
    case (Some s)
    then have "(normalize_symbol pair, s) \<in> set states" by (rule map_of_SomeD)
    then have "ms_base s = normalize_symbol pair" "ms_status s \<in> {''trading'', ''frozen''}"
      using assms(1) by (auto simp: universe_ok_def)
    then show ?thesis using Some by auto
  qed (simp add: symbol_state_new_def)
  then show thesis
    by (intro that [of "take_stats (map_of tickers pair) (?s0\<lparr>ms_pair := pair\<rparr>)\<lparr>ms_rank := map_of ranks pair\<rparr>"])
      (simp_all only: sync_listing_def prod.case Let_def base, simp_all)
qed

lemma alput_entries: "distinct (map fst m) \<Longrightarrow> (k', v') \<in> set (alput k v m) \<longleftrightarrow> (if k' = k then v' = v else (k', v') \<in> set m)"
proof (induction k v m rule: alput.induct)
  case (2 k v k'' v'' xs)
  then show ?case by (force simp: image_iff)
qed simp

lemma sync_listings_settled:
  assumes "universe_ok states" "\<forall>(b, s) \<in> set states. settled live (set (map fst active)) s"
    "\<forall>(pair, es) \<in> set active. es_pair es = pair" "set (map fst active) \<subseteq> live"
  shows "universe_ok (sync_listings active tickers ranks states) \<and>
    (\<forall>(b, s) \<in> set (sync_listings active tickers ranks states). settled live {} s)"
  using assms
proof (induction active arbitrary: states)
  case Nil
  then show ?case by (simp add: sync_listings_def)
next
  case (Cons a active)
  obtain pair es where a: "a = (pair, es)" by (cases a)
  obtain s where s: "sync_listing tickers ranks (pair, es) states = alput (normalize_symbol pair) s states"
    "ms_base s = normalize_symbol pair" "ms_pair s = pair" "ms_status s = ''trading''"
    by (rule sync_listing_alput [OF Cons.prems(1), of es pair]) (use Cons.prems(3) a in simp_all)
  let ?st = "alput (normalize_symbol pair) s states"
  have d: "distinct (map fst states)" using Cons.prems(1) by (simp add: universe_ok_def)
  have entry: "(if b = normalize_symbol pair then x = s else (b, x) \<in> set states)" if "(b, x) \<in> set ?st" for b x
    using that alput_entries [OF d] by blast
  have "universe_ok ?st"
    unfolding universe_ok_def
  proof (intro conjI ballI)
    show "distinct (map fst ?st)" using d by simp
    fix e assume e': "e \<in> set ?st"
    obtain b x where e: "e = (b, x)" by (cases e)
    then have e: "e = (b, x)" "(b, x) \<in> set ?st" using e' by auto
    have "ms_base x = b \<and> normalize_symbol (ms_pair x) = b \<and> ms_status x \<in> {''trading'', ''frozen''}"
    proof (cases "b = normalize_symbol pair")
      case True
      then show ?thesis using entry [OF e(2)] s(2-4) by simp
    next
      case False
      then have "(b, x) \<in> set states" using entry [OF e(2)] by simp
      then show ?thesis using bspec [OF conjunct2 [OF Cons.prems(1) [unfolded universe_ok_def]]] by blast
    qed
    then show "case e of (b, s) \<Rightarrow> ms_base s = b \<and> normalize_symbol (ms_pair s) = b \<and> ms_status s \<in> {''trading'', ''frozen''}"
      using e(1) by simp
  qed
  moreover have "settled live (set (map fst active)) x" if "(b, x) \<in> set ?st" for b x
  proof (cases "b = normalize_symbol pair")
    case True
    then show ?thesis using entry [OF that] s(3,4) Cons.prems(4) a by (auto simp: settled_def)
  next
    case False
    then have "(b, x) \<in> set states" using entry [OF that] by simp
    then have "settled live (insert pair (set (map fst active))) x" "normalize_symbol (ms_pair x) = b"
      using Cons.prems(1,2) a by (auto simp: universe_ok_def)
    then show ?thesis using False by (auto simp: settled_def)
  qed
  ultimately show ?case
    using Cons.IH [of ?st] Cons.prems(3,4) s(1) a by (auto simp: sync_listings_def)
qed

lemma retier_settles:
  assumes "universe_ok (mg_states m)" "retier symbols tickers m = (Inr changes, m')"
  shows "universe_ok (mg_states m') \<and>
    (\<exists>ranks top_n. rank_universe m (active_pairs symbols) tickers = Inr (ranks, top_n) \<and>
      (\<forall>(b, s) \<in> set (mg_states m').
         if map_of (active_pairs symbols) (ms_pair s) = None then ms_status s = ''frozen''
         else ms_status s = ''trading'' \<and> (ms_tier s, ms_klass s) = tier_rule m top_n (mg_spike_promoted m') b s))"
proof -
  let ?active = "active_pairs symbols"
  obtain ranks top_n where r: "rank_universe m ?active tickers = Inr (ranks, top_n)"
    using assms(2) by (cases "rank_universe m ?active tickers") (auto simp: retier_def)
  let ?delisted = "fst (mark_delistings ?active (mg_states m))"
  let ?listed = "sync_listings ?active tickers ranks ?delisted"
  obtain changes2 states spiked where t: "assign_tiers m top_n ?listed (mg_spike_promoted m) = (Inr changes2, states, spiked)"
    "m' = m\<lparr>mg_states := states, mg_spike_promoted := spiked\<rparr>"
    using assms(2) r by (auto simp: retier_def Let_def rbind_eq_Inr split: prod.splits)
  have keyed: "\<forall>(pair, es) \<in> set ?active. es_pair es = pair" by (auto dest: active_pairs_keyed)
  note marked = mark_delistings_settled [OF assms(1), of ?active]
  note listed = sync_listings_settled [OF conjunct1 [OF marked] conjunct2 [OF marked] keyed order_refl, of tickers ranks,
      THEN conjunct1] sync_listings_settled [OF conjunct1 [OF marked] conjunct2 [OF marked] keyed order_refl, of tickers ranks,
      THEN conjunct2]
  have d: "distinct (map fst ?listed)" using listed(1) by (simp add: universe_ok_def)
  note f = assign_tiers_facts [OF t(1) d]
  have new: "ms_base s' = b \<and> normalize_symbol (ms_pair s') = b \<and> ms_status s' \<in> {''trading'', ''frozen''} \<and>
      settled (set (map fst ?active)) {} s' \<and> (ms_status s' \<noteq> ''frozen'' \<longrightarrow> (ms_tier s', ms_klass s') = tier_rule m top_n spiked b s')"
    if m': "(b, s') \<in> set states" for b s'
  proof -
    obtain i where i: "i < length states" "states ! i = (b, s')" using m' by (auto simp: in_set_conv_nth)
    obtain s where s: "?listed ! i = (b, s)" "ms_pair s' = ms_pair s" "ms_status s' = ms_status s" "ms_base s' = ms_base s"
      "ms_status s \<noteq> ''frozen'' \<longrightarrow> (ms_tier s', ms_klass s') = tier_rule m top_n spiked b s'"
      using f(3) i by (cases "?listed ! i") (auto simp: list_all2_conv_all_nth)
    have "(b, s) \<in> set ?listed" using s(1) i(1) list_all2_lengthD [OF f(3)] nth_mem by metis
    then have "ms_base s = b" "normalize_symbol (ms_pair s) = b" "ms_status s \<in> {''trading'', ''frozen''}"
      "settled (set (map fst ?active)) {} s"
      using listed by (auto simp: universe_ok_def)
    then show ?thesis using s by (simp add: settled_def)
  qed
  have "universe_ok states" using new f(1) d by (auto simp: universe_ok_def)
  moreover have "if map_of ?active (ms_pair s) = None then ms_status s = ''frozen''
      else ms_status s = ''trading'' \<and> (ms_tier s, ms_klass s) = tier_rule m top_n spiked b s" if "(b, s) \<in> set states" for b s
    using new [OF that] by (auto simp: settled_def map_of_keys simp del: set_map)
  ultimately show ?thesis using r t(2) by auto
qed

text \<open>A manager that knows one symbol.\<close>

definition x_known :: manager where
  "x_known = (manager_new default_settings)\<lparr>mg_states := [(''X'', symbol_state_new ''X'' ''XUSDT'')]\<rparr>"

text \<open>Which symbols a pass over the listings touches.\<close>

definition tradable :: "exchange_symbol list \<Rightarrow> exchange_symbol set" where
  "tradable symbols = {es \<in> set symbols. es_status es \<in> set active_statuses}"

lemma active_pairs_tradable: "set (map fst (active_pairs symbols)) = es_pair ` tradable symbols"
proof (induction symbols rule: rev_induct)
  case (snoc es symbols)
  have "tradable (symbols @ [es]) = (if es_status es \<in> set active_statuses then insert es (tradable symbols) else tradable symbols)"
    by (auto simp: tradable_def)
  then show ?case using snoc by (simp add: active_pairs_def set_keys_alput del: set_map)
qed (simp add: active_pairs_def tradable_def)

lemma tradable_bases: "es_base ` tradable symbols = normalize_symbol ` set (map fst (active_pairs symbols))"
  unfolding active_pairs_tradable by (auto simp: es_base_def image_image)

lemma sync_listing_put:
  obtains s where "sync_listing tickers ranks (pair, es) states = alput (es_base es) s states" "ms_pair s = pair"
  by (rule that [of "take_stats (map_of tickers pair) ((case map_of states (es_base es) of None \<Rightarrow> symbol_state_new (es_base es) pair
      | Some s \<Rightarrow> if ms_status s = ''frozen'' then s\<lparr>ms_status := ''trading''\<rparr> else s)\<lparr>ms_pair := pair\<rparr>)\<lparr>ms_rank := map_of ranks pair\<rparr>"])
    (simp_all only: sync_listing_def prod.case Let_def, simp)

lemma sync_listings_touches:
  assumes "\<forall>(pair, es) \<in> set active. es_pair es = pair"
  shows "set (map fst (sync_listings active tickers ranks states)) = set (map fst states) \<union> normalize_symbol ` set (map fst active) \<and>
    (\<forall>b. if b \<in> normalize_symbol ` set (map fst active)
       then \<exists>s. map_of (sync_listings active tickers ranks states) b = Some s \<and> ms_pair s \<in> set (map fst active)
       else map_of (sync_listings active tickers ranks states) b = map_of states b)"
  using assms
proof (induction active rule: rev_induct)
  case (snoc a active)
  obtain pair es where a: "a = (pair, es)" by (cases a)
  have base: "es_base es = normalize_symbol pair" using snoc.prems a by (simp add: es_base_def)
  let ?st = "sync_listings active tickers ranks states"
  obtain s where s: "sync_listings (active @ [a]) tickers ranks states = alput (normalize_symbol pair) s ?st" "ms_pair s = pair"
    using sync_listing_put [of tickers ranks pair es ?st] base a by (auto simp: sync_listings_def)
  have "\<forall>(pair, es) \<in> set active. es_pair es = pair" using snoc.prems by simp
  note ih = snoc.IH [OF this]
  have keys: "set (map fst (active @ [a])) = insert pair (set (map fst active))" by (simp add: a)
  show ?case
  proof (intro conjI allI)
    show "set (map fst (sync_listings (active @ [a]) tickers ranks states)) = set (map fst states) \<union> normalize_symbol ` set (map fst (active @ [a]))"
      using ih unfolding s(1) keys set_keys_alput by blast
    fix b
    let ?new = "sync_listings (active @ [a]) tickers ranks states"
    have look: "map_of ?new b = (if b = normalize_symbol pair then Some s else map_of ?st b)" unfolding s(1) by simp
    show "if b \<in> normalize_symbol ` set (map fst (active @ [a])) then \<exists>s. map_of ?new b = Some s \<and> ms_pair s \<in> set (map fst (active @ [a]))
        else map_of ?new b = map_of states b"
    proof (cases "b = normalize_symbol pair")
      case True
      then show ?thesis unfolding look keys using s(2) by simp
    next
      case False
      then show ?thesis unfolding look keys using ih [THEN conjunct2, THEN spec, of b] by (simp split: if_splits del: set_map) blast
    qed
  qed
qed (simp add: sync_listings_def)

lemma assign_tiers_frozen:
  "assign_tiers m top_n states spiked = (Inr changes, states', spiked') \<Longrightarrow> map_of states b = Some s \<Longrightarrow> ms_status s = ''frozen'' \<Longrightarrow>
    map_of states' b = Some s"
proof (induction states arbitrary: spiked changes states' spiked')
  case (Cons x states)
  obtain base s0 where x: "x = (base, s0)" by (cases x)
  obtain s1 spiked1 changes1 rest_changes rest where
    a: "assign_tier m top_n base s0 spiked = Inr (s1, spiked1, changes1)"
    "assign_tiers m top_n states spiked1 = (Inr rest_changes, rest, spiked')" "states' = (base, s1) # rest"
    using Cons.prems(1) x by (auto simp: rbind_eq_Inr split: sum.splits prod.splits)
  show ?case
  proof (cases "base = b")
    case True
    then show ?thesis using Cons.prems(2,3) a x by (auto simp: assign_tier_def)
  next
    case False
    then show ?thesis using Cons.IH [OF a(2)] Cons.prems(2,3) a(3) x by simp
  qed
qed simp

lemma retier_keeps:
  assumes "universe_ok (mg_states m)" "retier symbols tickers m = (Inr changes, m')"
  shows "set (map fst (mg_states m')) = set (map fst (mg_states m)) \<union> es_base ` tradable symbols \<and>
    (\<forall>(b, s) \<in> set (mg_states m'). if b \<in> es_base ` tradable symbols then ms_pair s \<in> es_pair ` tradable symbols
       else \<exists>s0. map_of (mg_states m) b = Some s0 \<and> s = s0\<lparr>ms_status := ''frozen''\<rparr>)"
proof -
  let ?active = "active_pairs symbols"
  obtain ranks top_n where r: "rank_universe m ?active tickers = Inr (ranks, top_n)"
    using assms(2) by (cases "rank_universe m ?active tickers") (auto simp: retier_def)
  let ?delisted = "fst (mark_delistings ?active (mg_states m))"
  let ?listed = "sync_listings ?active tickers ranks ?delisted"
  obtain changes2 states spiked where t: "assign_tiers m top_n ?listed (mg_spike_promoted m) = (Inr changes2, states, spiked)"
    "m' = m\<lparr>mg_states := states, mg_spike_promoted := spiked\<rparr>"
    using assms(2) r by (auto simp: retier_def Let_def rbind_eq_Inr split: prod.splits)
  have keyed: "\<forall>(pair, es) \<in> set ?active. es_pair es = pair" by (auto dest: active_pairs_keyed)
  note touches = sync_listings_touches [OF keyed, of tickers ranks ?delisted, folded tradable_bases, unfolded active_pairs_tradable]
  have ok: "universe_ok ?listed"
    using mark_delistings_settled [OF assms(1), of ?active] by (intro sync_listings_settled [THEN conjunct1] keyed order_refl) auto
  note f = assign_tiers_facts [OF t(1)] and d = ok [unfolded universe_ok_def, THEN conjunct1]
  have old: "map fst ?delisted = map fst (mg_states m)" by (auto simp: mark_delistings_map)
  have keys: "map fst states = map fst ?listed" by (rule f(1) [OF d])
  have "if b \<in> es_base ` tradable symbols then ms_pair s \<in> es_pair ` tradable symbols
       else \<exists>s0. map_of (mg_states m) b = Some s0 \<and> s = s0\<lparr>ms_status := ''frozen''\<rparr>" if st: "(b, s) \<in> set states" for b s
  proof -
    have s: "map_of states b = Some s" using st d keys by simp
    obtain i where i: "i < length states" "states ! i = (b, s)" using st by (auto simp: in_set_conv_nth)
    obtain l where l: "?listed ! i = (b, l)" "ms_pair s = ms_pair l"
      using f(3) [OF d] i by (cases "?listed ! i") (auto simp: list_all2_conv_all_nth)
    have "(b, l) \<in> set ?listed" using l(1) i(1) list_all2_lengthD [OF f(3) [OF d]] nth_mem by metis
    then have listed: "map_of ?listed b = Some l" using d by simp
    show ?thesis
    proof (cases "b \<in> es_base ` tradable symbols")
      case True
      then obtain s2 where "map_of ?listed b = Some s2" "ms_pair s2 \<in> es_pair ` tradable symbols"
        using touches [THEN conjunct2, THEN spec, of b] by auto
      then show ?thesis using True listed l(2) by simp
    next
      case False
      then have "map_of ?delisted b = Some l" using touches [THEN conjunct2, THEN spec, of b] listed by simp
      then obtain s0 where s0: "map_of (mg_states m) b = Some s0" "l = delist ?active s0"
        by (auto simp: mark_delistings_map map_of_map)
      have "normalize_symbol (ms_pair s0) = b" using map_of_SomeD [OF s0(1)] assms(1) by (auto simp: universe_ok_def)
      then have "ms_pair s0 \<notin> set (map fst ?active)" using False tradable_bases by blast
      then have frozen: "l = s0\<lparr>ms_status := ''frozen''\<rparr>" using s0(2) by (cases "ms_status s0 = ''frozen''") (auto simp: delist_def map_of_keys)
      then show ?thesis using assign_tiers_frozen [OF t(1) listed] s s0(1) False by simp
    qed
  qed
  then show ?thesis using touches keys old t(2) by (auto simp: set_map [symmetric] simp del: set_map)
qed

lemma sync_feed_frame: "mg_states (fst (snd (sync_feed sv (m, w)))) = mg_states m \<and>
    mg_spike_promoted (fst (snd (sync_feed sv (m, w)))) = mg_spike_promoted m"
  by (auto simp: sync_feed_def Let_def attempt_def split: prod.split sum.split)

text \<open>The states are those of the in-memory part, whichever repository or feed call raises afterwards.\<close>

lemma refresh_universe_states:
  assumes "retier symbols tickers m = (Inr changes, m1)" "refresh_universe sv (Inr symbols) (Inr tickers) (m, w) = (r, (m', w'))"
  shows "mg_states m' = mg_states m1 \<and> mg_spike_promoted m' = mg_spike_promoted m1"
proof -
  let ?same = "\<lambda>s. mg_states (fst s) = mg_states m1 \<and> mg_spike_promoted (fst s) = mg_spike_promoted m1"
  have "?same (snd (refresh_universe sv (Inr symbols) (Inr tickers) (m, w)))"
    by (simp add: refresh_universe_def assms(1) Let_def split_beta)
      (intro attempt_keeps [where P = ?same] conjI impI; simp add: sync_feed_frame)
  then show ?thesis using assms(2) by simp
qed

text \<open>
  C25: a cycle settles the universe. Start from states filed under the display name of their pair, and let the ranking and
  tiering of a refresh cycle not raise. Whatever its repository and feed calls answer, afterwards the states are filed that
  way; they are those of the symbols known before and of every tradable listing, none lost and none added; every tradable
  symbol is trading, under a tradable pair, with the tier and class of the rule (core, else meme, else watched when among the top
  volumes or spike-promoted, else the rest); and every other one is as it was, but frozen.
\<close>

theorem cycle_settles_universe:
  assumes "universe_ok (mg_states m)" "fst (retier symbols tickers m) = Inr changes"
    and "refresh_universe sv (Inr symbols) (Inr tickers) (m, w) = (r, (m', w'))"
  shows "universe_ok (mg_states m') \<and>
    set (map fst (mg_states m')) = set (map fst (mg_states m)) \<union> es_base ` tradable symbols \<and>
    (\<exists>ranks top_n. rank_universe m (active_pairs symbols) tickers = Inr (ranks, top_n) \<and>
      (\<forall>(b, s) \<in> set (mg_states m').
         if b \<in> es_base ` tradable symbols
         then ms_status s = ''trading'' \<and> ms_pair s \<in> es_pair ` tradable symbols \<and>
           (ms_tier s, ms_klass s) = tier_rule m top_n (mg_spike_promoted m') b s
         else \<exists>s0. map_of (mg_states m) b = Some s0 \<and> s = s0\<lparr>ms_status := ''frozen''\<rparr>))"
proof -
  obtain m1 where m1: "retier symbols tickers m = (Inr changes, m1)" using assms(2) by (metis prod.collapse)
  note same = refresh_universe_states [OF m1 assms(3)] and settles = retier_settles [OF assms(1) m1] and keeps = retier_keeps [OF assms(1) m1]
  obtain ranks top_n where ranks: "rank_universe m (active_pairs symbols) tickers = Inr (ranks, top_n)"
    "\<forall>(b, s) \<in> set (mg_states m1). if map_of (active_pairs symbols) (ms_pair s) = None then ms_status s = ''frozen''
         else ms_status s = ''trading'' \<and> (ms_tier s, ms_klass s) = tier_rule m top_n (mg_spike_promoted m1) b s"
    using settles by blast
  have "ms_status s = ''trading'' \<and> (ms_tier s, ms_klass s) = tier_rule m top_n (mg_spike_promoted m1) b s"
    if "(b, s) \<in> set (mg_states m1)" "ms_pair s \<in> es_pair ` tradable symbols" for b s
  proof -
    have "map_of (active_pairs symbols) (ms_pair s) \<noteq> None" using that(2) active_pairs_tradable map_of_keys by metis
    then show ?thesis using ranks(2) that(1) by auto
  qed
  then show ?thesis using same conjunct1 [OF settles] keeps ranks(1) by fastforce
qed

text \<open>Repositories and a feed that are all out of order.\<close>

definition down_services :: "unit services" where
  "down_services = \<lparr>sv_now = (\<lambda>_. 0), sv_upsert = (\<lambda>_ w. (Inl data_error, w)), sv_update_ranking = (\<lambda>_ _ _ w. (Inl data_error, w)),
     sv_get_id = (\<lambda>_ w. (Inl data_error, w)), sv_tier_change = None, sv_metrics = None, sv_breadth = None,
     sv_subscribe = (\<lambda>_ w. (Inl data_error, w)), sv_unsubscribe = (\<lambda>_ w. (Inl data_error, w)), sv_has_feed = True\<rparr>"

theorem cycle_settles_universe_witness:
  "\<exists>m'. refresh_universe down_services (Inr [btc_listing]) (Inr []) (x_known, ()) = (Inl data_error, (m', ())) \<and> universe_ok (mg_states m') \<and>
    map (\<lambda>(b, s). (b, ms_status s, ms_tier s)) (mg_states m') = [(''X'', ''frozen'', 2), (''BTC'', ''trading'', 0)]"
proof -
  have n: "normalize_symbol ''BTCUSDT'' = ''BTC''" by code_simp
  have x: "normalize_symbol ''XUSDT'' = ''X''" by code_simp
  have c: "''BTC'' \<in> mg_core (manager_new default_settings)" by code_simp
  have e: "slice_to k [] = []" for k :: int by (simp add: slice_to_def)
  obtain changes m' where r: "retier [btc_listing] [] x_known = (Inr changes, m')"
    "map (\<lambda>c. (ch_base c, ch_reason c)) changes = [(''X'', ''delisted''), (''BTC'', ''ranking'')]"
    "map (\<lambda>(b, s). (b, ms_status s, ms_tier s)) (mg_states m') = [(''X'', ''frozen'', 2), (''BTC'', ''trading'', 0)]"
    by (simp add: retier_def active_pairs_def active_statuses_def rank_universe_def rank_by_score_def List.map_filter_simps
        sort_desc_def rank_positions_def sync_listings_def sync_listing_def take_stats_def symbol_state_new_def
        assign_tier_def base_tier_of_def apply_spike_logic_def tier_rest_def tier_core_def tier_watch_def change_reason_def
        es_base_def btc_listing_def x_known_def n c [simplified] Let_def e)
  have "universe_ok (mg_states x_known)" by (simp add: universe_ok_def symbol_state_new_def x_known_def x)
  note known = this
  have "mg_states m' \<noteq> []" using r(3) by auto
  then obtain b s ss where "mg_states m' = (b, s) # ss" by (metis list.exhaust prod.exhaust)
  then have cut: "refresh_universe down_services (Inr [btc_listing]) (Inr []) (x_known, ()) = (Inl data_error, (m', ()))"
    by (simp add: refresh_universe_def r(1) persist_def down_services_def)
  have "fst (retier [btc_listing] [] x_known) = Inr changes" by (simp add: r(1))
  from conjunct1 [OF cycle_settles_universe [OF known this cut]] show ?thesis using cut r(3) by (intro exI [of _ m'] conjI)
qed

text \<open>
  C40: every transition is logged. In a pass over the states that does not raise, the changes are exactly
  those of the states that are not frozen and whose tier or class differs afterwards, once each, in the
  order of the states, with the tier before and the tier after.
\<close>

theorem transitions_logged:
  assumes "assign_tiers m top_n states spiked = (Inr changes, states', spiked')" "distinct (map fst states)"
  shows "map (\<lambda>c. (ch_base c, ch_from_tier c, ch_to_tier c)) changes = transitions states states'"
  by (rule assign_tiers_facts(4) [OF assms])

lemma plain_not_spiking: "is_spiking default_settings (symbol_state_new base pair) = Inr False"
  by (simp add: is_spiking_def symbol_state_new_def default_settings_def)

theorem transitions_logged_witness:
  "fst (assign_tiers (manager_new default_settings) {''XUSDT''} [(''X'', symbol_state_new ''X'' ''XUSDT'')] {}) =
     Inr [\<lparr>ch_base = ''X'', ch_pair = ''XUSDT'', ch_from_tier = 2, ch_to_tier = 1, ch_reason = ''ranking''\<rparr>] \<and>
   transitions [(''X'', symbol_state_new ''X'' ''XUSDT'')]
     (fst (snd (assign_tiers (manager_new default_settings) {''XUSDT''} [(''X'', symbol_state_new ''X'' ''XUSDT'')] {}))) =
     [(''X'', 2, 1)]"
proof -
  have "''X'' \<notin> mg_core (manager_new default_settings)" "''X'' \<notin> mg_meme (manager_new default_settings)"
    by code_simp+
  then have a: "assign_tiers (manager_new default_settings) {''XUSDT''} [(''X'', symbol_state_new ''X'' ''XUSDT'')] {} =
      (Inr [\<lparr>ch_base = ''X'', ch_pair = ''XUSDT'', ch_from_tier = 2, ch_to_tier = 1, ch_reason = ''ranking''\<rparr>],
       [(''X'', (symbol_state_new ''X'' ''XUSDT'')\<lparr>ms_tags := {''alt''}, ms_tier := 1, ms_klass := ''alt''\<rparr>)], {})"
    by (simp add: assign_tier_def base_tier_of_def apply_spike_logic_def symbol_state_new_def tier_rest_def tier_watch_def
        change_reason_def)
  show ?thesis using transitions_logged [OF a] a by simp
qed


section \<open>The grace period\<close>

text \<open>A cycle of a symbol outside core, meme and top volumes, seen with the figures \<open>seen\<close> of that cycle.\<close>

definition spike_cycle :: "settings \<Rightarrow> string \<Rightarrow> symbol_state \<Rightarrow> int \<times> string set \<Rightarrow> int res \<times> (int \<times> string set)" where
  "spike_cycle cfg base seen st =
     (case apply_spike_logic cfg base (seen\<lparr>ms_calm_cycles := fst st\<rparr>) tier_rest ''alt'' (snd st) of
        Inl e \<Rightarrow> (Inl e, st)
      | Inr (tier, klass, s, spiked) \<Rightarrow> (Inr tier, (ms_calm_cycles s, spiked)))"

definition calm_streak :: "settings \<Rightarrow> symbol_state list \<Rightarrow> nat" where
  "calm_streak cfg seen = length (takeWhile (\<lambda>s. is_spiking cfg s \<noteq> Inr True) (rev seen))"

definition grace :: "settings \<Rightarrow> nat" where
  "grace cfg = nat (max 1 (demotion_grace_cycles cfg))"

definition spike_inv :: "settings \<Rightarrow> string \<Rightarrow> symbol_state list \<Rightarrow> int \<times> string set \<Rightarrow> bool" where
  "spike_inv cfg base seen st \<longleftrightarrow>
     (base \<in> snd st \<longleftrightarrow> calm_streak cfg seen < grace cfg \<and> calm_streak cfg seen < length seen) \<and>
     (base \<in> snd st \<longrightarrow> fst st = int (calm_streak cfg seen))"

lemma is_spiking_calm [simp]: "is_spiking cfg (s\<lparr>ms_calm_cycles := n\<rparr>) = is_spiking cfg s"
  by (cases "ms_prev_quote_volume s"; cases "ms_prev_count s") (simp_all add: is_spiking_def Let_def)

lemma spike_cycle_step:
  assumes "spike_inv cfg base seen st" "is_spiking cfg s = Inr b"
  shows "spike_inv cfg base (seen @ [s]) (snd (spike_cycle cfg base s st)) \<and>
    fst (spike_cycle cfg base s st) = Inr (if base \<in> snd (snd (spike_cycle cfg base s st)) then tier_watch else tier_rest)"
proof (cases b)
  case True
  then have "calm_streak cfg (seen @ [s]) = 0" "0 < grace cfg" using assms(2) by (auto simp: calm_streak_def grace_def)
  then show ?thesis using True assms(2) by (simp add: spike_cycle_def apply_spike_logic_def spike_inv_def)
next
  case False
  then have streak: "calm_streak cfg (seen @ [s]) = Suc (calm_streak cfg seen)" using assms(2) by (simp add: calm_streak_def)
  show ?thesis
  proof (cases "base \<in> snd st")
    case out: False
    then show ?thesis using False assms streak
      by (auto simp: spike_cycle_def apply_spike_logic_def spike_inv_def tier_rest_def tier_watch_def)
  next
    case True
    then have st: "fst st = int (calm_streak cfg seen)" "calm_streak cfg seen < length seen" "calm_streak cfg seen < grace cfg"
      using assms(1) by (auto simp: spike_inv_def)
    have "demotion_grace_cycles cfg \<le> fst st + 1 \<longleftrightarrow> \<not> Suc (calm_streak cfg seen) < grace cfg"
      using st(1) by (auto simp: grace_def)
    then show ?thesis using False True assms(2) streak st
      by (cases "demotion_grace_cycles cfg \<le> fst st + 1")
        (simp_all add: spike_cycle_def apply_spike_logic_def spike_inv_def Let_def)
  qed
qed

lemma spike_run:
  assumes "\<forall>s \<in> set seen. \<exists>b. is_spiking cfg s = Inr b" "base \<notin> spiked"
  shows "spike_inv cfg base seen (snd (run_all (spike_cycle cfg base) seen (calm, spiked)))"
  using assms(1)
proof (induction seen rule: rev_induct)
  case Nil
  then show ?case using assms(2) by (simp add: spike_inv_def calm_streak_def)
next
  case (snoc s seen)
  then obtain b where "is_spiking cfg s = Inr b" by auto
  then show ?case using spike_cycle_step snoc by (simp add: run_all_snoc_state)
qed

lemma recent_spike:
  "(\<exists>s \<in> set (last_n n xs). \<not> P s) \<longleftrightarrow> length (takeWhile P (rev xs)) < n \<and> length (takeWhile P (rev xs)) < length xs"
proof -
  have "set (last_n n xs) = set (take n (rev xs))" by (simp add: last_n_def take_rev)
  moreover have "(\<exists>s \<in> set (take n ys). \<not> P s) \<longleftrightarrow> length (takeWhile P ys) < n \<and> length (takeWhile P ys) < length ys" for ys n
    by (induction ys arbitrary: n; case_tac n) auto
  ultimately show ?thesis by (metis length_rev)
qed

text \<open>
  C9: the grace period is a window. A symbol that is neither core nor meme nor among the top volumes is watched
  after a cycle exactly when it spiked in that cycle or in one of the cycles of the grace period before it:
  among the last \<open>demotion_grace_cycles\<close> cycles (at least one), whatever happened earlier.
\<close>

theorem spike_window:
  assumes "\<forall>s \<in> set (seen @ [s]). \<exists>b. is_spiking cfg s = Inr b" "base \<notin> spiked"
  shows "fst (spike_cycle cfg base s (snd (run_all (spike_cycle cfg base) seen (calm, spiked)))) =
    Inr (if \<exists>x \<in> set (last_n (grace cfg) (seen @ [s])). is_spiking cfg x = Inr True then tier_watch else tier_rest)"
proof -
  obtain b where b: "is_spiking cfg s = Inr b" using assms(1) by auto
  let ?st = "snd (run_all (spike_cycle cfg base) seen (calm, spiked))"
  have "spike_inv cfg base seen ?st" using assms by (intro spike_run) auto
  from spike_cycle_step [OF this b] show ?thesis
    using recent_spike [of "grace cfg" "seen @ [s]" "\<lambda>s. is_spiking cfg s \<noteq> Inr True"]
    by (auto simp: spike_inv_def calm_streak_def)
qed

theorem spike_window_witness:
  "fst (spike_cycle default_settings ''X'' (symbol_state_new ''X'' ''XUSDT'')
     (snd (run_all (spike_cycle default_settings ''X'')
       [(symbol_state_new ''X'' ''XUSDT'')\<lparr>ms_price_change_pct := Fin 9\<rparr>, symbol_state_new ''X'' ''XUSDT''] (0, {})))) = Inr tier_watch"
proof -
  have "is_spiking default_settings ((symbol_state_new ''X'' ''XUSDT'')\<lparr>ms_price_change_pct := Fin 9\<rparr>) = Inr True"
    by (simp add: is_spiking_def symbol_state_new_def default_settings_def)
  moreover have "grace default_settings = 3" by (simp add: grace_def default_settings_def)
  moreover have "\<forall>s \<in> set ([(symbol_state_new ''X'' ''XUSDT'')\<lparr>ms_price_change_pct := Fin 9\<rparr>, symbol_state_new ''X'' ''XUSDT''] @
      [symbol_state_new ''X'' ''XUSDT'']). \<exists>b. is_spiking default_settings s = Inr b"
    using calculation plain_not_spiking by auto
  ultimately show ?thesis
    using spike_window [of "[(symbol_state_new ''X'' ''XUSDT'')\<lparr>ms_price_change_pct := Fin 9\<rparr>, symbol_state_new ''X'' ''XUSDT'']"
        "symbol_state_new ''X'' ''XUSDT''" default_settings "''X''" "{}" 0] plain_not_spiking
    by (simp add: last_n_def del: run_all.simps)
qed

end
