(* ===== verification/Feed.thy ===== *)
theory Feed
  imports Payloads "HOL-Library.List_Lexorder" "HOL-Library.Char_ord"
begin

text \<open>
  \<^verbatim>\<open>src/orvixa/feeds/base.py\<close> and \<^verbatim>\<open>src/orvixa/feeds/binance.py\<close>: fan-out to the consumers, the
  subscription set, the message handling, one connection from connect to close, and the reconnect
  loop. What the network does (the connector, the back-fill request, the frames received, whether a
  send fails) and the random jitter are inputs; the consumers act on a state \<open>'w\<close> of their own.
\<close>

section \<open>Fan-out\<close>

text \<open>A consumer that raises is logged and skipped; what it did to the state stays.\<close>

fun fan_out :: "('p \<Rightarrow> 'w \<Rightarrow> unit res \<times> 'w) list \<Rightarrow> 'p \<Rightarrow> 'w \<Rightarrow> 'w" where
  "fan_out [] payload w = w"
| "fan_out (cb # cbs) payload w = fan_out cbs payload (snd (cb payload w))"

record 'w consumers =
  cs_candle :: "(candle \<Rightarrow> 'w \<Rightarrow> unit res \<times> 'w) list"
  cs_snapshot :: "(ticker_row list \<Rightarrow> 'w \<Rightarrow> unit res \<times> 'w) list"

definition consumers_new :: "'w consumers" where
  "consumers_new = \<lparr>cs_candle = [], cs_snapshot = []\<rparr>"

definition on_candle_close :: "(candle \<Rightarrow> 'w \<Rightarrow> unit res \<times> 'w) \<Rightarrow> 'w consumers \<Rightarrow> 'w consumers" where
  "on_candle_close cb cs = cs\<lparr>cs_candle := cs_candle cs @ [cb]\<rparr>"

definition on_market_snapshot :: "(ticker_row list \<Rightarrow> 'w \<Rightarrow> unit res \<times> 'w) \<Rightarrow> 'w consumers \<Rightarrow> 'w consumers" where
  "on_market_snapshot cb cs = cs\<lparr>cs_snapshot := cs_snapshot cs @ [cb]\<rparr>"

definition emit_candle :: "'w consumers \<Rightarrow> candle \<Rightarrow> 'w \<Rightarrow> 'w" where
  "emit_candle cs c w = fan_out (cs_candle cs) c w"

definition emit_snapshot :: "'w consumers \<Rightarrow> ticker_row list \<Rightarrow> 'w \<Rightarrow> 'w" where
  "emit_snapshot cs rows w = fan_out (cs_snapshot cs) rows w"

lemma fan_out_append: "fan_out (xs @ ys) payload w = fan_out ys payload (fan_out xs payload w)"
  by (induction xs arbitrary: w) auto


section \<open>The Binance feed\<close>

definition backoff_steps :: "pyfloat list" where
  "backoff_steps = [Fin 1, Fin 2, Fin 5, Fin 10, Fin 20, Fin 30]"

record binance =
  bn_symbols :: "string set"
  bn_ws_base :: string
  bn_interval :: string
  bn_backfill_limit :: int
  bn_max_reconnects :: "int option"
  bn_socket :: bool
  bn_running :: bool
  bn_connected :: bool
  bn_backoff_history :: "pyfloat list"
  bn_connect_count :: int
  bn_resubscribe_count :: int
  bn_gapfill_count :: int
  bn_had_session :: bool

definition rstrip_slash :: "string \<Rightarrow> string" where
  "rstrip_slash s = rev (dropWhile (\<lambda>c. c = CHR ''/'') (rev s))"

definition binance_new :: "string list \<Rightarrow> string \<Rightarrow> string \<Rightarrow> int \<Rightarrow> int option \<Rightarrow> binance" where
  "binance_new symbols ws_base interval limit max_reconnects =
     \<lparr>bn_symbols = set (map upper symbols), bn_ws_base = rstrip_slash ws_base, bn_interval = interval,
      bn_backfill_limit = limit, bn_max_reconnects = max_reconnects, bn_socket = False, bn_running = False,
      bn_connected = False, bn_backoff_history = [], bn_connect_count = 0, bn_resubscribe_count = 0, bn_gapfill_count = 0,
      bn_had_session = False\<rparr>"

definition streams_for :: "binance \<Rightarrow> string list \<Rightarrow> string list" where
  "streams_for f symbols = map (\<lambda>s. to_stream_symbol s @ ''@kline_'' @ bn_interval f) symbols"

fun join :: "string \<Rightarrow> string list \<Rightarrow> string" where
  "join sep [] = []"
| "join sep [s] = s"
| "join sep (s # t # ss) = s @ sep @ join sep (t # ss)"

definition combined_url :: "binance \<Rightarrow> string" where
  "combined_url f =
     bn_ws_base f @ ''/stream?streams='' @
     join ''/'' (streams_for f (sorted_list_of_set (bn_symbols f)) @ [''!miniTicker@arr''])"

text \<open>A control frame: subscribe or unsubscribe, and the stream names.\<close>

type_synonym frame = "bool \<times> string list"

definition send_sub :: "(frame \<Rightarrow> 'w \<Rightarrow> unit res \<times> 'w) \<Rightarrow> string set \<Rightarrow> bool \<Rightarrow> binance \<Rightarrow> 'w \<Rightarrow> unit res \<times> 'w" where
  "send_sub send symbols sub f w =
     (if \<not> bn_socket f \<or> symbols = {} then (Inr (), w)
      else send (sub, streams_for f (sorted_list_of_set symbols)) w)"

definition binance_subscribe ::
  "(frame \<Rightarrow> 'w \<Rightarrow> unit res \<times> 'w) \<Rightarrow> string set \<Rightarrow> binance \<times> 'w \<Rightarrow> unit res \<times> (binance \<times> 'w)" where
  "binance_subscribe send symbols s =
     (case s of (f, w) \<Rightarrow>
      let new = upper ` symbols - bn_symbols f in
      if new = {} then (Inr (), s)
      else let f1 = f\<lparr>bn_symbols := bn_symbols f \<union> new\<rparr> in
        if bn_socket f1 then (let (r, w1) = send_sub send new True f1 w in (r, (f1, w1))) else (Inr (), (f1, w)))"

definition binance_unsubscribe ::
  "(frame \<Rightarrow> 'w \<Rightarrow> unit res \<times> 'w) \<Rightarrow> string set \<Rightarrow> binance \<times> 'w \<Rightarrow> unit res \<times> (binance \<times> 'w)" where
  "binance_unsubscribe send symbols s =
     (case s of (f, w) \<Rightarrow>
      let drop = upper ` symbols \<inter> bn_symbols f in
      if drop = {} then (Inr (), s)
      else let f1 = f\<lparr>bn_symbols := bn_symbols f - drop\<rparr> in
        if bn_socket f1 then (let (r, w1) = send_sub send drop False f1 w in (r, (f1, w1))) else (Inr (), (f1, w)))"


section \<open>Messages\<close>

text \<open>A frame is given as the result of \<^verbatim>\<open>json.loads\<close>.\<close>

definition handle_message :: "'w consumers \<Rightarrow> json res \<Rightarrow> 'w \<Rightarrow> unit res \<times> 'w" where
  "handle_message cs raw w =
     (case raw of
        Inl e \<Rightarrow> if e = ValueError \<or> e = TypeError then (Inr (), w) else (Inl e, w)
      | Inr msg \<Rightarrow>
          attempt (jget ''data'' msg msg) w (\<lambda>data. case data of
            JList entries \<Rightarrow>
              attempt (miniticker_array_to_rows entries) w (\<lambda>rows.
              (Inr (), if rows \<noteq> [] then emit_snapshot cs rows w else w))
          | JObj members \<Rightarrow>
              (if map_of members ''e'' = Some (JStr ''kline'')
               then attempt (kline_event_to_candle data) w (\<lambda>candle. (Inr (), emit_candle cs candle w))
               else (Inr (), w))
          | _ \<Rightarrow> (Inr (), w)))"

fun handle_messages :: "'w consumers \<Rightarrow> json res list \<Rightarrow> unit res \<Rightarrow> 'w \<Rightarrow> unit res \<times> 'w" where
  "handle_messages cs [] ending w = (ending, w)"
| "handle_messages cs (raw # raws) ending w =
     (let (r, w1) = handle_message cs raw w in attempt r w1 (\<lambda>_. handle_messages cs raws ending w1))"


section \<open>One connection\<close>

definition gap_fill :: "'w consumers \<Rightarrow> candle list res \<Rightarrow> binance \<times> 'w \<Rightarrow> binance \<times> 'w" where
  "gap_fill cs backfill s =
     (case s of (f, w) \<Rightarrow>
      if bn_backfill_limit f \<le> 0 \<or> bn_symbols f = {} then s
      else case backfill of
          Inl e \<Rightarrow> s
        | Inr candles \<Rightarrow> (f\<lparr>bn_gapfill_count := bn_gapfill_count f + 1\<rparr>, fold (emit_candle cs) candles w))"

text \<open>What a connection attempt meets: the connector, the back-fill, the frames and how the stream ends.\<close>

record session =
  sn_connect :: "unit res"
  sn_backfill :: "candle list res"
  sn_frames :: "json res list"
  sn_ending :: "unit res"

definition connect_once :: "'w consumers \<Rightarrow> session \<Rightarrow> binance \<times> 'w \<Rightarrow> unit res \<times> (binance \<times> 'w)" where
  "connect_once cs n s =
     (case s of (f, w) \<Rightarrow>
      let f1 = f\<lparr>bn_connected := False, bn_connect_count := bn_connect_count f + 1\<rparr> in
      attempt (sn_connect n) (f1, w) (\<lambda>_.
      let (f2, w2) = gap_fill cs (sn_backfill n) (f1\<lparr>bn_socket := True, bn_connected := True\<rparr>, w);
          f3 = (if bn_had_session f2 then f2\<lparr>bn_resubscribe_count := bn_resubscribe_count f2 + 1\<rparr> else f2)\<lparr>bn_had_session := True\<rparr>;
          (r, w3) = handle_messages cs (sn_frames n) (sn_ending n) w2
      in (r, (f3\<lparr>bn_socket := False, bn_connected := False\<rparr>, w3))))"

section \<open>Reconnecting\<close>

definition next_backoff :: "nat \<Rightarrow> pyfloat \<Rightarrow> pyfloat" where
  "next_backoff attempts random =
     (let base = backoff_steps ! min attempts (length backoff_steps - 1)
      in base + random * (base * to_dbl (1 / 4)))"

text \<open>
  \<^verbatim>\<open>_run\<close>, given the connections it will meet and a random number for each; it returns whether it
  gave up (\<open>max_reconnects\<close>). The list ends when the feed is stopped.
\<close>

fun run_feed :: "'w consumers \<Rightarrow> nat \<Rightarrow> (session \<times> pyfloat) list \<Rightarrow> binance \<times> 'w \<Rightarrow> bool \<times> (binance \<times> 'w)" where
  "run_feed cs attempts [] s = (False, s)"
| "run_feed cs attempts ((n, random) # ns) s =
     (case connect_once cs n s of
        (Inr _, s1) \<Rightarrow> run_feed cs 0 ns s1
      | (Inl e, (f, w)) \<Rightarrow>
          (let s1 = (f\<lparr>bn_backoff_history := bn_backoff_history f @ [next_backoff attempts random]\<rparr>, w)
           in if pred_option (\<lambda>n. \<not> int (attempts + 1) > n) (bn_max_reconnects f)
              then run_feed cs (attempts + 1) ns s1 else (True, s1)))"


section \<open>The subscription contract\<close>

text \<open>What a consumer may rely on of any feed, whether or not the call raises.\<close>

locale subscription =
  fixes subscribe :: "string list \<Rightarrow> 'f \<Rightarrow> unit res \<times> 'f"
    and unsubscribe :: "string list \<Rightarrow> 'f \<Rightarrow> unit res \<times> 'f"
    and subs :: "'f \<Rightarrow> string set"
  assumes subscribed: "subs (snd (subscribe ps f)) = subs f \<union> upper ` set ps"
    and unsubscribed: "subs (snd (unsubscribe ps f)) = subs f - upper ` set ps"
begin

text \<open>Subscribing what is missing and dropping the rest leaves exactly what is wanted.\<close>

lemma resubscribed:
  assumes "\<forall>p \<in> wanted \<union> subs f. upper p = p" "set added = wanted - subs f" "set dropped = subs f - wanted"
  shows "subs (snd (unsubscribe dropped (snd (subscribe added f)))) = wanted"
proof -
  have "upper ` (wanted - subs f) = wanted - subs f" "upper ` (subs f - wanted) = subs f - wanted"
    using assms(1) by (force simp: image_iff)+
  then show ?thesis using assms(2,3) by (auto simp: subscribed unsubscribed)
qed

end

interpretation binance_feed: subscription "\<lambda>ps. binance_subscribe send (set ps)" "\<lambda>ps. binance_unsubscribe send (set ps)"
    "\<lambda>s. bn_symbols (fst s)" for send
  by unfold_locales (auto simp: binance_subscribe_def binance_unsubscribe_def Let_def split: prod.split)


section \<open>The backoff schedule\<close>

definition step_seconds :: "nat \<Rightarrow> rat" where
  "step_seconds attempts = (case backoff_steps ! min attempts 5 of Fin q \<Rightarrow> q | _ \<Rightarrow> 0)"

lemma next_backoff_range:
  assumes "in_range 0 1 random"
  shows "in_range (step_seconds attempts) (5 / 4 * step_seconds attempts) (next_backoff attempts random)"
proof -
  have quarter: "to_dbl (1 / 4) = Fin (1 / 4)" using to_dbl_endpoint endpoint_inverse_power [of 2] by simp
  have scaled: "endpoint (of_int n / 4)" if "\<bar>n\<bar> \<le> 2 ^ 53" for n :: int
  proof -
    have eq: "(of_int n * 2 powi - 2 :: rat) = of_int n / 4" by (simp add: power_int_minus)
    have "rnd (of_int n * 2 powi - 2) = of_int n * 2 powi - 2" by (rule rnd_exact [OF that]) simp
    moreover have "(of_int \<bar>n\<bar> :: rat) \<le> 2 ^ 53" using that by (metis of_int_le_iff of_int_numeral of_int_power)
    then have "\<bar>of_int n / 4 :: rat\<bar> \<le> 2 ^ 53 / 4" by simp
    then have "\<bar>of_int n / 4 :: rat\<bar> < 2 ^ 1024" by (rule le_less_trans) simp
    ultimately show ?thesis by (simp only: eq endpoint_def simp_thms)
  qed
  have one: "in_range b (5 / 4 * b) (Fin b + random * (Fin b * Fin (1 / 4)))" if b: "b = of_int n" "0 \<le> n" "n \<le> 100" for b n
  proof -
    have e: "endpoint b" "endpoint (b / 4)" "endpoint (5 / 4 * b)"
      using b scaled [of n] scaled [of "5 * n"] endpoint_of_int [of n] by auto
    have "Fin b * Fin (1 / 4) = Fin (b / 4)" using to_dbl_endpoint [OF e(2)] by simp
    moreover have "in_range 0 (b / 4) (random * Fin (b / 4))"
      by (rule in_range_mult [OF assms, of "b / 4" "b / 4"]) (use b e in \<open>auto simp: in_range_Fin\<close>)
    ultimately show ?thesis
      using in_range_add [of b b "Fin b" 0 "b / 4" "random * Fin (b / 4)" b "5 / 4 * b"] e by (simp add: in_range_Fin)
  qed
  have "\<exists>n. backoff_steps ! min attempts 5 = Fin (of_int n) \<and> 0 \<le> n \<and> n \<le> (100 :: int)"
  proof -
    have "min attempts 5 \<in> {0, 1, 2, 3, 4, 5}" by auto
    moreover have "\<exists>n. backoff_steps ! k = Fin (of_int n) \<and> 0 \<le> n \<and> n \<le> (100 :: int)" if "k \<in> {0, 1, 2, 3, 4, 5}" for k :: nat
    proof -
      have "nth backoff_steps k = Fin (of_int ([1, 2, 5, 10, 20, 30] ! k)) \<and> 0 \<le> [1, 2, 5, 10, 20, 30 :: int] ! k \<and> [1, 2, 5, 10, 20, 30 :: int] ! k \<le> 100"
        using that by (elim insertE emptyE) (simp_all add: backoff_steps_def)
      then show ?thesis by blast
    qed
    ultimately show ?thesis by blast
  qed
  then obtain n :: int where n: "backoff_steps ! min attempts 5 = Fin (of_int n)" "0 \<le> n" "n \<le> 100" by blast
  moreover have "length backoff_steps - 1 = 5" by (simp add: backoff_steps_def)
  ultimately show ?thesis
    using one [of "of_int n" n] by (simp only: next_backoff_def step_seconds_def Let_def quarter pyfloat.case)
qed

text \<open>
  The delays of consecutive failures from the \<open>n\<close>th on: each is the step of its number plus at most a quarter.
\<close>

definition delays_ok :: "nat \<Rightarrow> pyfloat list \<Rightarrow> bool" where
  "delays_ok n ds \<longleftrightarrow> (\<forall>i < length ds. in_range (step_seconds (n + i)) (5 / 4 * step_seconds (n + i)) (ds ! i))"

lemma delays_ok_Cons:
  "delays_ok n (d # ds) \<longleftrightarrow> in_range (step_seconds n) (5 / 4 * step_seconds n) d \<and> delays_ok (Suc n) ds"
  by (auto simp: delays_ok_def nth_Cons split: nat.splits)

lemma connect_once_keeps:
  "bn_max_reconnects (fst (snd (connect_once cs n s))) = bn_max_reconnects (fst s)"
  "bn_backoff_history (fst (snd (connect_once cs n s))) = bn_backoff_history (fst s)"
  by (auto simp: connect_once_def gap_fill_def Let_def attempt_def split: prod.splits sum.splits)

lemma handle_messages_end: "\<exists>e. fst (handle_messages cs raws (Inl e0) w) = Inl e"
proof (induction raws arbitrary: w)
  case (Cons raw raws)
  then show ?case by (cases "handle_message cs raw w"; cases "fst (handle_message cs raw w)") (auto simp: Let_def)
qed simp

definition fails :: "session \<Rightarrow> bool" where
  "fails n \<longleftrightarrow> (\<exists>e. sn_connect n = Inl e \<or> sn_ending n = Inl e)"

lemma connect_once_fails:
  assumes "fails n"
  shows "\<exists>e. fst (connect_once cs n s) = Inl e"
proof (cases "sn_connect n")
  case (Inr u)
  then obtain e0 where "sn_ending n = Inl e0" using assms by (auto simp: fails_def)
  obtain f w where s: "s = (f, w)" by (cases s)
  define g where "g = gap_fill cs (sn_backfill n) (f\<lparr>bn_connect_count := bn_connect_count f + 1, bn_socket := True, bn_connected := True\<rparr>, w)"
  obtain e1 where "fst (handle_messages cs (sn_frames n) (sn_ending n) (snd g)) = Inl e1"
    using handle_messages_end \<open>sn_ending n = Inl e0\<close> by metis
  then show ?thesis using Inr s by (cases g) (auto simp: connect_once_def Let_def g_def [symmetric] split: prod.splits)
qed (simp add: connect_once_def Let_def split: prod.splits)

text \<open>How many of \<open>len\<close> failing connections are tried from attempt \<open>n\<close> on.\<close>

definition tries :: "int option \<Rightarrow> nat \<Rightarrow> nat \<Rightarrow> nat" where
  "tries max_reconnects n len = (case max_reconnects of None \<Rightarrow> len | Some k \<Rightarrow> min len (nat k + 1 - n))"

lemma run_feed_failing:
  assumes "\<forall>(n, random) \<in> set ns. fails n \<and> in_range 0 1 random" "\<forall>k. bn_max_reconnects f = Some k \<longrightarrow> n \<le> nat k"
  shows "\<exists>ds. bn_backoff_history (fst (snd (run_feed cs n ns (f, w)))) = bn_backoff_history f @ ds \<and> delays_ok n ds \<and>
    length ds = tries (bn_max_reconnects f) n (length ns) \<and>
    (fst (run_feed cs n ns (f, w)) \<longleftrightarrow> (\<exists>k. bn_max_reconnects f = Some k \<and> nat k < n + length ns))"
  using assms
proof (induction ns arbitrary: n f w)
  case Nil
  then show ?case by (auto simp: tries_def delays_ok_def split: option.splits)
next
  case (Cons x ns)
  obtain s random where x: "x = (s, random)" by (cases x)
  have fine: "fails s" "in_range 0 1 random" using Cons.prems(1) x by auto
  obtain e f1 w1 where c: "connect_once cs s (f, w) = (Inl e, (f1, w1))"
    using connect_once_fails [OF fine(1), of cs "(f, w)"] by (metis prod.collapse)
  have same: "bn_max_reconnects f1 = bn_max_reconnects f" "bn_backoff_history f1 = bn_backoff_history f"
    using connect_once_keeps [of cs s "(f, w)"] by (simp_all add: c)
  let ?f2 = "f1\<lparr>bn_backoff_history := bn_backoff_history f1 @ [next_backoff n random]\<rparr>"
  note d = next_backoff_range [OF fine(2), of n]
  show ?case
  proof (cases "pred_option (\<lambda>k. \<not> int (n + 1) > k) (bn_max_reconnects f1)")
    case True
    then have bound: "\<forall>k. bn_max_reconnects ?f2 = Some k \<longrightarrow> Suc n \<le> nat k" by auto
    obtain ds where ds: "bn_backoff_history (fst (snd (run_feed cs (Suc n) ns (?f2, w1)))) = bn_backoff_history ?f2 @ ds" "delays_ok (Suc n) ds"
        "length ds = tries (bn_max_reconnects ?f2) (Suc n) (length ns)"
        "fst (run_feed cs (Suc n) ns (?f2, w1)) \<longleftrightarrow> (\<exists>k. bn_max_reconnects ?f2 = Some k \<and> nat k < Suc n + length ns)"
      using Cons.IH [OF _ bound, of w1] Cons.prems(1) by auto
    have run: "run_feed cs n (x # ns) (f, w) = run_feed cs (Suc n) ns (?f2, w1)" using True by (simp add: x c Let_def)
    have "length (next_backoff n random # ds) = tries (bn_max_reconnects f) n (length (x # ns))"
    proof (cases "bn_max_reconnects f")
      case (Some k)
      then have "Suc (nat k) - n = Suc (nat k - n)" using bound same by (intro Suc_diff_le) auto
      then show ?thesis using ds(3) Some same by (simp add: tries_def)
    qed (use ds(3) same in \<open>simp add: tries_def\<close>)
    then show ?thesis
      using ds(1,2,4) d same by (intro exI [of _ "next_backoff n random # ds"]) (simp add: run delays_ok_Cons)
  next
    case False
    then obtain k where "bn_max_reconnects f = Some k" "k < int (n + 1)" using same(1) by (cases "bn_max_reconnects f") auto
    then have k: "bn_max_reconnects f = Some k" "nat k = n" using Cons.prems(2) by auto
    have run: "run_feed cs n (x # ns) (f, w) = (True, (?f2, w1))" using False by (simp add: x c Let_def)
    show ?thesis
      using k d same by (intro exI [of _ "[next_backoff n random]"]) (simp add: run delays_ok_def tries_def)
  qed
qed

text \<open>
  C12: the backoff schedule. While every connection fails, whether refused or broken off, the delays
  recorded are those of the schedule in order (1, 2, 5, 10, 20 and then 30 seconds), each stretched by at most a
  quarter; the feed gives up exactly when the failures exceed \<open>max_reconnects\<close>, after one more than that many
  attempts, and never when no limit is set.
\<close>

theorem backoff_schedule:
  assumes "\<forall>(n, random) \<in> set ns. fails n \<and> in_range 0 1 random"
  shows "\<exists>ds. bn_backoff_history (fst (snd (run_feed cs 0 ns (f, w)))) = bn_backoff_history f @ ds \<and> delays_ok 0 ds \<and>
    length ds = tries (bn_max_reconnects f) 0 (length ns) \<and>
    (fst (run_feed cs 0 ns (f, w)) \<longleftrightarrow> (\<exists>k. bn_max_reconnects f = Some k \<and> nat k < length ns))"
  using run_feed_failing [OF assms, of f 0 cs w] by simp

definition refused :: session where
  "refused = \<lparr>sn_connect = Inl (BackendError ''refused''), sn_backfill = Inr [], sn_frames = [], sn_ending = Inr ()\<rparr>"

theorem backoff_schedule_witness:
  "length (bn_backoff_history (fst (snd (run_feed consumers_new 0 (replicate 9 (refused, Fin 0))
     (binance_new [''btcusdt''] ''wss://x'' ''1m'' 5 (Some 3), ()))))) = 4"
proof -
  have "\<forall>(n, random) \<in> set (replicate 9 (refused, Fin 0)). fails n \<and> in_range 0 1 random"
    by (auto simp: fails_def refused_def in_range_Fin endpoints)
  from backoff_schedule [OF this, of consumers_new "binance_new [''btcusdt''] ''wss://x'' ''1m'' 5 (Some 3)" "()"] show ?thesis
    by (auto simp: binance_new_def tries_def)
qed

end
