(* ===== verification/Link.thy ===== *)
theory Link
  imports Feed
begin

text \<open>
  The Binance connection as a step relation: the URL is computed before the connector is awaited, so calls of
  \<^verbatim>\<open>subscribe\<close> and \<^verbatim>\<open>unsubscribe\<close> can come between (\<^verbatim>\<open>_connect_once\<close>,
  \<^verbatim>\<open>subscribe\<close>, \<^verbatim>\<open>unsubscribe\<close> of \<^verbatim>\<open>src/orvixa/feeds/binance.py\<close>). The exchange is a state
  \<open>'w\<close> with the streams it sends on the socket; that a control frame adds and removes streams is a hypothesis.
\<close>

section \<open>Steps\<close>

definition url_streams :: "binance \<Rightarrow> string set" where
  "url_streams f = insert ''!miniTicker@arr'' (set (streams_for f (sorted_list_of_set (bn_symbols f))))"

text \<open>\<^verbatim>\<open>_connect_once\<close> up to the await of the connector, and what follows when it returns.\<close>

definition connect_begin :: "binance \<Rightarrow> string set \<times> binance" where
  "connect_begin f = (url_streams f, f\<lparr>bn_connected := False, bn_connect_count := bn_connect_count f + 1\<rparr>)"

definition connect_opened :: "binance \<Rightarrow> binance" where
  "connect_opened f = f\<lparr>bn_socket := True, bn_connected := True\<rparr>"

definition connect_closed :: "binance \<Rightarrow> binance" where
  "connect_closed f = f\<lparr>bn_socket := False, bn_connected := False\<rparr>"

text \<open>
  The feed, the streams of the URL while the connector is awaited, and the exchange.
\<close>

record 'w link =
  lk_feed :: binance
  lk_pending :: "string set option"
  lk_exchange :: 'w

text \<open>A step with the result of the call it makes.\<close>

inductive link_step ::
  "(frame \<Rightarrow> 'w \<Rightarrow> unit res \<times> 'w) \<Rightarrow> ('w \<Rightarrow> string set) \<Rightarrow> 'w link \<Rightarrow> unit res \<Rightarrow> 'w link \<Rightarrow> bool"
  for send active where
  connecting: "\<not> bn_socket f \<Longrightarrow> connect_begin f = (S, f') \<Longrightarrow>
    link_step send active \<lparr>lk_feed = f, lk_pending = None, lk_exchange = w\<rparr> (Inr ()) \<lparr>lk_feed = f', lk_pending = Some S, lk_exchange = w\<rparr>"
| opened: "active w' = S \<Longrightarrow>
    link_step send active \<lparr>lk_feed = f, lk_pending = Some S, lk_exchange = w\<rparr> (Inr ())
      \<lparr>lk_feed = connect_opened f, lk_pending = None, lk_exchange = w'\<rparr>"
| refusing: "link_step send active \<lparr>lk_feed = f, lk_pending = Some S, lk_exchange = w\<rparr> (Inr ()) \<lparr>lk_feed = f, lk_pending = None, lk_exchange = w\<rparr>"
| closed: "bn_socket f \<Longrightarrow>
    link_step send active \<lparr>lk_feed = f, lk_pending = None, lk_exchange = w\<rparr> (Inr ())
      \<lparr>lk_feed = connect_closed f, lk_pending = None, lk_exchange = w'\<rparr>"
| subscribing: "finite S \<Longrightarrow> binance_subscribe send S (f, w) = (r, (f', w')) \<Longrightarrow>
    link_step send active \<lparr>lk_feed = f, lk_pending = p, lk_exchange = w\<rparr> r \<lparr>lk_feed = f', lk_pending = p, lk_exchange = w'\<rparr>"
| unsubscribing: "finite S \<Longrightarrow> binance_unsubscribe send S (f, w) = (r, (f', w')) \<Longrightarrow>
    link_step send active \<lparr>lk_feed = f, lk_pending = p, lk_exchange = w\<rparr> r \<lparr>lk_feed = f', lk_pending = p, lk_exchange = w'\<rparr>"

inductive_cases link_stepE: "link_step send active l r l'"

definition link_new :: "binance \<Rightarrow> 'w \<Rightarrow> 'w link" where
  "link_new f w = \<lparr>lk_feed = f, lk_pending = None, lk_exchange = w\<rparr>"

text \<open>Runs in which no control frame fails and the subscriptions do not change while the connector is awaited.\<close>

definition undisturbed :: "'w link \<Rightarrow> 'w link \<Rightarrow> bool" where
  "undisturbed l l' \<longleftrightarrow>
     (lk_pending l \<noteq> None \<and> lk_pending l' \<noteq> None \<longrightarrow> bn_symbols (lk_feed l') = bn_symbols (lk_feed l))"

inductive link_run ::
  "(frame \<Rightarrow> 'w \<Rightarrow> unit res \<times> 'w) \<Rightarrow> ('w \<Rightarrow> string set) \<Rightarrow> 'w link \<Rightarrow> 'w link \<Rightarrow> bool"
  for send active l where
  start: "link_run send active l l"
| step: "link_run send active l l1 \<Longrightarrow> link_step send active l1 (Inr ()) l2 \<Longrightarrow> undisturbed l1 l2 \<Longrightarrow> link_run send active l l2"


section \<open>The streams of an open socket\<close>

text \<open>What the exchange does with a control frame that was sent.\<close>

definition obeys :: "(frame \<Rightarrow> 'w \<Rightarrow> unit res \<times> 'w) \<Rightarrow> ('w \<Rightarrow> string set) \<Rightarrow> bool" where
  "obeys send active \<longleftrightarrow>
     (\<forall>names w w'. (send (True, names) w = (Inr (), w') \<longrightarrow> active w' = active w \<union> set names) \<and>
                   (send (False, names) w = (Inr (), w') \<longrightarrow> active w' = active w - set names))"

definition in_step :: "('w \<Rightarrow> string set) \<Rightarrow> 'w link \<Rightarrow> bool" where
  "in_step active l \<longleftrightarrow>
     finite (bn_symbols (lk_feed l)) \<and> (\<forall>s \<in> bn_symbols (lk_feed l). upper s = s) \<and>
     (\<forall>S. lk_pending l = Some S \<longrightarrow> \<not> bn_socket (lk_feed l) \<and> S = url_streams (lk_feed l)) \<and>
     (bn_socket (lk_feed l) \<longrightarrow> active (lk_exchange l) = url_streams (lk_feed l))"

lemma set_streams_for: "finite S \<Longrightarrow> set (streams_for f (sorted_list_of_set S)) = (\<lambda>s. lower s @ ''@kline_'' @ bn_interval f) ` S"
  by (simp add: streams_for_def to_stream_symbol_def)

lemma stream_name_inj: "upper s = s \<Longrightarrow> upper t = t \<Longrightarrow> lower s @ x = lower t @ x \<Longrightarrow> s = t"
  by (metis append_same_eq upper_lower)

lemma mini_no_kline: "''!miniTicker@arr'' \<noteq> lower s @ ''@kline_'' @ i"
proof
  assume "''!miniTicker@arr'' = lower s @ ''@kline_'' @ i"
  then have "CHR ''_'' \<in> set ''!miniTicker@arr''" by (metis in_set_conv_decomp append.assoc append_Cons append_Nil Un_iff list.set_intros set_append)
  then show False by simp
qed

lemma url_streams_add:
  "finite (bn_symbols f) \<Longrightarrow> finite S \<Longrightarrow>
   url_streams (f\<lparr>bn_symbols := bn_symbols f \<union> S\<rparr>) = url_streams f \<union> set (streams_for f (sorted_list_of_set S))"
  by (auto simp: url_streams_def set_streams_for streams_for_def to_stream_symbol_def)

lemma url_streams_drop:
  assumes "finite (bn_symbols f)" "S \<subseteq> bn_symbols f" "\<forall>s \<in> bn_symbols f. upper s = s"
  shows "url_streams (f\<lparr>bn_symbols := bn_symbols f - S\<rparr>) = url_streams f - set (streams_for f (sorted_list_of_set S))"
proof -
  let ?n = "\<lambda>s. lower s @ ''@kline_'' @ bn_interval f"
  have "inj_on ?n (bn_symbols f)" using assms(3) stream_name_inj by (intro inj_onI) auto
  then have "?n ` (bn_symbols f - S) = ?n ` bn_symbols f - ?n ` S" using inj_on_image_set_diff [of ?n "bn_symbols f" "bn_symbols f" S] assms(2) by auto
  moreover have "''!miniTicker@arr'' \<notin> ?n ` S" using mini_no_kline by auto
  moreover have "finite S" using assms finite_subset by blast
  moreover have "set (streams_for (f\<lparr>bn_symbols := X\<rparr>) ys) = ?n ` set ys" for X ys by (simp add: streams_for_def to_stream_symbol_def)
  ultimately show ?thesis
    using assms(1) by (auto simp: url_streams_def set_streams_for)
qed

lemma subscribe_ok:
  assumes "binance_subscribe send S (f, w) = (Inr (), (f', w'))" "obeys send active" "finite S" "finite (bn_symbols f)"
  shows "\<exists>N. finite N \<and> (\<forall>s \<in> N. upper s = s) \<and> f' = f\<lparr>bn_symbols := bn_symbols f \<union> N\<rparr> \<and>
    (active w = url_streams f \<and> bn_socket f \<longrightarrow> active w' = url_streams f')"
proof -
  let ?N = "upper ` S - bn_symbols f"
  have f': "f' = f\<lparr>bn_symbols := bn_symbols f \<union> ?N\<rparr>"
  proof (cases "?N = {}")
    case True
    then have "f' = f" using assms(1) by (simp add: binance_subscribe_def Let_def)
    then show ?thesis by (simp only: True) simp
  qed (use assms(1) in \<open>auto simp: binance_subscribe_def Let_def split: if_splits prod.splits\<close>)
  have "active w' = url_streams f'" if w: "active w = url_streams f" "bn_socket f"
  proof (cases "?N = {}")
    case True
    then show ?thesis using assms(1) w f' by (auto simp: binance_subscribe_def Let_def)
  next
    case False
    then have "send (True, streams_for f' (sorted_list_of_set ?N)) w = (Inr (), w')"
      using assms(1) w f' by (auto simp: binance_subscribe_def send_sub_def Let_def split: prod.splits)
    then have "active w' = url_streams f \<union> set (streams_for f' (sorted_list_of_set ?N))" using assms(2) w by (auto simp: obeys_def)
    moreover have "streams_for f' = streams_for f" by (rule ext) (simp add: f' streams_for_def)
    ultimately show ?thesis using url_streams_add [of f ?N] assms(3,4) f' by simp
  qed
  then show ?thesis using f' assms(3) by (intro exI [of _ ?N]) auto
qed

lemma unsubscribe_ok:
  assumes "binance_unsubscribe send S (f, w) = (Inr (), (f', w'))" "obeys send active" "finite (bn_symbols f)"
    "\<forall>s \<in> bn_symbols f. upper s = s"
  shows "\<exists>N. N \<subseteq> bn_symbols f \<and> f' = f\<lparr>bn_symbols := bn_symbols f - N\<rparr> \<and>
    (active w = url_streams f \<and> bn_socket f \<longrightarrow> active w' = url_streams f')"
proof -
  let ?N = "upper ` S \<inter> bn_symbols f"
  have f': "f' = f\<lparr>bn_symbols := bn_symbols f - ?N\<rparr>"
  proof (cases "?N = {}")
    case True
    then have "f' = f" using assms(1) by (simp add: binance_unsubscribe_def Let_def)
    then show ?thesis by (simp only: True) simp
  qed (use assms(1) in \<open>auto simp: binance_unsubscribe_def Let_def split: if_splits prod.splits\<close>)
  have "active w' = url_streams f'" if w: "active w = url_streams f" "bn_socket f"
  proof (cases "?N = {}")
    case True
    then show ?thesis using assms(1) w f' by (auto simp: binance_unsubscribe_def Let_def)
  next
    case False
    then have "send (False, streams_for f' (sorted_list_of_set ?N)) w = (Inr (), w')"
      using assms(1) w f' by (auto simp: binance_unsubscribe_def send_sub_def Let_def split: prod.splits)
    then have "active w' = url_streams f - set (streams_for f' (sorted_list_of_set ?N))" using assms(2) w by (auto simp: obeys_def)
    moreover have "streams_for f' = streams_for f" by (rule ext) (simp add: f' streams_for_def)
    ultimately show ?thesis using url_streams_drop [of f ?N] assms(3,4) f' by simp
  qed
  then show ?thesis using f' by (intro exI [of _ ?N]) auto
qed

lemma in_step_kept:
  assumes "link_step send active l (Inr ()) l'" "undisturbed l l'" "obeys send active" "in_step active l"
  shows "in_step active l'"
  using assms(1)
proof cases
  case (subscribing S f w f' w' p)
  have fin: "finite (bn_symbols f)" using assms(4) subscribing by (simp add: in_step_def)
  obtain N where N: "finite N" "\<forall>s \<in> N. upper s = s" "f' = f\<lparr>bn_symbols := bn_symbols f \<union> N\<rparr>"
    "active w = url_streams f \<and> bn_socket f \<longrightarrow> active w' = url_streams f'"
    using subscribe_ok [OF subscribing(4) assms(3) subscribing(3) fin] by auto
  show ?thesis using assms(2,4) subscribing(1,2) N by (cases p) (auto simp: in_step_def undisturbed_def)
next
  case (unsubscribing S f w f' w' p)
  have ok: "finite (bn_symbols f)" "\<forall>s \<in> bn_symbols f. upper s = s" using assms(4) unsubscribing by (simp_all add: in_step_def)
  obtain N where N: "N \<subseteq> bn_symbols f" "f' = f\<lparr>bn_symbols := bn_symbols f - N\<rparr>"
    "active w = url_streams f \<and> bn_socket f \<longrightarrow> active w' = url_streams f'"
    using unsubscribe_ok [OF unsubscribing(4) assms(3) ok] by auto
  show ?thesis using assms(2,4) unsubscribing(1,2) N by (cases p) (auto simp: in_step_def undisturbed_def)
qed (use assms(4) in \<open>auto simp: in_step_def connect_begin_def connect_opened_def connect_closed_def url_streams_def streams_for_def\<close>)

lemma url_streams_of_new:
  "in_step active (link_new (binance_new symbols ws_base interval limit max_reconnects) w)"
  by (auto simp: in_step_def link_new_def binance_new_def)

text \<open>
  C23: the socket follows the subscriptions. In every run from a new feed, through any number of connections, losses
  and calls of \<^verbatim>\<open>subscribe\<close> and \<^verbatim>\<open>unsubscribe\<close>, as long as control frames are delivered and the
  subscriptions do not change while a connector is awaited, the exchange sends on an open socket exactly the candle
  streams of the subscribed pairs and the whole-market stream.
\<close>

theorem socket_follows_subscriptions:
  assumes "obeys send active" "link_run send active (link_new (binance_new symbols ws_base interval limit max_reconnects) w) l"
    "bn_socket (lk_feed l)"
  shows "active (lk_exchange l) = insert ''!miniTicker@arr'' ((\<lambda>s. lower s @ ''@kline_'' @ bn_interval (lk_feed l)) ` bn_symbols (lk_feed l))"
proof -
  have "in_step active l" using assms(2)
    by induction (auto intro: in_step_kept [OF _ _ assms(1)] url_streams_of_new)
  then show ?thesis using assms(3) by (simp add: in_step_def url_streams_def set_streams_for)
qed

text \<open>An exchange that keeps the set of its streams.\<close>

definition book :: "frame \<Rightarrow> string set \<Rightarrow> unit res \<times> string set" where
  "book m w = (Inr (), if fst m then w \<union> set (snd m) else w - set (snd m))"

lemma book_obeys: "obeys book id"
  by (auto simp: obeys_def book_def)

lemma case_examples:
  "upper ''btcusdt'' = ''BTCUSDT''" "upper ''ethusdt'' = ''ETHUSDT''" "lower ''ETHUSDT'' = ''ethusdt''"
  "upper ''BTCUSDT'' = ''BTCUSDT''" "upper ''ETHUSDT'' = ''ETHUSDT''"
  by code_simp+

theorem socket_follows_subscriptions_witness:
  "\<exists>l. link_run book id (link_new (binance_new [''btcusdt''] ''wss://x'' ''1m'' 5 None) {}) l \<and>
    bn_symbols (lk_feed l) = {''BTCUSDT'', ''ETHUSDT''} \<and> ''ethusdt@kline_1m'' \<in> lk_exchange l"
proof -
  let ?f = "binance_new [''btcusdt''] ''wss://x'' ''1m'' 5 None"
  let ?l0 = "link_new ?f {} :: string set link"
  let ?f1 = "snd (connect_begin ?f)" and ?S = "url_streams ?f"
  let ?f2 = "connect_opened ?f1"
  let ?f3 = "?f2\<lparr>bn_symbols := {''BTCUSDT'', ''ETHUSDT''}\<rparr>"
  have syms: "bn_symbols ?f2 = {''BTCUSDT''}" "bn_socket ?f2" "\<not> bn_socket ?f" "bn_interval ?f2 = ''1m''"
    by (simp_all add: connect_opened_def connect_begin_def binance_new_def case_examples)
  have sub: "\<exists>w'. binance_subscribe book {''ethusdt''} (?f2, ?S) = (Inr (), (?f3, w'))"
    using syms by (auto simp: binance_subscribe_def send_sub_def book_def case_examples Let_def insert_commute)
  then obtain w' where w': "binance_subscribe book {''ethusdt''} (?f2, ?S) = (Inr (), (?f3, w'))" by blast
  let ?l1 = "\<lparr>lk_feed = ?f1, lk_pending = Some ?S, lk_exchange = {}\<rparr> :: string set link"
  let ?l2 = "\<lparr>lk_feed = ?f2, lk_pending = None, lk_exchange = ?S\<rparr>"
  let ?l3 = "\<lparr>lk_feed = ?f3, lk_pending = None, lk_exchange = w'\<rparr>"
  have "link_step book id ?l0 (Inr ()) ?l1"
    using link_step.connecting [of ?f ?S ?f1 book id "{}"] syms by (simp add: link_new_def connect_begin_def)
  then have "link_run book id ?l0 ?l1" by (rule link_run.step [OF link_run.start]) (simp add: undisturbed_def link_new_def)
  moreover have "link_step book id ?l1 (Inr ()) ?l2" by (rule link_step.opened) simp
  ultimately have "link_run book id ?l0 ?l2" by (rule link_run.step) (simp add: undisturbed_def)
  moreover have "link_step book id ?l2 (Inr ()) ?l3" by (rule link_step.subscribing [OF _ w']) simp
  ultimately have run: "link_run book id ?l0 ?l3" by (rule link_run.step) (simp add: undisturbed_def)
  have "lk_exchange ?l3 = insert ''!miniTicker@arr'' ((\<lambda>s. lower s @ ''@kline_'' @ bn_interval (lk_feed ?l3)) ` bn_symbols (lk_feed ?l3))"
    using socket_follows_subscriptions [OF book_obeys run] syms(2) by simp
  then have "''ethusdt@kline_1m'' \<in> lk_exchange ?l3" using syms(4) by (simp add: case_examples)
  then show ?thesis using run by (intro exI [of _ ?l3]) simp
qed

text \<open>
  A subscription made while the connector is awaited is lost. The call succeeds and is recorded, but nothing is
  sent, the URL of the socket being opened lacks the stream, and once the socket is open repeating the call has no
  effect.
\<close>

lemma subscription_while_connecting_lost:
  assumes "\<not> bn_socket f" "upper p \<notin> bn_symbols f" "finite (bn_symbols f)" "\<forall>s \<in> bn_symbols f. upper s = s"
    "connect_begin f = (S, f1)" "binance_subscribe send {p} (f1, w) = (r, (f2, w2))"
  shows "r = Inr () \<and> w2 = w \<and> upper p \<in> bn_symbols f2 \<and> lower (upper p) @ ''@kline_'' @ bn_interval f2 \<notin> S \<and>
    binance_subscribe send {p} (connect_opened f2, w3) = (Inr (), (connect_opened f2, w3))"
proof -
  have f: "f1 = f\<lparr>bn_connected := False, bn_connect_count := bn_connect_count f + 1\<rparr>" "S = url_streams f"
    using assms(5) by (simp_all add: connect_begin_def)
  have sub: "r = Inr ()" "w2 = w" "f2 = f1\<lparr>bn_symbols := bn_symbols f1 \<union> {upper p}\<rparr>"
    using assms(1,2,6) f(1) by (auto simp: binance_subscribe_def Let_def)
  have "lower (upper p) @ ''@kline_'' @ bn_interval f \<noteq> lower s @ ''@kline_'' @ bn_interval f" if "s \<in> bn_symbols f" for s
    using that assms(2,4) stream_name_inj [of "upper p" s] by auto
  then have "lower (upper p) @ ''@kline_'' @ bn_interval f \<notin> S"
    using mini_no_kline [THEN not_sym] assms(3) by (auto simp: f(2) url_streams_def set_streams_for simp del: append.simps append_Cons)
  then show ?thesis using sub f(1) by (simp add: binance_subscribe_def connect_opened_def)
qed

lemma subscription_while_connecting_lost_witness:
  "fst (binance_subscribe book {''ethusdt''} (snd (connect_begin (binance_new [''btcusdt''] ''wss://x'' ''1m'' 5 None)), {})) = Inr () \<and>
   ''ethusdt@kline_1m'' \<notin> fst (connect_begin (binance_new [''btcusdt''] ''wss://x'' ''1m'' 5 None))"
proof -
  let ?f = "binance_new [''btcusdt''] ''wss://x'' ''1m'' 5 None"
  obtain S f1 where c: "connect_begin ?f = (S, f1)" by (cases "connect_begin ?f")
  obtain r f2 w2 where s: "binance_subscribe book {''ethusdt''} (f1, {}) = (r, (f2, w2))"
    by (metis prod.collapse)
  have "bn_interval f2 = ''1m''"
    using s c by (auto simp: connect_begin_def binance_new_def binance_subscribe_def Let_def split: if_splits prod.splits)
  then show ?thesis
    using subscription_while_connecting_lost [OF _ _ _ _ c s] c s
    by (auto simp: binance_new_def case_examples)
qed

end
