(* ===== verification/Subscriptions.thy ===== *)
theory Subscriptions
  imports Tiering Feed
begin

text \<open>
  The symbol manager with its feed (\<^verbatim>\<open>src/orvixa/symbols/manager.py\<close> over
  \<^verbatim>\<open>src/orvixa/feeds/binance.py\<close>): a refresh cycle whose collaborators are a database \<open>'d\<close> behind the
  repositories and the Binance feed. What the cycle promises is one assignment: the feed streams the watchlist.
\<close>

section \<open>The collaborators of a manager with a feed\<close>

definition on_fst :: "('d \<Rightarrow> 'a \<times> 'd) \<Rightarrow> 'd \<times> 'f \<Rightarrow> 'a \<times> ('d \<times> 'f)" where
  "on_fst g s = (case g (fst s) of (r, d) \<Rightarrow> (r, (d, snd s)))"

definition on_snd :: "('f \<Rightarrow> 'a \<times> 'f) \<Rightarrow> 'd \<times> 'f \<Rightarrow> 'a \<times> ('d \<times> 'f)" where
  "on_snd g s = (case g (snd s) of (r, f) \<Rightarrow> (r, (fst s, f)))"

lemma snd_on_fst [simp]: "snd (snd (on_fst g s)) = snd s"
  by (simp add: on_fst_def split: prod.splits)

definition with_feed ::
  "'d services \<Rightarrow> (frame \<Rightarrow> 'n \<Rightarrow> unit res \<times> 'n) \<Rightarrow> ('d \<times> (binance \<times> 'n)) services" where
  "with_feed sv send =
     \<lparr>sv_now = (\<lambda>s. sv_now sv (fst s)), sv_upsert = (\<lambda>row. on_fst (sv_upsert sv row)),
      sv_update_ranking = (\<lambda>base rank metrics. on_fst (sv_update_ranking sv base rank metrics)),
      sv_get_id = (\<lambda>base. on_fst (sv_get_id sv base)),
      sv_tier_change = map_option (\<lambda>put row. on_fst (put row)) (sv_tier_change sv),
      sv_metrics = map_option (\<lambda>put rows. on_fst (put rows)) (sv_metrics sv),
      sv_breadth = map_option (\<lambda>put row. on_fst (put row)) (sv_breadth sv),
      sv_subscribe = (\<lambda>pairs. on_snd (binance_subscribe send pairs)),
      sv_unsubscribe = (\<lambda>pairs. on_snd (binance_unsubscribe send pairs)),
      sv_has_feed = True\<rparr>"


section \<open>Persistence leaves the feed alone\<close>

named_theorems feed_kept "calls of the repositories do not touch the feed"

lemma attempt_kept:
  "snd s = x \<Longrightarrow> (\<And>v. snd (snd (k v)) = x) \<Longrightarrow> snd (snd (attempt r s k)) = x"
  by (cases r) auto

lemma bind_kept:
  assumes "snd (snd p) = x" "\<And>v w. snd w = x \<Longrightarrow> snd (snd (k v w)) = x"
  shows "snd (snd (let (r, w1) = p in attempt r w1 (\<lambda>v. k v w1))) = x"
  using assms by (auto simp: attempt_def split: prod.splits sum.splits)

lemma calls_feed [feed_kept]:
  "snd (snd (sv_upsert (with_feed sv send) row w)) = snd w"
  "snd (snd (sv_update_ranking (with_feed sv send) base rank metrics w)) = snd w"
  "snd (snd (sv_get_id (with_feed sv send) base w)) = snd w"
  by (simp_all add: with_feed_def)

lemma persist_feed [feed_kept]: "snd (snd (persist (with_feed sv send) s w)) = snd w"
  unfolding persist_def by (rule bind_kept) (simp_all add: feed_kept)

lemma persist_all_feed [feed_kept]: "snd (snd (persist_all (with_feed sv send) ss w)) = snd w"
proof (induction ss arbitrary: w)
  case (Cons s ss)
  show ?case unfolding persist_all.simps by (rule bind_kept) (simp_all add: feed_kept Cons.IH)
qed simp

lemma log_changes_feed:
  assumes "\<And>row w. snd (snd (put row w)) = snd w"
  shows "snd (snd (log_changes (with_feed sv send) put ts cs w)) = snd w"
proof (induction cs arbitrary: w)
  case (Cons c cs)
  show ?case unfolding log_changes.simps
  proof (rule bind_kept)
    fix found :: "int option" and w1 :: "'a \<times> binance \<times> 'b"
    assume "snd w1 = snd w"
    moreover have "snd (snd (let (r2, w2) = put row w1 in attempt r2 w2 (\<lambda>_. log_changes (with_feed sv send) put ts cs w2))) = snd w1" for row
      by (rule bind_kept) (simp_all add: assms Cons.IH)
    ultimately show "snd (snd (case found of None \<Rightarrow> log_changes (with_feed sv send) put ts cs w1
      | Some sid \<Rightarrow> let (r2, w2) = put \<lparr>tc_symbol_id = sid, tc_ts = ts, tc_from_tier = ch_from_tier c, tc_to_tier = ch_to_tier c,
            tc_reason = ch_reason c\<rparr> w1 in attempt r2 w2 (\<lambda>_. log_changes (with_feed sv send) put ts cs w2))) = snd w"
      using Cons.IH by (simp split: option.split)
  qed (simp add: feed_kept)
qed simp

lemma persist_tier_changes_feed [feed_kept]: "snd (snd (persist_tier_changes (with_feed sv send) cs w)) = snd w"
proof (cases "sv_tier_change sv")
  case (Some put)
  then have "sv_tier_change (with_feed sv send) = Some (\<lambda>row. on_fst (put row))" by (simp add: with_feed_def)
  then show ?thesis by (simp add: persist_tier_changes_def log_changes_feed)
qed (simp add: persist_tier_changes_def with_feed_def)

lemma metrics_rows_feed: "snd (snd (metrics_rows (with_feed sv send) ts ss w)) = snd w"
proof (induction ss arbitrary: w)
  case (Cons s ss)
  show ?case unfolding metrics_rows.simps
    by (rule bind_kept, simp add: feed_kept, rule bind_kept) (simp_all add: Cons.IH)
qed simp

lemma persist_metrics_feed [feed_kept]: "snd (snd (persist_metrics_snapshots (with_feed sv send) ss w)) = snd w"
proof (cases "sv_metrics sv")
  case (Some put)
  then have m: "sv_metrics (with_feed sv send) = Some (\<lambda>rows. on_fst (put rows))" by (simp add: with_feed_def)
  show ?thesis unfolding persist_metrics_snapshots_def m option.case
    by (rule bind_kept, rule metrics_rows_feed, rule bind_kept) simp_all
qed (simp add: persist_metrics_snapshots_def with_feed_def)

lemma persist_breadth_feed [feed_kept]: "snd (snd (persist_breadth_snapshot (with_feed sv send) m w)) = snd w"
  by (auto simp: persist_breadth_snapshot_def with_feed_def attempt_def on_fst_def split: option.splits sum.splits prod.splits)



section \<open>The feed streams the watchlist\<close>

lemma subscribe_world:
  assumes "sv_subscribe (with_feed sv send) pairs w = (r, w1)" "finite pairs"
  shows "bn_symbols (fst (snd w1)) = bn_symbols (fst (snd w)) \<union> upper ` pairs"
  using assms binance_feed.subscribed [of send "sorted_list_of_set pairs" "snd w"]
  by (auto simp: with_feed_def on_snd_def split: prod.splits)

lemma unsubscribe_world:
  assumes "sv_unsubscribe (with_feed sv send) pairs w = (r, w1)" "finite pairs"
  shows "bn_symbols (fst (snd w1)) = bn_symbols (fst (snd w)) - upper ` pairs"
  using assms binance_feed.unsubscribed [of send "sorted_list_of_set pairs" "snd w"]
  by (auto simp: with_feed_def on_snd_def split: prod.splits)

lemma upper_image: "\<forall>p \<in> A. upper p = p \<Longrightarrow> upper ` A = A"
  by force

lemma finite_watchlist [simp]: "finite (watchlist_pairs states)"
  by (simp add: watchlist_pairs_def)

lemma sync_feed_assigns:
  assumes "sync_feed (with_feed sv send) (m, w) = (Inr (), (m', w'))" "finite (mg_subscribed m)"
    "mg_subscribed m = bn_symbols (fst (snd w))" "\<forall>p \<in> mg_subscribed m \<union> watchlist_pairs (mg_states m). upper p = p"
  shows "m' = m\<lparr>mg_subscribed := watchlist_pairs (mg_states m)\<rparr> \<and> bn_symbols (fst (snd w')) = watchlist_pairs (mg_states m)"
proof -
  let ?want = "watchlist_pairs (mg_states m)"
  let ?add = "?want - mg_subscribed m" and ?drop = "mg_subscribed m - ?want"
  let ?sv = "with_feed sv send"
  obtain r1 w1 where s: "(if ?add \<noteq> {} then sv_subscribe ?sv ?add w else (Inr (), w)) = (r1, w1)" by (metis prod.collapse)
  obtain r2 w2 where u: "(if ?drop \<noteq> {} then sv_unsubscribe ?sv ?drop w1 else (Inr (), w1)) = (r2, w2)" by (metis prod.collapse)
  have up: "upper ` ?add = ?add" "upper ` ?drop = ?drop" using assms(4) by (auto intro!: upper_image)
  have "bn_symbols (fst (snd w1)) = bn_symbols (fst (snd w)) \<union> ?add"
  proof (cases "?add = {}")
    case True
    then have "w1 = w" using s by simp
    then show ?thesis by (simp only: True) simp
  next
    case False
    then show ?thesis using subscribe_world [of sv send ?add w r1 w1] s up by simp
  qed
  moreover have "bn_symbols (fst (snd w2)) = bn_symbols (fst (snd w1)) - ?drop"
  proof (cases "?drop = {}")
    case True
    then have "w2 = w1" using u by simp
    then show ?thesis by (simp only: True) simp
  next
    case False
    then show ?thesis using unsubscribe_world [of sv send ?drop w1 r2 w2] u up assms(2) by simp
  qed
  moreover have "(Inr (), (m', w')) = attempt r1 (m, w1) (\<lambda>_. attempt r2 (m, w2) (\<lambda>_. (Inr (), (m\<lparr>mg_subscribed := ?want\<rparr>, w2))))"
    using assms(1) s u by (simp add: sync_feed_def Let_def)
  ultimately show ?thesis using assms(3) by (cases r1; cases r2) auto
qed

lemma attempt_Inr: "attempt r s k = (Inr y, s') \<longleftrightarrow> (\<exists>v. r = Inr v \<and> k v = (Inr y, s'))"
  by (cases r) auto

lemma retier_subscribed: "mg_subscribed (snd (retier symbols tickers m)) = mg_subscribed m"
  by (simp add: retier_def attempt_def Let_def split: sum.split prod.split)

text \<open>
  C1: a refresh cycle makes the feed stream the watchlist. The cycle, with all its ranking, listing, spike and
  database steps, refines one assignment: if the manager's record of the subscriptions agrees with the feed before, then
  after a cycle that does not raise both are exactly the tradable pairs of tier 0 and 1. The pairs are upper case, as the
  exchange spells them.
\<close>

theorem watchlist_is_streamed:
  assumes "refresh_universe (with_feed sv send) exchange tickers (m, (d, (f, n))) = (Inr changes, (m', (d', (f', n'))))"
    "mg_subscribed m = bn_symbols f" "finite (bn_symbols f)"
    "\<forall>p \<in> bn_symbols f \<union> watchlist_pairs (mg_states m'). upper p = p"
  shows "bn_symbols f' = watchlist_pairs (mg_states m') \<and> mg_subscribed m' = bn_symbols f'"
proof -
  let ?sv = "with_feed sv send" and ?w = "(d, (f, n))"
  obtain symbols where e1: "exchange = Inr symbols" using assms(1) by (cases exchange) (auto simp: refresh_universe_def)
  obtain stats where e2: "tickers = Inr stats" using assms(1) e1 by (cases tickers) (auto simp: refresh_universe_def)
  obtain r0 m1 where t0: "retier symbols stats m = (r0, m1)" by (metis prod.collapse)
  note run = assms(1) [unfolded refresh_universe_def prod.case e1 e2 attempt_simps t0 Let_def]
  obtain ch where r0: "r0 = Inr ch" using run by (cases r0) auto
  obtain r1 w1 where p1: "persist_all ?sv (map snd (mg_states m1)) ?w = (r1, w1)" by (metis prod.collapse)
  obtain r2 w2 where p2: "persist_tier_changes ?sv ch w1 = (r2, w2)" by (metis prod.collapse)
  obtain r3 w3 where p3: "persist_metrics_snapshots ?sv (map snd (mg_states m1)) w2 = (r3, w3)" by (metis prod.collapse)
  obtain r4 w4 where p4: "persist_breadth_snapshot ?sv m1 w3 = (r4, w4)" by (metis prod.collapse)
  have "snd w4 = snd ?w"
    using persist_all_feed [of sv send "map snd (mg_states m1)" ?w] persist_tier_changes_feed [of sv send ch w1]
      persist_metrics_feed [of sv send "map snd (mg_states m1)" w2] persist_breadth_feed [of sv send m1 w3]
    by (simp add: p1 p2 p3 p4)
  then have w4: "fst (snd w4) = f" by simp
  let ?m2 = "m1\<lparr>mg_refresh_count := mg_refresh_count m1 + 1, mg_last_tier_changes := ch\<rparr>"
  have has: "sv_has_feed ?sv" by (simp add: with_feed_def)
  obtain r5 s5 where p5: "sync_feed ?sv (?m2, w4) = (r5, s5)" by (metis prod.collapse)
  have "attempt r1 (m1, w1) (\<lambda>_. attempt r2 (m1, w2) (\<lambda>_. attempt r3 (m1, w3) (\<lambda>_. attempt r4 (m1, w4) (\<lambda>_.
      attempt r5 s5 (\<lambda>_. (Inr ch, s5)))))) = (Inr changes, (m', (d', (f', n'))))"
    using run by (simp add: r0 p1 p2 p3 p4 p5 has)
  then have sync: "sync_feed ?sv (?m2, w4) = (Inr (), (m', (d', (f', n'))))"
    using p5 by (cases r1; cases r2; cases r3; cases r4; cases r5) auto
  have before: "mg_subscribed ?m2 = bn_symbols (fst (snd w4))"
    using retier_subscribed [of symbols stats m] t0 w4 assms(2) by simp
  have states: "mg_states m' = mg_states ?m2"
    using sync by (auto simp: sync_feed_def attempt_Inr Let_def split: prod.splits if_splits)
  have "m' = ?m2\<lparr>mg_subscribed := watchlist_pairs (mg_states ?m2)\<rparr> \<and> bn_symbols f' = watchlist_pairs (mg_states ?m2)"
    using sync_feed_assigns [OF sync _ before] assms(3,4) before w4 states by simp
  then show ?thesis by simp
qed

text \<open>A store that accepts everything and an idle network.\<close>

definition no_store :: "unit services" where
  "no_store =
     \<lparr>sv_now = (\<lambda>_. 0), sv_upsert = (\<lambda>row w. (Inr 1, w)), sv_update_ranking = (\<lambda>base rank metrics w. (Inr (), w)),
      sv_get_id = (\<lambda>base w. (Inr (Some 1), w)), sv_tier_change = None, sv_metrics = None, sv_breadth = None,
      sv_subscribe = (\<lambda>S w. (Inr (), w)), sv_unsubscribe = (\<lambda>S w. (Inr (), w)), sv_has_feed = False\<rparr>"

definition no_network :: "frame \<Rightarrow> unit \<Rightarrow> unit res \<times> unit" where
  "no_network m w = (Inr (), w)"

definition btc_core :: symbol_state where
  "btc_core = (symbol_state_new ''BTC'' ''BTCUSDT'')\<lparr>ms_tags := {''core''}, ms_tier := tier_core, ms_klass := ''core''\<rparr>"

lemma retier_btc:
  "retier [btc_listing] [] (manager_new default_settings) =
     (Inr [\<lparr>ch_base = ''BTC'', ch_pair = ''BTCUSDT'', ch_from_tier = tier_rest, ch_to_tier = tier_core,
            ch_reason = change_reason tier_core tier_rest tier_core\<rparr>],
      (manager_new default_settings)\<lparr>mg_states := [(''BTC'', btc_core)], mg_spike_promoted := {}\<rparr>)"
proof -
  let ?m = "manager_new default_settings"
  have n: "normalize_symbol ''BTCUSDT'' = ''BTC''" by code_simp
  have active: "active_pairs [btc_listing] = [(''BTCUSDT'', btc_listing)]"
    by (simp add: active_pairs_def active_statuses_def btc_listing_def)
  have base: "es_base btc_listing = ''BTC''" by (simp add: es_base_def btc_listing_def n)
  have rank: "rank_universe ?m (active_pairs [btc_listing]) [] = Inr ([], {})"
    by (simp add: rank_universe_def rank_by_score_def rank_positions_def active List.map_filter_simps sort_desc_def slice_to_def)
  have core: "''BTC'' \<in> mg_core ?m" by (simp add: manager_new_def default_settings_def n)
  have listed: "sync_listings (active_pairs [btc_listing]) [] [] [] = [(''BTC'', symbol_state_new ''BTC'' ''BTCUSDT'')]"
    by (simp add: sync_listings_def active sync_listing_def base take_stats_def symbol_state_new_def Let_def)
  let ?c = "[\<lparr>ch_base = ''BTC'', ch_pair = ''BTCUSDT'', ch_from_tier = tier_rest, ch_to_tier = tier_core,
    ch_reason = change_reason tier_core tier_rest tier_core\<rparr>]"
  have tiers: "assign_tiers ?m {} [(''BTC'', symbol_state_new ''BTC'' ''BTCUSDT'')] {} = (Inr ?c, [(''BTC'', btc_core)], {})"
    using core by (simp add: assign_tier_def base_tier_of_def apply_spike_logic_def symbol_state_new_def tier_rest_def tier_core_def
        btc_core_def)
  have start: "mg_states ?m = []" "mg_spike_promoted ?m = {}" by (simp_all add: manager_new_def)
  show ?thesis by (simp add: retier_def rank start listed tiers del: assign_tiers.simps)
qed

lemma watchlist_btc: "watchlist_pairs [(''BTC'', btc_core)] = {''BTCUSDT''}"
  by (simp add: watchlist_pairs_def btc_core_def symbol_state_new_def tier_core_def)

text \<open>Over an idle network a synchronisation of the feed returns, whatever the repositories are.\<close>

lemma quiet_sync:
  "\<exists>m' f'. sync_feed (with_feed sv no_network) (m2, (d, (f, ()))) = (Inr (), (m', (d, (f', ())))) \<and> mg_states m' = mg_states m2"
proof -
  let ?sv = "with_feed sv no_network"
  have quiet: "fst (binance_subscribe no_network S s) = Inr ()" "fst (binance_unsubscribe no_network S s) = Inr ()" for S s
    by (simp_all add: binance_subscribe_def binance_unsubscribe_def send_sub_def no_network_def Let_def split: prod.split)
  have subs: "\<exists>f'. sv_subscribe ?sv S (d, (f, ())) = (Inr (), (d, (f', ())))" for S f
    using quiet(1) [of S "(f, ())"] by (cases "binance_subscribe no_network S (f, ())"; cases "snd (binance_subscribe no_network S (f, ()))")
      (simp add: with_feed_def on_snd_def)
  have unsubs: "\<exists>f'. sv_unsubscribe ?sv S (d, (f, ())) = (Inr (), (d, (f', ())))" for S f
    using quiet(2) [of S "(f, ())"] by (cases "binance_unsubscribe no_network S (f, ())"; cases "snd (binance_unsubscribe no_network S (f, ()))")
      (simp add: with_feed_def on_snd_def)
  obtain f1 where f1: "(if watchlist_pairs (mg_states m2) - mg_subscribed m2 \<noteq> {}
      then sv_subscribe ?sv (watchlist_pairs (mg_states m2) - mg_subscribed m2) (d, (f, ())) else (Inr (), (d, (f, ())))) =
      (Inr (), (d, (f1, ())))" using subs by metis
  obtain f2 where "(if mg_subscribed m2 - watchlist_pairs (mg_states m2) \<noteq> {}
      then sv_unsubscribe ?sv (mg_subscribed m2 - watchlist_pairs (mg_states m2)) (d, (f1, ())) else (Inr (), (d, (f1, ())))) =
      (Inr (), (d, (f2, ())))" using unsubs by metis
  then show ?thesis using f1 by (simp add: sync_feed_def Let_def)
qed

theorem watchlist_is_streamed_witness:
  "\<exists>changes m' f'. refresh_universe (with_feed no_store no_network) (Inr [btc_listing]) (Inr [])
       (manager_new default_settings, ((), (binance_new (all_symbols default_settings) ''wss://x'' ''1m'' 5 None, ()))) =
       (Inr changes, (m', ((), (f', ())))) \<and> bn_symbols f' = {''BTCUSDT''}"
proof -
  let ?sv = "with_feed no_store no_network" and ?m = "manager_new default_settings"
  let ?f = "binance_new (all_symbols default_settings) ''wss://x'' ''1m'' 5 None"
  let ?m1 = "?m\<lparr>mg_states := [(''BTC'', btc_core)], mg_spike_promoted := {}\<rparr>"
  obtain c where r: "retier [btc_listing] [] ?m = (Inr c, ?m1)" using retier_btc by blast
  have quiet: "persist_all ?sv ss w = (Inr (), w)" for ss w
    by (induction ss arbitrary: w) (simp_all add: persist_def with_feed_def no_store_def on_fst_def Let_def prod_eq_iff)
  let ?m2 = "?m1\<lparr>mg_refresh_count := mg_refresh_count ?m1 + 1, mg_last_tier_changes := c\<rparr>"
  have plain: "persist_tier_changes ?sv cs w = (Inr (), w)" "persist_metrics_snapshots ?sv ss w = (Inr (), w)"
    "persist_breadth_snapshot ?sv mm w = (Inr (), w)" "sv_has_feed ?sv" for cs ss mm w
    by (simp_all add: with_feed_def no_store_def persist_tier_changes_def persist_metrics_snapshots_def persist_breadth_snapshot_def)
  obtain m' f' where "sync_feed ?sv (?m2, ((), (?f, ()))) = (Inr (), (m', ((), (f', ()))))" "mg_states m' = mg_states ?m2"
    using quiet_sync [of no_store ?m2 "()" ?f] by blast
  then have run: "refresh_universe ?sv (Inr [btc_listing]) (Inr []) (?m, ((), (?f, ()))) = (Inr c, (m', ((), (f', ()))))"
    and states: "mg_states m' = [(''BTC'', btc_core)]"
    using r quiet plain by (auto simp: refresh_universe_def Let_def sync_feed_def attempt_Inr split: prod.splits if_splits)
  have agree: "mg_subscribed ?m = bn_symbols ?f" by (simp add: manager_new_def binance_new_def)
  have btc: "upper ''BTCUSDT'' = ''BTCUSDT''" by code_simp
  have up: "\<forall>p \<in> bn_symbols ?f \<union> watchlist_pairs (mg_states m'). upper p = p"
    unfolding states watchlist_btc by (simp add: binance_new_def btc)
  have fin: "finite (bn_symbols ?f)" by (simp add: binance_new_def)
  have "bn_symbols f' = {''BTCUSDT''}"
    using watchlist_is_streamed [OF run agree fin up] by (simp only: states watchlist_btc)
  then show ?thesis using run by (intro exI conjI)
qed

end
