(* ===== verification/Returns.thy ===== *)
theory Returns
  imports Market Text
begin

text \<open>
  The numerical helpers of the back-test (\<^verbatim>\<open>src/orvixa/backtest/signal_validation.py\<close>): intervals,
  forward and baseline returns, autocorrelation, effective sample size, percentiles and bootstrap intervals. The
  random generator is a parameter: \<open>seeded\<close> makes its state and \<open>draw\<close> is \<^verbatim>\<open>random()\<close>.
\<close>

section \<open>Sequences\<close>

text \<open>\<^verbatim>\<open>xs[i]\<close>: a negative index counts from the end.\<close>

definition py_nth :: "'a list \<Rightarrow> int \<Rightarrow> 'a res" where
  "py_nth xs i =
     (if 0 \<le> i \<and> i < int (length xs) then Inr (xs ! nat i)
      else if i < 0 \<and> 0 \<le> int (length xs) + i then Inr (xs ! nat (int (length xs) + i))
      else Inl IndexError)"

lemma py_nth_of_nat [simp]: "i < length xs \<Longrightarrow> py_nth xs (int i) = Inr (xs ! i)"
  by (simp add: py_nth_def)

text \<open>\<^verbatim>\<open>list.sort()\<close> of floats without NaN.\<close>

fun insert_asc :: "pyfloat \<Rightarrow> pyfloat list \<Rightarrow> pyfloat list" where
  "insert_asc x [] = [x]"
| "insert_asc x (y # ys) = (if y < x then y # insert_asc x ys else x # y # ys)"

definition sort_asc :: "pyfloat list \<Rightarrow> pyfloat list" where
  "sort_asc xs = foldr insert_asc xs []"


section \<open>Intervals\<close>

definition default_horizons :: "int list" where
  "default_horizons = [1, 3, 5, 10, 20]"

definition interval_unit_ms :: "(char \<times> int) list" where
  "interval_unit_ms = [(CHR ''s'', 1000), (CHR ''m'', 60000), (CHR ''h'', 3600000), (CHR ''d'', 86400000)]"

definition interval_to_ms :: "string \<Rightarrow> int res" where
  "interval_to_ms interval =
     (if interval = [] then Inl IndexError
      else let count = butlast interval in
        case map_of interval_unit_ms (lower_char (last interval)) of
          None \<Rightarrow> Inl ValueError
        | Some ms \<Rightarrow>
            if count = [] \<or> \<not> list_all is_digit count then Inl ValueError
            else rbind (int_of_text count) (\<lambda>n. Inr (n * ms)))"


section \<open>Forward returns\<close>

text \<open>\<^verbatim>\<open>while target < len(candles) and candles[target].ts < target_time: target += 1\<close>\<close>

function seek :: "candle list \<Rightarrow> int \<Rightarrow> int \<Rightarrow> int res" where
  "seek candles target_time target =
     (if target < int (length candles) then
        (case py_nth candles target of
           Inl e \<Rightarrow> Inl e
         | Inr c \<Rightarrow> if cd_ts c < target_time then seek candles target_time (target + 1) else Inr target)
      else Inr target)"
  by pat_completeness auto
termination
  by (relation "measure (\<lambda>(candles, target_time, target). nat (int (length candles) - target))") auto

declare seek.simps [simp del]

definition forward_return :: "candle list \<Rightarrow> int \<Rightarrow> candle \<Rightarrow> int \<Rightarrow> int \<Rightarrow> pyfloat option res" where
  "forward_return candles entry_idx entry interval_ms h =
     rbind (seek candles (cd_ts entry + h * interval_ms) entry_idx) (\<lambda>target.
     if target \<ge> int (length candles) \<or> feq (cd_close entry) (Fin 0) then Inr None
     else rbind (py_nth candles target) (\<lambda>c. rbind (fdiv (cd_close c) (cd_close entry)) (\<lambda>q. Inr (Some (q - Fin 1)))))"

type_synonym per_horizon = "(int \<times> pyfloat option) list"

definition forward_returns :: "candle list \<Rightarrow> int \<Rightarrow> int list \<Rightarrow> int \<Rightarrow> int \<Rightarrow> per_horizon res" where
  "forward_returns candles idx horizons execution_lag interval_ms =
     (let entry_idx = idx + execution_lag in
      if entry_idx \<ge> int (length candles) then Inr (foldl (\<lambda>out h. alput h None out) [] horizons)
      else rbind (py_nth candles entry_idx) (\<lambda>entry.
        rbind (rmap (forward_return candles entry_idx entry interval_ms) horizons) (\<lambda>returns.
        Inr (foldl (\<lambda>out (h, r). alput h r out) [] (zip horizons returns)))))"

text \<open>Pools of returns, one per horizon.\<close>

type_synonym pools = "(int \<times> pyfloat list) list"

definition pools_new :: "int list \<Rightarrow> pools" where
  "pools_new horizons = foldl (\<lambda>out h. alput h [] out) [] horizons"

definition pool_of :: "pools \<Rightarrow> int \<Rightarrow> pyfloat list" where
  "pool_of pools h = get_or [] (map_of pools h)"

definition add_return :: "pools \<Rightarrow> int \<times> pyfloat option \<Rightarrow> pools" where
  "add_return out item =
     (case item of (h, value) \<Rightarrow> case value of None \<Rightarrow> out | Some x \<Rightarrow> alput h (pool_of out h @ [x]) out)"

fun baseline_from :: "candle list \<Rightarrow> int list \<Rightarrow> int \<Rightarrow> int \<Rightarrow> int list \<Rightarrow> pools \<Rightarrow> pools res" where
  "baseline_from candles horizons execution_lag interval_ms [] out = Inr out"
| "baseline_from candles horizons execution_lag interval_ms (idx # idxs) out =
     rbind (forward_returns candles idx horizons execution_lag interval_ms) (\<lambda>fwd.
     baseline_from candles horizons execution_lag interval_ms idxs (foldl add_return out fwd))"

definition baseline_returns :: "candle list \<Rightarrow> int list \<Rightarrow> int \<Rightarrow> int \<Rightarrow> pools res" where
  "baseline_returns candles horizons execution_lag interval_ms =
     baseline_from candles horizons execution_lag interval_ms (map int [0..<length candles]) (pools_new horizons)"


section \<open>Sample sizes\<close>

definition autocorr :: "pyfloat list \<Rightarrow> int \<Rightarrow> pyfloat res" where
  "autocorr values lag =
     (let n = int (length values) in
      if lag \<le> 0 \<or> lag \<ge> n then Inr (Fin 0)
      else rbind (mean_of values) (\<lambda>mean.
        rbind (rmap (\<lambda>v. fsquare (v - mean)) values) (\<lambda>squares.
        let var = fsum squares in
        if feq var (Fin 0) then Inr (Fin 0)
        else let k = nat lag;
                 cov = fsum (map (\<lambda>i. (values ! i - mean) * (values ! (i + k) - mean)) [0..<length values - k])
             in fdiv cov var)))"

definition effective_sample_size :: "pyfloat list \<Rightarrow> int \<Rightarrow> pyfloat option res" where
  "effective_sample_size values max_lag =
     (let n = int (length values) in
      if n = 0 then Inr None
      else if n = 1 \<or> max_lag \<le> 0 then rbind (i2f n) (\<lambda>x. Inr (Some x))
      else rbind (rmap (autocorr values) [1..min max_lag (n - 1)]) (\<lambda>rs.
        let denom = pymax (Fin 1 + Fin 2 * fsum rs) (to_dbl (1 / 10 ^ 9)) in
        rbind (i2f n) (\<lambda>count.
        rbind (fdiv count denom) (\<lambda>x. Inr (Some (pymin (pymax x (Fin 1)) count))))))"


section \<open>Bootstrap\<close>

definition percentile :: "pyfloat list \<Rightarrow> pyfloat \<Rightarrow> pyfloat res" where
  "percentile sorted_values pct =
     rbind (i2f (int (length sorted_values))) (\<lambda>n.
     rbind (pyint (pct * n)) (\<lambda>i.
     py_nth sorted_values (min i (int (length sorted_values) - 1))))"

text \<open>\<^verbatim>\<open>rng.choices(population, k=k)\<close>: \<^verbatim>\<open>population[floor(random() * len(population))]\<close>, \<open>k\<close> times.\<close>

fun pyfloor :: "pyfloat \<Rightarrow> int res" where
  "pyfloor (Fin q) = Inr \<lfloor>q\<rfloor>"
| "pyfloor NaN = Inl ValueError"
| "pyfloor _ = Inl OverflowError"

fun choices :: "('g \<Rightarrow> pyfloat \<times> 'g) \<Rightarrow> pyfloat list \<Rightarrow> nat \<Rightarrow> 'g \<Rightarrow> pyfloat list res \<times> 'g" where
  "choices draw population 0 g = (Inr [], g)"
| "choices draw population (Suc k) g =
     (let (u, g1) = draw g;
          picked = rbind (i2f (int (length population))) (\<lambda>n. rbind (pyfloor (u * n)) (py_nth population));
          (rest, g2) = choices draw population k g1
      in (rbind picked (\<lambda>x. rbind rest (\<lambda>xs. Inr (x # xs))), g2))"

text \<open>One iteration: the mean of the resampled signal returns and its excess over the resampled baseline.\<close>

definition bootstrap_round ::
  "('g \<Rightarrow> pyfloat \<times> 'g) \<Rightarrow> pyfloat list \<Rightarrow> pyfloat list \<Rightarrow> int \<Rightarrow> int \<Rightarrow> 'g \<Rightarrow> (pyfloat \<times> pyfloat) res \<times> 'g" where
  "bootstrap_round draw signal_returns baseline sig_n base_n g =
     (let (sig, g1) = choices draw signal_returns (nat sig_n) g;
          (base, g2) = choices draw baseline (nat base_n) g1
      in (rbind sig (\<lambda>xs. rbind (div_int (fsum xs) sig_n) (\<lambda>sig_mean.
          rbind base (\<lambda>ys. rbind (div_int (fsum ys) base_n) (\<lambda>base_mean.
          Inr (sig_mean, sig_mean - base_mean))))), g2))"

fun bootstrap_rounds ::
  "('g \<Rightarrow> pyfloat \<times> 'g) \<Rightarrow> pyfloat list \<Rightarrow> pyfloat list \<Rightarrow> int \<Rightarrow> int \<Rightarrow> nat \<Rightarrow> 'g \<Rightarrow> (pyfloat \<times> pyfloat) list res" where
  "bootstrap_rounds draw signal_returns baseline sig_n base_n 0 g = Inr []"
| "bootstrap_rounds draw signal_returns baseline sig_n base_n (Suc k) g =
     (let (r, g1) = bootstrap_round draw signal_returns baseline sig_n base_n g in
      rbind r (\<lambda>x. rbind (bootstrap_rounds draw signal_returns baseline sig_n base_n k g1) (\<lambda>xs. Inr (x # xs))))"

definition bootstrap_ci ::
  "(int \<Rightarrow> 'g) \<Rightarrow> ('g \<Rightarrow> pyfloat \<times> 'g) \<Rightarrow> pyfloat list \<Rightarrow> pyfloat list \<Rightarrow> pyfloat \<Rightarrow> pyfloat \<Rightarrow> int \<Rightarrow> int
    \<Rightarrow> ((pyfloat \<times> pyfloat) \<times> (pyfloat \<times> pyfloat)) res" where
  "bootstrap_ci seeded draw signal_returns baseline signal_neff baseline_neff iterations seed =
     rbind (pyround signal_neff) (\<lambda>s.
     rbind (pyround baseline_neff) (\<lambda>b.
     rbind (bootstrap_rounds draw signal_returns baseline (max 1 s) (max 1 b) (nat iterations) (seeded seed)) (\<lambda>rounds.
     let means = sort_asc (map fst rounds); edges = sort_asc (map snd rounds);
         low = to_dbl (25 / 1000); high = to_dbl (975 / 1000) in
     rbind (percentile means low) (\<lambda>mean_lo.
     rbind (percentile means high) (\<lambda>mean_hi.
     rbind (percentile edges low) (\<lambda>edge_lo.
     rbind (percentile edges high) (\<lambda>edge_hi.
     Inr ((mean_lo, mean_hi), (edge_lo, edge_hi)))))))))"



section \<open>Forward returns are by time\<close>

lemma seek_takeWhile:
  "i \<le> length cs \<Longrightarrow> seek cs tt (int i) = Inr (int (i + length (takeWhile (\<lambda>c. cd_ts c < tt) (drop i cs))))"
proof (induction "length cs - i" arbitrary: i)
  case 0
  then show ?case by (simp add: seek.simps)
next
  case (Suc n)
  then have i: "i < length cs" by simp
  then have d: "drop i cs = cs ! i # drop (Suc i) cs" by (simp add: Cons_nth_drop_Suc)
  have "seek cs tt (int (Suc i)) = Inr (int (Suc i + length (takeWhile (\<lambda>c. cd_ts c < tt) (drop (Suc i) cs))))"
    by (rule Suc.hyps(1)) (use Suc.hyps(2) i in auto)
  then show ?case using i by (subst seek.simps) (simp add: d add.commute)
qed

lemma find_takeWhile:
  "find P xs = (let n = length (takeWhile (\<lambda>x. \<not> P x) xs) in if n < length xs then Some (xs ! n) else None)"
  by (induction xs) (auto simp: Let_def)

text \<open>The reference: the change to the first candle of the series at least \<open>d\<close> milliseconds after \<open>entry\<close>.\<close>

definition return_after :: "candle list \<Rightarrow> candle \<Rightarrow> int \<Rightarrow> pyfloat option" where
  "return_after candles entry d =
     (if feq (cd_close entry) (Fin 0) then None
      else map_option (\<lambda>c. quot (cd_close c) (cd_close entry) - Fin 1) (find (\<lambda>c. cd_ts entry + d \<le> cd_ts c) candles))"

lemma forward_return_eq:
  assumes "sorted_wrt (<) (map cd_ts cs)" "i < length cs" "0 \<le> h * interval_ms"
  shows "forward_return cs (int i) (cs ! i) interval_ms h = Inr (return_after cs (cs ! i) (h * interval_ms))"
proof -
  let ?tt = "cd_ts (cs ! i) + h * interval_ms"
  let ?n = "length (takeWhile (\<lambda>c. cd_ts c < ?tt) (drop i cs))"
  have "cd_ts (cs ! j) < ?tt" if "j < i" for j
    using that assms sorted_wrt_nth_less [OF assms(1), of j i] by simp
  then have pre: "\<forall>c \<in> set (take i cs). cd_ts c < ?tt"
    using assms(2) by (auto simp: in_set_conv_nth)
  then have "takeWhile (\<lambda>c. cd_ts c < ?tt) (take i cs @ drop i cs) = take i cs @ takeWhile (\<lambda>c. cd_ts c < ?tt) (drop i cs)"
    by (intro takeWhile_append2) auto
  then have len: "length (takeWhile (\<lambda>c. cd_ts c < ?tt) cs) = i + ?n" using assms(2) by simp
  have f: "find (\<lambda>c. ?tt \<le> cd_ts c) cs = (if i + ?n < length cs then Some (cs ! (i + ?n)) else None)"
    using len by (subst find_takeWhile) (simp add: not_le Let_def)
  have s: "seek cs ?tt (int i) = Inr (int (i + ?n))" using seek_takeWhile [of i cs ?tt] assms(2) by simp
  show ?thesis
  proof (cases "i + ?n < length cs \<and> \<not> feq (cd_close (cs ! i)) (Fin 0)")
    case True
    then have "py_nth cs (int (i + ?n)) = Inr (cs ! (i + ?n))" by (intro py_nth_of_nat) simp
    moreover have "cd_close (cs ! i) \<noteq> Fin 0" using True by (auto simp: feq_def)
    ultimately show ?thesis
      using True s f unfolding forward_return_def return_after_def fdiv_def
      by (simp del: of_nat_add)
  next
    case False
    then show ?thesis using s f by (auto simp: forward_return_def return_after_def simp del: of_nat_add)
  qed
qed

lemma map_of_put_all:
  "map_of (foldl (\<lambda>out (h, r). alput h r out) out (zip hs (map f hs))) k = (if k \<in> set hs then Some (f k) else map_of out k)"
  by (induction hs arbitrary: out) auto

text \<open>
  C11: forward returns are measured by time. On candles in strictly ascending time the return at each horizon is the
  change of the close from the entry candle, \<open>execution_lag\<close> candles after the signal, to the first candle of the
  whole series at or after the entry time plus the horizon's duration, whatever gaps the series has; there is none
  exactly when no such candle exists or the entry closes at zero.
\<close>

theorem forward_returns_by_time:
  assumes "sorted_wrt (<) (map cd_ts candles)" "0 \<le> idx" "0 \<le> lag" "idx + lag < int (length candles)"
    "\<forall>h \<in> set horizons. 0 \<le> h * interval_ms"
  shows "\<exists>out. forward_returns candles idx horizons lag interval_ms = Inr out \<and>
    (\<forall>h. map_of out h =
      (if h \<in> set horizons then Some (return_after candles (candles ! nat (idx + lag)) (h * interval_ms)) else None))"
proof -
  define i where "i = nat (idx + lag)"
  have i: "idx + lag = int i" "i < length candles" using assms(2,3,4) by (auto simp: i_def)
  have "rmap (forward_return candles (int i) (candles ! i) interval_ms) horizons =
      Inr (map (\<lambda>h. return_after candles (candles ! i) (h * interval_ms)) horizons)"
    using forward_return_eq [OF assms(1) i(2)] assms(5) by (intro rmap_Inr) auto
  then show ?thesis
    using i unfolding forward_returns_def Let_def by (simp add: i_def [symmetric] map_of_put_all)
qed

text \<open>
  The effective sample size is clamped. For a series of more than one value and any horizon, a result is the raw
  count when windows do not overlap, and otherwise lies between 1 and the raw count; only an undefined
  autocorrelation (NaN) escapes the clamp.
\<close>

lemma effective_sample_size_clamped:
  assumes "effective_sample_size values max_lag = Inr (Some x)" "int (length values) \<le> 2 ^ 53"
  shows "values \<noteq> [] \<and> (x = NaN \<or> in_range 1 (of_nat (length values)) x) \<and>
    (max_lag \<le> 0 \<longrightarrow> x = Fin (of_nat (length values)))"
proof -
  let ?n = "int (length values)"
  have ne: "values \<noteq> []" using assms(1) by (auto simp: effective_sample_size_def)
  have n: "i2f ?n = Inr (Fin (of_nat (length values)))" using assms(2) i2f_small [of ?n] by simp
  have e: "endpoint (of_nat (length values))" using endpoint_of_int [of ?n] assms(2) by simp
  have one: "1 \<le> (of_nat (length values) :: rat)" using ne by (cases "values") auto
  show ?thesis
  proof (cases "?n = 1 \<or> max_lag \<le> 0")
    case True
    then have "x = Fin (of_nat (length values))" using assms(1) n ne by (auto simp: effective_sample_size_def)
    then show ?thesis using ne e one by (simp add: in_range_Fin)
  next
    case False
    then obtain y denom where y: "fdiv (Fin (of_nat (length values))) denom = Inr y" "x = clamp y 1 (of_nat (length values))"
      using assms(1) n ne by (auto simp: effective_sample_size_def rbind_eq_Inr Let_def clamp_def)
    have "is_dbl y" using y(1) by (auto simp: fdiv_def split: if_splits)
    then have "x = NaN \<or> in_range 1 (of_nat (length values)) x"
      using y(2) e one clamp_in_range [of y 1 "of_nat (length values)"] by (cases "y = NaN") (auto simp: endpoints)
    then show ?thesis using ne False by simp
  qed
qed

definition bar :: "int \<Rightarrow> rat \<Rightarrow> candle" where
  "bar ts close = \<lparr>cd_symbol = ''BTC'', cd_ts = ts, cd_open = Fin close, cd_high = Fin close, cd_low = Fin close,
     cd_close = Fin close, cd_volume = Fin 1, cd_quote_volume = Fin 1, cd_trades = 1, cd_closed = True, cd_taker_buy_volume = Fin 0\<rparr>"

theorem forward_returns_by_time_witness:
  "\<exists>out. forward_returns [bar 0 1, bar 60000 2, bar 300000 4] 0 [1, 20] 1 60000 = Inr out \<and>
     map_of out 1 = Some (Some (Fin 1)) \<and> map_of out 20 = Some None"
proof -
  have "\<exists>out. forward_returns [bar 0 1, bar 60000 2, bar 300000 4] 0 [1, 20] 1 60000 = Inr out \<and>
    (\<forall>h. map_of out h = (if h \<in> set [1, 20] then Some (return_after [bar 0 1, bar 60000 2, bar 300000 4]
      ([bar 0 1, bar 60000 2, bar 300000 4] ! nat (0 + 1)) (h * 60000)) else None))"
    by (rule forward_returns_by_time) (auto simp: bar_def)
  then show ?thesis by (auto simp: return_after_def bar_def feq_def minus_pyfloat_def)
qed

lemma effective_sample_size_clamped_witness:
  "effective_sample_size [Fin 3, Fin 5, Fin 3] 0 = Inr (Some (Fin 3))"
proof -
  obtain x where x: "effective_sample_size [Fin 3, Fin 5, Fin 3] 0 = Inr (Some x)" by (simp add: effective_sample_size_def)
  show ?thesis using effective_sample_size_clamped [OF x] x by simp
qed

end
