(* ===== verification/Validation.thy ===== *)
theory Validation
  imports Pipeline Returns Registry
begin

text \<open>
  \<^verbatim>\<open>src/orvixa/backtest/signal_validation.py\<close>: the stored candles of a symbol are replayed through a fresh
  engine over the capturing sinks, and the captured signals are scored. The random generator of the bootstrap and the
  logarithm of the indicators are parameters.
\<close>

section \<open>Replay\<close>

definition row_to_candle :: "string \<Rightarrow> candle_row \<Rightarrow> candle res" where
  "row_to_candle symbol row =
     rbind (to_ms (cr_ts row)) (\<lambda>ts.
     Inr \<lparr>cd_symbol = symbol, cd_ts = ts, cd_open = cr_open row, cd_high = cr_high row, cd_low = cr_low row,
          cd_close = cr_close row, cd_volume = cr_volume row, cd_quote_volume = cr_quote_volume row,
          cd_trades = cr_trades row, cd_closed = True, cd_taker_buy_volume = cr_taker_buy_volume row\<rparr>)"

record captured_signal =
  cp_ts :: datetime
  cp_type :: signal_kind
  cp_confidence :: int
  cp_close :: pyfloat
  cp_fwd_returns :: per_horizon

definition capture_row :: "candle list \<Rightarrow> int list \<Rightarrow> int \<Rightarrow> int \<Rightarrow> int \<Rightarrow> candle \<Rightarrow> signal_row \<Rightarrow> captured_signal res" where
  "capture_row candles horizons execution_lag interval_ms idx c row =
     rbind (from_ms (cd_ts c)) (\<lambda>ts.
     rbind (forward_returns candles idx horizons execution_lag interval_ms) (\<lambda>fwd.
     Inr \<lparr>cp_ts = ts, cp_type = gr_type row, cp_confidence = gr_confidence row, cp_close = cd_close c, cp_fwd_returns = fwd\<rparr>))"

fun replay_loop ::
  "(pyfloat \<Rightarrow> pyfloat res) \<Rightarrow> (string \<Rightarrow> int option) \<Rightarrow> (int \<Rightarrow> candle \<Rightarrow> signal_row \<Rightarrow> captured_signal res) \<Rightarrow> int
    \<Rightarrow> candle list \<Rightarrow> engine \<times> signal_row list \<Rightarrow> captured_signal list res" where
  "replay_loop logf ids capture idx [] s = Inr []"
| "replay_loop logf ids capture idx (c # cs) s =
     (let (r, s1) = handle_candle (capture_backend ids) logf c s in
      rbind r (\<lambda>_.
      rbind (rmap (capture idx c) (drop (length (snd s)) (snd s1))) (\<lambda>new.
      rbind (replay_loop logf ids capture (idx + 1) cs s1) (\<lambda>rest.
      Inr (new @ rest)))))"

definition replay_symbol ::
  "(pyfloat \<Rightarrow> pyfloat res) \<Rightarrow> settings \<Rightarrow> db \<Rightarrow> string \<Rightarrow> datetime option \<Rightarrow> datetime option \<Rightarrow> int list \<Rightarrow> int \<Rightarrow> string
    \<Rightarrow> (captured_signal list \<times> candle list) res" where
  "replay_symbol logf cfg db interval start end_ts horizons execution_lag base =
     (case get_id base db of
        None \<Rightarrow> Inr ([], [])
      | Some sid \<Rightarrow>
          rbind (rmap (row_to_candle base) (select_range sid interval start end_ts db)) (\<lambda>candles.
          rbind (interval_to_ms interval) (\<lambda>interval_ms.
          rbind (replay_loop logf (\<lambda>b. get_id b db) (capture_row candles horizons execution_lag interval_ms) 0 candles
                   (engine_new cfg [base \<mapsto> sid], [])) (\<lambda>signals.
          Inr (signals, candles)))))"


section \<open>Metrics\<close>

text \<open>A dictionary from its pairs, in the order of the keys.\<close>

definition dict_of :: "('k \<times> 'v) list \<Rightarrow> ('k \<times> 'v) list" where
  "dict_of pairs = foldl (\<lambda>d (k, v). alput k v d) [] pairs"

definition optional_mean :: "pyfloat list \<Rightarrow> pyfloat option res" where
  "optional_mean xs = (if xs = [] then Inr None else rbind (mean_of xs) (\<lambda>m. Inr (Some m)))"

fun extend_pools :: "(candle list \<Rightarrow> pools res) \<Rightarrow> int list \<Rightarrow> candle list list \<Rightarrow> pools \<Rightarrow> pools res" where
  "extend_pools baseline horizons [] out = Inr out"
| "extend_pools baseline horizons (cs # css) out =
     rbind (baseline cs) (\<lambda>per_symbol.
     extend_pools baseline horizons css (foldl (\<lambda>out h. alput h (pool_of out h @ pool_of per_symbol h) out) out horizons))"

definition group_by_type :: "captured_signal list \<Rightarrow> (signal_kind \<times> captured_signal list) list" where
  "group_by_type entries = foldl (\<lambda>groups e. alput (cp_type e) (get_or [] (map_of groups (cp_type e)) @ [e]) groups) [] entries"

definition kind_label :: "signal_kind \<Rightarrow> string" where
  "kind_label k = (case k of KBuy \<Rightarrow> ''buy'' | KSell \<Rightarrow> ''sell'' | KHighvol \<Rightarrow> ''highvol'')"

definition ord_sum :: "string \<Rightarrow> int" where
  "ord_sum s = sum_list (map (\<lambda>c. int (code c)) s)"

definition returns_at :: "int \<Rightarrow> captured_signal list \<Rightarrow> pyfloat list res" where
  "returns_at h entries =
     rbind (rmap (\<lambda>e. case map_of (cp_fwd_returns e) h of None \<Rightarrow> Inl KeyError | Some r \<Rightarrow> Inr r) entries) (\<lambda>rs.
     Inr (List.map_filter id rs))"

text \<open>The figures of one signal type at one horizon.\<close>

record metric_cell =
  mc_mean :: "pyfloat option"
  mc_mean_lo :: "pyfloat option"
  mc_mean_hi :: "pyfloat option"
  mc_edge :: "pyfloat option"
  mc_edge_lo :: "pyfloat option"
  mc_edge_hi :: "pyfloat option"
  mc_neff :: "pyfloat option"

definition excess :: "pyfloat option \<Rightarrow> pyfloat option \<Rightarrow> pyfloat option" where
  "excess mean base = (case (mean, base) of (Some m, Some b) \<Rightarrow> Some (m - b) | _ \<Rightarrow> None)"

definition metric_cell_of ::
  "(pyfloat list \<Rightarrow> pyfloat list \<Rightarrow> pyfloat \<Rightarrow> pyfloat \<Rightarrow> int \<Rightarrow> ((pyfloat \<times> pyfloat) \<times> (pyfloat \<times> pyfloat)) res) \<Rightarrow> int
    \<Rightarrow> captured_signal list \<Rightarrow> int \<Rightarrow> pyfloat list \<Rightarrow> pyfloat option \<Rightarrow> pyfloat option \<Rightarrow> metric_cell res" where
  "metric_cell_of bootstrap seed entries h pool base base_neff =
     rbind (returns_at h entries) (\<lambda>returns.
     rbind (optional_mean returns) (\<lambda>mean.
     rbind (effective_sample_size returns (h - 1)) (\<lambda>neff.
     let cell = \<lparr>mc_mean = mean, mc_mean_lo = None, mc_mean_hi = None, mc_edge = excess mean base,
                 mc_edge_lo = None, mc_edge_hi = None, mc_neff = neff\<rparr> in
     case (neff, base_neff) of
       (Some n, Some b) \<Rightarrow>
         if returns \<noteq> [] \<and> pool \<noteq> [] then
           rbind (bootstrap returns pool n b seed) (\<lambda>((mean_lo, mean_hi), (e_lo, e_hi)).
           Inr (cell\<lparr>mc_mean_lo := Some mean_lo, mc_mean_hi := Some mean_hi, mc_edge_lo := Some e_lo, mc_edge_hi := Some e_hi\<rparr>))
         else Inr cell
     | _ \<Rightarrow> Inr cell)))"

definition hit_rate_at :: "signal_kind \<Rightarrow> captured_signal list \<Rightarrow> int \<Rightarrow> pyfloat option res" where
  "hit_rate_at k entries h =
     rbind (returns_at h entries) (\<lambda>returns.
     if returns = [] then Inr None
     else let hits = filter (\<lambda>r. if k = KBuy then r > Fin 0 else r < Fin 0) returns
          in rbind (int_div (int (length hits)) (int (length returns))) (\<lambda>x. Inr (Some x)))"

record signal_metrics =
  sm_sample_size :: "(signal_kind \<times> int) list"
  sm_baseline_return :: per_horizon
  sm_baseline_neff :: per_horizon
  sm_cells :: "(signal_kind \<times> (int \<times> metric_cell) list) list"
  sm_hit_rate :: "(signal_kind \<times> per_horizon) list"

definition type_metrics ::
  "(pyfloat list \<Rightarrow> pyfloat list \<Rightarrow> pyfloat \<Rightarrow> pyfloat \<Rightarrow> int \<Rightarrow> ((pyfloat \<times> pyfloat) \<times> (pyfloat \<times> pyfloat)) res) \<Rightarrow> int
    \<Rightarrow> pools \<Rightarrow> per_horizon \<Rightarrow> per_horizon \<Rightarrow> int list \<Rightarrow> signal_kind \<times> captured_signal list
    \<Rightarrow> ((int \<times> metric_cell) list \<times> per_horizon option) res" where
  "type_metrics bootstrap bootstrap_seed pools base_returns base_neffs horizons typed =
     (case typed of (k, entries) \<Rightarrow>
      rbind (rmap (\<lambda>h. rbind (metric_cell_of bootstrap (bootstrap_seed + 1000 * h + ord_sum (kind_label k)) entries h
                (pool_of pools h) (get_or None (map_of base_returns h)) (get_or None (map_of base_neffs h)))
              (\<lambda>cell. Inr (h, cell))) horizons) (\<lambda>cells.
      if k \<in> {KBuy, KSell}
      then rbind (rmap (\<lambda>h. rbind (hit_rate_at k entries h) (\<lambda>x. Inr (h, x))) horizons) (\<lambda>hits.
           Inr (dict_of cells, Some (dict_of hits)))
      else Inr (dict_of cells, None)))"

definition compute_signal_metrics ::
  "(int \<Rightarrow> 'g) \<Rightarrow> ('g \<Rightarrow> pyfloat \<times> 'g) \<Rightarrow> (string \<times> captured_signal list) list \<Rightarrow> (string \<times> candle list) list
    \<Rightarrow> int list \<Rightarrow> int \<Rightarrow> int \<Rightarrow> int \<Rightarrow> int \<Rightarrow> signal_metrics res" where
  "compute_signal_metrics seeded draw signals candles_by_symbol horizons execution_lag interval_ms iterations bootstrap_seed =
     rbind (extend_pools (\<lambda>cs. baseline_returns cs horizons execution_lag interval_ms) horizons (map snd candles_by_symbol)
              (pools_new horizons)) (\<lambda>pools.
     rbind (rmap (\<lambda>(h, xs). rbind (optional_mean xs) (\<lambda>m. Inr (h, m))) pools) (\<lambda>base_returns.
     rbind (rmap (\<lambda>(h, xs). rbind (effective_sample_size xs (h - 1)) (\<lambda>n. Inr (h, n))) pools) (\<lambda>base_neffs.
     let groups = group_by_type (concat (map snd signals));
         bootstrap = (\<lambda>returns pool n b seed. bootstrap_ci seeded draw returns pool n b iterations seed) in
     rbind (rmap (type_metrics bootstrap bootstrap_seed pools base_returns base_neffs horizons) groups) (\<lambda>per_type.
     Inr \<lparr>sm_sample_size = map (\<lambda>(k, entries). (k, int (length entries))) groups,
          sm_baseline_return = base_returns, sm_baseline_neff = base_neffs,
          sm_cells = zip (map fst groups) (map fst per_type),
          sm_hit_rate = List.map_filter (\<lambda>(k, hits). map_option (\<lambda>x. (k, x)) hits) (zip (map fst groups) (map snd per_type))\<rparr>))))"


section \<open>A validation run\<close>

definition pipeline_correctness :: string where
  "pipeline_correctness = ''pipeline_correctness''"

definition edge_evaluation :: string where
  "edge_evaluation = ''edge_evaluation''"

definition valid_modes :: "string list" where
  "valid_modes = [pipeline_correctness, edge_evaluation]"

record validation_result =
  vr_signals :: "(string \<times> captured_signal list) list"
  vr_metrics :: signal_metrics
  vr_dataset_type :: provenance
  vr_mode :: string

definition run_signal_validation ::
  "(pyfloat \<Rightarrow> pyfloat res) \<Rightarrow> (int \<Rightarrow> 'g) \<Rightarrow> ('g \<Rightarrow> pyfloat \<times> 'g) \<Rightarrow> settings \<Rightarrow> db \<Rightarrow> string list \<Rightarrow> string
    \<Rightarrow> datetime option \<Rightarrow> datetime option \<Rightarrow> int list \<Rightarrow> int \<Rightarrow> string \<Rightarrow> validation_result res" where
  "run_signal_validation logf seeded draw cfg db symbols interval start end_ts horizons execution_lag mode =
     (if mode \<notin> set valid_modes then Inl ValueError
      else let dataset = classify_dataset symbols db in
        if dataset = SyntheticData \<and> mode = edge_evaluation then Inl ValueError
        else
          rbind (rmap (\<lambda>base. rbind (replay_symbol logf cfg db interval start end_ts horizons execution_lag base) (\<lambda>r.
                  Inr (base, r))) symbols) (\<lambda>replays.
          let signals = dict_of (map (\<lambda>(base, r). (base, fst r)) replays);
              candles = dict_of (map (\<lambda>(base, r). (base, snd r)) replays) in
          rbind (interval_to_ms interval) (\<lambda>interval_ms.
          rbind (compute_signal_metrics seeded draw signals candles horizons execution_lag interval_ms 1000 0) (\<lambda>metrics.
          Inr \<lparr>vr_signals = signals, vr_metrics = metrics, vr_dataset_type = dataset, vr_mode = mode\<rparr>))))"



section \<open>No look-ahead\<close>

text \<open>What a captured signal says, without the returns that came after it.\<close>

definition decision :: "captured_signal \<Rightarrow> datetime \<times> signal_kind \<times> int \<times> pyfloat" where
  "decision s = (cp_ts s, cp_type s, cp_confidence s, cp_close s)"

lemma rmap_append: "rmap f (xs @ ys) = rbind (rmap f xs) (\<lambda>as. rbind (rmap f ys) (\<lambda>bs. Inr (as @ bs)))"
proof (induction xs)
  case (Cons x xs)
  then show ?case by (cases "f x"; cases "rmap f xs"; cases "rmap f ys") auto
qed (cases "rmap f ys"; simp)

lemma seek_from:
  assumes "0 \<le> i" "i \<le> int (length cs)"
  shows "\<exists>t. seek cs tt i = Inr t \<and> i \<le> t"
  using seek_takeWhile [of "nat i" cs tt] assms by auto

lemma forward_returns_total:
  assumes "0 \<le> idx" "0 \<le> lag"
  shows "\<exists>out. forward_returns cs idx hs lag ms = Inr out"
proof (cases "idx + lag \<ge> int (length cs)")
  case False
  define i where "i = nat (idx + lag)"
  have i: "idx + lag = int i" "i < length cs" using assms False by (auto simp: i_def)
  have "\<exists>r. forward_return cs (int i) (cs ! i) ms h = Inr r" for h
  proof -
    obtain t where t: "seek cs (cd_ts (cs ! i) + h * ms) (int i) = Inr t" "int i \<le> t" using seek_from [of "int i" cs] i by auto
    have "py_nth cs t = Inr (cs ! nat t)" if "t < int (length cs)" using t(2) that by (simp add: py_nth_def)
    then show ?thesis using t by (auto simp: forward_return_def fdiv_def feq_def)
  qed
  then obtain f where f: "\<And>h. forward_return cs (int i) (cs ! i) ms h = Inr (f h)" by metis
  have "rmap (forward_return cs (int i) (cs ! i) ms) hs = Inr (map f hs)" by (rule rmap_Inr) (rule f)
  then show ?thesis using i by (simp add: forward_returns_def)
qed (simp add: forward_returns_def)

lemma capture_row_decision:
  assumes "capture_row cs hs lag ms idx c row = Inr x" "0 \<le> idx" "0 \<le> lag"
  shows "\<exists>y. capture_row cs' hs lag ms idx c row = Inr y \<and> decision y = decision x"
  using assms forward_returns_total [OF assms(2,3), of cs' hs ms]
  by (auto simp: capture_row_def decision_def rbind_eq_Inr)

lemma rmap_decision:
  assumes "rmap f rows = Inr xs" "\<And>row x. f row = Inr x \<Longrightarrow> \<exists>y. g row = Inr y \<and> decision y = decision x"
  shows "\<exists>ys. rmap g rows = Inr ys \<and> map decision ys = map decision xs"
  using assms(1)
proof (induction rows arbitrary: xs)
  case (Cons row rows)
  then obtain x xs1 where x: "f row = Inr x" "rmap f rows = Inr xs1" "xs = x # xs1" by (auto simp: rbind_eq_Inr)
  then show ?case using Cons.IH [OF x(2)] assms(2) [OF x(1)] by auto
qed simp

lemma replay_loop_prefix:
  assumes "replay_loop logf ids (capture_row cs' hs lag ms) idx (xs @ ys) s = Inr all" "0 \<le> idx" "0 \<le> lag"
  shows "\<exists>seen rest. replay_loop logf ids (capture_row cs hs lag ms) idx xs s = Inr seen \<and> map decision all = map decision seen @ rest"
  using assms
proof (induction xs arbitrary: idx s all)
  case (Cons c xs)
  obtain r s1 where h: "handle_candle (capture_backend ids) logf c s = (r, s1)" by (metis prod.collapse)
  obtain u new rest where n: "r = Inr u" "rmap (capture_row cs' hs lag ms idx c) (drop (length (snd s)) (snd s1)) = Inr new"
    "replay_loop logf ids (capture_row cs' hs lag ms) (idx + 1) (xs @ ys) s1 = Inr rest" "all = new @ rest"
    using Cons.prems(1) h by (auto simp: rbind_eq_Inr)
  obtain new' where "rmap (capture_row cs hs lag ms idx c) (drop (length (snd s)) (snd s1)) = Inr new'" "map decision new' = map decision new"
    using rmap_decision [OF n(2)] capture_row_decision [OF _ Cons.prems(2,3)] by metis
  moreover obtain seen more_rest where "replay_loop logf ids (capture_row cs hs lag ms) (idx + 1) xs s1 = Inr seen"
    "map decision rest = map decision seen @ more_rest"
    using Cons.IH [OF n(3)] Cons.prems(2,3) by auto
  ultimately show ?case using h n(1,4) by simp
qed simp

lemma filter_takeWhile_sorted:
  "sorted (map f xs) \<Longrightarrow> filter (\<lambda>x. f x \<le> (t :: 'b :: linorder)) xs = takeWhile (\<lambda>x. f x \<le> t) xs"
proof (induction xs)
  case (Cons x xs)
  show ?case
  proof (cases "f x \<le> t")
    case False
    then have "\<forall>y \<in> set xs. \<not> f y \<le> t" using Cons.prems by (auto dest: order_trans)
    then show ?thesis using False by (simp add: filter_empty_conv)
  qed (use Cons in simp)
qed simp

lemma select_range_prefix:
  assumes "pred_option (\<lambda>t'. t \<le> t') end_ts"
  shows "\<exists>ys. select_range sid i start end_ts db = select_range sid i start (Some t) db @ ys"
proof -
  let ?all = "select_range sid i start end_ts db"
  have "select_range sid i start (Some t) db = filter (\<lambda>r. cr_ts r \<le> t) ?all"
    using assms unfolding select_range_def filter_sort filter_filter
    by (intro arg_cong [where f = "sort_key cr_ts"] filter_cong refl) (cases end_ts; auto)
  also have "\<dots> = takeWhile (\<lambda>r. cr_ts r \<le> t) ?all" by (rule filter_takeWhile_sorted) (simp add: select_range_def)
  finally show ?thesis by (metis takeWhile_dropWhile_id)
qed

text \<open>
  C2: no look-ahead. The signals a replay captures up to a time do not depend on any candle after it: if a replay to a
  later end succeeds, then the one that stops at \<open>t\<close> succeeds too, its candles are the first ones of the longer
  replay, and its signals, with their times, types, confidences and prices, are the first ones of the longer replay.
\<close>

theorem signals_ignore_future:
  assumes "replay_symbol logf cfg db interval start end_ts horizons lag base = Inr (signals, candles)" "0 \<le> lag"
    "pred_option (\<lambda>t'. t \<le> t') end_ts"
  shows "\<exists>seen known_candles rest later. replay_symbol logf cfg db interval start (Some t) horizons lag base = Inr (seen, known_candles) \<and>
    candles = known_candles @ later \<and> map decision signals = map decision seen @ rest"
proof (cases "get_id base db")
  case (Some sid)
  obtain ys where ys: "select_range sid interval start end_ts db = select_range sid interval start (Some t) db @ ys"
    using select_range_prefix [OF assms(3)] by blast
  obtain ms where run: "rmap (row_to_candle base) (select_range sid interval start end_ts db) = Inr candles" "interval_to_ms interval = Inr ms"
    "replay_loop logf (\<lambda>b. get_id b db) (capture_row candles horizons lag ms) 0 candles (engine_new cfg [base \<mapsto> sid], []) = Inr signals"
    using assms(1) Some by (auto simp: replay_symbol_def rbind_eq_Inr)
  obtain kn later where kn: "rmap (row_to_candle base) (select_range sid interval start (Some t) db) = Inr kn" "candles = kn @ later"
    using run(1) ys by (auto simp: rmap_append rbind_eq_Inr)
  obtain seen rest where "replay_loop logf (\<lambda>b. get_id b db) (capture_row kn horizons lag ms) 0 kn (engine_new cfg [base \<mapsto> sid], []) = Inr seen"
    "map decision signals = map decision seen @ rest"
    using replay_loop_prefix [OF run(3) [unfolded kn(2)] order_refl assms(2), where cs = kn] kn(2) by auto
  then show ?thesis using Some kn run(2) by (simp add: replay_symbol_def)
qed (use assms(1) in \<open>simp add: replay_symbol_def\<close>)



section \<open>What the metrics account for\<close>

lemma group_sizes:
  "sum_list (map (length \<circ> snd) (alput k (get_or [] (map_of groups k) @ [e]) groups)) = sum_list (map (length \<circ> snd) groups) + 1"
  by (induction groups) auto

lemma counted_sizes:
  "sum_list (map snd (map (\<lambda>(k, entries). (k, int (length entries))) groups)) = int (sum_list (map (length \<circ> snd) groups))"
  by (induction groups) auto

lemma group_by_type_facts:
  "sum_list (map (length \<circ> snd) (group_by_type es)) = length es \<and> distinct (map fst (group_by_type es))"
proof -
  have "sum_list (map (length \<circ> snd) (foldl (\<lambda>groups e. alput (cp_type e) (get_or [] (map_of groups (cp_type e)) @ [e]) groups) g es)) =
      sum_list (map (length \<circ> snd) g) + length es \<and>
    (distinct (map fst g) \<longrightarrow> distinct (map fst (foldl (\<lambda>groups e. alput (cp_type e) (get_or [] (map_of groups (cp_type e)) @ [e]) groups) g es)))"
    for g
    by (induction es arbitrary: g) (auto simp: group_sizes)
  from this [of "[]"] show ?thesis by (simp add: group_by_type_def)
qed

lemma hit_rate_range:
  assumes "hit_rate_at k es h = Inr (Some x)"
  shows "in_range 0 1 x"
proof -
  obtain rs where rs: "returns_at h es = Inr rs" "rs \<noteq> []"
    using assms by (auto simp: hit_rate_at_def rbind_eq_Inr split: if_splits)
  have "int_div (int (length (filter P rs))) (int (length rs)) = Inr y \<Longrightarrow> in_range 0 1 y" for P y
    using int_div_range [of "int (length (filter P rs))" "int (length rs)"] rs(2) by auto
  then show ?thesis using assms rs by (auto simp: hit_rate_at_def rbind_eq_Inr Let_def)
qed

lemma set_alput: "set (alput k v d) \<subseteq> insert (k, v) (set d)"
  by (induction k v d rule: alput.induct) auto

lemma dict_of_entries: "set (dict_of ps) \<subseteq> set ps"
proof -
  have "set (foldl (\<lambda>d (k, v). alput k v d) d ps) \<subseteq> set d \<union> set ps" for d
  proof (induction ps arbitrary: d)
    case (Cons p ps)
    obtain k v where p: "p = (k, v)" by (cases p)
    have "set (foldl (\<lambda>d (k, v). alput k v d) (alput k v d) ps) \<subseteq> set (alput k v d) \<union> set ps" by (rule Cons.IH)
    then show ?case using set_alput [of k v d] by (auto simp: p)
  qed simp
  from this [of "[]"] show ?thesis by (simp add: dict_of_def)
qed

lemma type_metrics_hits:
  assumes "type_metrics bs seed pools br bn hs (k, es) = Inr (cells, hits)"
  shows "hits \<noteq> None \<longleftrightarrow> k \<in> {KBuy, KSell}" "hits = Some d \<Longrightarrow> (h, Some x) \<in> set d \<Longrightarrow> in_range 0 1 x"
proof -
  show "hits \<noteq> None \<longleftrightarrow> k \<in> {KBuy, KSell}"
    using assms by (auto simp: type_metrics_def rbind_eq_Inr split: if_splits)
  assume d: "hits = Some d" "(h, Some x) \<in> set d"
  then obtain rates where r: "rmap (\<lambda>h. rbind (hit_rate_at k es h) (\<lambda>x. Inr (h, x))) hs = Inr rates" "d = dict_of rates"
    using assms by (auto simp: type_metrics_def rbind_eq_Inr split: if_splits)
  have "\<forall>(h, v) \<in> set rates. \<forall>x. v = Some x \<longrightarrow> in_range 0 1 x"
    using r(1) by (induction hs arbitrary: rates) (fastforce simp: rbind_eq_Inr intro: hit_rate_range)+
  then show "in_range 0 1 x" using dict_of_entries [of rates] d(2) r(2) by auto
qed

text \<open>
  The metrics account for every signal. When the metrics of a run are computed, each captured signal is counted
  under exactly one type, and the hit rates, given for buy and sell signals only, are fractions.
\<close>

lemma metrics_account_for_signals:
  assumes "compute_signal_metrics seeded draw signals candles hs lag ms iterations seed = Inr m"
  shows "sum_list (map snd (sm_sample_size m)) = int (length (concat (map snd signals))) \<and>
    distinct (map fst (sm_sample_size m)) \<and>
    (\<forall>k \<in> fst ` set (sm_hit_rate m). k = KBuy \<or> k = KSell) \<and>
    (\<forall>d \<in> snd ` set (sm_hit_rate m). \<forall>h x. (h, Some x) \<in> set d \<longrightarrow> in_range 0 1 x)"
proof -
  let ?groups = "group_by_type (concat (map snd signals))"
  obtain bs pools br bn per_type where p: "rmap (type_metrics bs seed pools br bn hs) ?groups = Inr per_type" and
    m: "sm_sample_size m = map (\<lambda>(k, entries). (k, int (length entries))) ?groups"
      "sm_hit_rate m = List.map_filter (\<lambda>(k, hits). map_option (\<lambda>x. (k, x)) hits) (zip (map fst ?groups) (map snd per_type))"
    using assms by (auto simp: compute_signal_metrics_def rbind_eq_Inr Let_def)
  have sizes: "sum_list (map snd (sm_sample_size m)) = int (sum_list (map (length \<circ> snd) ?groups))"
    unfolding m(1) by (rule counted_sizes)
  have keys: "map fst (sm_sample_size m) = map fst ?groups" by (simp add: m(1) split_beta comp_def)
  have "\<forall>(k, hits) \<in> set (zip (map fst gs) (map snd out)). hits \<noteq> None \<longrightarrow>
      k \<in> {KBuy, KSell} \<and> (\<forall>h x. (h, Some x) \<in> set (the hits) \<longrightarrow> in_range 0 1 x)"
    if "rmap (type_metrics bs seed pools br bn hs) gs = Inr out" for gs out
    using that
  proof (induction gs arbitrary: out)
    case (Cons g gs)
    obtain k es cells hits rest where g: "g = (k, es)" "type_metrics bs seed pools br bn hs (k, es) = Inr (cells, hits)"
      "rmap (type_metrics bs seed pools br bn hs) gs = Inr rest" "out = (cells, hits) # rest"
      using Cons.prems by (cases g) (auto simp: rbind_eq_Inr)
    have "hits \<noteq> None \<longrightarrow> k \<in> {KBuy, KSell} \<and> (\<forall>h x. (h, Some x) \<in> set (the hits) \<longrightarrow> in_range 0 1 x)"
      using type_metrics_hits [OF g(2)] by auto
    then show ?case using Cons.IH [OF g(3)] g(1,4) by simp
  qed simp
  from this [OF p] have "\<forall>(k, d) \<in> set (sm_hit_rate m). k \<in> {KBuy, KSell} \<and> (\<forall>h x. (h, Some x) \<in> set d \<longrightarrow> in_range 0 1 x)"
    unfolding m(2) List.map_filter_def by (auto split: option.splits)
  then show ?thesis using sizes keys group_by_type_facts [of "concat (map snd signals)"] by auto
qed

definition quiet_signal :: "signal_kind \<Rightarrow> captured_signal" where
  "quiet_signal k = \<lparr>cp_ts = 0, cp_type = k, cp_confidence = 60, cp_close = Fin 1, cp_fwd_returns = [(1, None)]\<rparr>"

lemma metrics_account_for_signals_witness:
  "\<exists>m. compute_signal_metrics (\<lambda>seed. ()) (\<lambda>g. (Fin 0, g)) [(''BTC'', [quiet_signal KBuy, quiet_signal KHighvol]), (''ETH'', [quiet_signal KBuy])]
     [(''BTC'', [])] [1] 1 60000 1000 0 = Inr m \<and> sum_list (map snd (sm_sample_size m)) = 3"
proof -
  have e: "effective_sample_size [] n = Inr None" for n by (simp add: effective_sample_size_def)
  have r: "returns_at 1 (map quiet_signal ks) = Inr []" for ks
    by (induction ks) (auto simp: returns_at_def quiet_signal_def rbind_eq_Inr List.map_filter_simps)
  have groups: "group_by_type [quiet_signal KBuy, quiet_signal KHighvol, quiet_signal KBuy] =
      [(KBuy, map quiet_signal [KBuy, KBuy]), (KHighvol, map quiet_signal [KHighvol])]"
    by (simp add: group_by_type_def quiet_signal_def)
  have cell: "metric_cell_of bs seed (map quiet_signal ks) 1 pool b None =
      Inr \<lparr>mc_mean = None, mc_mean_lo = None, mc_mean_hi = None, mc_edge = None, mc_edge_lo = None, mc_edge_hi = None, mc_neff = None\<rparr>"
    for bs seed ks pool b
    unfolding metric_cell_of_def r rbind_simps optional_mean_def by (simp add: e excess_def)
  have hit: "hit_rate_at k (map quiet_signal ks) 1 = Inr None" for k ks
    unfolding hit_rate_at_def r by simp
  have pools: "extend_pools (\<lambda>cs. baseline_returns cs [1] 1 60000) [1] (map snd [(''BTC'', [])]) (pools_new [1]) = Inr [(1, [])]"
    by (simp add: baseline_returns_def pools_new_def pool_of_def)
  have tm: "\<exists>x. type_metrics bs 0 [(1, [])] [(1, None)] [(1, None)] [1] (k, map quiet_signal ks) = Inr x" for bs k ks
    by (simp add: type_metrics_def cell hit pool_of_def)
  have all: "\<exists>x. rmap (type_metrics bs 0 [(1, [])] [(1, None)] [(1, None)] [1])
      [(KBuy, map quiet_signal [KBuy, KBuy]), (KHighvol, map quiet_signal [KHighvol])] = Inr x" for bs
    using tm [of bs KBuy "[KBuy, KBuy]"] tm [of bs KHighvol "[KHighvol]"] by (auto simp del: list.map)
  have entries: "concat (map snd [(''BTC'', [quiet_signal KBuy, quiet_signal KHighvol]), (''ETH'', [quiet_signal KBuy])]) =
      [quiet_signal KBuy, quiet_signal KHighvol, quiet_signal KBuy]" by simp
  have base: "rmap (\<lambda>(h, xs). rbind (optional_mean xs) (\<lambda>m. Inr (h, m))) [(1, [])] = Inr [(1, None)]"
    "rmap (\<lambda>(h, xs). rbind (effective_sample_size xs (h - 1)) (\<lambda>n. Inr (h, n))) [(1, [])] = Inr [(1, None)]"
    by (simp_all add: optional_mean_def e)
  obtain m where m: "compute_signal_metrics (\<lambda>seed. ()) (\<lambda>g. (Fin 0, g)) [(''BTC'', [quiet_signal KBuy, quiet_signal KHighvol]), (''ETH'', [quiet_signal KBuy])]
     [(''BTC'', [])] [1] 1 60000 1000 0 = Inr m"
    unfolding compute_signal_metrics_def pools rbind_simps base entries groups Let_def
    using all [of "\<lambda>returns pool n b seed. bootstrap_ci (\<lambda>seed. ()) (\<lambda>g. (Fin 0, g)) returns pool n b 1000 seed"] by force
  show ?thesis using metrics_account_for_signals [OF m] m by simp
qed

text \<open>A registry with one symbol, and one stored candle of it.\<close>

definition one_candle_row :: candle_row where
  "one_candle_row = \<lparr>cr_symbol_id = 1, cr_ts = 1700000000000000, cr_open = Fin 100, cr_high = Fin 110, cr_low = Fin 90, cr_close = Fin 100,
     cr_volume = Fin 10, cr_quote_volume = Fin 1000, cr_trades = 5, cr_taker_buy_volume = Fin 5, cr_interval = ''1m''\<rparr>"

definition one_symbol_db :: db where
  "one_symbol_db = (db_new 0)
     \<lparr>db_symbols := [\<lparr>se_id = 1, se_row = \<lparr>sy_symbol = ''BTCUSDT'', sy_base = ''BTC'', sy_quote = ''USDT'', sy_klass = ''core'', sy_tier = 0,
        sy_status = ''trading'', sy_tags = []\<rparr>, se_rank = None, se_metrics = None, se_first_seen = 0, se_last_synced = None\<rparr>],
      db_candles := [((1, ''1m'', 1700000000000000), one_candle_row)]\<rparr>"

lemma one_symbol_id: "(\<lambda>b. get_id b one_symbol_db) = [''BTC'' \<mapsto> 1]"
  by (rule ext) (simp add: get_id_def one_symbol_db_def has_base_def)

lemma one_candle_replay:
  "\<exists>signals c. replay_symbol (\<lambda>_. Inr (Fin 0)) default_settings one_symbol_db ''1m'' None None [1] 1 ''BTC'' = Inr (signals, [c])"
proof -
  have ts: "to_ms 1700000000000000 = Inr 1700000000000" using to_ms_whole [of 1700000000] by simp
  have range: "select_range 1 ''1m'' None None one_symbol_db = [one_candle_row]"
    by (simp add: select_range_def candles_of_def one_symbol_db_def one_candle_row_def)
  have candles: "rmap (row_to_candle ''BTC'') [one_candle_row] = Inr [sample_candle]"
    by (simp add: row_to_candle_def one_candle_row_def sample_candle_def ts)
  have ms: "interval_to_ms ''1m'' = Inr 60000" by code_simp
  have ok: "pipeline_config_ok default_settings" "libm_log (\<lambda>_. Inr (Fin 0))" "candle_ok sample_candle"
    by (simp_all add: pipeline_config_ok_def events_config_ok_def default_settings_def period_ok_def libm_log_def in_range_Fin
        candle_ok_def sample_candle_def level_ok_def price_ok_def price_bound_def)
  obtain r s1 where h: "handle_candle (capture_backend [''BTC'' \<mapsto> 1]) (\<lambda>_. Inr (Fin 0)) sample_candle (engine_new default_settings [''BTC'' \<mapsto> 1], []) = (r, s1)"
    by (metis prod.collapse)
  have "r = Inr ()"
    using capture_reliable.run_total [OF ok(1,2), of "[sample_candle]" "[''BTC'' \<mapsto> 1]" "[]"] ok(3) h by (simp add: split_beta)
  have at: "from_ms 1700000000000 = Inr 1700000000000000" using from_ms_exact [of 1700000000000] by simp
  have "\<exists>x. capture_row [sample_candle] [1] 1 60000 0 sample_candle row = Inr x" for row
    using forward_returns_total [of 0 1 "[sample_candle]" "[1]" 60000] at by (auto simp: capture_row_def sample_candle_def)
  then obtain f where "\<And>row. capture_row [sample_candle] [1] 1 60000 0 sample_candle row = Inr (f row)" by metis
  then have "rmap (capture_row [sample_candle] [1] 1 60000 0 sample_candle) rows = Inr (map f rows)" for rows by (intro rmap_Inr)
  then have "replay_loop (\<lambda>_. Inr (Fin 0)) [''BTC'' \<mapsto> 1] (capture_row [sample_candle] [1] 1 60000) 0 [sample_candle]
      (engine_new default_settings [''BTC'' \<mapsto> 1], []) = Inr (map f (drop 0 (snd s1)))"
    using h \<open>r = Inr ()\<close> by simp
  moreover have "get_id ''BTC'' one_symbol_db = Some 1" using one_symbol_id by (metis fun_upd_same)
  ultimately show ?thesis by (simp add: replay_symbol_def range candles ms one_symbol_id del: rmap.simps replay_loop.simps)
qed

theorem signals_ignore_future_witness:
  "\<exists>seen c rest. replay_symbol (\<lambda>_. Inr (Fin 0)) default_settings one_symbol_db ''1m'' None (Some 1800000000000000) [1] 1 ''BTC'' = Inr (seen, c) \<and>
    (\<exists>signals d. replay_symbol (\<lambda>_. Inr (Fin 0)) default_settings one_symbol_db ''1m'' None None [1] 1 ''BTC'' = Inr (signals, [d]) \<and>
      map decision signals = map decision seen @ rest)"
proof -
  obtain signals d where r: "replay_symbol (\<lambda>_. Inr (Fin 0)) default_settings one_symbol_db ''1m'' None None [1] 1 ''BTC'' = Inr (signals, [d])"
    using one_candle_replay by blast
  from signals_ignore_future [OF r, of 1800000000000000] show ?thesis using r by auto
qed

end
