(* ===== verification/Buckets.thy ===== *)
theory Buckets
  imports Validation "HOL-Library.Multiset"
begin

text \<open>
  \<^verbatim>\<open>src/orvixa/backtest/regime_validation.py\<close> and \<^verbatim>\<open>policy_validation.py\<close>: signals and baseline
  returns bucketed by the regime of their candle, clustered signals, the triage labels, and the decisions drawn from
  them. Labels are the strings of the code, since their characters seed the bootstrap.
\<close>

section \<open>Regime tags\<close>

type_synonym bucket = "string \<times> string"

definition min_neff :: pyfloat where
  "min_neff = Fin 5"

definition cluster_dominance_threshold :: pyfloat where
  "cluster_dominance_threshold = to_dbl (1 / 2)"

definition classify_trend_regime :: "direction option \<Rightarrow> string" where
  "classify_trend_regime d =
     (case d of None \<Rightarrow> ''unknown'' | Some Up \<Rightarrow> ''up'' | Some Down \<Rightarrow> ''down'' | Some Flat \<Rightarrow> ''flat'')"

definition classify_vol_regime :: "pyfloat option \<Rightarrow> settings \<Rightarrow> string" where
  "classify_vol_regime vol cfg =
     (case vol of
        None \<Rightarrow> ''unknown''
      | Some v \<Rightarrow>
          let threshold = high_volatility_pct cfg in
          if v \<ge> threshold then ''high'' else if v \<le> quot threshold (Fin 3) then ''low'' else ''normal'')"

fun regime_tags_from :: "(pyfloat \<Rightarrow> pyfloat res) \<Rightarrow> settings \<Rightarrow> candle list \<Rightarrow> symbol_indicators \<Rightarrow> bucket list res" where
  "regime_tags_from logf cfg [] st = Inr []"
| "regime_tags_from logf cfg (c # cs) st =
     (let (snapshot, st1) = symbol_indicators_update logf c st in
      rbind snapshot (\<lambda>snap.
      rbind (compute_trend snap) (\<lambda>trend.
      rbind (regime_tags_from logf cfg cs st1) (\<lambda>tags.
      Inr ((classify_trend_regime (map_option tr_direction trend), classify_vol_regime (sn_vol_realized snap) cfg) # tags)))))"

definition compute_regime_tags :: "(pyfloat \<Rightarrow> pyfloat res) \<Rightarrow> settings \<Rightarrow> candle list \<Rightarrow> bucket list res" where
  "compute_regime_tags logf cfg candles = rbind (symbol_indicators_new cfg) (regime_tags_from logf cfg candles)"


section \<open>Clusters\<close>

fun clustered_with :: "int \<Rightarrow> int \<Rightarrow> signal_kind \<Rightarrow> captured_signal list \<Rightarrow> bool res" where
  "clustered_with window_ms ts k [] = Inr False"
| "clustered_with window_ms ts k (prior # priors) =
     (if cp_type prior \<noteq> k then clustered_with window_ms ts k priors
      else rbind (to_ms (cp_ts prior)) (\<lambda>prior_ts.
        if 0 < ts - prior_ts \<and> ts - prior_ts \<le> window_ms then Inr True else clustered_with window_ms ts k priors))"

fun cluster_tags_from :: "int \<Rightarrow> captured_signal list \<Rightarrow> captured_signal list \<Rightarrow> bool list res" where
  "cluster_tags_from window_ms seen [] = Inr []"
| "cluster_tags_from window_ms seen (s # ss) =
     rbind (to_ms (cp_ts s)) (\<lambda>ts.
     rbind (clustered_with window_ms ts (cp_type s) seen) (\<lambda>b.
     rbind (cluster_tags_from window_ms (seen @ [s]) ss) (\<lambda>bs. Inr (b # bs))))"

definition compute_cluster_tags :: "captured_signal list \<Rightarrow> int \<Rightarrow> int \<Rightarrow> bool list res" where
  "compute_cluster_tags signals window_candles interval_ms = cluster_tags_from (window_candles * interval_ms) [] signals"


section \<open>Baselines per regime\<close>

fun conditioned_from ::
  "(int \<Rightarrow> per_horizon res) \<Rightarrow> int list \<Rightarrow> int \<Rightarrow> bucket list \<Rightarrow> (bucket \<times> pools) list \<Rightarrow> (bucket \<times> pools) list res" where
  "conditioned_from returns horizons idx [] out = Inr out"
| "conditioned_from returns horizons idx (b # bs) out =
     rbind (returns idx) (\<lambda>fwd.
     conditioned_from returns horizons (idx + 1) bs
       (alput b (foldl add_return (get_or (pools_new horizons) (map_of out b)) fwd) out))"

definition regime_conditioned_baselines ::
  "candle list \<Rightarrow> bucket list \<Rightarrow> int list \<Rightarrow> int \<Rightarrow> int \<Rightarrow> (bucket \<times> pools) list res" where
  "regime_conditioned_baselines candles regime_tags horizons execution_lag interval_ms =
     conditioned_from (\<lambda>idx. forward_returns candles idx horizons execution_lag interval_ms) horizons 0 regime_tags []"


section \<open>Triage\<close>

definition classify_validity :: "pyfloat option \<Rightarrow> pyfloat option \<Rightarrow> pyfloat option \<Rightarrow> pyfloat \<Rightarrow> string" where
  "classify_validity neff edge_lo edge_hi clustered_fraction =
     (case neff of
        None \<Rightarrow> ''insufficient_data''
      | Some n \<Rightarrow>
          if n < min_neff then ''insufficient_data''
          else (case (edge_lo, edge_hi) of
             (Some lo, Some hi) \<Rightarrow>
               if lo \<le> Fin 0 \<and> Fin 0 \<le> hi then ''diagnostic_only''
               else if clustered_fraction > cluster_dominance_threshold then ''diagnostic_only''
               else ''regime_conditional_candidate''
           | _ \<Rightarrow> ''insufficient_data''))"

definition bucket_key :: "bucket \<Rightarrow> string" where
  "bucket_key b = ''trend='' @ fst b @ '',vol='' @ snd b"

record regime_cell =
  rc_sample_size :: int
  rc_clustered_fraction :: pyfloat
  rc_neff :: per_horizon
  rc_edge :: per_horizon
  rc_edge_lo :: per_horizon
  rc_edge_hi :: per_horizon
  rc_classification :: "(int \<times> string) list"

type_synonym bootstrap = "pyfloat list \<Rightarrow> pyfloat list \<Rightarrow> pyfloat \<Rightarrow> pyfloat \<Rightarrow> int \<Rightarrow> ((pyfloat \<times> pyfloat) \<times> (pyfloat \<times> pyfloat)) res"

text \<open>One horizon of a cell: edge, effective sample size, interval and label.\<close>

definition regime_horizon ::
  "bootstrap \<Rightarrow> int \<Rightarrow> captured_signal list \<Rightarrow> pyfloat \<Rightarrow> pools \<Rightarrow> int
    \<Rightarrow> (pyfloat option \<times> pyfloat option \<times> pyfloat option \<times> pyfloat option \<times> string) res" where
  "regime_horizon bootstrap seed entries clustered_fraction pools h =
     rbind (returns_at h entries) (\<lambda>returns.
     rbind (optional_mean returns) (\<lambda>mean.
     rbind (optional_mean (pool_of pools h)) (\<lambda>base_mean.
     rbind (effective_sample_size (pool_of pools h) (h - 1)) (\<lambda>base_neff.
     rbind (effective_sample_size returns (h - 1)) (\<lambda>neff.
     rbind (case (neff, base_neff) of
              (Some n, Some b) \<Rightarrow>
                if returns \<noteq> [] \<and> pool_of pools h \<noteq> []
                then rbind (bootstrap returns (pool_of pools h) n b seed) (\<lambda>(_, (lo, hi)). Inr (Some lo, Some hi))
                else Inr (None, None)
            | _ \<Rightarrow> Inr (None, None)) (\<lambda>(lo, hi).
     Inr (excess mean base_mean, neff, lo, hi, classify_validity neff lo hi clustered_fraction)))))))"

definition regime_cell_of ::
  "bootstrap \<Rightarrow> int \<Rightarrow> bucket \<Rightarrow> pools \<Rightarrow> int list \<Rightarrow> signal_kind \<times> (captured_signal \<times> bool) list \<Rightarrow> regime_cell res" where
  "regime_cell_of bootstrap bootstrap_seed b pools horizons typed =
     (case typed of (k, tagged) \<Rightarrow>
      rbind (int_div (int (length (filter snd tagged))) (int (length tagged))) (\<lambda>clustered_fraction.
      rbind (rmap (\<lambda>h. regime_horizon bootstrap (bootstrap_seed + 1000 * h + ord_sum (kind_label k) + ord_sum (bucket_key b))
               (map fst tagged) clustered_fraction pools h) horizons) (\<lambda>rows.
      let column = (\<lambda>f. dict_of (zip horizons (map f rows))) in
      Inr \<lparr>rc_sample_size = int (length tagged), rc_clustered_fraction = pyround_n clustered_fraction 4,
           rc_neff = column (\<lambda>(e, n, lo, hi, c). n), rc_edge = column (\<lambda>(e, n, lo, hi, c). e),
           rc_edge_lo = column (\<lambda>(e, n, lo, hi, c). lo), rc_edge_hi = column (\<lambda>(e, n, lo, hi, c). hi),
           rc_classification = dict_of (zip horizons (map (\<lambda>(e, n, lo, hi, c). c) rows))\<rparr>)))"

text \<open>Signals by bucket and type; a signal whose time is not that of a candle is skipped.\<close>

type_synonym 'a by_bucket = "(bucket \<times> (signal_kind \<times> 'a) list) list"

definition put_in_bucket :: "bucket \<Rightarrow> captured_signal \<times> bool \<Rightarrow> (captured_signal \<times> bool) list by_bucket \<Rightarrow> (captured_signal \<times> bool) list by_bucket" where
  "put_in_bucket b entry out =
     (let by_type = get_or [] (map_of out b); k = cp_type (fst entry)
      in alput b (alput k (get_or [] (map_of by_type k) @ [entry]) by_type) out)"

fun bucket_signals ::
  "(int \<times> nat) list \<Rightarrow> bucket list \<Rightarrow> (captured_signal \<times> bool) list \<Rightarrow> (captured_signal \<times> bool) list by_bucket
    \<Rightarrow> (captured_signal \<times> bool) list by_bucket res" where
  "bucket_signals ts_to_idx tags [] out = Inr out"
| "bucket_signals ts_to_idx tags (entry # entries) out =
     rbind (to_ms (cp_ts (fst entry))) (\<lambda>ts.
     bucket_signals ts_to_idx tags entries
       (case map_of ts_to_idx ts of None \<Rightarrow> out | Some idx \<Rightarrow> put_in_bucket (tags ! idx) entry out))"

type_synonym regime_metrics = "(string \<times> (signal_kind \<times> regime_cell) list) list"

definition compute_regime_metrics ::
  "(pyfloat \<Rightarrow> pyfloat res) \<Rightarrow> bootstrap \<Rightarrow> captured_signal list \<Rightarrow> candle list \<Rightarrow> settings \<Rightarrow> int list \<Rightarrow> int \<Rightarrow> int \<Rightarrow> int
    \<Rightarrow> regime_metrics res" where
  "compute_regime_metrics logf bootstrap signals candles cfg horizons execution_lag interval_ms bootstrap_seed =
     (if candles = [] then Inr []
      else
        rbind (compute_regime_tags logf cfg candles) (\<lambda>tags.
        rbind (compute_cluster_tags signals (breakout_window cfg) interval_ms) (\<lambda>clusters.
        rbind (regime_conditioned_baselines candles tags horizons execution_lag interval_ms) (\<lambda>baselines.
        let ts_to_idx = dict_of (zip (map cd_ts candles) [0..<length candles]) in
        rbind (bucket_signals ts_to_idx tags (zip signals clusters) []) (\<lambda>by_bucket.
        rbind (rmap (\<lambda>(b, by_type).
            rbind (rmap (\<lambda>(k, tagged).
                rbind (regime_cell_of bootstrap bootstrap_seed b (get_or (pools_new horizons) (map_of baselines b)) horizons (k, tagged))
                  (\<lambda>cell. Inr (k, cell))) by_type) (\<lambda>cells.
            Inr (bucket_key b, cells))) by_bucket) (\<lambda>out.
        Inr (dict_of out)))))))"

definition run_regime_validation ::
  "(pyfloat \<Rightarrow> pyfloat res) \<Rightarrow> (int \<Rightarrow> 'g) \<Rightarrow> ('g \<Rightarrow> pyfloat \<times> 'g) \<Rightarrow> settings \<Rightarrow> db \<Rightarrow> string list \<Rightarrow> string
    \<Rightarrow> datetime option \<Rightarrow> datetime option \<Rightarrow> int list \<Rightarrow> int \<Rightarrow> string \<Rightarrow> int \<Rightarrow> int
    \<Rightarrow> (validation_result \<times> (string \<times> regime_metrics) list) res" where
  "run_regime_validation logf seeded draw cfg db symbols interval start end_ts horizons execution_lag mode iterations bootstrap_seed =
     rbind (run_signal_validation logf seeded draw cfg db symbols interval start end_ts horizons execution_lag mode) (\<lambda>result.
     rbind (interval_to_ms interval) (\<lambda>interval_ms.
     rbind (rmap (\<lambda>base. rbind (case get_id base db of
            None \<Rightarrow> Inr []
          | Some sid \<Rightarrow>
              rbind (rmap (row_to_candle base) (select_range sid interval start end_ts db)) (\<lambda>candles.
              compute_regime_metrics logf (\<lambda>returns pool n b seed. bootstrap_ci seeded draw returns pool n b iterations seed)
                (get_or [] (map_of (vr_signals result) base)) candles cfg horizons execution_lag interval_ms bootstrap_seed))
          (\<lambda>metrics. Inr (base, metrics))) symbols) (\<lambda>metrics.
     Inr (result, dict_of metrics))))"



section \<open>The regimes partition the baseline\<close>

text \<open>What one candle contributes at a horizon.\<close>

definition added :: "per_horizon \<Rightarrow> int \<Rightarrow> pyfloat list" where
  "added fwd h = List.map_filter (\<lambda>(h', v). if h' = h then v else None) fwd"

lemma pool_of_add_return: "pool_of (add_return out item) h = pool_of out h @ added [item] h"
  by (cases item) (auto simp: add_return_def pool_of_def added_def List.map_filter_simps split: option.splits)

lemma added_Cons: "added (item # fwd) h = added [item] h @ added fwd h"
  by (cases item) (auto simp: added_def List.map_filter_simps split: option.splits)

lemma added_Nil [simp]: "added [] h = []"
  by (simp add: added_def List.map_filter_simps)

lemma pool_of_add_returns: "pool_of (foldl add_return out fwd) h = pool_of out h @ added fwd h"
proof (induction fwd arbitrary: out)
  case (Cons item fwd)
  show ?case by (simp add: Cons.IH pool_of_add_return added_Cons [of item fwd])
qed simp

lemma pool_of_new [simp]: "pool_of (pools_new hs) h = []"
proof -
  have "pool_of (foldl (\<lambda>out h. alput h [] out) out hs) h = (if h \<in> set hs then [] else pool_of out h)" for out
    by (induction hs arbitrary: out) (auto simp: pool_of_def)
  from this [of "[]"] show ?thesis by (simp add: pools_new_def pool_of_def)
qed

definition pooled :: "(bucket \<times> pools) list \<Rightarrow> int \<Rightarrow> pyfloat multiset" where
  "pooled out h = sum_list (map (\<lambda>(b, p). mset (pool_of p h)) out)"

lemma pooled_alput:
  assumes "distinct (map fst out)"
  shows "pooled (alput b p out) h + mset (pool_of (get_or (pools_new hs) (map_of out b)) h) = pooled out h + mset (pool_of p h)"
  using assms
proof (induction out)
  case (Cons x out)
  obtain b' p' where x: "x = (b', p')" by (cases x)
  show ?case
  proof (cases "b = b'")
    case False
    then show ?thesis using Cons by (simp add: x pooled_def add.assoc)
  qed (simp add: x pooled_def add.commute add.left_commute)
qed (simp add: pooled_def)

lemma mset_cancel:
  fixes a :: "'a multiset"
  assumes "a + c = b + c + d"
  shows "a = b + d"
proof -
  have "a + c = b + d + c" using assms by (simp add: ac_simps)
  then show ?thesis by (simp only: add_right_cancel)
qed

lemma conditioned_partition:
  assumes "baseline_from candles hs lag ms (map int [i..<i + length tags]) out = Inr global"
    "conditioned_from (\<lambda>idx. forward_returns candles idx hs lag ms) hs (int i) tags acc = Inr pools"
    "distinct (map fst acc)"
  shows "mset (pool_of global h) + pooled acc h = mset (pool_of out h) + pooled pools h"
  using assms
proof (induction tags arbitrary: i out acc)
  case (Cons b tags)
  have upt: "map int [i..<i + length (b # tags)] = int i # map int [Suc i..<Suc i + length tags]"
    by (simp add: upt_conv_Cons del: upt_Suc)
  obtain fwd where f: "forward_returns candles (int i) hs lag ms = Inr fwd"
    using Cons.prems(2) by (auto simp: rbind_eq_Inr)
  let ?p = "foldl add_return (get_or (pools_new hs) (map_of acc b)) fwd"
  have g: "baseline_from candles hs lag ms (map int [Suc i..<Suc i + length tags]) (foldl add_return out fwd) = Inr global"
    using Cons.prems(1) f unfolding upt by simp
  have c: "conditioned_from (\<lambda>idx. forward_returns candles idx hs lag ms) hs (int (Suc i)) tags (alput b ?p acc) = Inr pools"
    using Cons.prems(2) f by (simp add: add.commute)
  have ih: "mset (pool_of global h) + pooled (alput b ?p acc) h = mset (pool_of out h) + mset (added fwd h) + pooled pools h"
    using Cons.IH [OF g c] Cons.prems(3) by (simp add: pool_of_add_returns)
  have "pooled (alput b ?p acc) h + mset (pool_of (get_or (pools_new hs) (map_of acc b)) h) =
      pooled acc h + mset (pool_of (get_or (pools_new hs) (map_of acc b)) h) + mset (added fwd h)"
    using pooled_alput [OF Cons.prems(3), of b ?p h hs] by (simp add: pool_of_add_returns add.assoc)
  then have "pooled (alput b ?p acc) h = pooled acc h + mset (added fwd h)" by (rule mset_cancel)
  then have "mset (pool_of global h) + pooled acc h + mset (added fwd h) = mset (pool_of out h) + pooled pools h + mset (added fwd h)"
    using ih by (simp add: ac_simps)
  then show ?case by (simp only: add_right_cancel)
qed simp

text \<open>
  C27: the regimes partition the baseline. With one tag per candle, the pools of the regimes together hold at every
  horizon exactly the returns of the global baseline, each as often: no candle is lost and none counts in two regimes.
\<close>

theorem regimes_partition_baseline:
  assumes "baseline_returns candles hs lag ms = Inr global"
    "regime_conditioned_baselines candles tags hs lag ms = Inr pools" "length tags = length candles"
  shows "mset (pool_of global h) = sum_list (map (\<lambda>(b, p). mset (pool_of p h)) pools)"
  using conditioned_partition [of candles hs lag ms 0 tags "pools_new hs" global "[]" pools h] assms
  by (simp add: baseline_returns_def regime_conditioned_baselines_def pooled_def)

theorem regimes_partition_baseline_witness:
  "\<exists>global pools. baseline_returns [bar 0 1, bar 60000 2, bar 120000 4] [1] 1 60000 = Inr global \<and>
     regime_conditioned_baselines [bar 0 1, bar 60000 2, bar 120000 4] [(''up'', ''low''), (''flat'', ''low''), (''up'', ''low'')] [1] 1 60000 = Inr pools \<and>
     mset (pool_of global 1) = sum_list (map (\<lambda>(b, p). mset (pool_of p 1)) pools)"
proof -
  have "\<forall>i. \<exists>out. 0 \<le> i \<longrightarrow> forward_returns [bar 0 1, bar 60000 2, bar 120000 4] i [1] 1 60000 = Inr out"
    using forward_returns_total by simp
  then obtain f where f: "\<And>i. 0 \<le> i \<Longrightarrow> forward_returns [bar 0 1, bar 60000 2, bar 120000 4] i [1] 1 60000 = Inr (f i)"
    by metis
  obtain global where g: "baseline_returns [bar 0 1, bar 60000 2, bar 120000 4] [1] 1 60000 = Inr global"
    using f [of 0] f [of 1] f [of 2] by (simp add: baseline_returns_def numeral_nat upt_rec)
  obtain pools where p: "regime_conditioned_baselines [bar 0 1, bar 60000 2, bar 120000 4]
      [(''up'', ''low''), (''flat'', ''low''), (''up'', ''low'')] [1] 1 60000 = Inr pools"
    using f [of 0] f [of 1] f [of 2] by (simp add: regime_conditioned_baselines_def)
  show ?thesis using regimes_partition_baseline [OF g p] g p by simp
qed

end
