(* ===== verification/Policy.thy ===== *)
theory Policy
  imports Buckets
begin

text \<open>
  \<^verbatim>\<open>src/orvixa/backtest/policy_validation.py\<close>: one decision per symbol, regime bucket and signal type, drawn
  from the regime cell and the global edge at one horizon.
\<close>

section \<open>Decisions\<close>

definition default_decision_horizon :: int where
  "default_decision_horizon = 1"

datatype verdict = ALLOW | BLOCK | REDUCE

datatype reason =
    InsufficientData
  | EdgeCiSpansZero
  | Clustered
  | AgreesWithGlobal
  | DivergesFromGlobal
  | NoGlobalReference

record policy_decision =
  pd_verdict :: verdict
  pd_reason :: reason
  pd_classification :: string
  pd_regime_edge :: "pyfloat option"
  pd_global_edge :: "pyfloat option"
  pd_sample_size :: int
  pd_neff :: "pyfloat option"

definition sign_of :: "pyfloat \<Rightarrow> int" where
  "sign_of v = (if v > Fin 0 then 1 else if v < Fin 0 then - 1 else 0)"

text \<open>\<^verbatim>\<open>d[key]\<close>\<close>

definition at_key :: "('k \<times> 'v) list \<Rightarrow> 'k \<Rightarrow> 'v res" where
  "at_key d k = (case map_of d k of None \<Rightarrow> Inl KeyError | Some v \<Rightarrow> Inr v)"

definition spans_zero :: "pyfloat option \<Rightarrow> pyfloat option \<Rightarrow> bool" where
  "spans_zero lo hi = (case (lo, hi) of (Some l, Some h) \<Rightarrow> l \<le> Fin 0 \<and> Fin 0 \<le> h | _ \<Rightarrow> True)"

text \<open>\<^verbatim>\<open>_sign(None)\<close> compares \<^verbatim>\<open>None\<close> with a number.\<close>

definition verdict_of :: "regime_cell \<Rightarrow> pyfloat option \<Rightarrow> int \<Rightarrow> string \<Rightarrow> pyfloat option \<Rightarrow> (verdict \<times> reason) res" where
  "verdict_of cell global_edge h classification regime_edge =
     (if classification = ''insufficient_data'' then Inr (BLOCK, InsufficientData)
      else if classification = ''diagnostic_only'' then
        rbind (at_key (rc_edge_lo cell) h) (\<lambda>lo.
        rbind (at_key (rc_edge_hi cell) h) (\<lambda>hi.
        Inr (REDUCE, if spans_zero lo hi then EdgeCiSpansZero
                     else if rc_clustered_fraction cell > cluster_dominance_threshold then Clustered
                     else EdgeCiSpansZero)))
      else if classification = ''regime_conditional_candidate'' then
        (case global_edge of
           None \<Rightarrow> Inr (REDUCE, NoGlobalReference)
         | Some g \<Rightarrow>
             (case regime_edge of
                None \<Rightarrow> Inl TypeError
              | Some e \<Rightarrow> Inr (if sign_of e = sign_of g \<and> sign_of e \<noteq> 0 then (ALLOW, AgreesWithGlobal) else (REDUCE, DivergesFromGlobal))))
      else Inr (BLOCK, InsufficientData))"

definition decide_cell :: "regime_cell \<Rightarrow> pyfloat option \<Rightarrow> int \<Rightarrow> policy_decision res" where
  "decide_cell cell global_edge h =
     rbind (at_key (rc_classification cell) h) (\<lambda>classification.
     rbind (at_key (rc_edge cell) h) (\<lambda>regime_edge.
     rbind (verdict_of cell global_edge h classification regime_edge) (\<lambda>(verdict, reason).
     rbind (at_key (rc_neff cell) h) (\<lambda>neff.
     Inr \<lparr>pd_verdict = verdict, pd_reason = reason, pd_classification = classification, pd_regime_edge = regime_edge,
          pd_global_edge = global_edge, pd_sample_size = rc_sample_size cell, pd_neff = neff\<rparr>))))"

definition global_edge_at :: "signal_metrics \<Rightarrow> signal_kind \<Rightarrow> int \<Rightarrow> pyfloat option" where
  "global_edge_at m k h = (case map_of (get_or [] (map_of (sm_cells m) k)) h of None \<Rightarrow> None | Some cell \<Rightarrow> mc_edge cell)"

type_synonym policy_decisions = "(string \<times> (string \<times> (signal_kind \<times> policy_decision) list) list) list"

definition compute_policy_decisions ::
  "signal_metrics \<Rightarrow> (string \<times> regime_metrics) list \<Rightarrow> int \<Rightarrow> policy_decisions res" where
  "compute_policy_decisions m metrics h =
     rmap (\<lambda>(symbol, buckets).
       rbind (rmap (\<lambda>(key, by_type).
         rbind (rmap (\<lambda>(k, cell). rbind (decide_cell cell (global_edge_at m k h) h) (\<lambda>d. Inr (k, d))) by_type) (\<lambda>ds.
         Inr (key, ds))) buckets) (\<lambda>per_bucket.
       Inr (symbol, per_bucket))) metrics"

definition run_policy_validation ::
  "(pyfloat \<Rightarrow> pyfloat res) \<Rightarrow> (int \<Rightarrow> 'g) \<Rightarrow> ('g \<Rightarrow> pyfloat \<times> 'g) \<Rightarrow> settings \<Rightarrow> db \<Rightarrow> string list \<Rightarrow> string
    \<Rightarrow> datetime option \<Rightarrow> datetime option \<Rightarrow> int list \<Rightarrow> int \<Rightarrow> string \<Rightarrow> int \<Rightarrow> int \<Rightarrow> int
    \<Rightarrow> (validation_result \<times> (string \<times> regime_metrics) list \<times> policy_decisions) res" where
  "run_policy_validation logf seeded draw cfg db symbols interval start end_ts horizons execution_lag mode iterations bootstrap_seed h =
     rbind (run_regime_validation logf seeded draw cfg db symbols interval start end_ts horizons execution_lag mode iterations bootstrap_seed)
       (\<lambda>(result, metrics).
     rbind (compute_policy_decisions (vr_metrics result) metrics h) (\<lambda>decisions.
     Inr (result, metrics, decisions)))"


section \<open>What ALLOW rests on\<close>

lemma map_of_dict_of: "map_of (dict_of ps) k = map_of (rev ps) k"
proof -
  have "map_of (foldl (\<lambda>d (k, v). alput k v d) d ps) k = (case map_of (rev ps) k of None \<Rightarrow> map_of d k | Some v \<Rightarrow> Some v)" for d
    by (induction ps arbitrary: d) (auto simp: map_of_append map_add_def split: option.splits)
  from this [of "[]"] show ?thesis by (simp add: dict_of_def split: option.splits)
qed

lemma map_of_zip_map:
  "length xs = length ys \<Longrightarrow> map_of (zip xs (map f ys)) k = map_option f (map_of (zip xs ys) k)"
  by (induction xs ys rule: list_induct2) auto

lemma column_at:
  assumes "length xs = length ys"
  shows "map_of (dict_of (zip xs (map f ys))) k = map_option f (map_of (rev (zip xs ys)) k)"
proof -
  have "rev (zip xs (map f ys)) = zip (rev xs) (map f (rev ys))" "rev (zip xs ys) = zip (rev xs) (rev ys)"
    using assms zip_rev [of xs "map f ys"] zip_rev [of xs ys] by (simp_all add: rev_map)
  then show ?thesis using assms by (simp add: map_of_dict_of map_of_zip_map)
qed

text \<open>The entries of a cell at one horizon come from one call.\<close>

lemma cell_horizon:
  assumes "regime_cell_of bs seed b pools hs (k, tagged) = Inr cell" "map_of (rc_classification cell) h = Some c"
  shows "\<exists>s f e n lo hi. int_div (int (length (filter snd tagged))) (int (length tagged)) = Inr f \<and>
    rc_clustered_fraction cell = pyround_n f 4 \<and>
    regime_horizon bs s (map fst tagged) f pools h = Inr (e, n, lo, hi, c) \<and>
    map_of (rc_edge cell) h = Some e \<and> map_of (rc_neff cell) h = Some n \<and>
    map_of (rc_edge_lo cell) h = Some lo \<and> map_of (rc_edge_hi cell) h = Some hi"
proof -
  let ?s = "\<lambda>h. seed + 1000 * h + ord_sum (kind_label k) + ord_sum (bucket_key b)"
  obtain f rows where r: "int_div (int (length (filter snd tagged))) (int (length tagged)) = Inr f"
    "rmap (\<lambda>h. regime_horizon bs (?s h) (map fst tagged) f pools h) hs = Inr rows"
    "cell = \<lparr>rc_sample_size = int (length tagged), rc_clustered_fraction = pyround_n f 4,
           rc_neff = dict_of (zip hs (map (\<lambda>(e, n, lo, hi, c). n) rows)), rc_edge = dict_of (zip hs (map (\<lambda>(e, n, lo, hi, c). e) rows)),
           rc_edge_lo = dict_of (zip hs (map (\<lambda>(e, n, lo, hi, c). lo) rows)), rc_edge_hi = dict_of (zip hs (map (\<lambda>(e, n, lo, hi, c). hi) rows)),
           rc_classification = dict_of (zip hs (map (\<lambda>(e, n, lo, hi, c). c) rows))\<rparr>"
    using assms(1) by (auto simp: regime_cell_of_def rbind_eq_Inr Let_def)
  have len: "length hs = length rows" using rmap_length [OF r(2)] by simp
  obtain e n lo hi where row: "map_of (rev (zip hs rows)) h = Some (e, n, lo, hi, c)"
    using assms(2) len r(3) by (auto simp: column_at)
  then have "(h, (e, n, lo, hi, c)) \<in> set (zip hs rows)" by (auto dest: map_of_SomeD)
  then have "regime_horizon bs (?s h) (map fst tagged) f pools h = Inr (e, n, lo, hi, c)"
    using r(2) by (induction hs arbitrary: rows) (auto simp: rbind_eq_Inr)
  then show ?thesis using r(1,3) row len by (auto simp: column_at)
qed

lemma candidate_iff:
  "classify_validity n lo hi f = ''regime_conditional_candidate'' \<longleftrightarrow>
    (\<exists>x l u. n = Some x \<and> \<not> x < min_neff \<and> lo = Some l \<and> hi = Some u \<and> \<not> (l \<le> Fin 0 \<and> Fin 0 \<le> u) \<and>
      \<not> f > cluster_dominance_threshold)"
  by (auto simp: classify_validity_def split: option.split)

text \<open>
  C7: what ALLOW rests on. A decision on a computed cell is ALLOW only if, at the decision horizon, the cell has an
  effective sample size of at least the minimum, an edge interval that excludes zero, clustered signals that are no
  majority, and an edge of the same strict sign as a global edge that exists.
\<close>

theorem allow_rests_on_evidence:
  assumes "regime_cell_of bs seed b pools hs (k, tagged) = Inr cell" "decide_cell cell g h = Inr d" "pd_verdict d = ALLOW"
  shows "\<exists>n lo hi e ge f.
    map_of (rc_neff cell) h = Some (Some n) \<and> \<not> n < min_neff \<and>
    map_of (rc_edge_lo cell) h = Some (Some lo) \<and> map_of (rc_edge_hi cell) h = Some (Some hi) \<and> \<not> (lo \<le> Fin 0 \<and> Fin 0 \<le> hi) \<and>
    int_div (int (length (filter snd tagged))) (int (length tagged)) = Inr f \<and> \<not> f > cluster_dominance_threshold \<and>
    map_of (rc_edge cell) h = Some (Some e) \<and> g = Some ge \<and> sign_of e = sign_of ge \<and> sign_of e \<noteq> 0"
proof -
  obtain c e n where c: "map_of (rc_classification cell) h = Some c" "map_of (rc_edge cell) h = Some e"
    "verdict_of cell g h c e = Inr (ALLOW, pd_reason d)"
    using assms(2,3) by (auto simp: decide_cell_def at_key_def rbind_eq_Inr split: option.splits)
  then have v: "c = ''regime_conditional_candidate''" "\<exists>ge e'. g = Some ge \<and> e = Some e' \<and> sign_of e' = sign_of ge \<and> sign_of e' \<noteq> 0"
    by (auto simp: verdict_of_def rbind_eq_Inr split: if_splits option.splits)
  obtain s f e1 n lo hi where r: "int_div (int (length (filter snd tagged))) (int (length tagged)) = Inr f"
    "regime_horizon bs s (map fst tagged) f pools h = Inr (e1, n, lo, hi, c)"
    "map_of (rc_edge cell) h = Some e1" "map_of (rc_neff cell) h = Some n"
    "map_of (rc_edge_lo cell) h = Some lo" "map_of (rc_edge_hi cell) h = Some hi"
    using cell_horizon [OF assms(1) c(1)] by blast
  have "c = classify_validity n lo hi f"
    using r(2) by (auto simp: regime_horizon_def rbind_eq_Inr split: prod.splits)
  then show ?thesis using candidate_iff [of n lo hi f] v r c(2) by auto
qed

text \<open>Eight isolated signals with constant returns, and a bootstrap that gives a positive interval.\<close>

definition steady_signal :: captured_signal where
  "steady_signal = \<lparr>cp_ts = 0, cp_type = KBuy, cp_confidence = 60, cp_close = Fin 1, cp_fwd_returns = [(1, Some (Fin 1))]\<rparr>"

theorem allow_rests_on_evidence_witness:
  "\<exists>cell d. regime_cell_of (\<lambda>xs ys n b seed. Inr ((Fin 1, Fin 1), (Fin 1, Fin 1))) 0 (''up'', ''low'') [(1, [Fin 0])] [1]
       (KBuy, replicate 8 (steady_signal, False)) = Inr cell \<and>
     decide_cell cell (Some (Fin 1)) 1 = Inr d \<and> pd_verdict d = ALLOW \<and> map_of (rc_neff cell) 1 = Some (Some (Fin 8))"
proof -
  let ?bs = "\<lambda>xs ys n b (seed :: int). Inr ((Fin 1, Fin 1), (Fin 1, Fin 1)) :: ((pyfloat \<times> pyfloat) \<times> (pyfloat \<times> pyfloat)) res"
  let ?tagged = "replicate 8 (steady_signal, False)"
  let ?cell = "\<lparr>rc_sample_size = 8, rc_clustered_fraction = Fin 0, rc_neff = [(1, Some (Fin 8))], rc_edge = [(1, Some (Fin 1))],
      rc_edge_lo = [(1, Some (Fin 1))], rc_edge_hi = [(1, Some (Fin 1))], rc_classification = [(1, ''regime_conditional_candidate'')]\<rparr>"
  have half: "to_dbl (1 / 2) = Fin (1 / 2)" using to_dbl_endpoint endpoint_inverse_power [of 1] by simp
  have rs: "returns_at 1 (map fst ?tagged) = Inr (replicate 8 (Fin 1))"
    by (simp add: returns_at_def steady_signal_def numeral_nat List.map_filter_simps)
  have mean: "mean_of (replicate 8 (Fin 1)) = Inr (Fin 1)" "mean_of [Fin 0] = Inr (Fin 0)"
    by (simp_all add: mean_of_def fsum_def div_int_def fdiv_def numeral_nat)
  have ess: "effective_sample_size (replicate 8 (Fin 1)) 0 = Inr (Some (Fin 8))" "effective_sample_size [Fin 0] 0 = Inr (Some (Fin 1))"
    by (simp_all add: effective_sample_size_def)
  have valid: "classify_validity (Some (Fin 8)) (Some (Fin 1)) (Some (Fin 1)) (Fin 0) = ''regime_conditional_candidate''"
    by (simp add: classify_validity_def min_neff_def cluster_dominance_threshold_def half)
  have row: "regime_horizon ?bs s (map fst ?tagged) (Fin 0) [(1, [Fin 0])] 1 =
      Inr (Some (Fin 1), Some (Fin 8), Some (Fin 1), Some (Fin 1), ''regime_conditional_candidate'')" for s
    unfolding regime_horizon_def rs rbind_simps
    using mean ess valid by (simp add: optional_mean_def pool_of_def excess_def minus_pyfloat_def)
  have frac: "int_div 0 8 = Inr (Fin 0)" by (simp add: int_div_def)
  have cell: "regime_cell_of ?bs 0 (''up'', ''low'') [(1, [Fin 0])] [1] (KBuy, ?tagged) = Inr ?cell"
    using row frac round_half_even_of_int [of 0] by (simp add: regime_cell_of_def dict_of_def)
  obtain d where d: "decide_cell ?cell (Some (Fin 1)) 1 = Inr d" "pd_verdict d = ALLOW"
    by (simp add: decide_cell_def at_key_def verdict_of_def sign_of_def)
  from allow_rests_on_evidence [OF cell d] show ?thesis using cell d by auto
qed

text \<open>
  The rounding of the stored fraction loses the reason: with 16385 of 32768 signals clustered a cell is held back as
  mostly clustered, but the decision reports an interval that includes zero.
\<close>

lemma clustered_reason_lost:
  assumes "rc_classification cell = [(1, classify_validity (Some (Fin 9)) (Some (Fin 1)) (Some (Fin 2)) f)]"
    "int_div 16385 32768 = Inr f" "rc_clustered_fraction cell = pyround_n f 4"
    "rc_edge cell = [(1, Some (Fin 1))]" "rc_edge_lo cell = [(1, Some (Fin 1))]" "rc_edge_hi cell = [(1, Some (Fin 2))]"
    "rc_neff cell = [(1, Some (Fin 9))]"
  shows "f > cluster_dominance_threshold \<and> (\<exists>d. decide_cell cell g 1 = Inr d \<and> pd_reason d = EdgeCiSpansZero)"
proof -
  have half: "to_dbl (1 / 2) = Fin (1 / 2)" using to_dbl_endpoint endpoint_inverse_power [of 1] by simp
  have "rnd (of_int 16385 * 2 powi - 15) = of_int 16385 * 2 powi - 15" by (rule rnd_exact) auto
  moreover have "(of_int 16385 * 2 powi - 15 :: rat) = 16385 / 32768" by (simp add: power_int_minus)
  ultimately have "rnd (16385 / 32768) = 16385 / 32768" by (simp only:)
  then have "endpoint (16385 / 32768)" by (simp only: endpoint_def) simp
  then have "to_dbl (16385 / 32768) = Fin (16385 / 32768)" by (rule to_dbl_endpoint)
  then have f: "f = Fin (16385 / 32768)" using assms(2) by (simp add: int_div_def)
  have "\<lfloor>(10240625 / 2048 :: rat)\<rfloor> = 5000" by (simp add: floor_eq_iff)
  then have "round_half_even ((16385 / 32768) * 10 ^ 4) = 5000" by (simp add: round_half_even_def Let_def)
  then have r: "pyround_n f 4 = Fin (1 / 2)" by (simp add: f half)
  have "f > cluster_dominance_threshold" by (simp add: f cluster_dominance_threshold_def half)
  then have c: "classify_validity (Some (Fin 9)) (Some (Fin 1)) (Some (Fin 2)) f = ''diagnostic_only''"
    by (simp add: classify_validity_def min_neff_def)
  show ?thesis
    using assms(1,3-7) c r \<open>f > cluster_dominance_threshold\<close>
    by (simp add: decide_cell_def at_key_def verdict_of_def spans_zero_def cluster_dominance_threshold_def half)
qed

end
