(* ===== verification/Ingestion.thy ===== *)
theory Ingestion
  imports Schema Validation
begin

text \<open>
  The write path: \<^verbatim>\<open>src/orvixa/persistence/batch_writer.py\<close> as a step relation over its task, callers and sink,
  \<^verbatim>\<open>persistence/candles.py\<close> from a feed candle to its row, and \<^verbatim>\<open>backfill/csv_loader.py\<close>. The sink acts on a
  state \<open>'w\<close> when its await returns; what \<^verbatim>\<open>csv.DictReader\<close> yields and \<^verbatim>\<open>datetime.fromisoformat\<close> are inputs.
\<close>

section \<open>The batch writer\<close>

text \<open>Where the writer's task and \<^verbatim>\<open>stop\<close> are between two awaits.\<close>

datatype phase = Idle | Waiting | Flushing | Draining | Stopped

record 'r writer =
  bw_max_size :: int
  bw_buffer :: "'r list"
  bw_flush_event :: bool
  bw_running :: bool
  bw_phase :: phase
  bw_in_flight :: "'r list"
  bw_flush_count :: int
  bw_error_count :: int

definition writer_new :: "int \<Rightarrow> 'r writer" where
  "writer_new max_size =
     \<lparr>bw_max_size = max_size, bw_buffer = [], bw_flush_event = False, bw_running = False, bw_phase = Idle, bw_in_flight = [],
      bw_flush_count = 0, bw_error_count = 0\<rparr>"

definition add_many :: "'r list \<Rightarrow> 'r writer \<Rightarrow> 'r writer" where
  "add_many rows b =
     (if rows = [] then b
      else let buffer = bw_buffer b @ rows in
        b\<lparr>bw_buffer := buffer, bw_flush_event := (bw_flush_event b \<or> int (length buffer) \<ge> bw_max_size b)\<rparr>)"

definition writer_add :: "'r \<Rightarrow> 'r writer \<Rightarrow> 'r writer" where
  "writer_add row b =
     (let buffer = bw_buffer b @ [row] in
      b\<lparr>bw_buffer := buffer, bw_flush_event := (bw_flush_event b \<or> int (length buffer) \<ge> bw_max_size b)\<rparr>)"

text \<open>\<^verbatim>\<open>_flush\<close> up to the await of the sink: nothing to do, or the whole buffer is taken.\<close>

definition take_batch :: "phase \<Rightarrow> phase \<Rightarrow> 'r writer \<Rightarrow> 'r writer" where
  "take_batch busy idle b =
     (if bw_buffer b = [] then b\<lparr>bw_phase := idle\<rparr>
      else b\<lparr>bw_in_flight := bw_buffer b, bw_buffer := [], bw_phase := busy\<rparr>)"

text \<open>After a flush of the task: the next wait, or the end of the task and the final drain of \<^verbatim>\<open>stop\<close>.\<close>

definition after_flush :: "'r writer \<Rightarrow> 'r writer" where
  "after_flush b = (if bw_running b then b\<lparr>bw_phase := Waiting\<rparr> else take_batch Draining Stopped b)"

definition wake :: "'r writer \<Rightarrow> 'r writer" where
  "wake b =
     (let b1 = b\<lparr>bw_flush_event := False\<rparr> in
      if bw_buffer b1 = [] then after_flush b1 else take_batch Flushing Waiting b1)"

definition flush_done :: "unit res \<Rightarrow> 'r writer \<Rightarrow> 'r writer" where
  "flush_done r b =
     (let b1 = (case r of
            Inr _ \<Rightarrow> b\<lparr>bw_flush_count := bw_flush_count b + 1\<rparr>
          | Inl _ \<Rightarrow> b\<lparr>bw_error_count := bw_error_count b + 1\<rparr>)\<lparr>bw_in_flight := []\<rparr>
      in if bw_phase b1 = Draining then b1\<lparr>bw_phase := Stopped\<rparr> else after_flush b1)"

datatype 'r label = Added "'r list" | Flushed "'r list" "unit res" | Started | Silent

inductive writer_step ::
  "('r list \<Rightarrow> 'w \<Rightarrow> unit res \<times> 'w) \<Rightarrow> 'r writer \<times> 'w \<Rightarrow> 'r label \<Rightarrow> 'r writer \<times> 'w \<Rightarrow> bool"
  for sink where
  starting: "\<not> bw_running b \<Longrightarrow> bw_phase b \<in> {Idle, Stopped} \<Longrightarrow>
    writer_step sink (b, w) Started (b\<lparr>bw_running := True, bw_phase := Waiting\<rparr>, w)"
| adding: "writer_step sink (b, w) (Added [row]) (writer_add row b, w)"
| adding_many: "writer_step sink (b, w) (Added rows) (add_many rows b, w)"
| waking: "bw_phase b = Waiting \<Longrightarrow> writer_step sink (b, w) Silent (wake b, w)"
| flushed: "bw_phase b \<in> {Flushing, Draining} \<Longrightarrow> sink (bw_in_flight b) w = (r, w') \<Longrightarrow>
    writer_step sink (b, w) (Flushed (bw_in_flight b) r) (flush_done r b, w')"
| stopping: "bw_running b \<Longrightarrow> writer_step sink (b, w) Silent (b\<lparr>bw_running := False, bw_flush_event := True\<rparr>, w)"

inductive writer_run ::
  "('r list \<Rightarrow> 'w \<Rightarrow> unit res \<times> 'w) \<Rightarrow> 'r writer \<times> 'w \<Rightarrow> 'r label list \<Rightarrow> 'r writer \<times> 'w \<Rightarrow> bool"
  for sink s where
  idle: "writer_run sink s [] s"
| move: "writer_run sink s tr s1 \<Longrightarrow> writer_step sink s1 l s2 \<Longrightarrow> writer_run sink s (tr @ [l]) s2"

inductive_cases writer_stepE: "writer_step sink s l s'"


section \<open>Every item is written once, in order\<close>

fun added_items :: "'r label \<Rightarrow> 'r list" where
  "added_items (Added rows) = rows"
| "added_items _ = []"

fun flushed_items :: "'r label \<Rightarrow> 'r list" where
  "flushed_items (Flushed rows r) = rows"
| "flushed_items _ = []"

fun outcome :: "'r label \<Rightarrow> unit res list" where
  "outcome (Flushed rows r) = [r]"
| "outcome _ = []"

definition writer_ok :: "'r label list \<Rightarrow> 'r writer \<Rightarrow> bool" where
  "writer_ok tr b \<longleftrightarrow>
     concat (map added_items tr) = concat (map flushed_items tr) @ bw_in_flight b @ bw_buffer b \<and>
     (bw_in_flight b \<noteq> [] \<longleftrightarrow> bw_phase b \<in> {Flushing, Draining}) \<and>
     bw_flush_count b = int (length (filter (\<lambda>r. r = Inr ()) (concat (map outcome tr)))) \<and>
     bw_error_count b = int (length (filter (\<lambda>r. r \<noteq> Inr ()) (concat (map outcome tr))))"

lemma take_batch_fields:
  "bw_in_flight b = [] \<Longrightarrow> busy \<in> {Flushing, Draining} \<Longrightarrow> idle \<notin> {Flushing, Draining} \<Longrightarrow>
   bw_in_flight (take_batch busy idle b) @ bw_buffer (take_batch busy idle b) = bw_buffer b \<and>
   (bw_in_flight (take_batch busy idle b) \<noteq> [] \<longleftrightarrow> bw_phase (take_batch busy idle b) \<in> {Flushing, Draining}) \<and>
   bw_flush_count (take_batch busy idle b) = bw_flush_count b \<and> bw_error_count (take_batch busy idle b) = bw_error_count b"
  by (auto simp: take_batch_def)

lemma after_flush_fields:
  "bw_in_flight b = [] \<Longrightarrow>
   bw_in_flight (after_flush b) @ bw_buffer (after_flush b) = bw_buffer b \<and>
   (bw_in_flight (after_flush b) \<noteq> [] \<longleftrightarrow> bw_phase (after_flush b) \<in> {Flushing, Draining}) \<and>
   bw_flush_count (after_flush b) = bw_flush_count b \<and> bw_error_count (after_flush b) = bw_error_count b"
  using take_batch_fields [of b Draining Stopped] by (auto simp: after_flush_def)

lemma wake_fields:
  "bw_in_flight b = [] \<Longrightarrow>
   bw_in_flight (wake b) @ bw_buffer (wake b) = bw_buffer b \<and>
   (bw_in_flight (wake b) \<noteq> [] \<longleftrightarrow> bw_phase (wake b) \<in> {Flushing, Draining}) \<and>
   bw_flush_count (wake b) = bw_flush_count b \<and> bw_error_count (wake b) = bw_error_count b"
  using take_batch_fields [of "b\<lparr>bw_flush_event := False\<rparr>" Flushing Waiting] after_flush_fields [of "b\<lparr>bw_flush_event := False\<rparr>"]
  by (auto simp: wake_def Let_def)

lemma flush_done_fields:
  "bw_in_flight (flush_done r b) @ bw_buffer (flush_done r b) = bw_buffer b \<and>
   (bw_in_flight (flush_done r b) \<noteq> [] \<longleftrightarrow> bw_phase (flush_done r b) \<in> {Flushing, Draining}) \<and>
   bw_flush_count (flush_done r b) = bw_flush_count b + (if r = Inr () then 1 else 0) \<and>
   bw_error_count (flush_done r b) = bw_error_count b + (if r = Inr () then 0 else 1)"
proof -
  let ?b = "(case r of Inr _ \<Rightarrow> b\<lparr>bw_flush_count := bw_flush_count b + 1\<rparr> | Inl _ \<Rightarrow> b\<lparr>bw_error_count := bw_error_count b + 1\<rparr>)\<lparr>bw_in_flight := []\<rparr>"
  have "bw_in_flight ?b = []" by simp
  note f = after_flush_fields [OF this]
  show ?thesis using f by (cases r) (auto simp: flush_done_def Let_def)
qed

lemma writer_ok_step:
  assumes "writer_step sink s l s'" "writer_ok tr (fst s)"
  shows "writer_ok (tr @ [l]) (fst s')"
  using assms(1)
proof cases
  case (waking b w)
  then show ?thesis using assms(2) wake_fields [of b] by (auto simp: writer_ok_def)
next
  case (flushed b w r w')
  then show ?thesis using assms(2) flush_done_fields [of r b] by (auto simp: writer_ok_def)
qed (use assms(2) in \<open>auto simp: writer_ok_def writer_add_def add_many_def Let_def\<close>)

definition replay_sink :: "('r list \<Rightarrow> 'w \<Rightarrow> unit res \<times> 'w) \<Rightarrow> 'r label list \<Rightarrow> 'w \<Rightarrow> 'w" where
  "replay_sink sink tr w = fold (\<lambda>l w. case l of Flushed rows r \<Rightarrow> snd (sink rows w) | _ \<Rightarrow> w) tr w"

lemma writer_run_ok:
  assumes "writer_run sink (writer_new max_size, w) tr s"
  shows "writer_ok tr (fst s) \<and> snd s = replay_sink sink tr w"
  using assms
proof induction
  case (move tr s1 l s2)
  have "snd s2 = (case l of Flushed rows r \<Rightarrow> snd (sink rows (snd s1)) | _ \<Rightarrow> snd s1)"
    using move.hyps(2) by cases auto
  then show ?case using move writer_ok_step [OF move.hyps(2)] by (cases l) (simp_all add: replay_sink_def)
qed (simp add: writer_ok_def writer_new_def replay_sink_def)

text \<open>
  C4: every item is handed to the sink once and in order. In any interleaving of producers, wake-ups, slow or failing
  sink calls, stops and restarts, the items added are exactly those of the batches flushed so far, in the order they were
  added, then those in flight, then those buffered; the sink's state is that of the flushed batches in that order; and
  the counters count the batches that succeeded and failed.
\<close>

theorem batches_partition_items:
  assumes "writer_run sink (writer_new max_size, w) tr (b, w')"
  shows "concat (map added_items tr) = concat (map flushed_items tr) @ bw_in_flight b @ bw_buffer b \<and>
    w' = replay_sink sink tr w \<and>
    bw_flush_count b = int (length (filter (\<lambda>r. r = Inr ()) (concat (map outcome tr)))) \<and>
    bw_error_count b = int (length (filter (\<lambda>r. r \<noteq> Inr ()) (concat (map outcome tr))))"
  using writer_run_ok [OF assms] by (simp add: writer_ok_def)


theorem batches_partition_items_witness:
  "\<exists>b. writer_run (\<lambda>rows w. (Inr (), w @ rows)) (writer_new 1, []) ([Started] @ [Added [7]] @ [Silent] @ [Flushed [7 :: int] (Inr ())]) (b, [7]) \<and>
    bw_flush_count b = 1"
proof -
  let ?sink = "\<lambda>rows w. (Inr (), w @ rows) :: unit res \<times> int list"
  let ?b0 = "writer_new 1 :: int writer"
  let ?b1 = "?b0\<lparr>bw_running := True, bw_phase := Waiting\<rparr>"
  let ?b3 = "wake (writer_add 7 ?b1)"
  let ?tr = "((([] @ [Started]) @ [Added [7]]) @ [Silent]) @ [Flushed [7] (Inr ())]"
  note d = writer_new_def writer_add_def wake_def take_batch_def Let_def
  have fl: "bw_in_flight ?b3 = [7]" "bw_phase ?b3 = Flushing" by (simp_all add: d)
  have step: "writer_step ?sink (?b3, []) (Flushed (bw_in_flight ?b3) (Inr ())) (flush_done (Inr ()) ?b3, [7])"
    by (rule flushed) (simp_all add: fl)
  have "writer_run ?sink (?b0, []) ?tr (flush_done (Inr ()) ?b3, [7])"
    by (rule writer_run.move [OF writer_run.move [OF writer_run.move [OF writer_run.move [OF writer_run.idle starting] adding] waking] step [unfolded fl]])
      (simp_all add: d)
  from this batches_partition_items [OF this] show ?thesis by (intro exI [of _ "flush_done (Inr ()) ?b3"]) simp
qed


section \<open>Stopping\<close>

fun phase_rank :: "phase \<Rightarrow> nat" where
  "phase_rank Waiting = 3"
| "phase_rank Flushing = 2"
| "phase_rank Draining = 1"
| "phase_rank _ = 0"

text \<open>Neither a producer's call nor a restart.\<close>

fun own_label :: "'r label \<Rightarrow> bool" where
  "own_label (Added rows) = False"
| "own_label Started = False"
| "own_label _ = True"

definition ending :: "'r writer \<Rightarrow> bool" where
  "ending b \<longleftrightarrow> \<not> bw_running b \<and> bw_phase b \<noteq> Idle \<and> (bw_phase b \<in> {Draining, Stopped} \<longrightarrow> bw_buffer b = []) \<and>
     (bw_in_flight b \<noteq> [] \<longleftrightarrow> bw_phase b \<in> {Flushing, Draining})"

lemma ending_step:
  assumes "writer_step sink s l s'" "own_label l" "ending (fst s)"
  shows "ending (fst s') \<and> phase_rank (bw_phase (fst s')) < phase_rank (bw_phase (fst s))"
  using assms(1)
proof cases
  case (waking b w)
  then show ?thesis using assms(3) by (auto simp: ending_def wake_def after_flush_def take_batch_def Let_def)
next
  case (flushed b w r w')
  then show ?thesis using assms(3)
    by (cases r) (auto simp: ending_def flush_done_def after_flush_def take_batch_def Let_def)
qed (use assms(2,3) in \<open>auto simp: ending_def\<close>)

lemma ending_run:
  assumes "writer_run sink s tr s'" "list_all own_label tr" "ending (fst s)"
  shows "ending (fst s') \<and> length tr + phase_rank (bw_phase (fst s')) \<le> phase_rank (bw_phase (fst s))"
  using assms
proof induction
  case (move tr s1 l s2)
  then show ?case using ending_step [of sink s1 l s2] by force
qed simp

lemma ending_progress:
  assumes "ending b" "bw_phase b \<noteq> Stopped"
  shows "\<exists>l s'. own_label l \<and> writer_step sink (b, w) l s'"
proof (cases "bw_phase b = Waiting")
  case True
  then show ?thesis by (intro exI [of _ Silent] exI [of _ "(wake b, w)"] conjI writer_step.waking) simp_all
next
  case False
  then have "bw_phase b \<in> {Flushing, Draining}" using assms by (cases "bw_phase b") (auto simp: ending_def)
  from flushed [OF this surjective_pairing, of sink w]
  have "writer_step sink (b, w) (Flushed (bw_in_flight b) (fst (sink (bw_in_flight b) w)))
    (flush_done (fst (sink (bw_in_flight b) w)) b, snd (sink (bw_in_flight b) w))" .
  then show ?thesis by (intro exI conjI [rotated]) (assumption, simp)
qed

text \<open>
  C10: stopping ends, and loses nothing. Once \<^verbatim>\<open>stop\<close> has cleared the running flag and nobody adds or restarts, the writer
  takes at most three more steps whatever the sink answers, it can always take one until it has stopped, and when it has
  stopped everything that was in flight or buffered has been handed to the sink, in order.
\<close>

theorem stopping_terminates:
  assumes "\<not> bw_running b" "bw_phase b = Waiting \<and> bw_in_flight b = [] \<or> bw_phase b = Flushing \<and> bw_in_flight b \<noteq> []"
    and "writer_run sink (b, w) tr (b', w')" "list_all own_label tr"
  shows "length tr \<le> 3 \<and>
    (bw_phase b' \<noteq> Stopped \<longrightarrow> (\<exists>l s'. own_label l \<and> writer_step sink (b', w') l s')) \<and>
    (bw_phase b' = Stopped \<longrightarrow>
       bw_buffer b' = [] \<and> bw_in_flight b' = [] \<and> concat (map flushed_items tr) = bw_in_flight b @ bw_buffer b)"
proof -
  have e: "ending b" using assms(1,2) by (auto simp: ending_def)
  have r: "ending b'" "length tr + phase_rank (bw_phase b') \<le> phase_rank (bw_phase b)"
    using ending_run [OF assms(3,4)] e by auto
  have "phase_rank (bw_phase b) \<le> 3" by (cases "bw_phase b") auto
  moreover have kept: "concat (map flushed_items tr) @ bw_in_flight (fst s) @ bw_buffer (fst s) = bw_in_flight b @ bw_buffer b"
    if "writer_run sink (b, w) tr s" "list_all own_label tr" for tr s
    using that
  proof induction
    case (move tr s1 l s2)
    have en: "ending (fst s1)" using ending_run [OF move.hyps(1)] move.prems e by simp
    have "flushed_items l @ bw_in_flight (fst s2) @ bw_buffer (fst s2) = bw_in_flight (fst s1) @ bw_buffer (fst s1)"
      using move.hyps(2)
    proof cases
      case (waking b w)
      then show ?thesis using en wake_fields [of b] by (auto simp: ending_def)
    next
      case (flushed b w r w')
      then show ?thesis using flush_done_fields [of r b] by simp
    qed (use move.prems in auto)
    then show ?case using move by simp
  qed simp
  ultimately show ?thesis
    using r ending_progress [OF r(1)] kept [OF assms(3,4)] by (auto simp: ending_def)
qed


theorem stopping_terminates_witness:
  "\<exists>b w. writer_run (\<lambda>rows w. (Inl ValueError, w @ rows))
       ((writer_new 5)\<lparr>bw_buffer := [7 :: int], bw_phase := Waiting, bw_flush_event := True\<rparr>, [])
       ([Silent] @ [Flushed [7] (Inl ValueError)]) (b, w) \<and> bw_phase b = Stopped \<and> bw_buffer b = []"
proof -
  let ?sink = "\<lambda>rows w. (Inl ValueError, w @ rows) :: unit res \<times> int list"
  let ?b0 = "(writer_new 5)\<lparr>bw_buffer := [7 :: int], bw_phase := Waiting, bw_flush_event := True\<rparr>"
  let ?b2 = "flush_done (Inl ValueError) (wake ?b0)"
  note d = writer_new_def wake_def take_batch_def flush_done_def after_flush_def Let_def
  have fl: "bw_in_flight (wake ?b0) = [7]" "bw_phase (wake ?b0) = Flushing" by (simp_all add: d)
  have step: "writer_step ?sink (wake ?b0, []) (Flushed (bw_in_flight (wake ?b0)) (Inl ValueError)) (?b2, [7])"
    by (rule flushed) (simp_all add: fl)
  have run: "writer_run ?sink (?b0, []) (([] @ [Silent]) @ [Flushed [7] (Inl ValueError)]) (?b2, [7])"
    by (rule writer_run.move [OF writer_run.move [OF writer_run.idle waking] step [unfolded fl]]) (simp add: d)
  have "bw_phase ?b2 = Stopped" by (simp add: d)
  moreover have "bw_phase ?b2 = Stopped \<longrightarrow> bw_buffer ?b2 = []"
    using stopping_terminates [OF _ _ run] by (simp add: writer_new_def)
  ultimately show ?thesis using run by (intro exI [of _ ?b2] exI [of _ "[7]"]) simp
qed


section \<open>From feed candles to rows\<close>

record candle_sink =
  cs_writer :: "candle_row writer"
  cs_interval :: string
  cs_symbol_ids :: "string \<rightharpoonup> int"

definition candle_sink_new :: "candle_row writer \<Rightarrow> string \<Rightarrow> (string \<rightharpoonup> int) option \<Rightarrow> candle_sink" where
  "candle_sink_new b interval ids = \<lparr>cs_writer = b, cs_interval = interval, cs_symbol_ids = get_or Map.empty ids\<rparr>"

definition candle_repository_sink :: "candle_row list \<Rightarrow> db \<Rightarrow> unit res \<times> db" where
  "candle_repository_sink rows db = (let (r, db1) = insert_candles rows db in (rbind r (\<lambda>_. Inr ()), db1))"

definition candle_to_row :: "int \<Rightarrow> string \<Rightarrow> candle \<Rightarrow> candle_row res" where
  "candle_to_row sid interval c =
     rbind (from_ms (cd_ts c)) (\<lambda>ts.
     Inr \<lparr>cr_symbol_id = sid, cr_ts = ts, cr_open = cd_open c, cr_high = cd_high c, cr_low = cd_low c, cr_close = cd_close c,
          cr_volume = cd_volume c, cr_quote_volume = cd_quote_volume c, cr_trades = cd_trades c,
          cr_taker_buy_volume = cd_taker_buy_volume c, cr_interval = interval\<rparr>)"

definition sink_resolve :: "(string \<Rightarrow> 'w \<Rightarrow> int option res \<times> 'w) \<Rightarrow> string \<Rightarrow> candle_sink \<times> 'w \<Rightarrow> int option res \<times> (candle_sink \<times> 'w)" where
  "sink_resolve lookup base s =
     (case s of (k, w) \<Rightarrow>
        case cs_symbol_ids k base of
          Some sid \<Rightarrow> (Inr (Some sid), (k, w))
        | None \<Rightarrow>
            (let (r, w1) = lookup base w in
             attempt r (k, w1) (\<lambda>found. case found of
               None \<Rightarrow> (Inr None, (k, w1))
             | Some sid \<Rightarrow> (Inr (Some sid), (k\<lparr>cs_symbol_ids := (cs_symbol_ids k)(base \<mapsto> sid)\<rparr>, w1)))))"

definition sink_candle :: "(string \<Rightarrow> 'w \<Rightarrow> int option res \<times> 'w) \<Rightarrow> candle \<Rightarrow> candle_sink \<times> 'w \<Rightarrow> unit res \<times> (candle_sink \<times> 'w)" where
  "sink_candle lookup c s =
     (if \<not> cd_closed c then (Inr (), s)
      else let (r, s1) = sink_resolve lookup (cd_symbol c) s in
        attempt r s1 (\<lambda>found. case found of
          None \<Rightarrow> (Inr (), s1)
        | Some sid \<Rightarrow>
            (case s1 of (k, w) \<Rightarrow>
             attempt (candle_to_row sid (cs_interval k) c) s1 (\<lambda>row.
             (Inr (), (k\<lparr>cs_writer := writer_add row (cs_writer k)\<rparr>, w))))))"

definition get_id_lookup :: "string \<Rightarrow> db \<Rightarrow> int option res \<times> db" where
  "get_id_lookup base db = (Inr (get_id base db), db)"

lemma insert_candles_stored:
  assumes "insert_candles rows db = (Inr n, db')"
  shows "map_of (db_candles db') k =
    (case find (\<lambda>r. candle_key_of r = k) (rev rows) of Some r \<Rightarrow> Some r | None \<Rightarrow> map_of (db_candles db) k)"
  using assms
  by (auto simp: insert_candles_def upsert_rows_Inr candle_table.lookup_fold split: if_splits sum.splits)

lemma db_ok_insert: "db_ok db \<Longrightarrow> insert_candles rows db = (r, db') \<Longrightarrow> db_ok db'"
  using insert_candles_ok [of db rows] by simp

text \<open>
  C3: a closed candle comes back from the database as it was. A closed candle that opens on a whole second of 1970 to 2105,
  of a registered symbol, is buffered as one row; once the batch that ends with it is accepted, every range of its symbol and
  interval that covers its time contains exactly one row of that time, which the replay turns back into the same candle.
\<close>

theorem candle_roundtrip:
  assumes "db_ok db" "get_id (cd_symbol c) db = Some sid" "cs_symbol_ids k (cd_symbol c) \<in> {None, Some sid}" "cd_closed c"
    and "0 \<le> cd_ts c" "cd_ts c < 2 ^ 32 * 1000" "cd_ts c mod 1000 = 0"
    and "sink_candle get_id_lookup c (k, db) = (r, (k', db1))"
    and "insert_candles (bw_buffer (cs_writer k')) db1 = (Inr n, db2)"
    and "pred_option (\<lambda>a. a \<le> 1000 * cd_ts c) start" "pred_option (\<lambda>b. 1000 * cd_ts c \<le> b) end_ts"
  shows "r = Inr () \<and> length (bw_buffer (cs_writer k')) = Suc (length (bw_buffer (cs_writer k))) \<and>
    (\<exists>!row. row \<in> set (select_range sid (cs_interval k) start end_ts db2) \<and> cr_ts row = 1000 * cd_ts c) \<and>
    (\<forall>row \<in> set (select_range sid (cs_interval k) start end_ts db2).
       cr_ts row = 1000 * cd_ts c \<longrightarrow> row_to_candle (cd_symbol c) row = Inr c)"
proof -
  let ?t = "1000 * cd_ts c"
  obtain row where to_row: "candle_to_row sid (cs_interval k) c = Inr row" using from_ms_exact [OF assms(5,6)] by (simp add: candle_to_row_def)
  then have row: "cr_symbol_id row = sid" "cr_interval row = cs_interval k" "cr_ts row = ?t"
    "row_to_candle (cd_symbol c) row = rbind (to_ms ?t) (\<lambda>ts. Inr (c\<lparr>cd_ts := ts, cd_closed := True\<rparr>))"
    using from_ms_exact [OF assms(5,6)] by (cases c, auto simp: candle_to_row_def row_to_candle_def)+
  obtain k1 where res: "sink_resolve get_id_lookup (cd_symbol c) (k, db) = (Inr (Some sid), (k1, db))"
    "cs_writer k1 = cs_writer k" "cs_interval k1 = cs_interval k"
    using assms(2,3) by (cases "cs_symbol_ids k (cd_symbol c)") (auto simp: sink_resolve_def get_id_lookup_def)
  have out: "r = Inr ()" "db1 = db" "bw_buffer (cs_writer k') = bw_buffer (cs_writer k) @ [row]"
    using assms(4,8) res to_row by (auto simp: sink_candle_def writer_add_def Let_def)
  have key: "candle_key_of row = (sid, cs_interval k, ?t)" using row by (simp add: candle_key_of_def)
  have stored: "map_of (db_candles db2) (sid, cs_interval k, ?t) = Some row"
    using insert_candles_stored [OF assms(9)] out key by simp
  have ok: "db_ok db2" using db_ok_insert [OF assms(1)] assms(9) out(2) by simp
  have in_range: "x \<in> set (select_range sid (cs_interval k) start end_ts db2) \<longleftrightarrow>
      (cr_symbol_id x = sid \<and> cr_interval x = cs_interval k \<and> map_of (db_candles db2) (sid, cs_interval k, cr_ts x) = Some x) \<and>
      pred_option (\<lambda>a. a \<le> cr_ts x) start \<and> pred_option (\<lambda>b. cr_ts x \<le> b) end_ts" for x
    by (simp only: select_range_def set_sort set_filter mem_Collect_eq candles_of_iff [OF ok])
  have sel: "x \<in> set (select_range sid (cs_interval k) start end_ts db2) \<and> cr_ts x = ?t \<longleftrightarrow> x = row" for x
  proof
    assume "x \<in> set (select_range sid (cs_interval k) start end_ts db2) \<and> cr_ts x = ?t"
    then have "map_of (db_candles db2) (sid, cs_interval k, ?t) = Some x" unfolding in_range by (elim conjE) (simp only:)
    then show "x = row" using stored by simp
  next
    assume "x = row"
    then show "x \<in> set (select_range sid (cs_interval k) start end_ts db2) \<and> cr_ts x = ?t"
      unfolding in_range using stored assms(10,11) row(1-3) by simp
  qed
  obtain q where q: "cd_ts c = 1000 * q" using assms(7) by (auto simp: mod_eq_0_iff_dvd)
  have "to_ms ?t = Inr (cd_ts c)" using to_ms_whole [of q] assms(5,6) q by simp
  moreover have "c\<lparr>cd_ts := cd_ts c, cd_closed := True\<rparr> = c" using assms(4) by (cases c) simp
  ultimately have "row_to_candle (cd_symbol c) row = Inr c" using row(4) by simp
  then have again: "\<forall>x. x \<in> set (select_range sid (cs_interval k) start end_ts db2) \<longrightarrow> cr_ts x = ?t \<longrightarrow> row_to_candle (cd_symbol c) x = Inr c"
  proof (intro allI impI)
    fix x assume a: "x \<in> set (select_range sid (cs_interval k) start end_ts db2)" "cr_ts x = ?t"
    have "x = row" using a sel [of x] by simp
    then show "row_to_candle (cd_symbol c) x = Inr c" using \<open>row_to_candle (cd_symbol c) row = Inr c\<close> by simp
  qed
  have "\<exists>!x. x \<in> set (select_range sid (cs_interval k) start end_ts db2) \<and> cr_ts x = ?t" unfolding sel by simp
  then show ?thesis using again out by simp
qed

theorem candle_roundtrip_witness:
  "let c = \<lparr>cd_symbol = ''BTC'', cd_ts = 1700000040000, cd_open = 1, cd_high = Fin 2, cd_low = 1, cd_close = Fin 2, cd_volume = Fin 5,
      cd_quote_volume = Fin 9, cd_trades = 3, cd_closed = True, cd_taker_buy_volume = Fin 4\<rparr>;
     db = snd (upsert_symbol \<lparr>sy_symbol = ''BTCUSDT'', sy_base = ''BTC'', sy_quote = ''USDT'', sy_klass = ''core'', sy_tier = 0,
       sy_status = ''trading'', sy_tags = []\<rparr> (db_new 0));
     (r, (k, db1)) = sink_candle get_id_lookup c (candle_sink_new (writer_new 200) ''1m'' None, db);
     (n, db2) = insert_candles (bw_buffer (cs_writer k)) db1
   in n = Inr 1 \<and> (\<forall>row \<in> set (select_range 1 ''1m'' None None db2). cr_ts row = 1700000040000000 \<longrightarrow> row_to_candle ''BTC'' row = Inr c)"
proof -
  define c where "c = \<lparr>cd_symbol = ''BTC'', cd_ts = 1700000040000, cd_open = 1, cd_high = Fin 2, cd_low = 1, cd_close = Fin 2, cd_volume = Fin 5,
      cd_quote_volume = Fin 9, cd_trades = 3, cd_closed = True, cd_taker_buy_volume = Fin 4\<rparr>"
  define db where "db = snd (upsert_symbol \<lparr>sy_symbol = ''BTCUSDT'', sy_base = ''BTC'', sy_quote = ''USDT'', sy_klass = ''core'', sy_tier = 0,
       sy_status = ''trading'', sy_tags = []\<rparr> (db_new 0))"
  define k0 where "k0 = candle_sink_new (writer_new 200) ''1m'' None"
  obtain r k db1 where s: "sink_candle get_id_lookup c (k0, db) = (r, (k, db1))" by (metis surj_pair)
  obtain n db2 where i: "insert_candles (bw_buffer (cs_writer k)) db1 = (n, db2)" by (metis surj_pair)
  have ok: "db_ok db" unfolding db_def by (rule written_ok) (rule written.intros)+
  have sid: "get_id ''BTC'' db = Some 1"
    by (simp add: db_def upsert_symbol_def get_id_def has_base_def db_new_def symbol_check_def int16_def Let_def)
  have t: "from_ms 1700000040000 = Inr 1700000040000000" using from_ms_exact [of 1700000040000] by simp
  have n: "n = Inr 1"
    using i s sid t by (auto simp: sink_candle_def sink_resolve_def get_id_lookup_def c_def k0_def candle_sink_new_def candle_to_row_def
      writer_add_def writer_new_def insert_candles_def candle_violation_def references_def symbol_exists_def db_def
      upsert_symbol_def db_new_def symbol_check_def int16_def int32_def Let_def)
  have "\<forall>row \<in> set (select_range 1 (cs_interval k0) None None db2). cr_ts row = 1000 * cd_ts c \<longrightarrow> row_to_candle (cd_symbol c) row = Inr c"
    using candle_roundtrip [OF ok _ _ _ _ _ _ s i [unfolded n], of 1 None None] sid by (simp add: c_def k0_def candle_sink_new_def)
  then show ?thesis using n s i unfolding c_def [symmetric] db_def [symmetric] k0_def [symmetric] Let_def
    by (simp add: k0_def candle_sink_new_def) (simp add: c_def)
qed


section \<open>Loading a CSV file\<close>

text \<open>A row of \<^verbatim>\<open>csv.DictReader\<close>: the columns of the header, \<^verbatim>\<open>None\<close> where the line is too short.\<close>

type_synonym csv_row = "string \<rightharpoonup> string option"

definition csv_get :: "string \<Rightarrow> csv_row \<Rightarrow> string option res" where
  "csv_get k row = (case row k of None \<Rightarrow> Inl KeyError | Some v \<Rightarrow> Inr v)"

definition csv_float :: "string \<Rightarrow> csv_row \<Rightarrow> pyfloat res" where
  "csv_float k row = rbind (csv_get k row) (\<lambda>v. case v of None \<Rightarrow> Inl TypeError | Some s \<Rightarrow> float_of_text s)"

definition csv_int :: "string \<Rightarrow> csv_row \<Rightarrow> int res" where
  "csv_int k row = rbind (csv_get k row) (\<lambda>v. case v of None \<Rightarrow> Inl TypeError | Some s \<Rightarrow> int_of_text s)"

definition is_digits :: "string \<Rightarrow> bool" where
  "is_digits s \<longleftrightarrow> s \<noteq> [] \<and> list_all is_digit s"

definition parse_ts :: "(string \<Rightarrow> datetime res) \<Rightarrow> string option \<Rightarrow> datetime res" where
  "parse_ts fromisoformat v =
     (case v of
        None \<Rightarrow> Inl AttributeError
      | Some s \<Rightarrow>
          if is_digits (dropWhile (\<lambda>c. c = CHR ''-'') s) then rbind (int_of_text s) from_ms else fromisoformat s)"

definition row_to_candle_row :: "(string \<Rightarrow> datetime res) \<Rightarrow> int \<Rightarrow> string \<Rightarrow> csv_row \<Rightarrow> candle_row res" where
  "row_to_candle_row fromisoformat sid interval row =
     rbind (rbind (csv_get ''ts'' row) (parse_ts fromisoformat)) (\<lambda>ts.
     rbind (csv_float ''open'' row) (\<lambda>open_p.
     rbind (csv_float ''high'' row) (\<lambda>high.
     rbind (csv_float ''low'' row) (\<lambda>low.
     rbind (csv_float ''close'' row) (\<lambda>close_p.
     rbind (csv_float ''volume'' row) (\<lambda>volume.
     rbind (csv_float ''quote_volume'' row) (\<lambda>quote_volume.
     rbind (csv_int ''trades'' row) (\<lambda>trades.
     rbind (csv_float ''taker_buy_volume'' row) (\<lambda>taker.
     Inr \<lparr>cr_symbol_id = sid, cr_ts = ts, cr_open = open_p, cr_high = high, cr_low = low, cr_close = close_p, cr_volume = volume,
          cr_quote_volume = quote_volume, cr_trades = trades, cr_taker_buy_volume = taker, cr_interval = interval\<rparr>)))))))))"

definition default_batch_size :: int where
  "default_batch_size = 1000"

fun load_rows :: "(csv_row \<Rightarrow> candle_row res) \<Rightarrow> int \<Rightarrow> csv_row res list \<Rightarrow> candle_row list \<Rightarrow> int \<Rightarrow> db \<Rightarrow> int res \<times> db" where
  "load_rows convert batch_size [] batch written_rows db =
     (if batch = [] then (Inr written_rows, db)
      else let (r, db1) = insert_candles batch db in attempt r db1 (\<lambda>n. (Inr (written_rows + n), db1)))"
| "load_rows convert batch_size (line # lines) batch written_rows db =
     attempt (rbind line convert) db (\<lambda>row.
     let batch = batch @ [row] in
     if int (length batch) \<ge> batch_size
     then let (r, db1) = insert_candles batch db in
       attempt r db1 (\<lambda>n. load_rows convert batch_size lines [] (written_rows + n) db1)
     else load_rows convert batch_size lines batch written_rows db)"

definition load_candles_csv ::
  "(string \<Rightarrow> datetime res) \<Rightarrow> string \<Rightarrow> csv_row res list res \<Rightarrow> string \<Rightarrow> int \<Rightarrow> db \<Rightarrow> int res \<times> db" where
  "load_candles_csv fromisoformat base csv_file interval batch_size db =
     (case get_id base db of
        None \<Rightarrow> (Inl ValueError, db)
      | Some sid \<Rightarrow>
          attempt csv_file db (\<lambda>lines. load_rows (row_to_candle_row fromisoformat sid interval) batch_size lines [] 0 db))"

text \<open>The runner: the files of a directory in path order, each under the symbol its name gives; the log lines are the result.\<close>

fun backfill_run :: "(string \<Rightarrow> datetime res) \<Rightarrow> (string \<times> csv_row res list res) list \<Rightarrow> string \<Rightarrow> db \<Rightarrow> (string \<times> int) list res \<times> db" where
  "backfill_run fromisoformat [] interval db = (Inr [], db)"
| "backfill_run fromisoformat ((base, csv_file) # files) interval db =
     (let (r, db1) = load_candles_csv fromisoformat base csv_file interval default_batch_size db in
      attempt r db1 (\<lambda>n.
      let (rest, db2) = backfill_run fromisoformat files interval db1 in
      (rbind rest (\<lambda>done_files. Inr ((base, n) # done_files)), db2)))"

lemma insert_candles_Inr:
  "insert_candles rows db = (Inr n, db') \<longleftrightarrow>
     (\<forall>r \<in> set rows. candle_violation db r = None) \<and> n = int (length rows) \<and>
     db' = db\<lparr>db_candles := fold (\<lambda>r. alput (candle_key_of r) r) rows (db_candles db)\<rparr>"
proof (cases "upsert_rows candle_key_of (candle_violation db) rows (db_candles db)")
  case (Inl e)
  then have "\<not> (\<forall>r \<in> set rows. candle_violation db r = None)" 
    using upsert_rows_Inr [of candle_key_of "candle_violation db" rows "db_candles db" "fold (\<lambda>r. alput (candle_key_of r) r) rows (db_candles db)"]
    by simp
  moreover from this have "rows \<noteq> []" by auto
  ultimately show ?thesis using Inl by (auto simp: insert_candles_def)
next
  case (Inr table)
  have ok: "\<forall>r \<in> set rows. candle_violation db r = None" "table = fold (\<lambda>r. alput (candle_key_of r) r) rows (db_candles db)"
    using Inr [unfolded upsert_rows_Inr] by simp_all
  show ?thesis by (cases "rows = []") (auto simp: insert_candles_def Inr ok)
qed

lemma violation_unchanged: "candle_violation (db\<lparr>db_candles := t\<rparr>) r = candle_violation db r"
  by (simp add: candle_violation_def references_def symbol_exists_def)

lemma insert_candles_append:
  assumes "insert_candles xs db = (Inr n, db1)" "insert_candles ys db1 = (Inr m, db2)"
  shows "insert_candles (xs @ ys) db = (Inr (n + m), db2)"
  using assms by (auto simp: insert_candles_Inr violation_unchanged)

lemma insert_candles_again:
  assumes "db_ok db" "insert_candles rows db = (Inr n, db')"
  shows "insert_candles rows db' = (Inr n, db')"
proof -
  have "distinct (map fst (db_candles db))" using assms(1) by (simp add: db_ok_def keyed_rows_def)
  then show ?thesis using assms(2) candle_table.fold_idem by (auto simp: insert_candles_Inr violation_unchanged)
qed

section \<open>Batches and a single insert\<close>

fun written_rows :: "'r label \<Rightarrow> 'r list" where
  "written_rows (Flushed rows (Inr u)) = rows"
| "written_rows _ = []"

lemma insert_candles_Inl: "insert_candles rows db = (Inl e, db') \<Longrightarrow> db' = db"
  by (auto simp: insert_candles_def split: if_splits sum.splits)

text \<open>
  Writing in batches refines one insert. Whatever the producers, wake-ups, stops and restarts, and whichever batches the
  database refuses, the database is the one that a single insert of all the rows of the accepted batches, in the order they
  were added, would have made; a refused batch leaves no trace.
\<close>

lemma batches_refine_insert:
  assumes "writer_run candle_repository_sink (writer_new max_size, db) tr (b, db')"
  shows "insert_candles (concat (map written_rows tr)) db = (Inr (int (length (concat (map written_rows tr)))), db')"
proof -
  have "insert_candles (concat (map written_rows tr)) db = (Inr (int (length (concat (map written_rows tr)))), snd s)"
    if "writer_run candle_repository_sink (writer_new max_size, db) tr s" for tr s
    using that
  proof induction
    case idle
    show ?case by (simp add: insert_candles_def)
  next
    case (move tr s1 l s2)
    show ?case using move.hyps(2)
    proof cases
      case (flushed b w r w')
      obtain q w1 where q: "insert_candles (bw_in_flight b) w = (q, w1)" by (cases "insert_candles (bw_in_flight b) w")
      then have r: "w' = w1" "r = rbind q (\<lambda>_. Inr ())" using flushed by (auto simp: candle_repository_sink_def)
      show ?thesis
      proof (cases q)
        case (Inl e)
        then show ?thesis using move.IH flushed r insert_candles_Inl [of "bw_in_flight b" w e w1] q by simp
      next
        case (Inr n)
        then have n: "n = int (length (bw_in_flight b))" using q by (simp add: insert_candles_Inr)
        show ?thesis using insert_candles_append [OF move.IH [unfolded flushed(1) snd_conv] q [unfolded Inr]] flushed r n Inr by simp
      qed
    qed (use move.IH in auto)
  qed
  from this [OF assms] show ?thesis by simp
qed

lemma batches_refine_insert_witness:
  "let db = snd (upsert_symbol \<lparr>sy_symbol = ''BTCUSDT'', sy_base = ''BTC'', sy_quote = ''USDT'', sy_klass = ''core'', sy_tier = 0,
       sy_status = ''trading'', sy_tags = []\<rparr> (db_new 0));
     row = \<lparr>cr_symbol_id = 1, cr_ts = 5, cr_open = 1, cr_high = 1, cr_low = 1, cr_close = 1, cr_volume = 1, cr_quote_volume = 1,
       cr_trades = 3, cr_taker_buy_volume = 1, cr_interval = ''1m''\<rparr>
   in \<exists>b db'. writer_run candle_repository_sink (writer_new 1, db) ([Started] @ [Added [row]] @ [Silent] @ [Flushed [row] (Inr ())]) (b, db') \<and>
     insert_candles [row] db = (Inr 1, db')"
proof -
  define db where "db = snd (upsert_symbol \<lparr>sy_symbol = ''BTCUSDT'', sy_base = ''BTC'', sy_quote = ''USDT'', sy_klass = ''core'', sy_tier = 0,
       sy_status = ''trading'', sy_tags = []\<rparr> (db_new 0))"
  define row where "row = \<lparr>cr_symbol_id = 1, cr_ts = 5, cr_open = 1, cr_high = 1, cr_low = 1, cr_close = 1, cr_volume = 1, cr_quote_volume = 1,
       cr_trades = 3, cr_taker_buy_volume = 1, cr_interval = ''1m''\<rparr>"
  have "candle_violation db row = None"
    by (simp add: row_def candle_violation_def references_def symbol_exists_def db_def
      upsert_symbol_def db_new_def symbol_check_def int16_def int32_def Let_def)
  then obtain db' where i: "insert_candles [row] db = (Inr 1, db')" by (simp add: insert_candles_Inr)
  let ?b1 = "(writer_new 1 :: candle_row writer)\<lparr>bw_running := True, bw_phase := Waiting\<rparr>"
  let ?b3 = "wake (writer_add row ?b1)"
  note d = writer_new_def writer_add_def wake_def take_batch_def Let_def
  have fl: "bw_in_flight ?b3 = [row]" "bw_phase ?b3 = Flushing" by (simp_all add: d)
  have step: "writer_step candle_repository_sink (?b3, db) (Flushed (bw_in_flight ?b3) (Inr ())) (flush_done (Inr ()) ?b3, db')"
    by (rule flushed) (simp_all add: fl candle_repository_sink_def i)
  have run: "writer_run candle_repository_sink (writer_new 1, db) (((([] @ [Started]) @ [Added [row]]) @ [Silent]) @ [Flushed [row] (Inr ())])
      (flush_done (Inr ()) ?b3, db')"
    by (rule writer_run.move [OF writer_run.move [OF writer_run.move [OF writer_run.move [OF writer_run.idle starting] adding] waking] step [unfolded fl]])
      (simp_all add: d)
  have "insert_candles [row] db = (Inr 1, db')" using batches_refine_insert [OF run] by simp
  then show ?thesis unfolding Let_def db_def [symmetric] row_def [symmetric] using run by (intro exI conjI) simp_all
qed

lemma load_rows_Inr:
  "load_rows convert batch_size lines batch done_rows db = (Inr n, db') \<Longrightarrow>
   \<exists>rows m. rmap (\<lambda>line. rbind line convert) lines = Inr rows \<and> insert_candles (batch @ rows) db = (Inr m, db') \<and> n = done_rows + m"
proof (induction lines arbitrary: batch done_rows db)
  case Nil
  then show ?case by (cases "insert_candles batch db") (auto simp: insert_candles_Inr attempt_def split: if_splits sum.splits)
next
  case (Cons line lines)
  obtain row where row: "rbind line convert = Inr row" using Cons.prems by (cases "rbind line convert") auto
  show ?case
  proof (cases "int (length (batch @ [row])) \<ge> batch_size")
    case False
    then show ?thesis using Cons.IH [of "batch @ [row]" done_rows db] Cons.prems row by (auto simp: Let_def)
  next
    case True
    obtain k db1 where i: "insert_candles (batch @ [row]) db = (Inr k, db1)"
      "load_rows convert batch_size lines [] (done_rows + k) db1 = (Inr n, db')"
      using Cons.prems row True by (cases "insert_candles (batch @ [row]) db") (auto simp: Let_def attempt_def split: sum.splits)
    obtain rows m where r: "rmap (\<lambda>line. rbind line convert) lines = Inr rows" "insert_candles rows db1 = (Inr m, db')" "n = done_rows + k + m"
      using Cons.IH [OF i(2)] by auto
    show ?thesis using insert_candles_append [OF i(1) r(2)] r row by auto
  qed
qed

lemma load_rows_complete:
  "rmap (\<lambda>line. rbind line convert) lines = Inr rows \<Longrightarrow> insert_candles (batch @ rows) db = (Inr m, db') \<Longrightarrow>
   load_rows convert batch_size lines batch done_rows db = (Inr (done_rows + m), db')"
proof (induction lines arbitrary: batch done_rows db rows m)
  case Nil
  have "rows = []" using Nil.prems(1) by simp
  then have i: "insert_candles batch db = (Inr m, db')" using Nil.prems(2) by simp
  show ?case
  proof (cases "batch = []")
    case True
    then show ?thesis using i by (simp add: insert_candles_def)
  qed (simp add: i)
next
  case (Cons line lines)
  obtain row rest where r: "rbind line convert = Inr row" "rmap (\<lambda>line. rbind line convert) lines = Inr rest" "rows = row # rest"
    using Cons.prems(1) by (auto simp: rbind_eq_Inr)
  show ?case
  proof (cases "int (length (batch @ [row])) \<ge> batch_size")
    case False
    then show ?thesis using Cons.IH [OF r(2), of "batch @ [row]" db m done_rows] Cons.prems(2) r by (simp add: Let_def)
  next
    case True
    let ?db1 = "db\<lparr>db_candles := fold (\<lambda>r. alput (candle_key_of r) r) (batch @ [row]) (db_candles db)\<rparr>"
    have "insert_candles (batch @ [row]) db = (Inr (int (length (batch @ [row]))), ?db1)"
      "insert_candles ([] @ rest) ?db1 = (Inr (int (length rest)), db')" "m = int (length (batch @ [row])) + int (length rest)"
      using Cons.prems(2) r(3) by (auto simp: insert_candles_Inr violation_unchanged)
    then show ?thesis using Cons.IH [OF r(2), of "[]" ?db1 "int (length rest)" "done_rows + int (length (batch @ [row]))"] True r(1)
      by (simp add: Let_def)
  qed
qed


text \<open>
  C13: a load is one insert of the whole file, and loading twice changes nothing. For a registered symbol, on a database the
  repositories wrote, a load returns a count exactly when every line is read and converts and the database accepts every row;
  whatever the batch size, the count is that of the lines and the candles are those of a single insert of all rows in file
  order; and a second load of the file returns the same count and leaves the database as it is.
\<close>

theorem csv_load_is_one_insert:
  assumes "db_ok db" "get_id base db = Some sid" "csv_file = Inr lines"
  shows "(load_candles_csv fromiso base csv_file interval batch_size db = (Inr n, db') \<longleftrightarrow>
      (\<exists>rows. rmap (\<lambda>line. rbind line (row_to_candle_row fromiso sid interval)) lines = Inr rows \<and>
         n = int (length lines) \<and> insert_candles rows db = (Inr n, db'))) \<and>
    (load_candles_csv fromiso base csv_file interval batch_size db = (Inr n, db') \<longrightarrow>
      load_candles_csv fromiso base csv_file interval batch_size db' = (Inr n, db'))"
proof -
  let ?convert = "row_to_candle_row fromiso sid interval"
  have load: "load_candles_csv fromiso base csv_file interval batch_size d = load_rows ?convert batch_size lines [] 0 d"
    if "get_id base d = Some sid" for d
    using that assms(3) by (simp add: load_candles_csv_def)
  have iff: "load_rows ?convert batch_size lines [] 0 d = (Inr n, db') \<longleftrightarrow>
      (\<exists>rows. rmap (\<lambda>line. rbind line ?convert) lines = Inr rows \<and> n = int (length lines) \<and> insert_candles rows d = (Inr n, db'))" for d
  proof
    assume "load_rows ?convert batch_size lines [] 0 d = (Inr n, db')"
    from load_rows_Inr [OF this] obtain rows m where
      "rmap (\<lambda>line. rbind line ?convert) lines = Inr rows" "insert_candles rows d = (Inr m, db')" "n = m" by auto
    then show "\<exists>rows. rmap (\<lambda>line. rbind line ?convert) lines = Inr rows \<and> n = int (length lines) \<and> insert_candles rows d = (Inr n, db')"
      by (intro exI [of _ rows]) (simp add: insert_candles_Inr rmap_length)
  next
    assume "\<exists>rows. rmap (\<lambda>line. rbind line ?convert) lines = Inr rows \<and> n = int (length lines) \<and> insert_candles rows d = (Inr n, db')"
    then show "load_rows ?convert batch_size lines [] 0 d = (Inr n, db')"
      using load_rows_complete [where batch = "[]" and done_rows = 0] by auto
  qed
  have "load_candles_csv fromiso base csv_file interval batch_size db' = (Inr n, db')"
    if once: "insert_candles rows db = (Inr n, db')" and rows: "rmap (\<lambda>line. rbind line ?convert) lines = Inr rows" "n = int (length lines)" for rows
  proof -
    have "get_id base db' = Some sid" using once assms(2) by (simp add: insert_candles_Inr get_id_def)
    have "load_rows ?convert batch_size lines [] 0 db' = (Inr n, db')"
      using rows insert_candles_again [OF assms(1) once] by (intro iff [THEN iffD2] exI [of _ rows] conjI)
    then show ?thesis using load [OF \<open>get_id base db' = Some sid\<close>] by simp
  qed
  then have "load_candles_csv fromiso base csv_file interval batch_size db = (Inr n, db') \<Longrightarrow>
      load_candles_csv fromiso base csv_file interval batch_size db' = (Inr n, db')"
    unfolding load [OF assms(2)] iff [of db] by blast
  then show ?thesis using load [OF assms(2)] iff [of db] by simp
qed

theorem csv_load_is_one_insert_witness:
  "let row = [''ts'' \<mapsto> Some ''2023-11-14'', ''open'' \<mapsto> Some ''1'', ''high'' \<mapsto> Some ''1'', ''low'' \<mapsto> Some ''1'', ''close'' \<mapsto> Some ''1'',
      ''volume'' \<mapsto> Some ''1'', ''quote_volume'' \<mapsto> Some ''1'', ''trades'' \<mapsto> Some ''3'', ''taker_buy_volume'' \<mapsto> Some ''1''];
     db = snd (upsert_symbol \<lparr>sy_symbol = ''BTCUSDT'', sy_base = ''BTC'', sy_quote = ''USDT'', sy_klass = ''core'', sy_tier = 0,
       sy_status = ''trading'', sy_tags = []\<rparr> (db_new 0))
   in \<exists>db'. load_candles_csv (\<lambda>_. Inr 1700000040000000) ''BTC'' (Inr [Inr row, Inr row]) ''1m'' 1 db = (Inr 2, db') \<and>
     load_candles_csv (\<lambda>_. Inr 1700000040000000) ''BTC'' (Inr [Inr row, Inr row]) ''1m'' 1 db' = (Inr 2, db')"
proof -
  define db where "db = snd (upsert_symbol \<lparr>sy_symbol = ''BTCUSDT'', sy_base = ''BTC'', sy_quote = ''USDT'', sy_klass = ''core'', sy_tier = 0,
       sy_status = ''trading'', sy_tags = []\<rparr> (db_new 0))"
  define row where "row = [''ts'' \<mapsto> Some ''2023-11-14'', ''open'' \<mapsto> Some ''1'', ''high'' \<mapsto> Some ''1'', ''low'' \<mapsto> Some ''1'', ''close'' \<mapsto> Some ''1'',
      ''volume'' \<mapsto> Some ''1'', ''quote_volume'' \<mapsto> Some ''1'', ''trades'' \<mapsto> Some ''3'', ''taker_buy_volume'' \<mapsto> Some ''1'']"
  let ?conv = "row_to_candle_row (\<lambda>_. Inr 1700000040000000) 1 ''1m''"
  have ok: "db_ok db" unfolding db_def by (rule written_ok) (rule written.intros)+
  have sid: "get_id ''BTC'' db = Some 1"
    by (simp add: db_def upsert_symbol_def get_id_def has_base_def db_new_def symbol_check_def int16_def Let_def)
  have text1: "take_sign (strip ''1'') = (False, ''1'')" by code_simp
  have text2: "lower ''1'' = ''1''" by code_simp
  have text3: "decimal_of ''1'' = Some 1" by code_simp
  have num1: "float_of_text ''1'' = Inr (Fin 1)"
    using to_dbl_of_int [of 1] by (simp add: float_of_text_def text1 text2 text3 Let_def)
  have num3: "int_of_text ''3'' = Inr 3" by code_simp
  have num5: "\<not> is_digits ''2023-11-14''" by code_simp
  have cols: "row ''ts'' = Some (Some ''2023-11-14'')" "row ''open'' = Some (Some ''1'')" "row ''high'' = Some (Some ''1'')"
    "row ''low'' = Some (Some ''1'')" "row ''close'' = Some (Some ''1'')" "row ''volume'' = Some (Some ''1'')"
    "row ''quote_volume'' = Some (Some ''1'')" "row ''trades'' = Some (Some ''3'')" "row ''taker_buy_volume'' = Some (Some ''1'')"
    by (simp_all only: row_def fun_upd_apply list.inject char.inject list.distinct simp_thms if_True if_False)
  have ts: "parse_ts (\<lambda>_. Inr 1700000040000000) (Some ''2023-11-14'') = Inr 1700000040000000"
    using num5 by (simp add: parse_ts_def)
  obtain r where r: "?conv row = Inr r" "cr_symbol_id r = 1" "cr_trades r = 3"
    by (simp add: row_to_candle_row_def csv_float_def csv_int_def csv_get_def cols ts num1 num3)
  have conv: "rmap (\<lambda>line. rbind line ?conv) [Inr row, Inr row] = Inr [r, r]" using r by simp
  have "candle_violation db r = None"
    using r by (simp add: candle_violation_def references_def symbol_exists_def db_def
      upsert_symbol_def db_new_def symbol_check_def int16_def int32_def Let_def)
  then obtain db' where i: "insert_candles [r, r] db = (Inr 2, db')" by (simp add: insert_candles_Inr)
  have load: "load_candles_csv (\<lambda>_. Inr 1700000040000000) ''BTC'' (Inr [Inr row, Inr row]) ''1m'' 1 db = (Inr 2, db') \<and>
     load_candles_csv (\<lambda>_. Inr 1700000040000000) ''BTC'' (Inr [Inr row, Inr row]) ''1m'' 1 db' = (Inr 2, db')"
    using csv_load_is_one_insert [OF ok sid refl, of "\<lambda>_. Inr 1700000040000000" "[Inr row, Inr row]" "''1m''" 1 2 db'] conv i by simp
  show ?thesis unfolding Let_def db_def [symmetric] row_def [symmetric] using load by (rule exI)
qed

end
