(* ===== verification/Simfeed.thy ===== *)
theory Simfeed
  imports Feed Indicators
begin

text \<open>
  \<^verbatim>\<open>src/orvixa/feeds/sim.py\<close>: the offline feed. The generator \<^verbatim>\<open>random.Random(seed)\<close> is a state \<open>'g\<close> with its
  \<^verbatim>\<open>random()\<close> as the parameter \<open>draw\<close>; \<^verbatim>\<open>math.log\<close> and \<^verbatim>\<open>math.cos\<close> are parameters, and the wall clock is an input of
  each round. A method that may raise returns the state as far as it got.
\<close>

section \<open>Symbol states\<close>

definition seed_universe :: "(string \<times> (pyfloat \<times> pyfloat \<times> pyfloat)) list" where
  "seed_universe =
    [(''BTCUSDT'', (Fin 68420, Fin 1, Fin 9200)),
     (''ETHUSDT'', (Fin 3560, to_dbl (115 / 100), Fin 6100)),
     (''SOLUSDT'', (to_dbl (1684 / 10), to_dbl (17 / 10), Fin 4200)),
     (''BNBUSDT'', (to_dbl (6042 / 10), to_dbl (105 / 100), Fin 2100)),
     (''XRPUSDT'', (to_dbl (612 / 1000), to_dbl (14 / 10), Fin 1900)),
     (''AVAXUSDT'', (to_dbl (386 / 10), to_dbl (18 / 10), Fin 1300)),
     (''LINKUSDT'', (to_dbl (178 / 10), to_dbl (16 / 10), Fin 1150)),
     (''DOGEUSDT'', (to_dbl (1632 / 10000), to_dbl (23 / 10), Fin 3200)),
     (''1000PEPEUSDT'', (to_dbl (1284 / 100000), to_dbl (32 / 10), Fin 2900)),
     (''1000SHIBUSDT'', (to_dbl (2618 / 100000), to_dbl (26 / 10), Fin 2400)),
     (''WIFUSDT'', (to_dbl (284 / 100), to_dbl (36 / 10), Fin 1450)),
     (''BONKUSDT'', (to_dbl (3142 / 100000), to_dbl (38 / 10), Fin 1100))]"

definition default_symbol :: "pyfloat \<times> pyfloat \<times> pyfloat" where
  "default_symbol = (Fin 1, to_dbl (15 / 10), Fin 800)"

definition ticks_per_candle :: nat where
  "ticks_per_candle = 7"

record sim_symbol =
  sm_pair :: string
  sm_price :: pyfloat
  sm_sigma :: pyfloat
  sm_qv_base :: pyfloat
  sm_mu :: pyfloat
  sm_burst :: int
  sm_burst_dir :: int

definition sim_symbol_new :: "('g \<Rightarrow> pyfloat \<times> 'g) \<Rightarrow> string \<Rightarrow> 'g \<Rightarrow> sim_symbol \<times> 'g" where
  "sim_symbol_new draw pair g =
     (case get_or default_symbol (map_of seed_universe pair) of (price, vol, qv) \<Rightarrow>
      let (r, g1) = draw g in
      (\<lparr>sm_pair = pair, sm_price = price, sm_sigma = to_dbl (7 / 10000) * vol, sm_qv_base = qv,
        sm_mu = (r - to_dbl (1 / 2)) * to_dbl (25 / 100000), sm_burst = 0, sm_burst_dir = 0\<rparr>, g1))"

record 'g simfeed =
  sf_rng :: 'g
  sf_candle_seconds :: pyfloat
  sf_states :: "(string \<times> sim_symbol) list"
  sf_running :: bool

fun sim_states_from :: "('g \<Rightarrow> pyfloat \<times> 'g) \<Rightarrow> string list \<Rightarrow> (string \<times> sim_symbol) list \<Rightarrow> 'g \<Rightarrow> (string \<times> sim_symbol) list \<times> 'g" where
  "sim_states_from draw [] sts g = (sts, g)"
| "sim_states_from draw (s # ss) sts g =
     (let (st, g1) = sim_symbol_new draw (upper s) g in sim_states_from draw ss (alput (upper s) st sts) g1)"

definition simfeed_new :: "('g \<Rightarrow> pyfloat \<times> 'g) \<Rightarrow> string list \<Rightarrow> pyfloat \<Rightarrow> 'g \<Rightarrow> 'g simfeed" where
  "simfeed_new draw symbols candle_seconds g =
     (let (sts, g1) = sim_states_from draw symbols [] g in
      \<lparr>sf_rng = g1, sf_candle_seconds = pymax (to_dbl (5 / 100)) candle_seconds, sf_states = sts, sf_running = False\<rparr>)"

fun sim_subscribe :: "('g \<Rightarrow> pyfloat \<times> 'g) \<Rightarrow> string list \<Rightarrow> 'g simfeed \<Rightarrow> unit res \<times> 'g simfeed" where
  "sim_subscribe draw [] f = (Inr (), f)"
| "sim_subscribe draw (s # ss) f =
     sim_subscribe draw ss
       (if upper s \<in> set (map fst (sf_states f)) then f
        else let (st, g1) = sim_symbol_new draw (upper s) (sf_rng f) in
          f\<lparr>sf_rng := g1, sf_states := sf_states f @ [(upper s, st)]\<rparr>)"

fun sim_unsubscribe :: "string list \<Rightarrow> 'g simfeed \<Rightarrow> unit res \<times> 'g simfeed" where
  "sim_unsubscribe [] f = (Inr (), f)"
| "sim_unsubscribe (s # ss) f =
     sim_unsubscribe ss (f\<lparr>sf_states := filter (\<lambda>(k, st). k \<noteq> upper s) (sf_states f)\<rparr>)"

definition sim_start :: "'g simfeed \<Rightarrow> 'g simfeed" where
  "sim_start f = f\<lparr>sf_running := True\<rparr>"

definition sim_stop :: "'g simfeed \<Rightarrow> 'g simfeed" where
  "sim_stop f = f\<lparr>sf_running := False\<rparr>"

definition sim_subscribed :: "'g simfeed \<Rightarrow> string set" where
  "sim_subscribed f = set (map fst (sf_states f))"

interpretation sim_feed: subscription "sim_subscribe draw" sim_unsubscribe sim_subscribed for draw :: "'g \<Rightarrow> pyfloat \<times> 'g"
proof
  fix ps and f :: "'g simfeed"
  show "sim_subscribed (snd (sim_subscribe draw ps f)) = sim_subscribed f \<union> upper ` set ps"
    by (induction draw ps f rule: sim_subscribe.induct) (auto simp: sim_subscribed_def Let_def split: prod.splits)
  show "sim_subscribed (snd (sim_unsubscribe ps f)) = sim_subscribed f - upper ` set ps"
    by (induction ps f rule: sim_unsubscribe.induct) (force simp: sim_subscribed_def)+
qed

section \<open>Ticks\<close>

text \<open>\<^verbatim>\<open>math.pi\<close>, exactly.\<close>

definition py_pi :: pyfloat where
  "py_pi = Fin (884279719003555 / 281474976710656)"

definition gauss :: "(pyfloat \<Rightarrow> pyfloat res) \<Rightarrow> (pyfloat \<Rightarrow> pyfloat res) \<Rightarrow> ('g \<Rightarrow> pyfloat \<times> 'g) \<Rightarrow> 'g \<Rightarrow> pyfloat res \<times> 'g" where
  "gauss logf cosf draw g =
     (let (r, g1) = draw g; u = pymax r (to_dbl (1 / 10 ^ 12)); (v, g2) = draw g1 in
      (rbind (logf u) (\<lambda>l. rbind (fsqrt (Fin (- 2) * l)) (\<lambda>radius.
       rbind (cosf (Fin 2 * py_pi * v)) (\<lambda>c. Inr (radius * c)))), g2))"

text \<open>The drift changes now and then.\<close>

definition redraw_mu :: "('g \<Rightarrow> pyfloat \<times> 'g) \<Rightarrow> sim_symbol \<times> 'g \<Rightarrow> sim_symbol \<times> 'g" where
  "redraw_mu draw s =
     (case s of (st, g) \<Rightarrow>
      let (r, g1) = draw g in
      if r < to_dbl (12 / 1000)
      then let (r', g2) = draw g1 in (st\<lparr>sm_mu := (r' - to_dbl (1 / 2)) * to_dbl (3 / 10000)\<rparr>, g2)
      else (st, g1))"

text \<open>Outside a burst one may start: 3 to 7 ticks, up or down.\<close>

definition start_burst :: "('g \<Rightarrow> pyfloat \<times> 'g) \<Rightarrow> sim_symbol \<times> 'g \<Rightarrow> unit res \<times> (sim_symbol \<times> 'g)" where
  "start_burst draw s =
     (case s of (st, g) \<Rightarrow>
      if sm_burst st \<le> 0
      then let (r, g1) = draw g in
        if r < to_dbl (25 / 10000)
        then let (r', g2) = draw g1 in
          attempt (pyint (r' * Fin 5)) (st, g2) (\<lambda>n.
          let (r'', g3) = draw g2 in
          (Inr (), (st\<lparr>sm_burst := 3 + n, sm_burst_dir := (if r'' < to_dbl (1 / 2) then 1 else - 1)\<rparr>, g3)))
        else (Inr (), (st, g1))
      else (Inr (), s))"

definition step_price ::
  "(pyfloat \<Rightarrow> pyfloat res) \<Rightarrow> (pyfloat \<Rightarrow> pyfloat res) \<Rightarrow> ('g \<Rightarrow> pyfloat \<times> 'g) \<Rightarrow> sim_symbol \<times> 'g \<Rightarrow> pyfloat res \<times> (sim_symbol \<times> 'g)" where
  "step_price logf cosf draw s =
     (let (r, s2) = start_burst draw (redraw_mu draw s) in
      attempt r s2 (\<lambda>_.
      case s2 of (st, g) \<Rightarrow>
      let (r', g3) = gauss logf cosf draw g in
      attempt r' (st, g3) (\<lambda>z.
      let shock = z * sm_sigma st;
          drift = (if sm_burst st > 0 then sm_mu st + to_dbl (of_int (sm_burst_dir st)) * sm_sigma st * Fin 3 else sm_mu st);
          st1 = (if sm_burst st > 0 then st\<lparr>sm_burst := sm_burst st - 1\<rparr> else st);
          st2 = st1\<lparr>sm_price := pymax (sm_price st * (Fin 1 + drift + shock)) (to_dbl (1 / 10 ^ 12))\<rparr>;
          (v, g4) = draw g3
      in (Inr (sm_qv_base st2 * (to_dbl (6 / 10) + v * to_dbl (9 / 10)) * (Fin 1 + \<bar>shock\<bar> * Fin 120)), (st2, g4)))))"

text \<open>The bar under construction: high, low and quote volume so far.\<close>

fun tick_loop ::
  "(sim_symbol \<times> 'g \<Rightarrow> pyfloat res \<times> (sim_symbol \<times> 'g)) \<Rightarrow> nat \<Rightarrow> pyfloat \<times> pyfloat \<times> pyfloat \<Rightarrow> sim_symbol \<times> 'g \<Rightarrow>
   (pyfloat \<times> pyfloat \<times> pyfloat) res \<times> (sim_symbol \<times> 'g)" where
  "tick_loop step 0 bar s = (Inr bar, s)"
| "tick_loop step (Suc n) bar s =
     (let (r, s1) = step s in
      attempt r s1 (\<lambda>q.
      case bar of (high, low, quote_v) \<Rightarrow>
      tick_loop step n (pymax high (sm_price (fst s1)), pymin low (sm_price (fst s1)), quote_v + q) s1))"

definition buy_share :: "pyfloat \<Rightarrow> pyfloat \<Rightarrow> pyfloat res" where
  "buy_share open_p close_p =
     (if open_p = Fin 0 then Inr (to_dbl (1 / 2))
      else rbind (fdiv (close_p - open_p) open_p) (\<lambda>x.
        Inr (to_dbl (1 / 2) + pymax (to_dbl (- 4 / 10)) (pymin (to_dbl (4 / 10)) (x * Fin 50)))))"

definition build_candle ::
  "(sim_symbol \<times> 'g \<Rightarrow> pyfloat res \<times> (sim_symbol \<times> 'g)) \<Rightarrow> int \<Rightarrow> sim_symbol \<times> 'g \<Rightarrow> candle res \<times> (sim_symbol \<times> 'g)" where
  "build_candle step now_ms s =
     (let open_p = sm_price (fst s); (r, s1) = tick_loop step ticks_per_candle (open_p, open_p, Fin 0) s in
      attempt r s1 (\<lambda>(high, low, quote_v).
      let close_p = sm_price (fst s1) in
      attempt (if close_p = Fin 0 then Inr (Fin 0) else fdiv quote_v close_p) s1 (\<lambda>volume.
      attempt (buy_share open_p close_p) s1 (\<lambda>share.
      (Inr \<lparr>cd_symbol = normalize_symbol (sm_pair (fst s1)), cd_ts = now_ms, cd_open = open_p, cd_high = high, cd_low = low,
            cd_close = close_p, cd_volume = volume, cd_quote_volume = quote_v, cd_trades = int ticks_per_candle,
            cd_closed = True, cd_taker_buy_volume = volume * share\<rparr>, s1)))))"

text \<open>
  One round of \<^verbatim>\<open>_loop\<close> over the symbols it found at its start: a candle each, then the snapshot of all. \<open>clock\<close> gives the
  millisecond of each candle.
\<close>

definition change_pct :: "candle \<Rightarrow> pyfloat res" where
  "change_pct c =
     (if cd_open c = Fin 0 then Inr (Fin 0)
      else rbind (fdiv (cd_close c - cd_open c) (cd_open c)) (\<lambda>x. Inr (x * Fin 100)))"

fun sim_symbols ::
  "(sim_symbol \<times> 'g \<Rightarrow> pyfloat res \<times> (sim_symbol \<times> 'g)) \<Rightarrow> 'w consumers \<Rightarrow> (nat \<Rightarrow> int) \<Rightarrow> (string \<times> sim_symbol) list \<Rightarrow> 'g \<Rightarrow> 'w \<Rightarrow>
   ticker_row list res \<times> (string \<times> sim_symbol) list \<times> 'g \<times> 'w" where
  "sim_symbols step cs clock [] g w = (Inr [], [], g, w)"
| "sim_symbols step cs clock ((k, st) # sts) g w =
     (let (r, (st1, g1)) = build_candle step (clock 0) (st, g) in
      case r of
        Inl e \<Rightarrow> (Inl e, (k, st1) # sts, g1, w)
      | Inr c \<Rightarrow>
          let w1 = emit_candle cs c w in
          (case change_pct c of
             Inl e \<Rightarrow> (Inl e, (k, st1) # sts, g1, w1)
           | Inr pct \<Rightarrow>
               let row = \<lparr>tk_symbol = cd_symbol c, tk_price = cd_close c, tk_change_pct = pct, tk_quote_volume = cd_quote_volume c\<rparr>;
                   (rows, sts1, g2, w2) = sim_symbols step cs (\<lambda>n. clock (Suc n)) sts g1 w1
               in (rbind rows (\<lambda>rs. Inr (row # rs)), (k, st1) # sts1, g2, w2)))"

definition sim_round ::
  "(sim_symbol \<times> 'g \<Rightarrow> pyfloat res \<times> (sim_symbol \<times> 'g)) \<Rightarrow> 'w consumers \<Rightarrow> (nat \<Rightarrow> int) \<Rightarrow> 'g simfeed \<times> 'w \<Rightarrow> unit res \<times> ('g simfeed \<times> 'w)" where
  "sim_round step cs clock s =
     (case s of (f, w) \<Rightarrow>
      let (r, sts, g, w1) = sim_symbols step cs clock (sf_states f) (sf_rng f) w;
          f1 = f\<lparr>sf_states := sts, sf_rng := g\<rparr>
      in attempt r (f1, w1) (\<lambda>rows. (Inr (), (f1, emit_snapshot cs rows w1))))"

section \<open>Bounds\<close>

text \<open>What the generator and the library functions guarantee.\<close>

definition draws_unit :: "('g \<Rightarrow> pyfloat \<times> 'g) \<Rightarrow> bool" where
  "draws_unit draw \<longleftrightarrow> (\<forall>g. in_range 0 1 (fst (draw g)))"

definition log_of_unit :: "(pyfloat \<Rightarrow> pyfloat res) \<Rightarrow> bool" where
  "log_of_unit logf \<longleftrightarrow> (\<forall>x. in_range (1 / 2 ^ 40) 1 x \<longrightarrow> (\<exists>y. logf x = Inr y \<and> in_range (- 32) 0 y))"

definition cos_unit :: "(pyfloat \<Rightarrow> pyfloat res) \<Rightarrow> bool" where
  "cos_unit cosf \<longleftrightarrow> (\<forall>x. is_fin x \<longrightarrow> (\<exists>y. cosf x = Inr y \<and> in_range (- 1) 1 y))"

lemma isqrt_square: "0 \<le> n \<Longrightarrow> isqrt n * isqrt n \<le> n"
proof (induction n rule: isqrt.induct)
  case (1 n)
  show ?case
  proof (cases "n \<le> 0")
    case False
    define r where "r = 2 * isqrt (n div 4)"
    have "isqrt (n div 4) * isqrt (n div 4) \<le> n div 4" using 1 False by simp
    then have "r * r \<le> n" by (simp add: r_def)
    then show ?thesis using False by (subst (1 2) isqrt.simps) (simp add: Let_def r_def [symmetric])
  qed (use 1 in \<open>simp add: isqrt.simps\<close>)
qed

lemma sqrt_round_le:
  assumes "0 \<le> x" "x < of_int m * of_int m" "0 \<le> m"
  shows "sqrt_round x \<le> m" "0 \<le> sqrt_round x"
proof -
  have "of_int \<lfloor>x\<rfloor> < (of_int (m * m) :: rat)" using assms(2) of_int_floor_le [of x] by (simp del: of_int_floor_le)
  then have "\<lfloor>x\<rfloor> < m * m" by (simp only: of_int_less_iff)
  moreover have "isqrt \<lfloor>x\<rfloor> * isqrt \<lfloor>x\<rfloor> \<le> \<lfloor>x\<rfloor>" using assms(1) by (intro isqrt_square) simp
  ultimately have "isqrt \<lfloor>x\<rfloor> * isqrt \<lfloor>x\<rfloor> < m * m" by linarith
  then have "isqrt \<lfloor>x\<rfloor> < m" using assms(3) mult_mono [of m "isqrt \<lfloor>x\<rfloor>" m "isqrt \<lfloor>x\<rfloor>"] by linarith
  then show "sqrt_round x \<le> m" "0 \<le> sqrt_round x" using isqrt_nonneg [of "\<lfloor>x\<rfloor>"] by (simp_all add: sqrt_round_def Let_def)
qed

lemma ilog2_endpoint:
  assumes "endpoint q" "0 < q"
  shows "- 1074 \<le> ilog2 q"
proof -
  obtain n t where nt: "q = of_int n * 2 powi t" "- 1074 \<le> t"
    using rnd_grid_form [of q] assms(1) by (auto simp: endpoint_def)
  have "0 < n"
  proof (rule ccontr)
    assume "\<not> 0 < n"
    then have "of_int n * (2 :: rat) powi t \<le> 0" by (intro mult_nonpos_nonneg) simp_all
    then show False using assms(2) nt(1) by simp
  qed
  then have "1 \<le> n" by simp
  then have "(of_int 1 :: rat) \<le> of_int n" by (simp only: of_int_le_iff)
  then have "1 * 2 powi t \<le> (of_int n * 2 powi t :: rat)" by (intro mult_right_mono) simp_all
  then have "2 powi (- 1074) \<le> q" 
    unfolding nt(1) mult_1 by (rule order_trans [OF powi_mono [OF nt(2)]])
  then have "ilog2 (2 powi (- 1074)) \<le> ilog2 q" by (intro ilog2_mono) simp_all
  then show ?thesis using ilog2_unique [of "- 1074" "2 powi (- 1074)"] by (simp add: powi_less_iff)
qed

lemma fsqrt_in_range:
  assumes "in_range 0 64 x"
  shows "\<exists>y. fsqrt x = Inr y \<and> in_range 0 16 y"
proof -
  obtain q where q: "x = Fin q" "endpoint q" "0 \<le> q" "q \<le> 64" using assms by (rule in_rangeE)
  show ?thesis
  proof (cases "q = 0")
    case False
    then have pos: "0 < q" using q(3) by simp
    define e where "e = ilog2 q div 2"
    define s where "s = e - 52"
    note b = ilog2_bounds [OF pos]
    have "(2 :: rat) powi (ilog2 q + 1) \<le> 2 powi (2 * e + 2)" by (rule powi_mono) (simp add: e_def)
    then have "q < 2 powi (2 * e + 2)" using b(2) by linarith
    moreover have "(2 :: rat) powi (2 * e + 2) = of_int (2 ^ 53) * of_int (2 ^ 53) * 2 powi (2 * s)"
    proof -
      have "(2 :: rat) powi (2 * e + 2) = 2 powi (106 + 2 * s)" by (simp add: s_def add.commute)
      also have "\<dots> = 2 powi 106 * 2 powi (2 * s)" by (rule power_int_add) simp
      finally show ?thesis by simp
    qed
    ultimately have lt: "q / 2 powi (2 * s) < of_int (2 ^ 53) * of_int (2 ^ 53)" by (simp add: pos_divide_less_eq)
    have n: "sqrt_round (q / 2 powi (2 * s)) \<le> 2 ^ 53" "0 \<le> sqrt_round (q / 2 powi (2 * s))"
      using sqrt_round_le [OF _ lt] pos by simp_all
    let ?n = "sqrt_round (q / 2 powi (2 * s))"
    have val: "sqrt_rat q = of_int ?n * 2 powi s" using False by (simp add: sqrt_rat_def Let_def s_def e_def)
    have "ilog2 q \<le> 6"
    proof -
      have "(2 :: rat) powi ilog2 q < 2 powi 7" using b(1) q(4) by simp
      then have "ilog2 q < 7" by (simp only: powi_less_iff)
      then show ?thesis by simp
    qed
    then have s: "s \<le> - 49" "- 1074 \<le> s" using ilog2_endpoint [OF q(2) pos] by (simp_all add: s_def e_def)
    have "(of_int ?n :: rat) \<le> of_int (2 ^ 53)" using n(1) by (simp only: of_int_le_iff)
    then have "(of_int ?n * 2 powi s :: rat) \<le> 2 ^ 53 * 2 powi (- 49)"
      using powi_mono [OF s(1)] n(2) by (intro mult_mono) simp_all
    also have "\<dots> = 16" by (simp add: power_int_minus)
    finally have le: "sqrt_rat q \<le> 16" by (simp only: val)
    have ge: "0 \<le> sqrt_rat q" using n(2) by (simp add: val)
    have "rnd (sqrt_rat q) = sqrt_rat q" unfolding val using n s(2) by (intro rnd_exact) simp_all
    moreover have "\<bar>sqrt_rat q\<bar> < 2 ^ 1024"
    proof -
      have "\<bar>sqrt_rat q\<bar> \<le> 2 ^ 4" using le ge by simp
      also have "(2 :: rat) ^ 4 < 2 ^ 1024" by (rule power_strict_increasing) simp_all
      finally show ?thesis .
    qed
    ultimately have "endpoint (sqrt_rat q)" by (simp add: endpoint_def)
    then show ?thesis using q(1) pos le ge by (simp add: in_range_Fin)
  qed (use q in \<open>simp add: sqrt_rat_def in_range_Fin\<close>)
qed

lemma dyadic_endpoint: "k \<le> 1074 \<Longrightarrow> \<bar>n\<bar> \<le> 2 ^ 53 \<Longrightarrow> endpoint (of_int n / 2 ^ k)"
proof -
  assume k: "k \<le> 1074" "\<bar>n\<bar> \<le> 2 ^ 53"
  have e: "of_int n / 2 ^ k = (of_int n * 2 powi (- int k) :: rat)" by (simp add: power_int_minus divide_inverse)
  have "\<bar>of_int n / 2 ^ k :: rat\<bar> \<le> \<bar>of_int n\<bar>" by (simp add: abs_divide divide_le_eq mult_le_cancel_left1)
  also have "\<dots> \<le> 2 ^ 53" using k(2) by (metis of_int_abs of_int_le_iff of_int_numeral of_int_power)
  also have "(2 :: rat) ^ 53 < 2 ^ 1024" by (rule power_strict_increasing) simp_all
  finally show ?thesis using rnd_exact [OF k(2), of "- int k"] k(1) by (simp add: endpoint_def e)
qed

definition bounded_by :: "rat \<Rightarrow> pyfloat \<Rightarrow> bool" where
  "bounded_by b x \<longleftrightarrow> in_range (- b) b x"

lemma bounded_mult:
  assumes "bounded_by a x" "bounded_by b y" "endpoint c" "a * b \<le> c"
  shows "bounded_by c (x * y)"
proof -
  obtain p q where pq: "x = Fin p" "y = Fin q" "\<bar>p\<bar> \<le> a" "\<bar>q\<bar> \<le> b"
    using assms(1,2) by (auto simp: bounded_by_def in_range_def abs_le_iff)
  have "\<bar>p * q\<bar> \<le> a * b" using pq by (simp add: abs_mult mult_mono)
  then have "\<bar>p * q\<bar> \<le> c" using assms(4) by linarith
  then show ?thesis using pq assms(3) by (simp add: bounded_by_def to_dbl_in_range endpoint_minus abs_le_iff)
qed

lemma bounded_add:
  "bounded_by a x \<Longrightarrow> bounded_by b y \<Longrightarrow> endpoint c \<Longrightarrow> a + b \<le> c \<Longrightarrow> bounded_by c (x + y)"
  unfolding bounded_by_def by (rule in_range_add) (auto intro: endpoint_minus)

lemma bounded_pos: "in_range 0 b x \<Longrightarrow> bounded_by b x"
  unfolding bounded_by_def by (rule in_range_mono, assumption) (auto simp: in_range_def)

text \<open>A symbol state whose price is at most \<open>2 ^ k\<close>.\<close>

definition sim_ok :: "nat \<Rightarrow> sim_symbol \<Rightarrow> bool" where
  "sim_ok k st \<longleftrightarrow>
     in_range (1 / 2 ^ 40) (2 ^ k) (sm_price st) \<and> in_range 0 (1 / 2 ^ 8) (sm_sigma st) \<and> in_range 0 (2 ^ 14) (sm_qv_base st) \<and>
     bounded_by (1 / 2 ^ 12) (sm_mu st) \<and> sm_burst_dir st \<in> {- 1, 0, 1}"

lemma half_dbl: "to_dbl (1 / 2) = Fin (1 / 2)"
  using to_dbl_endpoint [OF endpoint_inverse_power [of 1]] by simp

lemma drawE:
  assumes "draws_unit draw"
  obtains r g' where "draw g = (r, g')" "in_range 0 1 r"
  using assms that by (cases "draw g") (auto simp: draws_unit_def dest: spec [of _ g])

lemma redraw_mu_ok:
  assumes "draws_unit draw" "sim_ok k st"
  shows "sim_ok k (fst (redraw_mu draw (st, g))) \<and> sm_pair (fst (redraw_mu draw (st, g))) = sm_pair st"
proof -
  have "bounded_by (1 / 2 ^ 12) ((r - to_dbl (1 / 2)) * to_dbl (3 / 10000))" if "in_range 0 1 r" for r
  proof (rule bounded_mult)
    show "bounded_by (1 / 2) (r - to_dbl (1 / 2))"
      unfolding bounded_by_def half_dbl
      by (rule in_range_diff [OF that, of "1 / 2" "1 / 2"]) (use endpoint_inverse_power [of 1] in \<open>simp_all add: in_range_Fin endpoint_minus\<close>)
    show "bounded_by (1 / 2 ^ 11) (to_dbl (3 / 10000))"
      by (intro bounded_pos to_dbl_in_range endpoint_inverse_power) simp_all
  qed (simp_all only: endpoint_inverse_power, simp_all)
  moreover obtain r g1 where d1: "draw g = (r, g1)" "in_range 0 1 r" using assms(1) by (rule drawE)
  moreover obtain r' g2 where d2: "draw g1 = (r', g2)" "in_range 0 1 r'" using assms(1) by (rule drawE)
  ultimately show ?thesis using assms(2) by (simp add: redraw_mu_def sim_ok_def)
qed

lemma start_burst_ok:
  assumes "draws_unit draw" "sim_ok k st"
  shows "\<exists>st' g'. start_burst draw (st, g) = (Inr (), (st', g')) \<and> sim_ok k st' \<and> sm_pair st' = sm_pair st"
proof -
  obtain r g1 where d1: "draw g = (r, g1)" "in_range 0 1 r" using assms(1) by (rule drawE)
  obtain r' g2 where d2: "draw g1 = (r', g2)" "in_range 0 1 r'" using assms(1) by (rule drawE)
  obtain r'' g3 where d3: "draw g2 = (r'', g3)" "in_range 0 1 r''" using assms(1) by (rule drawE)
  have "in_range 0 5 (r' * Fin 5)" by (rule in_range_mult [OF d2(2), of 5 5]) (simp_all add: in_range_Fin)
  then obtain n where "pyint (r' * Fin 5) = Inr n" by (auto simp: in_range_def)
  then show ?thesis using assms(2) by (auto simp: start_burst_def d1 d2 d3 sim_ok_def)
qed

lemma tiny_range: "in_range (1 / 2 ^ 40) 1 (to_dbl (1 / 10 ^ 12))"
  by (intro to_dbl_in_range endpoint_inverse_power) simp_all

lemma gauss_ok:
  assumes "draws_unit draw" "log_of_unit logf" "cos_unit cosf"
  shows "\<exists>z g'. gauss logf cosf draw g = (Inr z, g') \<and> bounded_by 16 z"
proof -
  obtain r g1 where d1: "draw g = (r, g1)" "in_range 0 1 r" using assms(1) by (rule drawE)
  obtain v g2 where d2: "draw g1 = (v, g2)" "in_range 0 1 v" using assms(1) by (rule drawE)
  have "in_range (1 / 2 ^ 40) 1 (pymax r (to_dbl (1 / 10 ^ 12)))"
    by (rule in_range_pymax [OF d1(2) tiny_range]) simp_all
  then obtain l where l: "logf (pymax r (to_dbl (1 / 10 ^ 12))) = Inr l" "in_range (- 32) 0 l"
    using assms(2) unfolding log_of_unit_def by blast
  have "in_range 0 64 (Fin (- 2) * l)"
  proof -
    obtain q where "l = Fin q" "- 32 \<le> q" "q \<le> 0" using l(2) by (rule in_rangeE)
    then show ?thesis by (simp add: to_dbl_in_range)
  qed
  then obtain radius where s: "fsqrt (Fin (- 2) * l) = Inr radius" "in_range 0 16 radius" using fsqrt_in_range by blast
  have "is_fin (Fin 2 * py_pi * v)"
  proof -
    have "in_range 0 8 (Fin 2 * py_pi)" by (simp add: py_pi_def to_dbl_in_range)
    then have "in_range 0 8 (Fin 2 * py_pi * v)" by (rule in_range_mult [OF _ d2(2)]) simp_all
    then show ?thesis by (auto simp: in_range_def)
  qed
  then obtain c where c: "cosf (Fin 2 * py_pi * v) = Inr c" "bounded_by 1 c"
    using assms(3) unfolding cos_unit_def bounded_by_def by blast
  have "bounded_by 16 (radius * c)" by (rule bounded_mult [OF bounded_pos [OF s(2)] c(2)]) simp_all
  then show ?thesis using l(1) s(1) c(1) by (simp add: gauss_def d1(1) d2(1))
qed

lemma abs_bounded: "bounded_by b x \<Longrightarrow> in_range 0 b \<bar>x\<bar>"
  by (auto simp: bounded_by_def in_range_def abs_if endpoint_minus)

text \<open>One tick: the factor stays between a half and two.\<close>

lemma step_price_ok:
  assumes "draws_unit draw" "log_of_unit logf" "cos_unit cosf" "sim_ok k st" "k \<le> 900"
  shows "\<exists>q st' g'. step_price logf cosf draw (st, g) = (Inr q, (st', g')) \<and> in_range 0 (2 ^ 19) q \<and>
    sim_ok (Suc k) st' \<and> sm_pair st' = sm_pair st"
proof -
  obtain st1 g1 where r: "redraw_mu draw (st, g) = (st1, g1)" by (cases "redraw_mu draw (st, g)")
  then have r1: "sim_ok k st1" "sm_pair st1 = sm_pair st" using redraw_mu_ok [OF assms(1,4), of g] by simp_all
  obtain st2 g2 where b: "start_burst draw (st1, g1) = (Inr (), (st2, g2))" and ok: "sim_ok k st2" and pair: "sm_pair st2 = sm_pair st"
    using start_burst_ok [OF assms(1) r1(1), of g1] r1(2) by auto
  obtain z g3 where z: "gauss logf cosf draw g2 = (Inr z, g3)" "bounded_by 16 z" using gauss_ok [OF assms(1-3)] by blast
  obtain v g4 where v: "draw g3 = (v, g4)" "in_range 0 1 v" using assms(1) by (rule drawE)
  have price: "in_range (1 / 2 ^ 40) (2 ^ k) (sm_price st2)" and sigma: "in_range 0 (1 / 2 ^ 8) (sm_sigma st2)"
    and qv: "in_range 0 (2 ^ 14) (sm_qv_base st2)" and mu: "bounded_by (1 / 2 ^ 12) (sm_mu st2)" and dir: "sm_burst_dir st2 \<in> {- 1, 0, 1}"
    using ok by (simp_all only: sim_ok_def)
  define shock where "shock = z * sm_sigma st2"
  have shock: "bounded_by (1 / 2 ^ 4) shock"
    unfolding shock_def by (rule bounded_mult [OF z(2) bounded_pos [OF sigma] endpoint_inverse_power]) simp_all
  define drift where "drift = (if sm_burst st2 > 0 then sm_mu st2 + to_dbl (of_int (sm_burst_dir st2)) * sm_sigma st2 * Fin 3 else sm_mu st2)"
  have drift: "bounded_by (1 / 2 ^ 5) drift"
  proof -
    have "bounded_by 1 (to_dbl (of_int (sm_burst_dir st2)))"
      using dir by (auto simp: bounded_by_def in_range_Fin endpoint_minus to_dbl_minus)
    then have "bounded_by (1 / 2 ^ 8) (to_dbl (of_int (sm_burst_dir st2)) * sm_sigma st2)"
      by (rule bounded_mult [OF _ bounded_pos [OF sigma] endpoint_inverse_power]) simp_all
    then have "bounded_by (1 / 2 ^ 6) (to_dbl (of_int (sm_burst_dir st2)) * sm_sigma st2 * Fin 3)"
      by (rule bounded_mult [OF _ bounded_pos [of 3] endpoint_inverse_power]) (simp_all add: in_range_Fin)
    then have "bounded_by (1 / 2 ^ 5) (sm_mu st2 + to_dbl (of_int (sm_burst_dir st2)) * sm_sigma st2 * Fin 3)"
      by (rule bounded_add [OF mu _ endpoint_inverse_power]) simp_all
    moreover have "bounded_by (1 / 2 ^ 5) (sm_mu st2)"
      using mu unfolding bounded_by_def by (rule in_range_mono) simp_all
    ultimately show ?thesis by (simp add: drift_def)
  qed
  have half: "endpoint (1 / 2)" using endpoint_inverse_power [of 1] by simp
  have "in_range (1 / 2) 2 (Fin 1 + drift)"
    by (rule in_range_add [of 1 1, OF _ drift [unfolded bounded_by_def] half]) (simp_all add: in_range_Fin)
  then have factor: "in_range (1 / 2) 2 (Fin 1 + drift + shock)"
  proof -
    have e: "endpoint (15 / 16)" "endpoint (17 / 16)" using dyadic_endpoint [of 4 15] dyadic_endpoint [of 4 17] by simp_all
    have "in_range (15 / 16) (17 / 16) (Fin 1 + drift)"
      by (rule in_range_add [of 1 1, OF _ drift [unfolded bounded_by_def] e]) (simp_all add: in_range_Fin)
    then show ?thesis by (rule in_range_add [OF _ shock [unfolded bounded_by_def] half]) simp_all
  qed
  have "in_range (1 / 2 ^ 41) (2 ^ Suc k) (sm_price st2 * (Fin 1 + drift + shock))"
    by (rule in_range_mult [OF price factor _ _ endpoint_inverse_power endpoint_power]) (use assms(5) in simp_all)
  then have price': "in_range (1 / 2 ^ 40) (2 ^ Suc k) (pymax (sm_price st2 * (Fin 1 + drift + shock)) (to_dbl (1 / 10 ^ 12)))"
  proof (rule in_range_pymax [OF _ tiny_range])
    have "(1 :: rat) \<le> 2 ^ Suc k" by (rule one_le_power) simp
    then show "max (2 ^ Suc k) 1 \<le> (2 :: rat) ^ Suc k" by (simp only: max_def) simp
  qed simp
  define q where "q = sm_qv_base st2 * (to_dbl (6 / 10) + v * to_dbl (9 / 10)) * (Fin 1 + \<bar>shock\<bar> * Fin 120)"
  have q: "in_range 0 (2 ^ 19) q"
  proof -
    have a: "in_range 0 1 (to_dbl (6 / 10))" "in_range 0 1 (to_dbl (9 / 10))" by (simp_all add: to_dbl_in_range)
    have "in_range 0 1 (v * to_dbl (9 / 10))" by (rule in_range_mult [OF v(2) a(2)]) simp_all
    then have "in_range 0 2 (to_dbl (6 / 10) + v * to_dbl (9 / 10))" by (rule in_range_add [OF a(1)]) simp_all
    then have "in_range 0 (2 ^ 15) (sm_qv_base st2 * (to_dbl (6 / 10) + v * to_dbl (9 / 10)))"
      by (rule in_range_mult [OF qv]) simp_all
    moreover have "in_range 0 8 (\<bar>shock\<bar> * Fin 120)"
      by (rule in_range_mult [OF abs_bounded [OF shock], of 0 120]) (simp_all add: in_range_Fin)
    then have "in_range 0 16 (Fin 1 + \<bar>shock\<bar> * Fin 120)" by (rule in_range_add [of 1 1, rotated]) (simp_all add: in_range_Fin)
    ultimately show ?thesis unfolding q_def by (rule in_range_mult) simp_all
  qed
  show ?thesis
    using price' sigma qv mu dir q pair
    by (simp add: step_price_def r b z(1) v(1) Let_def drift_def [symmetric] shock_def [symmetric] q_def sim_ok_def)
qed


section \<open>Bars\<close>

lemma pf_between:
  assumes "x \<noteq> NaN" "y \<noteq> NaN"
  shows "x \<le> pymax x y" "y \<le> pymax x y" "pymin x y \<le> x" "pymin x y \<le> y"
  using assms by (cases x; cases y; simp add: pymax_def pymin_def)+

text \<open>What a tick keeps, with the budget \<open>k\<close> of the price.\<close>

definition tick_ok :: "(sim_symbol \<times> 'g \<Rightarrow> pyfloat res \<times> (sim_symbol \<times> 'g)) \<Rightarrow> bool" where
  "tick_ok step \<longleftrightarrow>
     (\<forall>k st g. sim_ok k st \<longrightarrow> k \<le> 900 \<longrightarrow>
       (\<exists>q st' g'. step (st, g) = (Inr q, (st', g')) \<and> in_range 0 (2 ^ 19) q \<and> sim_ok (Suc k) st' \<and> sm_pair st' = sm_pair st))"

lemma sim_ok_price: "sim_ok k st \<Longrightarrow> in_range (1 / 2 ^ 40) (2 ^ k) (sm_price st)"
  by (simp only: sim_ok_def)

lemma in_range_more: "in_range a (2 ^ k) x \<Longrightarrow> in_range a (2 ^ Suc k) x"
  by (erule in_range_mono [OF _ order_refl]) (rule power_increasing, simp_all)

lemma tick_loop_ok:
  assumes "tick_ok step"
  shows "sim_ok k st \<Longrightarrow> k + n \<le> 900 \<Longrightarrow> in_range (1 / 2 ^ 40) (2 ^ k) h \<Longrightarrow> in_range (1 / 2 ^ 40) (2 ^ k) l \<Longrightarrow>
    l \<le> sm_price st \<Longrightarrow> sm_price st \<le> h \<Longrightarrow> in_range 0 (of_nat m * 2 ^ 19) q \<Longrightarrow> m + n \<le> 1000 \<Longrightarrow>
    \<exists>h' l' q' st' g'. tick_loop step n (h, l, q) (st, g) = (Inr (h', l', q'), (st', g')) \<and> h \<le> h' \<and> l' \<le> l \<and>
      in_range (1 / 2 ^ 40) (2 ^ (k + n)) h' \<and> in_range (1 / 2 ^ 40) (2 ^ (k + n)) l' \<and> l' \<le> sm_price st' \<and> sm_price st' \<le> h' \<and>
      in_range 0 (of_nat (m + n) * 2 ^ 19) q' \<and> sim_ok (k + n) st' \<and> sm_pair st' = sm_pair st"
proof (induction n arbitrary: k st h l q m g)
  case 0
  then show ?case by (auto simp: in_range_not_NaN)
next
  case (Suc n)
  obtain v st1 g1 where s: "step (st, g) = (Inr v, (st1, g1))" "in_range 0 (2 ^ 19) v" "sim_ok (Suc k) st1" "sm_pair st1 = sm_pair st"
    using assms Suc.prems(1,2) unfolding tick_ok_def by (metis add_leD1)
  let ?p = "sm_price st1"
  note p = sim_ok_price [OF s(3)]
  have nn: "h \<noteq> NaN" "l \<noteq> NaN" "?p \<noteq> NaN" using in_range_not_NaN Suc.prems(3,4) p by blast+
  have h: "in_range (1 / 2 ^ 40) (2 ^ Suc k) (pymax h ?p)"
    by (rule in_range_pymax [OF in_range_more [OF Suc.prems(3)] p]) simp_all
  have l: "in_range (1 / 2 ^ 40) (2 ^ Suc k) (pymin l ?p)"
    by (rule in_range_pymin [OF in_range_more [OF Suc.prems(4)] p]) simp_all
  have q: "in_range 0 (of_nat (Suc m) * 2 ^ 19) (q + v)"
  proof (rule in_range_add [OF Suc.prems(7) s(2)])
    show "endpoint (of_nat (Suc m) * 2 ^ 19)" using Suc.prems(8) by (intro endpoint_nat_times_power) simp_all
  qed (simp_all add: algebra_simps)
  note b = pf_between [OF nn(1) nn(3)] pf_between [OF nn(2) nn(3)]
  obtain h' l' q' st' g' where r: "tick_loop step n (pymax h ?p, pymin l ?p, q + v) (st1, g1) = (Inr (h', l', q'), (st', g'))"
    "pymax h ?p \<le> h'" "l' \<le> pymin l ?p" "in_range (1 / 2 ^ 40) (2 ^ (Suc k + n)) h'" "in_range (1 / 2 ^ 40) (2 ^ (Suc k + n)) l'"
    "l' \<le> sm_price st'" "sm_price st' \<le> h'" "in_range 0 (of_nat (Suc m + n) * 2 ^ 19) q'" "sim_ok (Suc k + n) st'" "sm_pair st' = sm_pair st1"
    using Suc.IH [OF s(3) _ h l _ _ q] Suc.prems(2,8) b by fastforce
  have "h \<le> h'" "l' \<le> l" using r(2,3) b pf_trans by blast+
  then show ?case using r s by (simp add: s(1))
qed

definition sim_bar_ok :: "candle \<Rightarrow> bool" where
  "sim_bar_ok c \<longleftrightarrow>
     Fin 0 < cd_low c \<and> cd_low c \<le> cd_open c \<and> cd_low c \<le> cd_close c \<and> cd_open c \<le> cd_high c \<and> cd_close c \<le> cd_high c \<and>
     is_fin (cd_high c) \<and> is_fin (cd_volume c) \<and> is_fin (cd_quote_volume c) \<and> Fin 0 \<le> cd_taker_buy_volume c \<and>
     cd_taker_buy_volume c \<le> cd_volume c \<and> cd_trades c = 7 \<and> cd_closed c"

lemma buy_share_ok:
  assumes "in_range (1 / 2 ^ 40) b open_p" "in_range (1 / 2 ^ 40) d close_p"
  shows "\<exists>share. buy_share open_p close_p = Inr share \<and> in_range 0 1 share"
proof -
  obtain p where p: "open_p = Fin p" "0 < p" using assms(1) by (auto simp: in_range_def intro: less_le_trans)
  obtain q where q: "close_p = Fin q" using assms(2) by (auto simp: in_range_def)
  define x where "x = quot (close_p - open_p) open_p * Fin 50"
  have fd: "fdiv (close_p - open_p) open_p = Inr (quot (close_p - open_p) open_p)" using p by (simp add: fdiv_def)
  have nn: "quot y (Fin p) * Fin 50 \<noteq> NaN" if "y \<noteq> NaN" for y
    using that p(2) by (cases y; cases "quot y (Fin p)") (auto simp: signed_inf_def split: if_splits)
  have "close_p - open_p \<noteq> NaN" using p(1) q by (simp add: minus_pyfloat_def)
  then have x: "x \<noteq> NaN" "is_dbl x" using nn p(1) by (simp_all add: x_def)
  have half: "endpoint (1 / 2)" using endpoint_inverse_power [of 1] by simp
  have c: "in_range 0 (1 / 2) (to_dbl (4 / 10))" "in_range (- (1 / 2)) 0 (to_dbl (- 4 / 10))"
    using half by (simp_all add: to_dbl_in_range endpoint_minus)
  have "in_range (- (1 / 2)) (1 / 2) (pymax (to_dbl (- 4 / 10)) (pymin (to_dbl (4 / 10)) x))"
    using c x by (cases x) (auto simp: pymax_def pymin_def in_range_def is_dbl_Fin_endpoint not_less simp del: is_dbl.simps(1) elim: order_trans)
  then have "in_range 0 1 (to_dbl (1 / 2) + pymax (to_dbl (- 4 / 10)) (pymin (to_dbl (4 / 10)) x))"
    unfolding half_dbl by (rule in_range_add [of "1 / 2" "1 / 2", rotated]) (simp_all add: in_range_Fin half)
  moreover have "buy_share open_p close_p = Inr (to_dbl (1 / 2) + pymax (to_dbl (- 4 / 10)) (pymin (to_dbl (4 / 10)) x))"
    unfolding buy_share_def fd using p(2) by (simp add: p(1) x_def)
  ultimately show ?thesis by simp
qed

lemma build_candle_ok:
  assumes "tick_ok step" "sim_ok k st" "k + 7 \<le> 900"
  shows "\<exists>c st' g'. build_candle step now_ms (st, g) = (Inr c, (st', g')) \<and> sim_bar_ok c \<and> sim_ok (k + 7) st' \<and> sm_pair st' = sm_pair st \<and>
    cd_symbol c = normalize_symbol (sm_pair st) \<and> cd_open c = sm_price st \<and> cd_close c = sm_price st' \<and> cd_ts c = now_ms"
proof -
  note p = sim_ok_price [OF assms(2)]
  have self: "sm_price st \<le> sm_price st" using in_range_not_NaN [OF p] by simp
  have zero: "in_range 0 (of_nat 0 * 2 ^ 19) (Fin 0)" by (simp add: in_range_Fin)
  obtain h l q st' g' where r: "tick_loop step 7 (sm_price st, sm_price st, Fin 0) (st, g) = (Inr (h, l, q), (st', g'))"
    "sm_price st \<le> h" "l \<le> sm_price st" "in_range (1 / 2 ^ 40) (2 ^ (k + 7)) h" "in_range (1 / 2 ^ 40) (2 ^ (k + 7)) l"
    "l \<le> sm_price st'" "sm_price st' \<le> h" "in_range 0 (of_nat (0 + 7) * 2 ^ 19) q" "sim_ok (k + 7) st'" "sm_pair st' = sm_pair st"
    using tick_loop_ok [OF assms(1,2) assms(3) p p self self zero, of g] by auto
  note p' = sim_ok_price [OF r(9)]
  have q: "in_range 0 (7 * 2 ^ 19) q" using r(8) by simp
  obtain v where v: "fdiv q (sm_price st') = Inr (Fin v)" "endpoint v" "0 \<le> v"
  proof -
    have "\<exists>z. fdiv q (sm_price st') = Inr z \<and> in_range 0 (2 ^ 62) z"
      by (rule in_range_fdiv [OF q p' _ _ endpoint_0 endpoint_power]) simp_all
    then show thesis using that by (auto simp: in_range_def)
  qed
  obtain s where s: "buy_share (sm_price st) (sm_price st') = Inr (Fin s)" "0 \<le> s" "s \<le> 1"
    using buy_share_ok [OF p p'] by (auto simp: in_range_def)
  have "v * s \<le> v" using v(3) s(3) by (simp add: mult_left_le)
  then have taker: "to_dbl (v * s) \<le> Fin v" "Fin 0 \<le> to_dbl (v * s)"
    using to_dbl_mono [of "v * s" v] to_dbl_mono [of 0 "v * s"] to_dbl_endpoint [OF v(2)] v(3) s(2) by simp_all
  have nz: "sm_price st' \<noteq> Fin 0" and low: "Fin 0 < l" using p' r(5) by (auto simp: in_range_def)
  have fin: "is_fin h" "is_fin q" using r(4) q by (auto simp: in_range_def)
  show ?thesis
    using r(1-3,6,7,9,10) v(1) s(1) taker nz low fin
    by (auto simp: build_candle_def ticks_per_candle_def sim_bar_ok_def)
qed

definition feed_ok :: "nat \<Rightarrow> (string \<times> sim_symbol) list \<Rightarrow> bool" where
  "feed_ok k sts \<longleftrightarrow> (\<forall>(p, st) \<in> set sts. sim_ok k st \<and> sm_pair st = p)"

definition row_of_bar :: "candle \<Rightarrow> ticker_row \<Rightarrow> bool" where
  "row_of_bar c row \<longleftrightarrow> tk_symbol row = cd_symbol c \<and> tk_price row = cd_close c \<and> tk_quote_volume row = cd_quote_volume c \<and>
     tk_change_pct row \<noteq> NaN"

lemma row_of_bar_made [simp]:
  "row_of_bar c \<lparr>tk_symbol = s, tk_price = cd_close c, tk_change_pct = pct, tk_quote_volume = cd_quote_volume c\<rparr> \<longleftrightarrow>
     s = cd_symbol c \<and> pct \<noteq> NaN"
  by (simp add: row_of_bar_def)

lemma change_pct_ok:
  assumes "sim_bar_ok c"
  shows "\<exists>x. change_pct c = Inr x \<and> x \<noteq> NaN"
proof -
  obtain h where h: "cd_high c = Fin h" using assms by (cases "cd_high c") (auto simp: sim_bar_ok_def)
  have "cd_low c \<le> cd_high c" using assms unfolding sim_bar_ok_def by (blast intro: pf_trans)
  then have "cd_low c \<le> Fin h" "Fin 0 < cd_low c" using assms h by (simp_all add: sim_bar_ok_def)
  then obtain l where l: "cd_low c = Fin l" "0 < l" by (cases "cd_low c") simp_all
  obtain p where p: "cd_open c = Fin p" "0 < p" using assms h l by (cases "cd_open c") (auto simp: sim_bar_ok_def)
  obtain q where q: "cd_close c = Fin q" using assms h l by (cases "cd_close c") (auto simp: sim_bar_ok_def)
  have "quot (Fin q - Fin p) (Fin p) * Fin 100 \<noteq> NaN"
  proof -
    have "quot y (Fin p) * Fin 100 \<noteq> NaN" if "y \<noteq> NaN" for y
      using that p(2) by (cases y; cases "quot y (Fin p)") (auto simp: signed_inf_def split: if_splits)
    moreover have "Fin q - Fin p \<noteq> NaN" by (simp add: minus_pyfloat_def)
    ultimately show ?thesis by blast
  qed
  then show ?thesis using p q by (simp add: change_pct_def fdiv_def)
qed

lemma sim_symbols_ok:
  assumes "tick_ok step" "k + 7 \<le> 900"
  shows "feed_ok k sts \<Longrightarrow>
    \<exists>candles rows sts' g'. sim_symbols step cs clock sts g w = (Inr rows, sts', g', fold (emit_candle cs) candles w) \<and>
      map cd_symbol candles = map (normalize_symbol \<circ> fst) sts \<and> (\<forall>c \<in> set candles. sim_bar_ok c) \<and> list_all2 row_of_bar candles rows \<and>
      map fst sts' = map fst sts \<and> feed_ok (k + 7) sts'"
proof (induction sts arbitrary: clock g w)
  case (Cons x sts)
  obtain p st where x: "x = (p, st)" by (cases x)
  have st: "sim_ok k st" "sm_pair st = p" and rest: "feed_ok k sts" using Cons.prems by (auto simp: feed_ok_def x)
  obtain c st1 g1 where c: "build_candle step (clock 0) (st, g) = (Inr c, (st1, g1))" "sim_bar_ok c" "sim_ok (k + 7) st1" "sm_pair st1 = p"
    "cd_symbol c = normalize_symbol p"
    using build_candle_ok [OF assms(1) st(1) assms(2), of "clock 0" g] st(2) by auto
  obtain pct where pct: "change_pct c = Inr pct" "pct \<noteq> NaN" using change_pct_ok [OF c(2)] by blast
  obtain candles rows sts' g' where ih: "sim_symbols step cs (\<lambda>n. clock (Suc n)) sts g1 (emit_candle cs c w) =
      (Inr rows, sts', g', fold (emit_candle cs) candles (emit_candle cs c w))"
    "map cd_symbol candles = map (normalize_symbol \<circ> fst) sts" "\<forall>c \<in> set candles. sim_bar_ok c" "list_all2 row_of_bar candles rows"
    "map fst sts' = map fst sts" "feed_ok (k + 7) sts'"
    using Cons.IH [OF rest] by blast
  show ?case
    by (rule exI [of _ "c # candles"], rule exI [of _ "\<lparr>tk_symbol = cd_symbol c, tk_price = cd_close c, tk_change_pct = pct,
        tk_quote_volume = cd_quote_volume c\<rparr> # rows"], rule exI [of _ "(p, st1) # sts'"], rule exI [of _ g'])
      (use c pct ih in \<open>simp add: x feed_ok_def\<close>)
qed (simp add: feed_ok_def)

lemma step_tick_ok: "draws_unit draw \<Longrightarrow> log_of_unit logf \<Longrightarrow> cos_unit cosf \<Longrightarrow> tick_ok (step_price logf cosf draw)"
  unfolding tick_ok_def by (intro allI impI step_price_ok)

section \<open>The feed at its start\<close>

definition market_ok :: "pyfloat \<times> pyfloat \<times> pyfloat \<Rightarrow> bool" where
  "market_ok v \<longleftrightarrow>
     in_range (1 / 2 ^ 40) (2 ^ 17) (fst v) \<and> in_range 0 4 (fst (snd v)) \<and> in_range 0 (2 ^ 14) (snd (snd v))"

lemma price_range: "1 / 100 \<le> q \<Longrightarrow> q \<le> 100000 \<Longrightarrow> in_range (1 / 2 ^ 40) (2 ^ 17) (to_dbl q)"
proof -
  assume "1 / 100 \<le> q" "q \<le> 100000"
  then have "1 / 2 ^ 40 \<le> q" "q \<le> 2 ^ 17" by simp_all
  then show ?thesis by (intro to_dbl_in_range endpoint_inverse_power endpoint_power) simp_all
qed

lemma vol_range: "0 \<le> q \<Longrightarrow> q \<le> 4 \<Longrightarrow> in_range 0 4 (to_dbl q)"
  by (intro to_dbl_in_range) simp_all

lemma universe_range: "list_all (\<lambda>(p, v). market_ok v) seed_universe" "market_ok default_symbol"
  by (simp_all add: seed_universe_def default_symbol_def market_ok_def in_range_Fin price_range [simplified] vol_range)

lemma sim_symbol_new_ok:
  assumes "draws_unit draw"
  shows "sim_ok 17 (fst (sim_symbol_new draw pair g)) \<and> sm_pair (fst (sim_symbol_new draw pair g)) = pair"
proof -
  obtain r g1 where d: "draw g = (r, g1)" "in_range 0 1 r" using assms by (rule drawE)
  obtain price vol qv where v: "get_or default_symbol (map_of seed_universe pair) = (price, vol, qv)" by (cases "get_or default_symbol (map_of seed_universe pair)")
  have "market_ok (price, vol, qv)"
  proof (cases "map_of seed_universe pair")
    case (Some x)
    then have "(pair, x) \<in> set seed_universe" by (rule map_of_SomeD)
    then have "market_ok x" using universe_range(1) unfolding list_all_iff by blast
    then show ?thesis using v Some by simp
  qed (use v universe_range(2) in simp)
  then have u: "in_range (1 / 2 ^ 40) (2 ^ 17) price" "in_range 0 4 vol" "in_range 0 (2 ^ 14) qv"
    unfolding market_ok_def fst_conv snd_conv by blast+
  have "in_range 0 (1 / 2 ^ 10) (to_dbl (7 / 10000))" by (intro to_dbl_in_range endpoint_inverse_power) simp_all
  then have sigma: "in_range 0 (1 / 2 ^ 8) (to_dbl (7 / 10000) * vol)"
    by (rule in_range_mult [OF _ u(2) _ _ endpoint_0 endpoint_inverse_power]) simp_all
  have "bounded_by (1 / 2) (r - to_dbl (1 / 2))"
    unfolding bounded_by_def half_dbl
    by (rule in_range_diff [OF d(2), of "1 / 2" "1 / 2"]) (use endpoint_inverse_power [of 1] in \<open>simp_all add: in_range_Fin endpoint_minus\<close>)
  moreover have "bounded_by (1 / 2 ^ 11) (to_dbl (25 / 100000))"
    by (intro bounded_pos to_dbl_in_range endpoint_inverse_power) simp_all
  ultimately have mu: "bounded_by (1 / 2 ^ 12) ((r - to_dbl (1 / 2)) * to_dbl (25 / 100000))"
    by (rule bounded_mult) (simp_all only: endpoint_inverse_power, simp_all)
  show ?thesis using u sigma mu by (simp add: sim_symbol_new_def v d(1) sim_ok_def)
qed

lemma feed_ok_put: "feed_ok k sts \<Longrightarrow> sim_ok k st \<Longrightarrow> sm_pair st = p \<Longrightarrow> feed_ok k (alput p st sts)"
  by (induction p st sts rule: alput.induct) (auto simp: feed_ok_def)

lemma sim_states_from_ok:
  "draws_unit draw \<Longrightarrow> feed_ok 17 sts \<Longrightarrow> feed_ok 17 (fst (sim_states_from draw ss sts g))"
proof (induction draw ss sts g rule: sim_states_from.induct)
  case (2 draw s ss sts g)
  obtain st g1 where st: "sim_symbol_new draw (upper s) g = (st, g1)" by (cases "sim_symbol_new draw (upper s) g")
  have "feed_ok 17 (alput (upper s) st sts)"
    using feed_ok_put [OF 2(3)] sim_symbol_new_ok [OF 2(2), of "upper s" g] st by simp
  then show ?case using 2(1) [OF st [symmetric] refl 2(2)] st by simp
qed simp

lemma simfeed_new_ok: "draws_unit draw \<Longrightarrow> feed_ok 17 (sf_states (simfeed_new draw symbols seconds g))"
  using sim_states_from_ok [of draw "[]" symbols g]
  by (simp add: simfeed_new_def feed_ok_def [of _ "[]"] split_beta)

text \<open>
  C24: the simulator emits well-formed market data. While the prices are below 2^890, a round never raises: every subscribed
  symbol gets one closed bar, in order, with positive prices, open and close between low and high, finite volumes and taker
  volume within the volume; then the consumers get one snapshot with a row for every bar; and the symbols stay subscribed.
\<close>

theorem sim_round_well_formed:
  assumes "draws_unit draw" "log_of_unit logf" "cos_unit cosf" "feed_ok k (sf_states f)" "k \<le> 890"
  shows "\<exists>candles rows f'. sim_round (step_price logf cosf draw) cs clock (f, w) =
      (Inr (), (f', emit_snapshot cs rows (fold (emit_candle cs) candles w))) \<and>
    map cd_symbol candles = map (normalize_symbol \<circ> fst) (sf_states f) \<and> (\<forall>c \<in> set candles. sim_bar_ok c) \<and>
    list_all2 row_of_bar candles rows \<and> sim_subscribed f' = sim_subscribed f \<and> feed_ok (k + 7) (sf_states f')"
proof -
  have le: "k + 7 \<le> 900" using assms(5) by simp
  obtain candles rows sts g where r: "sim_symbols (step_price logf cosf draw) cs clock (sf_states f) (sf_rng f) w =
      (Inr rows, sts, g, fold (emit_candle cs) candles w)"
    "map cd_symbol candles = map (normalize_symbol \<circ> fst) (sf_states f)" "\<forall>c \<in> set candles. sim_bar_ok c"
    "list_all2 row_of_bar candles rows" "map fst sts = map fst (sf_states f)" "feed_ok (k + 7) sts"
    using sim_symbols_ok [OF step_tick_ok [OF assms(1-3)] le assms(4), of cs clock "sf_rng f" w] by blast
  show ?thesis
    by (rule exI [of _ candles], rule exI [of _ rows], rule exI [of _ "f\<lparr>sf_states := sts, sf_rng := g\<rparr>"])
      (use r in \<open>simp add: sim_round_def sim_subscribed_def flip: set_map\<close>)
qed

theorem sim_round_well_formed_witness:
  "\<exists>f' w. sim_round (step_price (\<lambda>_. Inr (Fin (- 1))) (\<lambda>_. Inr (Fin 1)) (\<lambda>g :: nat. (Fin (1 / 2), g + 1)))
      \<lparr>cs_candle = [\<lambda>c w. (Inr (), w @ [c])], cs_snapshot = []\<rparr> (\<lambda>_. 1700000040000)
      (simfeed_new (\<lambda>g. (Fin (1 / 2), g + 1)) [''ethusdt''] (Fin 3) 0, []) = (Inr (), (f', w)) \<and>
    map cd_symbol w = [''ETH''] \<and> (\<forall>c \<in> set w. sim_bar_ok c) \<and> sim_subscribed f' = {''ETHUSDT''}"
proof -
  let ?draw = "\<lambda>g :: nat. (Fin (1 / 2), g + 1)"
  let ?cs = "\<lparr>cs_candle = [\<lambda>c w. (Inr (), w @ [c])], cs_snapshot = []\<rparr> :: candle list consumers"
  let ?f = "simfeed_new ?draw [''ethusdt''] (Fin 3) 0"
  have d: "draws_unit ?draw" using endpoint_inverse_power [of 1] by (simp add: draws_unit_def in_range_Fin)
  have l: "log_of_unit (\<lambda>_. Inr (Fin (- 1)))" by (simp add: log_of_unit_def in_range_Fin endpoint_minus)
  have c: "cos_unit (\<lambda>_. Inr (Fin 1))" by (simp add: cos_unit_def in_range_Fin)
  have u: "upper ''ethusdt'' = ''ETHUSDT''" by code_simp
  have n: "normalize_symbol ''ETHUSDT'' = ''ETH''" by code_simp
  have keys: "map fst (sf_states ?f) = [''ETHUSDT'']" by (simp add: simfeed_new_def split_beta u)
  obtain candles rows f' where r: "sim_round (step_price (\<lambda>_. Inr (Fin (- 1))) (\<lambda>_. Inr (Fin 1)) ?draw) ?cs (\<lambda>_. 1700000040000) (?f, []) =
      (Inr (), (f', emit_snapshot ?cs rows (fold (emit_candle ?cs) candles [])))"
    "map cd_symbol candles = map (normalize_symbol \<circ> fst) (sf_states ?f)" "\<forall>c \<in> set candles. sim_bar_ok c" "sim_subscribed f' = sim_subscribed ?f"
    using sim_round_well_formed [OF d l c simfeed_new_ok [OF d, of "[''ethusdt'']" "Fin 3" 0], of ?cs "\<lambda>_. 1700000040000" "[]"] by auto
  have seen: "emit_snapshot ?cs rows (fold (emit_candle ?cs) cs w) = w @ cs" for cs w
    by (induction cs arbitrary: w) (simp_all add: emit_snapshot_def emit_candle_def)
  have "map (normalize_symbol \<circ> fst) (sf_states ?f) = map normalize_symbol (map fst (sf_states ?f))" by (simp only: map_map)
  then have "map cd_symbol candles = [''ETH'']" using r(2) n by (simp only: keys list.map)
  moreover have "sim_subscribed f' = {''ETHUSDT''}" using r(4) keys by (simp add: sim_subscribed_def flip: set_map)
  ultimately show ?thesis using r(1,3) seen [of candles "[]"] by auto
qed

end
