(* ===== verification/Access.thy ===== *)
theory Access
  imports Registry Simfeed
begin

text \<open>
  Deployment: the validators of \<^verbatim>\<open>src/orvixa/config.py\<close>, \<^verbatim>\<open>factory.py\<close> and the read-only API of
  \<^verbatim>\<open>src/orvixa/api\<close>. pydantic validates the fields in their order and the defaults too; a \<^verbatim>\<open>RuntimeError\<close> of a
  validator stops it, a \<^verbatim>\<open>ValueError\<close> is reported at the end. FastAPI routes the requests and turns records into JSON.
\<close>

section \<open>Settings\<close>

text \<open>A list setting arrives as the text of the environment or as a list.\<close>

datatype list_setting = SText string | SList "string list"

fun split_char :: "char \<Rightarrow> string \<Rightarrow> string list" where
  "split_char sep [] = [[]]"
| "split_char sep (c # cs) =
     (if c = sep then [] # split_char sep cs
      else case split_char sep cs of [] \<Rightarrow> [[c]] | w # ws \<Rightarrow> (c # w) # ws)"

fun split_csv_raw :: "list_setting \<Rightarrow> string list" where
  "split_csv_raw (SText s) = map strip (filter (\<lambda>x. strip x \<noteq> []) (split_char (CHR '','') s))"
| "split_csv_raw (SList xs) = xs"

fun split_csv :: "list_setting \<Rightarrow> string list" where
  "split_csv (SText s) = map (\<lambda>x. upper (strip x)) (filter (\<lambda>x. strip x \<noteq> []) (split_char (CHR '','') s))"
| "split_csv (SList xs) = xs"

text \<open>\<^verbatim>\<open>(info.data.get("app_env") or "production").lower()\<close> and \<^verbatim>\<open>part in text\<close>.\<close>

definition effective_env :: "string \<Rightarrow> string" where
  "effective_env env = lower (if env = [] then ''production'' else env)"

definition occurs_in :: "string \<Rightarrow> string \<Rightarrow> bool" where
  "occurs_in part s \<longleftrightarrow> list_ex (\<lambda>i. take (length part) (drop i s) = part) [0..<length s + 1]"

definition validate_api_key :: "string \<Rightarrow> string \<Rightarrow> string res" where
  "validate_api_key env key =
     (if effective_env env = ''production'' \<and> (key = [] \<or> key = ''orvixa-dev-key'') then Inl RuntimeError else Inr key)"

definition validate_cors_origins :: "string \<Rightarrow> string list \<Rightarrow> string list res" where
  "validate_cors_origins env origins =
     (if effective_env env = ''production'' \<and> ''*'' \<in> set origins then Inl RuntimeError else Inr origins)"

definition validate_no_default_credentials :: "string \<Rightarrow> string \<Rightarrow> string res" where
  "validate_no_default_credentials env dsn =
     (if effective_env env = ''production'' \<and> occurs_in ''orvixa:orvixa'' dsn then Inl RuntimeError else Inr dsn)"

definition valid_feeds :: "string list" where
  "valid_feeds = [''sim'', ''binance'']"

definition validate_feed :: "string \<Rightarrow> string res" where
  "validate_feed value = (if lower value \<in> set valid_feeds then Inr (lower value) else Inl ValueError)"

text \<open>What the environment gives: the list settings, and the other fields already of their type.\<close>

record raw_settings =
  rw_core_symbols :: list_setting
  rw_seed_symbols :: list_setting
  rw_meme_symbols :: list_setting
  rw_cors_origins :: list_setting
  rw_others :: settings

definition get_settings :: "raw_settings \<Rightarrow> settings res" where
  "get_settings raw =
     (let cfg = rw_others raw; env = app_env cfg in
      rbind (validate_api_key env (api_key cfg)) (\<lambda>key.
      rbind (validate_cors_origins env (split_csv_raw (rw_cors_origins raw))) (\<lambda>origins.
      rbind (validate_no_default_credentials env (postgres_dsn cfg)) (\<lambda>dsn.
      rbind (validate_no_default_credentials env (redis_url cfg)) (\<lambda>url.
      rbind (validate_feed (feed cfg)) (\<lambda>source.
      Inr (cfg\<lparr>feed := source, core_symbols := split_csv (rw_core_symbols raw), seed_symbols := split_csv (rw_seed_symbols raw),
               meme_symbols := split_csv (rw_meme_symbols raw), api_key := key, cors_origins := origins, postgres_dsn := dsn,
               redis_url := url\<rparr>))))))) "

section \<open>The feed of a deployment\<close>

datatype 'g market_feed = Simulated "'g simfeed" | Live binance

definition build_feed :: "('g \<Rightarrow> pyfloat \<times> 'g) \<Rightarrow> 'g \<Rightarrow> settings \<Rightarrow> 'g market_feed" where
  "build_feed draw g cfg =
     (if feed cfg = ''binance''
      then Live (binance_new (all_symbols cfg) (binance_ws_base cfg) (kline_interval cfg) (backfill_limit cfg) None)
      else Simulated (simfeed_new draw (all_symbols cfg) (sim_candle_seconds cfg) g))"

fun feed_subscribed :: "'g market_feed \<Rightarrow> string set" where
  "feed_subscribed (Simulated f) = sim_subscribed f"
| "feed_subscribed (Live f) = bn_symbols f"

section \<open>The API\<close>

datatype 'a response = Ok 'a | Http_error nat

definition check_api_key :: "settings \<Rightarrow> string option \<Rightarrow> unit response" where
  "check_api_key cfg header =
     (if api_key cfg = [] then Ok () else if header \<noteq> Some (api_key cfg) then Http_error 401 else Ok ())"

fun guarded :: "unit response \<Rightarrow> 'a response \<Rightarrow> 'a response" where
  "guarded (Ok _) r = r"
| "guarded (Http_error n) r = Http_error n"

definition symbol_id_or_404 :: "string \<Rightarrow> db \<Rightarrow> int response" where
  "symbol_id_or_404 symbol db = (case get_id symbol db of None \<Rightarrow> Http_error 404 | Some sid \<Rightarrow> Ok sid)"

definition api_health :: "string" where
  "api_health = ''ok''"

definition api_list_symbols :: "settings \<Rightarrow> string option \<Rightarrow> db \<Rightarrow> symbol_entry list response" where
  "api_list_symbols cfg header db = guarded (check_api_key cfg header) (Ok (list_all_symbols db))"

text \<open>The regime is that of the whole market; an exception of the query is answered with status 500.\<close>

definition api_get_regime :: "settings \<Rightarrow> string option \<Rightarrow> string \<Rightarrow> db \<Rightarrow> (string \<times> market_memory_row option) response" where
  "api_get_regime cfg header symbol db =
     guarded (check_api_key cfg header)
       (case symbol_id_or_404 symbol db of
          Http_error n \<Rightarrow> Http_error n
        | Ok _ \<Rightarrow>
            (case recent_memory 1 db of
               Inl e \<Rightarrow> Http_error 500
             | Inr rows \<Rightarrow> Ok (symbol, if rows = [] then None else Some (hd rows))))"

text \<open>\<^verbatim>\<open>create_app\<close> warns when the environment is not production.\<close>

definition dev_mode_warning :: "settings \<Rightarrow> bool" where
  "dev_mode_warning cfg \<longleftrightarrow> lower (app_env cfg) \<noteq> ''production''"

section \<open>What a deployment can rely on\<close>

lemma split_char_join: "join [sep] (split_char sep s) = s \<and> split_char sep s \<noteq> []"
proof (induction s)
  case (Cons c s)
  obtain w ws where "split_char sep s = w # ws" using Cons by (cases "split_char sep s") auto
  then show ?case using Cons by (cases ws) auto
qed simp

lemma split_csv_upper:
  assumes "x \<in> set (split_csv (SText s))"
  shows "x \<noteq> [] \<and> upper x = x"
  using assms by (auto simp: upper_def)

lemma sim_states_from_keys: "set (map fst (fst (sim_states_from draw ss sts g))) = set (map fst sts) \<union> upper ` set ss"
proof (induction draw ss sts g rule: sim_states_from.induct)
  case (2 draw s ss sts g)
  obtain st g1 where st: "sim_symbol_new draw (upper s) g = (st, g1)" by (cases "sim_symbol_new draw (upper s) g")
  show ?case using 2 [OF st [symmetric] refl] st by (simp only: sim_states_from.simps Let_def prod.case set_keys_alput) auto
qed simp

lemma build_feed_subscribed: "feed_subscribed (build_feed draw g cfg) = upper ` set (all_symbols cfg)"
  using sim_states_from_keys [of draw "all_symbols cfg" "[]" g]
  by (simp add: build_feed_def binance_new_def simfeed_new_def sim_subscribed_def split_beta)

lemma get_settings_Inr:
  assumes "get_settings raw = Inr cfg"
  shows "app_env cfg = app_env (rw_others raw)" "core_symbols cfg = split_csv (rw_core_symbols raw)"
    "seed_symbols cfg = split_csv (rw_seed_symbols raw)" "cors_origins cfg = split_csv_raw (rw_cors_origins raw)" "feed cfg \<in> set valid_feeds"
    "validate_api_key (app_env cfg) (api_key cfg) = Inr (api_key cfg)"
    "validate_cors_origins (app_env cfg) (cors_origins cfg) = Inr (cors_origins cfg)"
    "validate_no_default_credentials (app_env cfg) (postgres_dsn cfg) = Inr (postgres_dsn cfg)"
    "validate_no_default_credentials (app_env cfg) (redis_url cfg) = Inr (redis_url cfg)"
  using assms
  by (auto simp: get_settings_def rbind_eq_Inr Let_def validate_api_key_def validate_cors_origins_def
      validate_no_default_credentials_def validate_feed_def split: if_splits)

lemma check_api_key_Ok: "check_api_key cfg header = Ok () \<longleftrightarrow> api_key cfg = [] \<or> header = Some (api_key cfg)"
  by (simp add: check_api_key_def)

lemma guarded_Ok: "guarded c r = Ok x \<longleftrightarrow> c = Ok () \<and> r = Ok x"
  by (cases c) auto

text \<open>
  C15: a production deployment is closed. If the settings load under the production environment (or none), there is a key of
  the operator's own, no wildcard origin and no default database credentials, and the API hands out symbols or the regime only
  to a request with exactly that key; with it, the symbols are the whole registry in id order, and the regime is that of the
  latest row, for every registered symbol and for no other.
\<close>

theorem production_api_closed:
  assumes "get_settings raw = Inr cfg" "effective_env (app_env (rw_others raw)) = ''production''"
  shows "api_key cfg \<noteq> [] \<and> api_key cfg \<noteq> ''orvixa-dev-key'' \<and> ''*'' \<notin> set (cors_origins cfg) \<and>
    \<not> occurs_in ''orvixa:orvixa'' (postgres_dsn cfg) \<and> \<not> occurs_in ''orvixa:orvixa'' (redis_url cfg) \<and>
    api_list_symbols cfg header db =
      (if header = Some (api_key cfg) then Ok (sort_key se_id (db_symbols db)) else Http_error 401) \<and>
    (api_get_regime cfg header symbol db = Ok (s, row) \<longleftrightarrow>
      header = Some (api_key cfg) \<and> get_id symbol db \<noteq> None \<and> s = symbol \<and>
      row = (case sort_key (\<lambda>r. - yr_ts r) (map snd (lg_rows (db_memory db))) of [] \<Rightarrow> None | r # rs \<Rightarrow> Some r))"
proof -
  note f = get_settings_Inr [OF assms(1)]
  have env: "effective_env (app_env cfg) = ''production''" using assms(2) f(1) by simp
  have key: "api_key cfg \<noteq> []" "api_key cfg \<noteq> ''orvixa-dev-key''"
    using f(6) env by (auto simp: validate_api_key_def split: if_splits)
  have open_guards: "''*'' \<notin> set (cors_origins cfg)" "\<not> occurs_in ''orvixa:orvixa'' (postgres_dsn cfg)" "\<not> occurs_in ''orvixa:orvixa'' (redis_url cfg)"
    using f(7-9) env by (auto simp: validate_cors_origins_def validate_no_default_credentials_def split: if_splits)
  let ?rows = "sort_key (\<lambda>r. - yr_ts r) (map snd (lg_rows (db_memory db)))"
  have recent: "recent_memory 1 db = Inr (take 1 ?rows)" by (simp add: recent_memory_def recent_def limited_def)
  have first: "(if take 1 xs = [] then None else Some (hd (take 1 xs))) = (case xs of [] \<Rightarrow> None | r # rs \<Rightarrow> Some r)" for xs :: "market_memory_row list"
    by (cases xs) simp_all
  have "api_list_symbols cfg header db = (if header = Some (api_key cfg) then Ok (sort_key se_id (db_symbols db)) else Http_error 401)"
    using key(1) by (simp add: api_list_symbols_def check_api_key_def list_all_symbols_def)
  moreover have "api_get_regime cfg header symbol db = Ok (s, row) \<longleftrightarrow>
      header = Some (api_key cfg) \<and> get_id symbol db \<noteq> None \<and> s = symbol \<and> row = (case ?rows of [] \<Rightarrow> None | r # rs \<Rightarrow> Some r)"
    unfolding api_get_regime_def guarded_Ok check_api_key_Ok recent sum.case first using key(1)
    by (cases "get_id symbol db") (auto simp: symbol_id_or_404_def)
  ultimately show ?thesis using key open_guards by blast
qed

theorem production_api_closed_witness:
  "let raw = \<lparr>rw_core_symbols = SText ''btcusdt, ethusdt'', rw_seed_symbols = SText '''', rw_meme_symbols = SList [], rw_cors_origins = SText ''https://x.io'',
       rw_others = default_settings\<lparr>app_env := '''', api_key := ''s3cret'', postgres_dsn := ''postgresql://a:b@db/orvixa''\<rparr>\<rparr>
   in \<exists>cfg. get_settings raw = Inr cfg \<and> api_list_symbols cfg (Some ''orvixa'') (db_new 0) = Http_error 401 \<and>
     api_list_symbols cfg (Some ''s3cret'') (db_new 0) = Ok []"
proof -
  define raw where "raw = \<lparr>rw_core_symbols = SText ''btcusdt, ethusdt'', rw_seed_symbols = SText '''', rw_meme_symbols = SList [],
       rw_cors_origins = SText ''https://x.io'',
       rw_others = default_settings\<lparr>app_env := '''', api_key := ''s3cret'', postgres_dsn := ''postgresql://a:b@db/orvixa''\<rparr>\<rparr>"
  have env: "effective_env '''' = ''production''" by code_simp
  have dsn: "\<not> occurs_in ''orvixa:orvixa'' ''postgresql://a:b@db/orvixa''" by code_simp
  have url: "\<not> occurs_in ''orvixa:orvixa'' ''redis://redis:6379/0''" by code_simp
  have feeds: "validate_feed ''sim'' = Inr ''sim''" by code_simp
  have cors: "split_csv_raw (SText ''https://x.io'') = [''https://x.io'']" by code_simp
  obtain cfg where cfg: "get_settings raw = Inr cfg" "api_key cfg = ''s3cret''"
    by (simp add: raw_def get_settings_def Let_def validate_api_key_def validate_cors_origins_def validate_no_default_credentials_def env dsn url
        feeds cors default_settings_def del: split_csv_raw.simps split_csv.simps)
  have "effective_env (app_env (rw_others raw)) = ''production''" by (simp add: raw_def env)
  note p = production_api_closed [OF cfg(1) this]
  show ?thesis unfolding Let_def raw_def [symmetric]
    using p [of "Some ''orvixa''" "db_new 0"] p [of "Some ''s3cret''" "db_new 0"] cfg by (intro exI [of _ cfg]) (simp add: db_new_def)
qed

text \<open>Outside the exact word production everything is open: the guards do not look at an environment they do not know.\<close>

lemma other_environments_open:
  assumes "effective_env (app_env (rw_others raw)) \<noteq> ''production''" "lower (feed (rw_others raw)) \<in> set valid_feeds"
  shows "\<exists>cfg. get_settings raw = Inr cfg \<and> (api_key (rw_others raw) = [] \<longrightarrow> api_list_symbols cfg None db = Ok (list_all_symbols db))"
  using assms
  by (simp add: get_settings_def Let_def validate_api_key_def validate_cors_origins_def validate_no_default_credentials_def validate_feed_def
      api_list_symbols_def check_api_key_def)

end
