(* ===== verification/Lifecycle.thy ===== *)
theory Lifecycle
  imports Tiering Engine
begin

text \<open>
  The periodic tasks of \<^verbatim>\<open>symbols/manager.py\<close> and \<^verbatim>\<open>analytics/engine.py\<close> (\<^verbatim>\<open>start\<close>, \<^verbatim>\<open>stop\<close>, \<^verbatim>\<open>_loop\<close>), the
  start and the shutdown of the three services in \<^verbatim>\<open>runners\<close>, and the supervisor of \<^verbatim>\<open>runners/daemon.py\<close>. A tick of a
  loop is one refresh, from the end of its sleep to the next; the replies a refresh meets are its input \<open>'i\<close>. A stop
  meets the task asleep, ended, or in the middle of a refresh, whose awaited call then raises \<^verbatim>\<open>CancelledError\<close>.
\<close>

section \<open>Periodic tasks\<close>

datatype task = No_task | Sleeping | Finished | Died pyerr

record 's looped =
  lo_running :: bool
  lo_task :: task
  lo_state :: 's

definition looped_new :: "'s \<Rightarrow> 's looped" where
  "looped_new s = \<lparr>lo_running = False, lo_task = No_task, lo_state = s\<rparr>"

definition loop_tick :: "('i \<Rightarrow> 's \<Rightarrow> unit res \<times> 's) \<Rightarrow> 'i \<Rightarrow> 's looped \<Rightarrow> 's looped" where
  "loop_tick refresh i l =
     (if lo_task l \<noteq> Sleeping then l
      else if \<not> lo_running l then l\<lparr>lo_task := Finished\<rparr>
      else case refresh i (lo_state l) of
          (Inr _, s) \<Rightarrow> l\<lparr>lo_state := s\<rparr>
        | (Inl e, s) \<Rightarrow> l\<lparr>lo_state := s, lo_task := Died e\<rparr>)"

text \<open>Cancelling a task that has ended does nothing, and awaiting one that died raises its exception again.\<close>

definition loop_stop :: "'s looped \<Rightarrow> unit res \<times> 's looped" where
  "loop_stop l =
     (let l1 = l\<lparr>lo_running := False\<rparr> in
      case lo_task l1 of
        No_task \<Rightarrow> (Inr (), l1)
      | Died e \<Rightarrow> (Inl e, l1)
      | _ \<Rightarrow> (Inr (), l1\<lparr>lo_task := No_task\<rparr>))"

text \<open>
  The stop that cancels a refresh: \<open>outcome\<close> is what the refresh came to, with the cancelled call raising. The loop passes
  \<^verbatim>\<open>CancelledError\<close> on and \<^verbatim>\<open>stop\<close> drops it.
\<close>

definition cancelled_error :: pyerr where
  "cancelled_error = BackendError ''asyncio.CancelledError''"

definition loop_stop_within :: "unit res \<times> 's \<Rightarrow> 's looped \<Rightarrow> unit res \<times> 's looped" where
  "loop_stop_within outcome l =
     (case outcome of (r, s) \<Rightarrow>
        let l1 = l\<lparr>lo_running := False, lo_state := s\<rparr> in
        if r = Inr () \<or> r = Inl cancelled_error then (Inr (), l1\<lparr>lo_task := No_task\<rparr>)
        else (r, l1\<lparr>lo_task := Died (projl r)\<rparr>))"

subsection \<open>The engine\<close>

definition engine_refresh :: "'w backend \<Rightarrow> datetime \<Rightarrow> engine \<times> 'w \<Rightarrow> unit res \<times> (engine \<times> 'w)" where
  "engine_refresh bk now s = (let (r, s1) = refresh_regime bk now s in (rbind r (\<lambda>_. Inr ()), s1))"

definition engine_stop :: "'s looped \<Rightarrow> unit res \<times> 's looped" where
  "engine_stop l = loop_stop l"

definition engine_start :: "'s looped \<Rightarrow> unit res \<times> 's looped" where
  "engine_start l = (Inr (), if lo_running l then l else l\<lparr>lo_running := True, lo_task := Sleeping\<rparr>)"

subsection \<open>The manager\<close>

text \<open>The replies of a cycle: the exchange's symbols and its tickers, either of which may raise.\<close>

type_synonym replies = "exchange_symbol list res \<times> (string \<times> ticker_stats) list res"

definition manager_refresh :: "'w services \<Rightarrow> replies \<Rightarrow> manager \<times> 'w \<Rightarrow> unit res \<times> (manager \<times> 'w)" where
  "manager_refresh sv i s = (let (r, s1) = refresh_universe sv (fst i) (snd i) s in (rbind r (\<lambda>_. Inr ()), s1))"

definition manager_start ::
  "'w services \<Rightarrow> (symbol_row \<times> int option) list res \<Rightarrow> replies \<Rightarrow> (manager \<times> 'w) looped \<Rightarrow> unit res \<times> (manager \<times> 'w) looped" where
  "manager_start sv registry i l =
     (if lo_running l then (Inr (), l)
      else let l1 = l\<lparr>lo_running := True\<rparr> in
        attempt registry l1 (\<lambda>rows.
        let (r, s) = manager_refresh sv i (load_existing rows (fst (lo_state l1)), snd (lo_state l1)); l2 = l1\<lparr>lo_state := s\<rparr> in
        attempt r l2 (\<lambda>_. (Inr (), l2\<lparr>lo_task := Sleeping\<rparr>))))"

definition manager_stop :: "'s looped \<Rightarrow> unit res \<times> 's looped" where
  "manager_stop l = loop_stop l"

section \<open>The services\<close>

text \<open>What a service holds: its pool, its feed, its batch writer and its periodic task.\<close>

record 's service =
  sr_pool_open :: bool
  sr_feed_running :: bool
  sr_writer_running :: bool
  sr_loop :: "'s looped"

definition service_new :: "'s \<Rightarrow> 's service" where
  "service_new s = \<lparr>sr_pool_open = True, sr_feed_running = False, sr_writer_running = False, sr_loop = looped_new s\<rparr>"

definition close_pool :: "'s service \<Rightarrow> 's service" where
  "close_pool d = d\<lparr>sr_pool_open := False\<rparr>"

definition service_tick :: "('i \<Rightarrow> 's \<Rightarrow> unit res \<times> 's) \<Rightarrow> 'i \<Rightarrow> 's service \<Rightarrow> 's service" where
  "service_tick refresh i d = d\<lparr>sr_loop := loop_tick refresh i (sr_loop d)\<rparr>"

text \<open>The symbol service: the feed starts before the manager, outside the block that stops it.\<close>

definition symbols_startup ::
  "'w services \<Rightarrow> (symbol_row \<times> int option) list res \<Rightarrow> replies \<Rightarrow> (manager \<times> 'w) service \<Rightarrow> unit res \<times> (manager \<times> 'w) service" where
  "symbols_startup sv registry i d =
     (let d1 = d\<lparr>sr_feed_running := True\<rparr>;
          (r, l) = manager_start sv registry i (sr_loop d1);
          d2 = d1\<lparr>sr_loop := l\<rparr>
      in case r of Inl e \<Rightarrow> (Inl e, close_pool d2) | Inr _ \<Rightarrow> (Inr (), d2))"

definition symbols_shutdown :: "'s service \<Rightarrow> unit res \<times> 's service" where
  "symbols_shutdown d =
     (let (r, l) = manager_stop (sr_loop d); d1 = d\<lparr>sr_loop := l\<rparr> in
      case r of
        Inl e \<Rightarrow> (Inl e, close_pool d1)
      | Inr _ \<Rightarrow> (Inr (), close_pool (d1\<lparr>sr_feed_running := False\<rparr>)))"

definition symbols_shutdown_within :: "unit res \<times> 's \<Rightarrow> 's service \<Rightarrow> unit res \<times> 's service" where
  "symbols_shutdown_within outcome d =
     (let (r, l) = loop_stop_within outcome (sr_loop d); d1 = d\<lparr>sr_loop := l\<rparr> in
      case r of
        Inl e \<Rightarrow> (Inl e, close_pool d1)
      | Inr _ \<Rightarrow> (Inr (), close_pool (d1\<lparr>sr_feed_running := False\<rparr>)))"

text \<open>A shutdown that cancels a refresh ends like one between two refreshes, with the state the refresh had reached.\<close>

lemma shutdown_within:
  "symbols_shutdown_within (Inl cancelled_error, s) d =
    (Inr (), d\<lparr>sr_pool_open := False, sr_feed_running := False, sr_loop := \<lparr>lo_running = False, lo_task = No_task, lo_state = s\<rparr>\<rparr>)"
  by (cases "sr_loop d") (simp add: symbols_shutdown_within_def loop_stop_within_def close_pool_def)

text \<open>The analytics service.\<close>

definition analytics_startup :: "'s service \<Rightarrow> unit res \<times> 's service" where
  "analytics_startup d =
     (let (r, l) = engine_start (sr_loop d) in
      (r, d\<lparr>sr_writer_running := True, sr_feed_running := True, sr_loop := l\<rparr>))"

definition analytics_shutdown :: "'s service \<Rightarrow> unit res \<times> 's service" where
  "analytics_shutdown d =
     (let (r, l) = engine_stop (sr_loop d); d1 = d\<lparr>sr_loop := l\<rparr> in
      case r of
        Inl e \<Rightarrow> (Inl e, close_pool d1)
      | Inr _ \<Rightarrow> (Inr (), close_pool (d1\<lparr>sr_feed_running := False, sr_writer_running := False\<rparr>)))"

text \<open>The ingest service has no periodic task.\<close>

definition ingest_startup :: "'s service \<Rightarrow> 's service" where
  "ingest_startup d = d\<lparr>sr_writer_running := True, sr_feed_running := True\<rparr>"

definition ingest_shutdown :: "'s service \<Rightarrow> 's service" where
  "ingest_shutdown d = close_pool (d\<lparr>sr_feed_running := False, sr_writer_running := False\<rparr>)"

section \<open>A failed refresh\<close>

text \<open>The cycles a service means to run: one after the other, until one fails.\<close>

fun cycles :: "('i \<Rightarrow> 's \<Rightarrow> unit res \<times> 's) \<Rightarrow> 'i list \<Rightarrow> 's \<Rightarrow> unit res \<times> 's" where
  "cycles refresh [] s = (Inr (), s)"
| "cycles refresh (i # is) s = (let (r, s1) = refresh i s in attempt r s1 (\<lambda>_. cycles refresh is s1))"

lemma ticks_dead: "lo_task l \<noteq> Sleeping \<Longrightarrow> fold (loop_tick refresh) is l = l"
  by (induction "is") (simp_all add: loop_tick_def)

lemma ticks_cycles:
  "lo_task l = Sleeping \<Longrightarrow> lo_running l \<Longrightarrow>
    fold (loop_tick refresh) is l =
      l\<lparr>lo_state := snd (cycles refresh is (lo_state l)),
        lo_task := (case fst (cycles refresh is (lo_state l)) of Inr _ \<Rightarrow> Sleeping | Inl e \<Rightarrow> Died e)\<rparr>"
proof (induction "is" arbitrary: l)
  case (Cons i "is")
  obtain r s where s: "refresh i (lo_state l) = (r, s)" by (cases "refresh i (lo_state l)")
  show ?case
  proof (cases r)
    case (Inl e)
    then have "loop_tick refresh i l = l\<lparr>lo_state := s, lo_task := Died e\<rparr>" using Cons.prems s by (simp add: loop_tick_def)
    then show ?thesis using Inl s ticks_dead [of "l\<lparr>lo_state := s, lo_task := Died e\<rparr>" refresh "is"] by simp
  next
    case (Inr u)
    then have "loop_tick refresh i l = l\<lparr>lo_state := s\<rparr>" using Cons.prems s by (simp add: loop_tick_def)
    then show ?thesis using Inr s Cons.IH [of "l\<lparr>lo_state := s\<rparr>"] Cons.prems by simp
  qed
qed simp

lemma service_ticks: "fold (service_tick refresh) is d = d\<lparr>sr_loop := fold (loop_tick refresh) is (sr_loop d)\<rparr>"
  by (induction "is" arbitrary: d) (simp_all add: service_tick_def)

lemma stopped_loop:
  "loop_stop (l\<lparr>lo_task := (case r of Inr _ \<Rightarrow> Sleeping | Inl e \<Rightarrow> Died e)\<rparr>) =
    (r, l\<lparr>lo_running := False, lo_task := (case r of Inr _ \<Rightarrow> No_task | Inl e \<Rightarrow> Died e)\<rparr>)"
  by (cases r) (simp_all add: loop_stop_def)

text \<open>
  C14: one failed refresh is the last, and the shutdown after it stops halfway. A symbol service that has started and then meets
  any replies runs its cycles only up to the first that raises, whatever comes later; when it is told to stop it ends with that
  exception, with the pool closed and the feed still running. Only if every cycle succeeded does it end normally, with the feed
  stopped.
\<close>

theorem symbols_service_outcome:
  assumes "symbols_startup sv registry i0 (service_new s0) = (Inr (), d)"
    and "symbols_shutdown (fold (service_tick (manager_refresh sv)) is d) = (r, d')"
  shows "(r, lo_state (sr_loop d')) = cycles (manager_refresh sv) is (lo_state (sr_loop d)) \<and>
    \<not> sr_pool_open d' \<and> (sr_feed_running d' \<longleftrightarrow> r \<noteq> Inr ())"
proof -
  have l: "lo_task (sr_loop d) = Sleeping" "lo_running (sr_loop d)" "sr_feed_running d"
    using assms(1)
    by (auto simp: symbols_startup_def service_new_def looped_new_def manager_start_def close_pool_def attempt_def Let_def
        split: sum.splits prod.splits)
  obtain q s where c: "cycles (manager_refresh sv) is (lo_state (sr_loop d)) = (q, s)"
    by (cases "cycles (manager_refresh sv) is (lo_state (sr_loop d))")
  show ?thesis
    using assms(2) l(3) unfolding service_ticks ticks_cycles [OF l(1,2)] c
    by (cases q) (auto simp: symbols_shutdown_def manager_stop_def loop_stop_def close_pool_def)
qed

definition null_services :: "unit services" where
  "null_services =
     \<lparr>sv_now = (\<lambda>_. 0), sv_upsert = (\<lambda>_ w. (Inr 1, w)), sv_update_ranking = (\<lambda>_ _ _ w. (Inr (), w)),
      sv_get_id = (\<lambda>_ w. (Inr None, w)), sv_tier_change = None, sv_metrics = None, sv_breadth = None,
      sv_subscribe = (\<lambda>_ w. (Inr (), w)), sv_unsubscribe = (\<lambda>_ w. (Inr (), w)), sv_has_feed = False\<rparr>"

theorem symbols_service_outcome_witness:
  "\<exists>d d'. symbols_startup null_services (Inr []) (Inr [], Inr []) (service_new (manager_new default_settings, ())) = (Inr (), d) \<and>
    symbols_shutdown (fold (service_tick (manager_refresh null_services)) [(Inl RuntimeError, Inr []), (Inr [], Inr [])] d) =
      (Inl RuntimeError, d') \<and> sr_feed_running d' \<and> mg_refresh_count (fst (lo_state (sr_loop d'))) = 1"
proof -
  let ?m0 = "manager_new default_settings"
  have ranked: "rank_universe ?m0 [] [] = Inr ([], {})"
    by (simp add: rank_universe_def rank_by_score_def sort_desc_def List.map_filter_def rank_positions_def slice_to_def)
  have retiered: "retier [] [] ?m0 = (Inr [], ?m0)"
    using ranked by (simp add: retier_def active_pairs_def sync_listings_def) (simp add: manager_new_def)
  have "\<exists>m. manager_refresh null_services (Inr [], Inr []) (load_existing [] ?m0, ()) = (Inr (), (m, ())) \<and> mg_refresh_count m = 1"
    by (simp add: manager_refresh_def refresh_universe_def retiered load_existing_def null_services_def persist_tier_changes_def
        persist_metrics_snapshots_def persist_breadth_snapshot_def) (simp add: manager_new_def)
  then obtain m where m: "manager_refresh null_services (Inr [], Inr []) (load_existing [] ?m0, ()) = (Inr (), (m, ()))"
    "mg_refresh_count m = 1" by blast
  obtain d where d: "symbols_startup null_services (Inr []) (Inr [], Inr []) (service_new (?m0, ())) = (Inr (), d)" "lo_state (sr_loop d) = (m, ())"
    using m(1) by (simp add: symbols_startup_def manager_start_def service_new_def looped_new_def Let_def)
  obtain r d' where e: "symbols_shutdown (fold (service_tick (manager_refresh null_services)) [(Inl RuntimeError, Inr []), (Inr [], Inr [])] d) = (r, d')"
    by (metis surj_pair)
  have "cycles (manager_refresh null_services) [(Inl RuntimeError, Inr []), (Inr [], Inr [])] (m, ()) = (Inl RuntimeError, (m, ()))"
    by (simp add: manager_refresh_def refresh_universe_def)
  then show ?thesis using symbols_service_outcome [OF d(1) e] d e m(2) by auto
qed

lemma analytics_service_outcome:
  assumes "analytics_startup (service_new s0) = (Inr (), d)"
    and "analytics_shutdown (fold (service_tick (engine_refresh bk)) is d) = (r, d')"
  shows "(r, lo_state (sr_loop d')) = cycles (engine_refresh bk) is s0 \<and> \<not> sr_pool_open d' \<and>
    (sr_feed_running d' \<longleftrightarrow> r \<noteq> Inr ()) \<and> (sr_writer_running d' \<longleftrightarrow> r \<noteq> Inr ())"
proof -
  have l: "lo_task (sr_loop d) = Sleeping" "lo_running (sr_loop d)" "sr_feed_running d" "sr_writer_running d" "lo_state (sr_loop d) = s0"
    using assms(1) by (auto simp: analytics_startup_def engine_start_def service_new_def looped_new_def)
  obtain q s where c: "cycles (engine_refresh bk) is s0 = (q, s)" by (cases "cycles (engine_refresh bk) is s0")
  show ?thesis
    using assms(2) l(3,4) unfolding service_ticks ticks_cycles [OF l(1,2)] l(5) c
    by (cases q) (auto simp: analytics_shutdown_def engine_stop_def loop_stop_def close_pool_def)
qed

text \<open>A manager whose first cycle raises stays marked as running, without a task: starting it again does nothing.\<close>

lemma failed_start_is_final:
  assumes "manager_start sv registry i (looped_new s) = (Inl e, l)"
  shows "lo_running l \<and> lo_task l = No_task \<and> manager_start sv registry' i' l = (Inr (), l)"
  using assms by (auto simp: manager_start_def looped_new_def attempt_def Let_def split: sum.splits prod.splits)

section \<open>The supervisor\<close>

text \<open>
  The event loop has one handler per signal. The supervisor installs its own first; every runner of \<^verbatim>\<open>runners\<close>, once it got
  that far, calls \<^verbatim>\<open>add_signal_handler\<close> as well, which puts its own in that place for good. A round of supervision says
  whether a signal comes before the runner has installed its handler, whether the runner gets that far, how the run ends, and
  how the pause after it does. A signal while the runner waits is one of the ways a run returns.
\<close>

datatype handler = Supervisor_stop | Runner_stop

datatype pause = Elapsed | Signalled | Pause_cancelled

record supervisor =
  su_stop :: bool
  su_handler :: handler

record round =
  rd_early_signal :: bool
  rd_installs :: bool
  rd_result :: "unit res"
  rd_pause :: pause

definition supervisor_new :: supervisor where
  "supervisor_new = \<lparr>su_stop = False, su_handler = Supervisor_stop\<rparr>"

definition signal :: "bool \<Rightarrow> supervisor \<Rightarrow> supervisor" where
  "signal comes u = (if comes \<and> su_handler u = Supervisor_stop then u\<lparr>su_stop := True\<rparr> else u)"

definition run_runner :: "round \<Rightarrow> supervisor \<Rightarrow> supervisor" where
  "run_runner rd u =
     (let u1 = signal (rd_early_signal rd) u in if rd_installs rd then u1\<lparr>su_handler := Runner_stop\<rparr> else u1)"

text \<open>
  How often the runner is run, and what comes out of it: a cancellation is raised again, from the run or from the pause; every
  other exception of a run is logged. The list ends where the observation ends.
\<close>

fun supervise :: "round list \<Rightarrow> supervisor \<Rightarrow> unit res \<times> nat \<times> supervisor" where
  "supervise [] u = (Inr (), 0, u)"
| "supervise (rd # rds) u =
     (if su_stop u then (Inr (), 0, u)
      else let u1 = run_runner rd u in
        if rd_result rd = Inl cancelled_error then (Inl cancelled_error, 1, u1)
        else if su_stop u1 then (Inr (), 1, u1)
        else if rd_pause rd = Pause_cancelled then (Inl cancelled_error, 1, u1)
        else let (r, n, u2) = supervise rds (signal (rd_pause rd = Signalled) u1) in (r, n + 1, u2))"

text \<open>Neither cancelled nor signalled while the supervisor's handler was in place.\<close>

definition undisturbed :: "bool \<Rightarrow> round \<Rightarrow> bool" where
  "undisturbed mine rd \<longleftrightarrow> rd_result rd \<noteq> Inl cancelled_error \<and> rd_pause rd \<noteq> Pause_cancelled \<and>
     (mine \<longrightarrow> \<not> rd_early_signal rd \<and> (rd_pause rd = Signalled \<longrightarrow> rd_installs rd))"

fun all_undisturbed :: "bool \<Rightarrow> round list \<Rightarrow> bool" where
  "all_undisturbed mine [] \<longleftrightarrow> True"
| "all_undisturbed mine (rd # rds) \<longleftrightarrow> undisturbed mine rd \<and> all_undisturbed (mine \<and> \<not> rd_installs rd) rds"

text \<open>
  Crashes do not end the daemon: as long as no run or pause is cancelled and no signal reaches the supervisor's own handler,
  the runner is run again in every round, however its runs end.
\<close>

lemma crashes_restart:
  "\<not> su_stop u \<Longrightarrow> all_undisturbed (su_handler u = Supervisor_stop) rds \<Longrightarrow>
    fst (supervise rds u) = Inr () \<and> fst (snd (supervise rds u)) = length rds"
proof (induction rds arbitrary: u)
  case (Cons rd rds)
  let ?u2 = "signal (rd_pause rd = Signalled) (run_runner rd u)"
  have quiet: "\<not> su_stop (run_runner rd u)" "\<not> su_stop ?u2"
    "(su_handler ?u2 = Supervisor_stop) = (su_handler u = Supervisor_stop \<and> \<not> rd_installs rd)"
    using Cons.prems by (auto simp: undisturbed_def run_runner_def signal_def Let_def)
  show ?case using Cons.IH [of ?u2] Cons.prems quiet by (simp add: undisturbed_def split_beta)
qed simp

text \<open>So a signal does not end the daemon once its runner is up; one that comes before ends it after that run.\<close>

lemma signals_only_restart:
  assumes "rd_installs rd" "\<forall>x \<in> set (rd # rds). rd_result x \<noteq> Inl cancelled_error \<and> rd_pause x \<noteq> Pause_cancelled"
  shows "fst (snd (supervise (rd # rds) supervisor_new)) = (if rd_early_signal rd then 1 else Suc (length rds))"
proof (cases "rd_early_signal rd")
  case False
  have "all_undisturbed False rds" if "\<forall>x \<in> set rds. rd_result x \<noteq> Inl cancelled_error \<and> rd_pause x \<noteq> Pause_cancelled" for rds
    using that by (induction rds) (auto simp: undisturbed_def)
  then show ?thesis
    using crashes_restart [of supervisor_new "rd # rds"] False assms by (simp add: supervisor_new_def undisturbed_def)
qed (use assms in \<open>simp add: supervisor_new_def run_runner_def signal_def\<close>)

text \<open>A cancelled run ends it and is raised.\<close>

lemma cancelled_run_raises:
  "\<not> su_stop u \<Longrightarrow> rd_result rd = Inl cancelled_error \<Longrightarrow> fst (supervise (rd # rds) u) = Inl cancelled_error \<and> fst (snd (supervise (rd # rds) u)) = 1"
  by (simp add: Let_def)

end
