(* ===== verification/Feedcheck.thy ===== *)
theory Feedcheck
  imports Feed
begin

text \<open>
  \<^verbatim>\<open>src/orvixa/runners/feedcheck.py\<close>: the two consumers of the acceptance runner. What they log is returned as the list of
  lines, with the numbers the format strings show; a run is the feed's events between its start and its stop.
\<close>

record feedcheck_stats =
  ck_candles :: int
  ck_snapshots :: int

definition feedcheck_stats_new :: feedcheck_stats where
  "feedcheck_stats_new = \<lparr>ck_candles = 0, ck_snapshots = 0\<rparr>"

record candle_line =
  cl_symbol :: string
  cl_open :: pyfloat
  cl_high :: pyfloat
  cl_low :: pyfloat
  cl_close :: pyfloat
  cl_quote_volume :: pyfloat
  cl_dir :: string

record breadth_line =
  bl_tracked :: int
  bl_advancers :: int
  bl_decliners :: int
  bl_net :: int
  bl_leader :: "string \<times> pyfloat"
  bl_laggard :: "string \<times> pyfloat"
  bl_candles_seen :: int

record stopped_line =
  pl_candles :: int
  pl_snapshots :: int
  pl_uptime_s :: pyfloat

datatype log_line = Candle_line candle_line | Breadth_line breadth_line | Stopped_line stopped_line

type_synonym feedcheck = "feedcheck_stats \<times> log_line list"

definition check_on_candle :: "candle \<Rightarrow> feedcheck \<Rightarrow> unit res \<times> feedcheck" where
  "check_on_candle c s =
     (if \<not> cd_closed c then (Inr (), s)
      else (Inr (), ((fst s)\<lparr>ck_candles := ck_candles (fst s) + 1\<rparr>,
        snd s @ [Candle_line \<lparr>cl_symbol = cd_symbol c, cl_open = cd_open c, cl_high = cd_high c, cl_low = cd_low c, cl_close = cd_close c,
          cl_quote_volume = pyround_n (cd_quote_volume c) 2, cl_dir = (if is_bullish c then ''up'' else ''down'')\<rparr>])))"

text \<open>\<^verbatim>\<open>max(rows, key=...)\<close> and \<^verbatim>\<open>min(rows, key=...)\<close>: the first row none of the later ones beats.\<close>

definition leader_of :: "ticker_row \<Rightarrow> ticker_row list \<Rightarrow> ticker_row" where
  "leader_of r rs = foldl (\<lambda>best x. if tk_change_pct x > tk_change_pct best then x else best) r rs"

definition laggard_of :: "ticker_row \<Rightarrow> ticker_row list \<Rightarrow> ticker_row" where
  "laggard_of r rs = foldl (\<lambda>best x. if tk_change_pct x < tk_change_pct best then x else best) r rs"

definition check_on_snapshot :: "ticker_row list \<Rightarrow> feedcheck \<Rightarrow> unit res \<times> feedcheck" where
  "check_on_snapshot rows s =
     (let st = (fst s)\<lparr>ck_snapshots := ck_snapshots (fst s) + 1\<rparr> in
      case rows of
        [] \<Rightarrow> (Inr (), (st, snd s))
      | r # rs \<Rightarrow>
          if ck_snapshots st mod 10 \<noteq> 0 then (Inr (), (st, snd s))
          else let advancers = int (length (filter (\<lambda>r. tk_change_pct r > Fin 0) rows));
                   decliners = int (length (filter (\<lambda>r. tk_change_pct r < Fin 0) rows));
                   top = leader_of r rs; bottom = laggard_of r rs
            in (Inr (), (st, snd s @ [Breadth_line \<lparr>bl_tracked = int (length rows), bl_advancers = advancers, bl_decliners = decliners,
                 bl_net = advancers - decliners, bl_leader = (tk_symbol top, tk_change_pct top),
                 bl_laggard = (tk_symbol bottom, tk_change_pct bottom), bl_candles_seen = ck_candles st\<rparr>])))"

definition feedcheck_consumers :: "feedcheck consumers" where
  "feedcheck_consumers = on_market_snapshot check_on_snapshot (on_candle_close check_on_candle consumers_new)"

text \<open>
  \<^verbatim>\<open>run\<close>: what the feed emits between its start and the stop signal. The last line is logged only if the feed stops
  without raising; nothing is caught but the signal.
\<close>

datatype feed_event = Closed_or_open candle | Snapshot "ticker_row list"

fun feedcheck_event :: "feed_event \<Rightarrow> feedcheck \<Rightarrow> feedcheck" where
  "feedcheck_event (Closed_or_open c) s = emit_candle feedcheck_consumers c s"
| "feedcheck_event (Snapshot rows) s = emit_snapshot feedcheck_consumers rows s"

definition feedcheck_run :: "unit res \<Rightarrow> unit res \<Rightarrow> pyfloat \<Rightarrow> feed_event list \<Rightarrow> unit res \<times> feedcheck" where
  "feedcheck_run started stopped uptime events =
     attempt started (feedcheck_stats_new, []) (\<lambda>_.
     let (st, ls) = fold feedcheck_event events (feedcheck_stats_new, []) in
     attempt stopped (st, ls) (\<lambda>_.
     (Inr (), (st, ls @ [Stopped_line \<lparr>pl_candles = ck_candles st, pl_snapshots = ck_snapshots st,
        pl_uptime_s = pyround_n uptime 1\<rparr>]))))"

lemma pf_linear: "x \<noteq> NaN \<Longrightarrow> y \<noteq> NaN \<Longrightarrow> (x :: pyfloat) \<le> y \<or> y \<le> x"
  by (cases x; cases y) auto

lemma best_is_extreme:
  assumes "\<forall>x \<in> set (r # rs). tk_change_pct x \<noteq> NaN"
  shows "(leader_of r rs \<in> set (r # rs) \<and> (\<forall>x \<in> set (r # rs). tk_change_pct x \<le> tk_change_pct (leader_of r rs))) \<and>
    laggard_of r rs \<in> set (r # rs) \<and> (\<forall>x \<in> set (r # rs). tk_change_pct (laggard_of r rs) \<le> tk_change_pct x)"
  using assms
proof (induction rs arbitrary: r)
  case (Cons x xs)
  let ?hi = "if tk_change_pct r < tk_change_pct x then x else r" and ?lo = "if tk_change_pct x < tk_change_pct r then x else r"
  have n: "tk_change_pct r \<noteq> NaN" "tk_change_pct x \<noteq> NaN" using Cons.prems by simp_all
  have hi: "tk_change_pct r \<le> tk_change_pct ?hi" "tk_change_pct x \<le> tk_change_pct ?hi"
    and lo: "tk_change_pct ?lo \<le> tk_change_pct r" "tk_change_pct ?lo \<le> tk_change_pct x"
    using n pf_linear [OF n] by (auto simp: pf_less_le)
  have ok: "\<forall>y \<in> set (?hi # xs). tk_change_pct y \<noteq> NaN" "\<forall>y \<in> set (?lo # xs). tk_change_pct y \<noteq> NaN" using Cons.prems by auto
  have e: "leader_of r (x # xs) = leader_of ?hi xs" "laggard_of r (x # xs) = laggard_of ?lo xs"
    by (simp_all add: leader_of_def laggard_of_def)
  have "leader_of r (x # xs) \<in> set (r # x # xs) \<and> (\<forall>y \<in> set (r # x # xs). tk_change_pct y \<le> tk_change_pct (leader_of r (x # xs)))"
    unfolding e using Cons.IH [OF ok(1)] pf_trans [OF hi(1)] pf_trans [OF hi(2)] by (auto split: if_splits)
  moreover have "laggard_of r (x # xs) \<in> set (r # x # xs) \<and> (\<forall>y \<in> set (r # x # xs). tk_change_pct (laggard_of r (x # xs)) \<le> tk_change_pct y)"
    unfolding e using Cons.IH [OF ok(2)] pf_trans [OF _ lo(1)] pf_trans [OF _ lo(2)] by (auto split: if_splits)
  ultimately show ?case by blast
qed (simp_all add: leader_of_def laggard_of_def)

text \<open>One breadth line for every tenth snapshot, if no snapshot is empty; closed candles have a line each.\<close>

lemma breadth_line_rate:
  assumes "\<forall>rows \<in> set snapshots. rows \<noteq> []"
  shows "ck_snapshots (fst (fold (emit_snapshot feedcheck_consumers) snapshots (feedcheck_stats_new, []))) = int (length snapshots) \<and>
    length (snd (fold (emit_snapshot feedcheck_consumers) snapshots (feedcheck_stats_new, []))) = length snapshots div 10"
  using assms
proof (induction snapshots rule: rev_induct)
  case (snoc rows snapshots)
  obtain st ls where s: "fold (emit_snapshot feedcheck_consumers) snapshots (feedcheck_stats_new, []) = (st, ls)" by fastforce
  have ih: "ck_snapshots st = int (length snapshots)" "length ls = length snapshots div 10" using snoc s by simp_all
  obtain r rs where rows: "rows = r # rs" using snoc.prems by (cases rows) auto
  have step: "emit_snapshot feedcheck_consumers rows (st, ls) = snd (check_on_snapshot rows (st, ls))"
    by (simp add: emit_snapshot_def feedcheck_consumers_def on_market_snapshot_def on_candle_close_def consumers_new_def)
  have d: "Suc n div 10 = (if Suc n mod 10 = 0 then Suc (n div 10) else n div 10)" for n :: nat by (simp add: div_Suc)
  have m: "((int n + 1) mod 10 = 0) = (Suc n mod 10 = 0)" for n by presburger
  show ?case using ih s d [of "length snapshots"] m [of "length snapshots"]
    by (simp add: step [unfolded rows] check_on_snapshot_def rows Let_def add.commute)
qed (simp add: feedcheck_stats_new_def)

text \<open>A run that ends normally reports the closed candles and the snapshots it was given.\<close>

lemma feedcheck_reports:
  assumes "feedcheck_run started stopped uptime events = (Inr (), (st, ls))"
  shows "last ls = Stopped_line \<lparr>pl_candles = int (length (filter (\<lambda>e. case e of Closed_or_open c \<Rightarrow> cd_closed c | Snapshot rows \<Rightarrow> False) events)),
    pl_snapshots = int (length (filter (\<lambda>e. case e of Closed_or_open c \<Rightarrow> False | Snapshot rows \<Rightarrow> True) events)),
    pl_uptime_s = pyround_n uptime 1\<rparr>"
proof -
  have counts: "ck_candles (fst (fold feedcheck_event events s)) =
      ck_candles (fst s) + int (length (filter (\<lambda>e. case e of Closed_or_open c \<Rightarrow> cd_closed c | Snapshot rows \<Rightarrow> False) events)) \<and>
    ck_snapshots (fst (fold feedcheck_event events s)) =
      ck_snapshots (fst s) + int (length (filter (\<lambda>e. case e of Closed_or_open c \<Rightarrow> False | Snapshot rows \<Rightarrow> True) events))" for s
  proof (induction events arbitrary: s)
    case (Cons e events)
    have "ck_candles (fst (feedcheck_event e s)) = ck_candles (fst s) + (case e of Closed_or_open c \<Rightarrow> of_bool (cd_closed c) | Snapshot rows \<Rightarrow> 0)"
      "ck_snapshots (fst (feedcheck_event e s)) = ck_snapshots (fst s) + (case e of Closed_or_open c \<Rightarrow> 0 | Snapshot rows \<Rightarrow> 1)"
      by (cases e; simp add: emit_candle_def emit_snapshot_def feedcheck_consumers_def on_market_snapshot_def on_candle_close_def
          consumers_new_def check_on_candle_def check_on_snapshot_def Let_def split: list.split)+
    then show ?case using Cons.IH [of "feedcheck_event e s"] by (simp split: feed_event.splits)
  qed simp
  obtain st' log' where f: "fold feedcheck_event events (feedcheck_stats_new, []) = (st', log')" by fastforce
  have zero: "ck_candles feedcheck_stats_new = 0" "ck_snapshots feedcheck_stats_new = 0" by (simp_all add: feedcheck_stats_new_def)
  show ?thesis using assms counts [of "(feedcheck_stats_new, [])"] zero
    by (auto simp: feedcheck_run_def f attempt_def split: sum.splits)
qed

end
