(* ===== verification/Transport.thy ===== *)
theory Transport
  imports Link Schema
begin

text \<open>
  What is left around the feed and the repositories: \<^verbatim>\<open>start\<close>, \<^verbatim>\<open>stop\<close>, \<^verbatim>\<open>wait_connected\<close> and the REST back-fill of
  \<^verbatim>\<open>feeds/binance.py\<close>, and what the market reports of \<^verbatim>\<open>db/repository.py\<close> answer. The responses of the exchange are inputs.
\<close>

section \<open>Starting and stopping the Binance feed\<close>

definition binance_start :: "binance \<Rightarrow> binance" where
  "binance_start f = (if bn_running f then f else f\<lparr>bn_running := True\<rparr>)"

text \<open>
  A socket that fails to close is ignored; the cancelled task leaves none behind. \<open>filling\<close>: whether the cancellation meets
  the task in the gap-fill, which comes before the \<^verbatim>\<open>try\<close> that clears the socket.
\<close>

definition binance_stop :: "bool \<Rightarrow> binance \<Rightarrow> binance" where
  "binance_stop filling f =
     (let f1 = f\<lparr>bn_running := False\<rparr> in if filling then f1 else f1\<lparr>bn_socket := False, bn_connected := False\<rparr>)"

text \<open>\<open>in_time\<close>: whether the connection opens before the time-out.\<close>

definition wait_connected :: "bool \<Rightarrow> binance \<Rightarrow> bool" where
  "wait_connected in_time f \<longleftrightarrow> bn_connected f \<or> in_time"

text \<open>Stopped during its gap-fill, a feed still reports a connection and keeps sending to the closed socket.\<close>

lemma stop_during_gap_fill:
  assumes "bn_socket f" "bn_connected f" "upper ` symbols - bn_symbols f = new" "new \<noteq> {}"
  defines "g \<equiv> binance_stop True f\<lparr>bn_symbols := bn_symbols f \<union> new\<rparr>"
  shows "wait_connected False (binance_stop True f)"
    and "snd (binance_subscribe send symbols (binance_stop True f, w)) = (g, snd (send (True, streams_for g (sorted_list_of_set new)) w))"
  using assms by (auto simp: wait_connected_def binance_stop_def binance_subscribe_def send_sub_def Let_def split: prod.splits)

lemma gap_fill_running: "bn_running (fst (gap_fill cs r (f, w))) = bn_running f"
  by (auto simp: gap_fill_def split: sum.splits)

lemma connect_once_running: "bn_running (fst (snd (connect_once cs n (f, w)))) = bn_running f"
  by (cases "sn_connect n") (simp_all add: connect_once_def attempt_def case_prod_unfold Let_def gap_fill_running)

lemma run_feed_running: "bn_running (fst (snd (run_feed cs k ns s))) = bn_running (fst s)"
proof (induction cs k ns s rule: run_feed.induct)
  case (2 cs k n random ns s)
  obtain r f w where c: "connect_once cs n s = (r, (f, w))" by (metis prod.exhaust)
  have "bn_running f = bn_running (fst s)" using connect_once_running [of cs n "fst s" "snd s"] c by simp
  then show ?case using 2 c by (cases r) (simp_all add: Let_def)
qed simp

text \<open>A feed that gave up reconnecting still counts as running: starting it again does nothing.\<close>

lemma gave_up_cannot_restart:
  "run_feed cs 0 ns (binance_start f, w) = (True, (f', w')) \<Longrightarrow> binance_start f' = f'"
  using run_feed_running [of cs 0 ns "(binance_start f, w)"] by (simp add: binance_start_def split: if_splits)

section \<open>Back-fill over REST\<close>

text \<open>The rows of one pair up to the first that does not decode; a failed request or a body that cannot be iterated gives none.\<close>

fun decode_until :: "string \<Rightarrow> json list \<Rightarrow> candle list" where
  "decode_until pair [] = []"
| "decode_until pair (row # rows) =
     (case rest_kline_to_candle pair row of Inl e \<Rightarrow> [] | Inr c \<Rightarrow> c # decode_until pair rows)"

definition backfill_pair :: "string \<Rightarrow> json res \<Rightarrow> candle list" where
  "backfill_pair pair response = (case rbind response jiter of Inl e \<Rightarrow> [] | Inr rows \<Rightarrow> decode_until pair rows)"

definition default_backfiller :: "(string \<times> json res) list \<Rightarrow> candle list res" where
  "default_backfiller responses = Inr (concat (map (\<lambda>(pair, response). backfill_pair pair response) responses))"

lemma decode_until_prefix:
  "\<exists>rest. List.map_filter (\<lambda>row. case rest_kline_to_candle pair row of Inl e \<Rightarrow> None | Inr c \<Rightarrow> Some c) rows = decode_until pair rows @ rest"
  by (induction rows) (auto simp: List.map_filter_simps split: sum.splits)

text \<open>Failed pairs do not disturb the others: their candles are those of the pairs that answered.\<close>

lemma backfill_skips_failures:
  "default_backfiller responses = default_backfiller (filter (\<lambda>(pair, response). \<exists>v. response = Inr v) responses)"
proof -
  have "backfill_pair pair (Inl e) = []" for pair e by (simp add: backfill_pair_def)
  then show ?thesis unfolding default_backfiller_def
    by (induction responses) (auto split: sum.splits, metis sum.exhaust)
qed

section \<open>Market reports\<close>

lemma reports_never_stored: "insert_report (\<lambda>_. False) row db = (Inl data_error, db)"
  by (simp add: insert_report_def append_row_def)

lemma latest_report_is_latest:
  "latest_report db = Some r \<Longrightarrow> r \<in> set (map snd (lg_rows (db_reports db))) \<and> (\<forall>x \<in> set (map snd (lg_rows (db_reports db))). mp_ts x \<le> mp_ts r)"
proof -
  assume a: "latest_report db = Some r"
  then obtain rs where s: "sort_key (\<lambda>r. - mp_ts r) (map snd (lg_rows (db_reports db))) = r # rs" by (auto simp: latest_report_def split: list.splits)
  have "sorted (map (\<lambda>r. - mp_ts r) (r # rs))" "set (r # rs) = set (map snd (lg_rows (db_reports db)))"
    using sorted_sort_key [of "\<lambda>r. - mp_ts r" "map snd (lg_rows (db_reports db))"] set_sort [of "\<lambda>r. - mp_ts r" "map snd (lg_rows (db_reports db))"] by (simp_all only: s)
  then show ?thesis by (metis (no_types, lifting) list.set_intros(1) list.simps(9) neg_le_iff_le order_refl set_ConsD sorted_simps(2) image_eqI list.set_map)
qed

end
