(* ===== verification/Migrations.thy ===== *)
theory Migrations
  imports Prelude
begin

text \<open>
  \<^verbatim>\<open>alembic/versions\<close>: the six revisions as lists of statements over a schema, forward and back, and the columns that the
  statements of \<^verbatim>\<open>db/repository.py\<close> name. A type is its SQL text, and so is the predicate of a partial index; of a constraint
  the model keeps what other statements depend on: the keys an upsert may name, and the references that keep a table from
  being dropped.
\<close>

section \<open>Schemas and statements\<close>

record column =
  co_name :: string
  co_type :: string
  co_not_null :: bool
  co_default :: bool

datatype table_constraint = Primary_key "string list" | Unique_key "string list" "string option" | References string string | Check string "string list"

record table =
  tb_columns :: "column list"
  tb_constraints :: "table_constraint list"
  tb_hypertable :: "string option"
  tb_compression :: "(string \<times> string) option"
  tb_compress_after :: "string option"

record schema =
  sc_extensions :: "string list"
  sc_tables :: "(string \<times> table) list"
  sc_indexes :: "(string \<times> string) list"

datatype statement =
    Create_extension string
  | Create_table string "column list" "table_constraint list"
  | Create_hypertable string string
  | Set_compression string string string
  | Add_compression_policy string string
  | Create_index string string
  | Create_unique_index string string "string list" "string option"
  | Add_columns string "column list"
  | Drop_table string
  | Drop_table_if_exists string
  | Drop_columns string "string list"

definition sql_error :: "string \<Rightarrow> 'a res" where
  "sql_error e = Inl (BackendError e)"

definition change_table :: "string \<Rightarrow> (table \<Rightarrow> table res) \<Rightarrow> schema \<Rightarrow> schema res" where
  "change_table t f s =
     (case map_of (sc_tables s) t of
        None \<Rightarrow> sql_error ''UndefinedTableError''
      | Some tb \<Rightarrow> rbind (f tb) (\<lambda>tb'. Inr (s\<lparr>sc_tables := alput t tb' (sc_tables s)\<rparr>)))"

definition column_names :: "table \<Rightarrow> string list" where
  "column_names tb = map co_name (tb_columns tb)"

fun refers_to :: "string \<Rightarrow> table_constraint \<Rightarrow> bool" where
  "refers_to t (References c t') \<longleftrightarrow> t' = t"
| "refers_to t _ \<longleftrightarrow> False"

definition referenced :: "string \<Rightarrow> schema \<Rightarrow> bool" where
  "referenced t s \<longleftrightarrow> list_ex (\<lambda>(n, tb). n \<noteq> t \<and> list_ex (refers_to t) (tb_constraints tb)) (sc_tables s)"

definition drop_table :: "string \<Rightarrow> schema \<Rightarrow> schema res" where
  "drop_table t s =
     (if map_of (sc_tables s) t = None then sql_error ''UndefinedTableError''
      else if referenced t s then sql_error ''DependentObjectsStillExistError''
      else Inr (s\<lparr>sc_tables := filter (\<lambda>(n, tb). n \<noteq> t) (sc_tables s), sc_indexes := filter (\<lambda>(n, t'). t' \<noteq> t) (sc_indexes s)\<rparr>))"

definition create_index :: "string \<Rightarrow> string \<Rightarrow> schema \<Rightarrow> schema res" where
  "create_index n t s =
     (if map_of (sc_tables s) t = None then sql_error ''UndefinedTableError''
      else if map_of (sc_indexes s) n \<noteq> None then sql_error ''DuplicateTableError''
      else Inr (s\<lparr>sc_indexes := sc_indexes s @ [(n, t)]\<rparr>))"

fun resolves :: "string \<Rightarrow> schema \<Rightarrow> table_constraint \<Rightarrow> bool" where
  "resolves t s (References c t') \<longleftrightarrow> t' = t \<or> map_of (sc_tables s) t' \<noteq> None"
| "resolves t s _ \<longleftrightarrow> True"

fun execute :: "statement \<Rightarrow> schema \<Rightarrow> schema res" where
  "execute (Create_extension e) s = Inr (if e \<in> set (sc_extensions s) then s else s\<lparr>sc_extensions := sc_extensions s @ [e]\<rparr>)"
| "execute (Create_table t cols cons) s =
     (if map_of (sc_tables s) t \<noteq> None then sql_error ''DuplicateTableError''
      else if \<not> list_all (resolves t s) cons then sql_error ''UndefinedTableError''
      else Inr (s\<lparr>sc_tables := sc_tables s @
        [(t, \<lparr>tb_columns = cols, tb_constraints = cons, tb_hypertable = None, tb_compression = None, tb_compress_after = None\<rparr>)]\<rparr>))"
| "execute (Create_hypertable t col) s =
     (if ''timescaledb'' \<notin> set (sc_extensions s) then sql_error ''UndefinedFunctionError''
      else change_table t (\<lambda>tb. if col \<in> set (column_names tb) then Inr (tb\<lparr>tb_hypertable := Some col\<rparr>) else sql_error ''UndefinedColumnError'') s)"
| "execute (Set_compression t seg ord) s = change_table t (\<lambda>tb. Inr (tb\<lparr>tb_compression := Some (seg, ord)\<rparr>)) s"
| "execute (Add_compression_policy t after) s =
     change_table t (\<lambda>tb. if tb_compression tb = None then sql_error ''ObjectNotInPrerequisiteStateError''
        else Inr (tb\<lparr>tb_compress_after := Some after\<rparr>)) s"
| "execute (Create_index n t) s = create_index n t s"
| "execute (Create_unique_index n t cols pred) s =
     rbind (create_index n t s) (change_table t (\<lambda>tb. Inr (tb\<lparr>tb_constraints := tb_constraints tb @ [Unique_key cols pred]\<rparr>)))"
| "execute (Add_columns t cols) s =
     change_table t (\<lambda>tb. if set (map co_name cols) \<inter> set (column_names tb) \<noteq> {} then sql_error ''DuplicateColumnError''
        else Inr (tb\<lparr>tb_columns := tb_columns tb @ cols\<rparr>)) s"
| "execute (Drop_table t) s = drop_table t s"
| "execute (Drop_table_if_exists t) s = (if map_of (sc_tables s) t = None then Inr s else drop_table t s)"
| "execute (Drop_columns t cols) s =
     change_table t (\<lambda>tb. if \<not> set cols \<subseteq> set (column_names tb) then sql_error ''UndefinedColumnError''
        else Inr (tb\<lparr>tb_columns := filter (\<lambda>c. co_name c \<notin> set cols) (tb_columns tb)\<rparr>)) s"

fun execute_all :: "statement list \<Rightarrow> schema \<Rightarrow> schema res" where
  "execute_all [] s = Inr s"
| "execute_all (x # xs) s = rbind (execute x s) (execute_all xs)"

section \<open>The revisions\<close>

definition col :: "string \<Rightarrow> string \<Rightarrow> column" where
  "col n ty = \<lparr>co_name = n, co_type = ty, co_not_null = False, co_default = False\<rparr>"

definition required :: "string \<Rightarrow> string \<Rightarrow> column" where
  "required n ty = \<lparr>co_name = n, co_type = ty, co_not_null = True, co_default = False\<rparr>"

definition defaulted :: "string \<Rightarrow> string \<Rightarrow> column" where
  "defaulted n ty = \<lparr>co_name = n, co_type = ty, co_not_null = True, co_default = True\<rparr>"

definition symbols_table :: statement where
  "symbols_table = Create_table ''symbols''
     [defaulted ''id'' ''serial'', required ''symbol'' ''text'', required ''base'' ''text'', defaulted ''quote'' ''text'',
      defaulted ''class'' ''text'', defaulted ''tier'' ''smallint'', defaulted ''status'' ''text'', defaulted ''tags'' ''text[]'',
      defaulted ''first_seen'' ''timestamptz'']
     [Primary_key [''id''], Unique_key [''symbol''] None, Unique_key [''base''] None, Check ''class'' [''core'', ''alt'', ''meme''],
      Check ''status'' [''trading'', ''frozen'']]"

definition candles_table :: "statement list" where
  "candles_table =
    [Create_table ''candles''
       [required ''symbol_id'' ''int'', required ''ts'' ''timestamptz'', defaulted ''interval'' ''text'', required ''o'' ''numeric'',
        required ''h'' ''numeric'', required ''l'' ''numeric'', required ''c'' ''numeric'', defaulted ''v'' ''numeric'',
        defaulted ''quote_v'' ''numeric'', defaulted ''trades'' ''int'', defaulted ''taker_buy_v'' ''numeric'']
       [References ''symbol_id'' ''symbols'', Primary_key [''symbol_id'', ''interval'', ''ts'']],
     Create_hypertable ''candles'' ''ts'', Set_compression ''candles'' ''symbol_id, interval'' ''ts DESC'', Add_compression_policy ''candles'' ''7 days'']"

definition indicators_table :: "statement list" where
  "indicators_table =
    [Create_table ''indicators''
       [required ''symbol_id'' ''int'', required ''ts'' ''timestamptz'', col ''ema_fast'' ''numeric'', col ''ema_slow'' ''numeric'',
        col ''rsi'' ''numeric'', col ''atr'' ''numeric'', col ''vol_realized'' ''numeric'', col ''vol_rel'' ''numeric'',
        col ''trend_score'' ''numeric'']
       [References ''symbol_id'' ''symbols'', Primary_key [''symbol_id'', ''ts'']],
     Create_hypertable ''indicators'' ''ts'', Set_compression ''indicators'' ''symbol_id'' ''ts DESC'', Add_compression_policy ''indicators'' ''7 days'']"

definition logs_tables :: "statement list" where
  "logs_tables =
    [Create_table ''signals''
       [defaulted ''id'' ''bigserial'', required ''symbol_id'' ''int'', required ''ts'' ''timestamptz'', required ''type'' ''text'',
        required ''confidence'' ''smallint'', defaulted ''components'' ''jsonb'', col ''state_from'' ''text'', col ''state_to'' ''text'']
       [Primary_key [''id''], References ''symbol_id'' ''symbols'', Check ''type'' [''buy'', ''sell'', ''highvol'']],
     Create_index ''signals_symbol_ts_idx'' ''signals'',
     Create_table ''market_events''
       [defaulted ''id'' ''bigserial'', required ''symbol_id'' ''int'', required ''ts'' ''timestamptz'', required ''type'' ''text'',
        col ''magnitude'' ''numeric'', col ''severity'' ''smallint'', col ''price'' ''numeric'', defaulted ''payload'' ''jsonb'']
       [Primary_key [''id''], References ''symbol_id'' ''symbols'', Check ''type'' [''pump'', ''dump'', ''breakout'', ''breakdown'', ''vol_spike'']],
     Create_index ''market_events_symbol_ts_idx'' ''market_events'',
     Create_table ''market_memory''
       [defaulted ''id'' ''bigserial'', required ''ts'' ''timestamptz'', col ''regime'' ''text'', col ''vol_regime'' ''text'',
        col ''breadth'' ''numeric'', col ''health_score'' ''smallint'', defaulted ''snapshot'' ''jsonb'']
       [Primary_key [''id'']],
     Create_index ''market_memory_ts_idx'' ''market_memory'',
     Create_table ''market_reports''
       [defaulted ''id'' ''bigserial'', required ''ts'' ''timestamptz'', col ''regime'' ''text'', defaulted ''scenarios'' ''jsonb'',
        col ''headline'' ''text'', col ''body'' ''text'', col ''model'' ''text'', col ''tokens_used'' ''int'', col ''digest_hash'' ''text'']
       [Primary_key [''id'']],
     Create_index ''market_reports_ts_idx'' ''market_reports'',
     Create_table ''telegram_alerts''
       [defaulted ''id'' ''bigserial'', required ''ref_type'' ''text'', required ''ref_id'' ''bigint'', required ''ts'' ''timestamptz'',
        required ''status'' ''text'', col ''dedupe_key'' ''text'', col ''chat_id'' ''text'', col ''message'' ''text'']
       [Primary_key [''id''], Check ''ref_type'' [''event'', ''signal''], Check ''status'' [''sent'', ''throttled'', ''fail'']],
     Create_unique_index ''telegram_alerts_dedupe_key_uniq'' ''telegram_alerts'' [''dedupe_key''] (Some ''dedupe_key IS NOT NULL''),
     Create_index ''telegram_alerts_ts_idx'' ''telegram_alerts'']"

definition upgrade_0001 :: "statement list" where
  "upgrade_0001 = Create_extension ''timescaledb'' # symbols_table # candles_table @ indicators_table @ logs_tables"

definition downgrade_0001 :: "statement list" where
  "downgrade_0001 = map Drop_table_if_exists
     [''telegram_alerts'', ''market_reports'', ''market_memory'', ''market_events'', ''signals'', ''indicators'', ''candles'', ''symbols'']"

definition upgrade_0002 :: "statement list" where
  "upgrade_0002 = [Add_columns ''symbols'' [col ''rank'' ''smallint''], Add_columns ''symbols'' [defaulted ''metrics'' ''jsonb''],
     Add_columns ''symbols'' [col ''last_synced'' ''timestamptz'']]"

definition downgrade_0002 :: "statement list" where
  "downgrade_0002 = [Drop_columns ''symbols'' [''last_synced''], Drop_columns ''symbols'' [''metrics''], Drop_columns ''symbols'' [''rank'']]"

definition upgrade_0003 :: "statement list" where
  "upgrade_0003 =
    [Create_table ''tier_changes''
       [defaulted ''id'' ''bigserial'', required ''symbol_id'' ''int'', required ''ts'' ''timestamptz'', required ''from_tier'' ''smallint'',
        required ''to_tier'' ''smallint'', required ''reason'' ''text'']
       [Primary_key [''id''], References ''symbol_id'' ''symbols''],
     Create_index ''tier_changes_symbol_ts_idx'' ''tier_changes'', Create_index ''tier_changes_ts_idx'' ''tier_changes'']"

definition downgrade_0003 :: "statement list" where
  "downgrade_0003 = [Drop_table ''tier_changes'']"

definition upgrade_0004 :: "statement list" where
  "upgrade_0004 =
    [Create_table ''symbol_metrics_snapshots''
       [defaulted ''id'' ''bigserial'', required ''symbol_id'' ''int'', required ''ts'' ''timestamptz'', required ''tier'' ''smallint'',
        required ''quote_volume_24h'' ''double precision'', required ''price_change_pct_24h'' ''double precision'',
        required ''trade_count_24h'' ''int'', required ''last_price'' ''double precision'']
       [Primary_key [''id''], References ''symbol_id'' ''symbols''],
     Create_index ''symbol_metrics_snapshots_symbol_ts_idx'' ''symbol_metrics_snapshots'',
     Create_index ''symbol_metrics_snapshots_ts_idx'' ''symbol_metrics_snapshots'']"

definition downgrade_0004 :: "statement list" where
  "downgrade_0004 = [Drop_table ''symbol_metrics_snapshots'']"

definition upgrade_0005 :: "statement list" where
  "upgrade_0005 =
    [Create_table ''breadth_snapshots''
       [defaulted ''id'' ''bigserial'', required ''ts'' ''timestamptz'', required ''total'' ''int'', required ''advancers'' ''int'',
        required ''decliners'' ''int'', required ''unchanged'' ''int'', required ''ad_ratio'' ''double precision'',
        required ''pct_above_trend'' ''double precision'', required ''new_highs'' ''int'', required ''new_lows'' ''int'']
       [Primary_key [''id'']],
     Create_index ''breadth_snapshots_ts_idx'' ''breadth_snapshots'']"

definition downgrade_0005 :: "statement list" where
  "downgrade_0005 = [Drop_table ''breadth_snapshots'']"

definition upgrade_0006 :: "statement list" where
  "upgrade_0006 = [Add_columns ''breadth_snapshots''
     [defaulted ''price_change_dispersion'' ''double precision'', defaulted ''btc_dominance'' ''double precision'']]"

definition downgrade_0006 :: "statement list" where
  "downgrade_0006 = [Drop_columns ''breadth_snapshots'' [''price_change_dispersion'', ''btc_dominance'']]"

definition revisions :: "(statement list \<times> statement list) list" where
  "revisions = [(upgrade_0001, downgrade_0001), (upgrade_0002, downgrade_0002), (upgrade_0003, downgrade_0003),
     (upgrade_0004, downgrade_0004), (upgrade_0005, downgrade_0005), (upgrade_0006, downgrade_0006)]"

fun upgrade_head :: "(statement list \<times> statement list) list \<Rightarrow> schema \<Rightarrow> schema res" where
  "upgrade_head [] s = Inr s"
| "upgrade_head ((up, down) # rs) s = rbind (execute_all up s) (upgrade_head rs)"

definition empty_schema :: "string list \<Rightarrow> schema" where
  "empty_schema exts = \<lparr>sc_extensions = exts, sc_tables = [], sc_indexes = []\<rparr>"

fun downgrade_base :: "(statement list \<times> statement list) list \<Rightarrow> schema \<Rightarrow> schema res" where
  "downgrade_base [] s = Inr s"
| "downgrade_base ((up, down) # rs) s = rbind (downgrade_base rs s) (execute_all down)"

section \<open>The repositories and the schema\<close>

record insert_statement =
  is_table :: string
  is_columns :: "string list"
  is_conflict :: "(string list \<times> string option) option"
  is_updates :: "string list"

definition insert_into :: "string \<Rightarrow> string list \<Rightarrow> insert_statement" where
  "insert_into t cols = \<lparr>is_table = t, is_columns = cols, is_conflict = None, is_updates = []\<rparr>"

definition upsert_symbol_statement :: insert_statement where
  "upsert_symbol_statement =
     \<lparr>is_table = ''symbols'', is_columns = [''symbol'', ''base'', ''quote'', ''class'', ''tier'', ''status'', ''tags''],
      is_conflict = Some ([''base''], None), is_updates = [''symbol'', ''quote'', ''class'', ''tier'', ''status'', ''tags'']\<rparr>"

definition insert_candles_statement :: insert_statement where
  "insert_candles_statement =
     \<lparr>is_table = ''candles'',
      is_columns = [''symbol_id'', ''ts'', ''interval'', ''o'', ''h'', ''l'', ''c'', ''v'', ''quote_v'', ''trades'', ''taker_buy_v''],
      is_conflict = Some ([''symbol_id'', ''interval'', ''ts''], None),
      is_updates = [''o'', ''h'', ''l'', ''c'', ''v'', ''quote_v'', ''trades'', ''taker_buy_v'']\<rparr>"

definition upsert_indicators_statement :: insert_statement where
  "upsert_indicators_statement =
     \<lparr>is_table = ''indicators'',
      is_columns = [''symbol_id'', ''ts'', ''ema_fast'', ''ema_slow'', ''rsi'', ''atr'', ''vol_realized'', ''vol_rel'', ''trend_score''],
      is_conflict = Some ([''symbol_id'', ''ts''], None),
      is_updates = [''ema_fast'', ''ema_slow'', ''rsi'', ''atr'', ''vol_realized'', ''vol_rel'', ''trend_score'']\<rparr>"

definition insert_tier_change_statement :: insert_statement where
  "insert_tier_change_statement = insert_into ''tier_changes'' [''symbol_id'', ''ts'', ''from_tier'', ''to_tier'', ''reason'']"

definition insert_metrics_statement :: insert_statement where
  "insert_metrics_statement = insert_into ''symbol_metrics_snapshots''
     [''symbol_id'', ''ts'', ''tier'', ''quote_volume_24h'', ''price_change_pct_24h'', ''trade_count_24h'', ''last_price'']"

definition insert_breadth_statement :: insert_statement where
  "insert_breadth_statement = insert_into ''breadth_snapshots''
     [''ts'', ''total'', ''advancers'', ''decliners'', ''unchanged'', ''ad_ratio'', ''pct_above_trend'', ''new_highs'', ''new_lows'',
      ''price_change_dispersion'', ''btc_dominance'']"

definition insert_signal_statement :: insert_statement where
  "insert_signal_statement = insert_into ''signals'' [''symbol_id'', ''ts'', ''type'', ''confidence'', ''components'', ''state_from'', ''state_to'']"

definition insert_event_statement :: insert_statement where
  "insert_event_statement = insert_into ''market_events'' [''symbol_id'', ''ts'', ''type'', ''magnitude'', ''severity'', ''price'', ''payload'']"

definition insert_memory_statement :: insert_statement where
  "insert_memory_statement = insert_into ''market_memory'' [''ts'', ''regime'', ''vol_regime'', ''breadth'', ''health_score'', ''snapshot'']"

definition insert_report_statement :: insert_statement where
  "insert_report_statement = insert_into ''market_reports''
     [''ts'', ''regime'', ''scenarios'', ''headline'', ''body'', ''model'', ''tokens_used'', ''digest_hash'']"

definition insert_alert_statement :: insert_statement where
  "insert_alert_statement =
     \<lparr>is_table = ''telegram_alerts'',
      is_columns = [''ref_type'', ''ref_id'', ''ts'', ''status'', ''dedupe_key'', ''chat_id'', ''message''],
      is_conflict = Some ([''dedupe_key''], Some ''dedupe_key IS NOT NULL''), is_updates = []\<rparr>"

definition repository_inserts :: "insert_statement list" where
  "repository_inserts = [upsert_symbol_statement, insert_candles_statement, upsert_indicators_statement, insert_tier_change_statement,
     insert_metrics_statement, insert_breadth_statement, insert_signal_statement, insert_event_statement, insert_memory_statement,
     insert_report_statement, insert_alert_statement]"

text \<open>The columns of \<^verbatim>\<open>update_ranking\<close>.\<close>

definition update_ranking_columns :: "string list" where
  "update_ranking_columns = [''rank'', ''metrics'', ''last_synced'', ''base'']"

text \<open>
  Which key an \<^verbatim>\<open>ON CONFLICT\<close> target infers: one over its columns that holds for every row, or a partial one with the predicate
  that the target repeats.
\<close>

fun arbitrates :: "string list \<Rightarrow> string option \<Rightarrow> table_constraint \<Rightarrow> bool" where
  "arbitrates key pred (Primary_key cols) \<longleftrightarrow> cols = key"
| "arbitrates key pred (Unique_key cols p) \<longleftrightarrow> cols = key \<and> (p = None \<or> p = pred)"
| "arbitrates key pred _ \<longleftrightarrow> False"

definition statement_fits :: "schema \<Rightarrow> insert_statement \<Rightarrow> bool" where
  "statement_fits s i =
     (case map_of (sc_tables s) (is_table i) of
        None \<Rightarrow> False
      | Some tb \<Rightarrow>
          distinct (is_columns i) \<and> list_all (\<lambda>c. c \<in> set (column_names tb)) (is_columns i) \<and>
          list_all (\<lambda>c. co_not_null c \<and> \<not> co_default c \<longrightarrow> co_name c \<in> set (is_columns i)) (tb_columns tb) \<and>
          (case is_conflict i of None \<Rightarrow> True
           | Some (key, pred) \<Rightarrow> list_ex (arbitrates key pred) (tb_constraints tb)) \<and>
          list_all (\<lambda>c. c \<in> set (is_columns i)) (is_updates i))"

definition update_fits :: "schema \<Rightarrow> bool" where
  "update_fits s = (case map_of (sc_tables s) ''symbols'' of None \<Rightarrow> False
     | Some tb \<Rightarrow> list_all (\<lambda>c. c \<in> set (column_names tb)) update_ranking_columns)"

definition code_fits :: "schema \<Rightarrow> bool" where
  "code_fits s \<longleftrightarrow> list_all (statement_fits s) repository_inserts \<and> update_fits s"

section \<open>A database with tables of its own\<close>

definition platform_tables :: "string list" where
  "platform_tables = [''symbols'', ''candles'', ''indicators'', ''signals'', ''market_events'', ''market_memory'', ''market_reports'',
     ''telegram_alerts'', ''tier_changes'', ''symbol_metrics_snapshots'', ''breadth_snapshots'']"

definition platform_indexes :: "string list" where
  "platform_indexes = [''signals_symbol_ts_idx'', ''market_events_symbol_ts_idx'', ''market_memory_ts_idx'', ''market_reports_ts_idx'',
     ''telegram_alerts_dedupe_key_uniq'', ''telegram_alerts_ts_idx'', ''tier_changes_symbol_ts_idx'', ''tier_changes_ts_idx'',
     ''symbol_metrics_snapshots_symbol_ts_idx'', ''symbol_metrics_snapshots_ts_idx'', ''breadth_snapshots_ts_idx'']"

text \<open>A schema in which indexes and references lead to its own tables, and where the names of the platform are free.\<close>

definition schema_wf :: "schema \<Rightarrow> bool" where
  "schema_wf s \<longleftrightarrow> (\<forall>(n, t) \<in> set (sc_indexes s). t \<in> set (map fst (sc_tables s))) \<and>
     (\<forall>(n, tb) \<in> set (sc_tables s). \<forall>c \<in> set (tb_constraints tb). \<forall>t. refers_to t c \<longrightarrow> t \<in> set (map fst (sc_tables s)))"

definition names_free :: "schema \<Rightarrow> bool" where
  "names_free s \<longleftrightarrow> set (map fst (sc_tables s)) \<inter> set platform_tables = {} \<and> set (map fst (sc_indexes s)) \<inter> set platform_indexes = {}"

text \<open>The schema \<open>s\<close> with the platform's tables \<open>p\<close> beside its own.\<close>

definition beside :: "string list \<Rightarrow> schema \<Rightarrow> schema \<Rightarrow> schema" where
  "beside exts s p = \<lparr>sc_extensions = exts, sc_tables = sc_tables s @ sc_tables p, sc_indexes = sc_indexes s @ sc_indexes p\<rparr>"

definition platform_only :: "schema \<Rightarrow> bool" where
  "platform_only p \<longleftrightarrow> sc_extensions p = [''timescaledb'']"

fun of_platform :: "statement \<Rightarrow> bool" where
  "of_platform (Create_extension e) \<longleftrightarrow> e = ''timescaledb''"
| "of_platform (Create_table t cols cons) \<longleftrightarrow> t \<in> set platform_tables \<and> list_all (\<lambda>c. case c of References _ t' \<Rightarrow> t' \<in> set platform_tables | _ \<Rightarrow> True) cons"
| "of_platform (Create_hypertable t c) \<longleftrightarrow> t \<in> set platform_tables"
| "of_platform (Set_compression t seg ord) \<longleftrightarrow> t \<in> set platform_tables"
| "of_platform (Add_compression_policy t after) \<longleftrightarrow> t \<in> set platform_tables"
| "of_platform (Create_index n t) \<longleftrightarrow> n \<in> set platform_indexes \<and> t \<in> set platform_tables"
| "of_platform (Create_unique_index n t cols pred) \<longleftrightarrow> n \<in> set platform_indexes \<and> t \<in> set platform_tables"
| "of_platform (Add_columns t cols) \<longleftrightarrow> t \<in> set platform_tables"
| "of_platform (Drop_table t) \<longleftrightarrow> t \<in> set platform_tables"
| "of_platform (Drop_table_if_exists t) \<longleftrightarrow> t \<in> set platform_tables"
| "of_platform (Drop_columns t cols) \<longleftrightarrow> t \<in> set platform_tables"

lemma revisions_of_platform: "list_all (\<lambda>(up, down). list_all of_platform up \<and> list_all of_platform down) revisions"
  by code_simp

lemma free_table:
  assumes "names_free s" "t \<in> set platform_tables"
  shows "map_of (sc_tables s @ ys) t = map_of ys t"
proof -
  have "map_of (sc_tables s) t = None" using assms by (auto simp: names_free_def map_of_eq_None_iff)
  then show ?thesis by (simp add: map_add_def split: option.split)
qed

lemma free_index:
  assumes "names_free s" "n \<in> set platform_indexes"
  shows "map_of (sc_indexes s @ ys) n = map_of ys n"
proof -
  have "map_of (sc_indexes s) n = None" using assms by (auto simp: names_free_def map_of_eq_None_iff)
  then show ?thesis by (simp add: map_add_def split: option.split)
qed

lemma alput_beside: "t \<notin> set (map fst xs) \<Longrightarrow> alput t v (xs @ ys) = xs @ alput t v ys"
  by (induction xs) auto

lemma change_table_beside:
  assumes "names_free s" "t \<in> set platform_tables"
  shows "change_table t f (beside exts s p) = rbind (change_table t f p) (\<lambda>p'. Inr (beside exts s p'))"
proof -
  have "t \<notin> set (map fst (sc_tables s))" using assms by (auto simp: names_free_def)
  then have "alput t v (sc_tables s @ sc_tables p) = sc_tables s @ alput t v (sc_tables p)" for v by (rule alput_beside)
  then show ?thesis using free_table [OF assms, of "sc_tables p"]
    by (auto simp: change_table_def beside_def sql_error_def rbind_def split: option.split sum.split)
qed

lemma create_index_beside:
  assumes "names_free s" "t \<in> set platform_tables" "n \<in> set platform_indexes"
  shows "create_index n t (beside exts s p) = rbind (create_index n t p) (\<lambda>p'. Inr (beside exts s p'))"
  using free_table [OF assms(1,2), of "sc_tables p"] free_index [OF assms(1,3), of "sc_indexes p"]
  by (simp add: create_index_def beside_def sql_error_def rbind_def)

lemma drop_table_beside:
  assumes "schema_wf s" "names_free s" "t \<in> set platform_tables"
  shows "drop_table t (beside exts s p) = rbind (drop_table t p) (\<lambda>p'. Inr (beside exts s p'))"
proof -
  have free: "t \<notin> set (map fst (sc_tables s))" using assms by (auto simp: names_free_def)
  then have "filter (\<lambda>(n, tb). n \<noteq> t) (sc_tables s) = sc_tables s" "filter (\<lambda>(n, t'). t' \<noteq> t) (sc_indexes s) = sc_indexes s"
    using assms(1) by (force simp: filter_id_conv schema_wf_def)+
  moreover have "\<not> list_ex (\<lambda>(n, tb). n \<noteq> t \<and> list_ex (refers_to t) (tb_constraints tb)) (sc_tables s)"
    using assms(1) free by (fastforce simp: list_ex_iff schema_wf_def simp del: set_map)
  ultimately show ?thesis using free_table [OF assms(2,3), of "sc_tables p"]
    by (simp add: drop_table_def referenced_def beside_def sql_error_def rbind_def)
qed

lemma resolves_beside:
  assumes "names_free s" "case c of References _ t' \<Rightarrow> t' \<in> set platform_tables | _ \<Rightarrow> True"
  shows "resolves t (beside exts s p) c = resolves t p c"
  using assms free_table [OF assms(1), of _ "sc_tables p"] by (cases c) (simp_all add: beside_def)

lemma execute_beside:
  assumes "schema_wf s" "names_free s" "''timescaledb'' \<in> set exts" "platform_only p" "of_platform x"
  shows "execute x (beside exts s p) = rbind (execute x p) (\<lambda>p'. Inr (beside exts s p'))"
proof (cases x)
  case (Create_extension e)
  then show ?thesis using assms(3-5) by (simp add: platform_only_def beside_def)
next
  case (Create_table t cols cons)
  have "list_all (resolves t (beside exts s p)) cons = list_all (resolves t p) cons"
    using assms(5) Create_table resolves_beside [OF assms(2)] by (intro list.pred_cong) (auto simp: list_all_iff)
  then show ?thesis using free_table [OF assms(2), of t "sc_tables p"] assms(5) Create_table
    by (simp add: sql_error_def) (simp add: beside_def)
next
  case (Create_unique_index n t cols pred)
  then show ?thesis using create_index_beside [OF assms(2)] change_table_beside [OF assms(2)] assms(5)
    by (simp add: rbind_def split: sum.split)
qed (use assms change_table_beside [OF assms(2)] create_index_beside [OF assms(2)] drop_table_beside [OF assms(1,2)]
    free_table [OF assms(2), of _ "sc_tables p"] in \<open>simp_all add: platform_only_def sql_error_def beside_def\<close>)

lemma execute_platform: "execute x p = Inr p' \<Longrightarrow> of_platform x \<Longrightarrow> platform_only p \<Longrightarrow> platform_only p'"
  by (cases x) (auto simp: platform_only_def change_table_def drop_table_def create_index_def sql_error_def rbind_eq_Inr split: if_splits option.splits)

lemma execute_all_beside:
  assumes "schema_wf s" "names_free s" "''timescaledb'' \<in> set exts"
  shows "platform_only p \<Longrightarrow> list_all of_platform xs \<Longrightarrow>
    execute_all xs (beside exts s p) = rbind (execute_all xs p) (\<lambda>p'. Inr (beside exts s p'))"
proof (induction xs arbitrary: p)
  case (Cons x xs)
  then show ?case using execute_beside [OF assms, of p x] execute_platform [of x p]
    by (cases "execute x p") auto
qed simp

lemma execute_all_platform: "execute_all xs p = Inr p' \<Longrightarrow> list_all of_platform xs \<Longrightarrow> platform_only p \<Longrightarrow> platform_only p'"
proof (induction xs arbitrary: p)
  case (Cons x xs)
  then show ?case using execute_platform [of x p] by (auto simp: rbind_eq_Inr)
qed simp

lemma upgrade_beside:
  assumes "schema_wf s" "names_free s" "''timescaledb'' \<in> set exts"
  shows "platform_only p \<Longrightarrow> list_all (\<lambda>(up, down). list_all of_platform up \<and> list_all of_platform down) rs \<Longrightarrow>
    upgrade_head rs (beside exts s p) = rbind (upgrade_head rs p) (\<lambda>p'. Inr (beside exts s p'))"
proof (induction rs arbitrary: p)
  case (Cons r rs)
  obtain up down where r: "r = (up, down)" by (cases r)
  show ?case using Cons r execute_all_beside [OF assms, of p up] execute_all_platform [of up p]
    by (cases "execute_all up p") auto
qed simp

lemma upgrade_platform:
  "upgrade_head rs p = Inr p' \<Longrightarrow> list_all (\<lambda>(up, down). list_all of_platform up \<and> list_all of_platform down) rs \<Longrightarrow> platform_only p \<Longrightarrow> platform_only p'"
proof (induction rs arbitrary: p)
  case (Cons r rs)
  then show ?case using execute_all_platform by (cases r) (fastforce simp: rbind_eq_Inr)
qed simp

lemma downgrade_beside:
  assumes "schema_wf s" "names_free s" "''timescaledb'' \<in> set exts"
  shows "platform_only p \<Longrightarrow> list_all (\<lambda>(up, down). list_all of_platform up \<and> list_all of_platform down) rs \<Longrightarrow>
    downgrade_base rs (beside exts s p) = rbind (downgrade_base rs p) (\<lambda>p'. Inr (beside exts s p')) \<and>
    (\<forall>p'. downgrade_base rs p = Inr p' \<longrightarrow> platform_only p')"
proof (induction rs)
  case (Cons r rs)
  obtain up down where r: "r = (up, down)" by (cases r)
  show ?case
  proof (cases "downgrade_base rs p")
    case (Inr p1)
    then show ?thesis using Cons r execute_all_beside [OF assms, of p1 down] execute_all_platform [of down p1] by simp
  qed (use Cons r in simp)
qed simp

text \<open>The statements of the code look at the platform's tables only.\<close>

lemma code_fits_beside:
  assumes "names_free s"
  shows "code_fits (beside exts s p) = code_fits p"
proof -
  have "list_all (\<lambda>i. is_table i \<in> set platform_tables) repository_inserts" "''symbols'' \<in> set platform_tables" by (code_simp, code_simp)
  moreover have "statement_fits (beside exts s p) i = statement_fits p i" if "is_table i \<in> set platform_tables" for i
    using free_table [OF assms that, of "sc_tables p"] by (simp add: statement_fits_def beside_def)
  moreover have "update_fits (beside exts s p) = update_fits p"
    using free_table [OF assms, of "''symbols''" "sc_tables p"] calculation(2) by (simp add: update_fits_def beside_def)
  ultimately show ?thesis by (auto simp: code_fits_def list_all_iff)
qed

text \<open>What the revisions do where there is nothing else, by computation.\<close>

definition revision_check :: "nat \<Rightarrow> bool" where
  "revision_check k \<longleftrightarrow>
     (let p0 = empty_schema [''timescaledb''] in
      case upgrade_head (take k revisions) p0 of
        Inl e \<Rightarrow> False
      | Inr p \<Rightarrow> downgrade_base (take k revisions) p = Inr p0 \<and> code_fits p = (6 \<le> k) \<and>
          (k < length revisions \<longrightarrow> (case execute_all (fst (revisions ! k)) p of Inl e \<Rightarrow> False | Inr p' \<Rightarrow> execute_all (snd (revisions ! k)) p' = Inr p)))"

lemma revisions_checked: "list_all revision_check [0, 1, 2, 3, 4, 5, 6]"
  by code_simp

lemma beside_nothing: "beside (sc_extensions s) s (empty_schema e) = s" "(beside exts s p)\<lparr>sc_extensions := e\<rparr> = beside e s p"
  "sc_extensions (beside exts s p) = exts"
  by (simp_all add: beside_def empty_schema_def)

text \<open>The extension is created by the first statement, and by no other.\<close>

lemma first_statement:
  assumes "0 < k"
  shows "upgrade_head (take k revisions) s =
    upgrade_head (take k revisions) (s\<lparr>sc_extensions := if ''timescaledb'' \<in> set (sc_extensions s) then sc_extensions s else sc_extensions s @ [''timescaledb'']\<rparr>)"
  using assms by (cases k) (simp_all add: revisions_def upgrade_0001_def)

lemma first_step:
  "execute_all upgrade_0001 s =
    execute_all upgrade_0001 (s\<lparr>sc_extensions := if ''timescaledb'' \<in> set (sc_extensions s) then sc_extensions s else sc_extensions s @ [''timescaledb'']\<rparr>)"
  by (simp add: upgrade_0001_def)

text \<open>
  C16: the migrations can be taken back, and the code fits exactly the head revision. Take any database, with tables, indexes
  and extensions of its own, in which the platform's names are free. Then any number \<open>k\<close> of revisions applies; going back from
  there to the base leaves the database as it was, but for the extension, which stays if the first revision had to create it;
  the next revision applies too, and its own downgrade undoes it; and every statement of the repositories names existing
  columns, fills those that are required and conflicts on a declared key (with the predicate of a partial one) at the head
  revision, while at every earlier one some statement does not.
\<close>

theorem migrations_match_code:
  assumes "schema_wf s" "names_free s"
  shows "\<exists>sk. upgrade_head (take k revisions) s = Inr sk \<and>
    sc_extensions sk = sc_extensions s @ (if 0 < k \<and> ''timescaledb'' \<notin> set (sc_extensions s) then [''timescaledb''] else []) \<and>
    downgrade_base (take k revisions) sk = Inr (s\<lparr>sc_extensions := sc_extensions sk\<rparr>) \<and>
    (k < length revisions \<longrightarrow> (\<exists>later. execute_all (fst (revisions ! k)) sk = Inr later \<and>
      execute_all (snd (revisions ! k)) later = Inr (sk\<lparr>sc_extensions := sc_extensions later\<rparr>))) \<and>
    (code_fits sk \<longleftrightarrow> length revisions \<le> k)"
proof -
  let ?exts = "if ''timescaledb'' \<in> set (sc_extensions s) then sc_extensions s else sc_extensions s @ [''timescaledb'']"
  let ?p0 = "empty_schema [''timescaledb'']" and ?n = "min k 6"
  have ext: "''timescaledb'' \<in> set ?exts" by simp
  have len: "length revisions = 6" by (simp add: revisions_def)
  have take: "take k revisions = take ?n revisions" using len by (simp add: min_def)
  have "?n \<in> set [0, 1, 2, 3, 4, 5, 6]" by (auto simp: min_def) 
  then have "revision_check ?n" using revisions_checked by (simp only: list_all_iff)
  then obtain p where p: "upgrade_head (take k revisions) ?p0 = Inr p" "downgrade_base (take k revisions) p = Inr ?p0"
    "code_fits p = (6 \<le> ?n)" and step: "?n < 6 \<Longrightarrow> \<exists>p'. execute_all (fst (revisions ! ?n)) p = Inr p' \<and> execute_all (snd (revisions ! ?n)) p' = Inr p"
    unfolding take revision_check_def Let_def len by (auto split: sum.splits)
  have pl: "platform_only ?p0" by (simp add: platform_only_def empty_schema_def)
  have rs: "list_all (\<lambda>(up, down). list_all of_platform up \<and> list_all of_platform down) (take k revisions)"
    using revisions_of_platform set_take_subset [of k revisions] unfolding list_all_iff by blast
  have plp: "platform_only p" by (rule upgrade_platform [OF p(1) rs pl])
  let ?sk = "beside (if k = 0 then sc_extensions s else ?exts) s p"
  have up: "upgrade_head (take k revisions) s = Inr ?sk"
  proof (cases "k = 0")
    case True
    then have "p = ?p0" using p(1) by simp
    with True show ?thesis by (simp add: beside_nothing)
  next
    case False
    have "upgrade_head (take k revisions) (beside ?exts s ?p0) = Inr (beside ?exts s p)"
      using upgrade_beside [OF assms ext pl rs] p(1) by simp
    moreover have "s\<lparr>sc_extensions := ?exts\<rparr> = beside ?exts s ?p0" by (simp add: beside_def empty_schema_def)
    ultimately show ?thesis using first_statement [of k s] False by simp
  qed
  have down: "downgrade_base (take k revisions) ?sk = Inr (s\<lparr>sc_extensions := sc_extensions ?sk\<rparr>)"
  proof (cases "k = 0")
    case False
    have "s\<lparr>sc_extensions := ?exts\<rparr> = beside ?exts s ?p0" by (simp add: beside_def empty_schema_def)
    then show ?thesis using downgrade_beside [OF assms ext plp rs] p(2) False by (simp add: beside_nothing(3))
  next
    case True
    then have "p = ?p0" using p(1) by simp
    with True show ?thesis by (simp add: beside_nothing)
  qed
  have onward: "\<exists>later. execute_all (fst (revisions ! k)) ?sk = Inr later \<and> execute_all (snd (revisions ! k)) later = Inr (?sk\<lparr>sc_extensions := sc_extensions later\<rparr>)"
    if k: "k < length revisions"
  proof -
    have n: "?n = k" using k len by simp
    obtain p' where p': "execute_all (fst (revisions ! k)) p = Inr p'" "execute_all (snd (revisions ! k)) p' = Inr p"
      using step k len unfolding n by auto
    have of: "list_all of_platform (fst (revisions ! k))" "list_all of_platform (snd (revisions ! k))"
      using revisions_of_platform k by (auto simp: list_all_length split_beta)
    have "execute_all (fst (revisions ! k)) ?sk = execute_all (fst (revisions ! k)) (beside ?exts s p)"
    proof (cases "k = 0")
      case True
      then have zero: "fst (revisions ! k) = upgrade_0001" by (simp add: revisions_def)
      have sk: "sc_extensions ?sk = sc_extensions s" using True by (simp add: beside_nothing)
      show ?thesis using first_step [of ?sk] unfolding zero sk beside_nothing(2) .
    qed simp
    then have "execute_all (fst (revisions ! k)) ?sk = Inr (beside ?exts s p')"
      using execute_all_beside [OF assms ext plp of(1)] p'(1) by simp
    moreover have "execute_all (snd (revisions ! k)) (beside ?exts s p') = Inr (beside ?exts s p)"
      using execute_all_beside [OF assms ext execute_all_platform [OF p'(1) of(1) plp] of(2)] p'(2) by simp
    ultimately show ?thesis by (simp add: beside_nothing)
  qed
  have head: "code_fits ?sk \<longleftrightarrow> length revisions \<le> k"
    unfolding code_fits_beside [OF assms(2)] p(3) len by (simp add: min_def)
  have exts: "sc_extensions ?sk = sc_extensions s @ (if 0 < k \<and> ''timescaledb'' \<notin> set (sc_extensions s) then [''timescaledb''] else [])"
    unfolding beside_nothing by simp
  show ?thesis by (intro exI [of _ ?sk] conjI impI up exts down onward head)
qed

text \<open>A database of somebody else's.\<close>

definition shared_database :: schema where
  "shared_database = \<lparr>sc_extensions = [''plpgsql''],
     sc_tables = [(''users'', \<lparr>tb_columns = [required ''id'' ''int''], tb_constraints = [Primary_key [''id'']], tb_hypertable = None,
       tb_compression = None, tb_compress_after = None\<rparr>)],
     sc_indexes = [(''users_idx'', ''users'')]\<rparr>"

theorem migrations_match_code_witness:
  "\<exists>s6. upgrade_head (take 6 revisions) shared_database = Inr s6 \<and> code_fits s6 \<and>
    downgrade_base (take 6 revisions) s6 = Inr (shared_database\<lparr>sc_extensions := [''plpgsql'', ''timescaledb'']\<rparr>)"
proof -
  have "schema_wf shared_database" "names_free shared_database"
    by (simp_all add: schema_wf_def names_free_def shared_database_def platform_tables_def platform_indexes_def)
  moreover have "sc_extensions shared_database = [''plpgsql'']" "length revisions = 6" by (simp_all add: shared_database_def revisions_def)
  ultimately show ?thesis using migrations_match_code [of shared_database 6] by auto
qed

end
