(* ===== verification/Services.thy ===== *)
theory Services
  imports Ingestion Registry Feed
begin

text \<open>
  \<^verbatim>\<open>src/orvixa/runners/ingest.py\<close> as a whole: the registry is seeded, the batch writer, the candle sink and the feed are
  wired up, and from then on the candles of the feed and the steps of the writer's task interleave.
\<close>

section \<open>The ingest service\<close>

record ingest =
  ig_candles :: int
  ig_sink :: candle_sink

definition ingest_setup :: "settings \<Rightarrow> db \<Rightarrow> ingest res \<times> db" where
  "ingest_setup cfg db =
     (let (r, db1) = seed_registry cfg db in
      attempt r db1 (\<lambda>ids.
      (Inr \<lparr>ig_candles = 0, ig_sink = candle_sink_new (writer_new (candle_batch_max_size cfg)) (kline_interval cfg) (Some (map_of ids))\<rparr>, db1)))"

definition ingest_on_candle :: "candle \<Rightarrow> ingest \<times> db \<Rightarrow> unit res \<times> (ingest \<times> db)" where
  "ingest_on_candle c s =
     (case s of (g, db) \<Rightarrow>
      let g1 = (if cd_closed c then g\<lparr>ig_candles := ig_candles g + 1\<rparr> else g);
          (r, (k, db1)) = sink_candle get_id_lookup c (ig_sink g1, db)
      in (r, (g1\<lparr>ig_sink := k\<rparr>, db1)))"

definition ingest_consumers :: "(ingest \<times> db) consumers" where
  "ingest_consumers = on_candle_close ingest_on_candle consumers_new"

datatype ingest_label = Seen candle | Wrote "candle_row label"

inductive ingest_step :: "ingest \<times> db \<Rightarrow> ingest_label \<Rightarrow> ingest \<times> db \<Rightarrow> bool" where
  seen: "ingest_step s (Seen c) (emit_candle ingest_consumers c s)"
| wrote: "writer_step candle_repository_sink (cs_writer (ig_sink g), db) l (b, db') \<Longrightarrow> \<forall>rows. l \<noteq> Added rows \<Longrightarrow>
    ingest_step (g, db) (Wrote l) (g\<lparr>ig_sink := (ig_sink g)\<lparr>cs_writer := b\<rparr>\<rparr>, db')"

inductive ingest_run :: "ingest \<times> db \<Rightarrow> ingest_label list \<Rightarrow> ingest \<times> db \<Rightarrow> bool" for s where
  idle: "ingest_run s [] s"
| move: "ingest_run s tr s1 \<Longrightarrow> ingest_step s1 l s2 \<Longrightarrow> ingest_run s (tr @ [l]) s2"

fun seen_candles :: "ingest_label \<Rightarrow> candle list" where
  "seen_candles (Seen c) = [c]"
| "seen_candles (Wrote l) = []"

text \<open>What a candle leaves in the table: nothing while it is open, or if its symbol is not registered or its time no date.\<close>

definition stored_row :: "db \<Rightarrow> string \<Rightarrow> candle \<Rightarrow> candle_row list" where
  "stored_row db interval c =
     (if \<not> cd_closed c then []
      else case get_id (cd_symbol c) db of
          None \<Rightarrow> []
        | Some sid \<Rightarrow> (case candle_to_row sid interval c of Inl e \<Rightarrow> [] | Inr row \<Rightarrow> [row]))"

text \<open>The cached ids are those of the registry, and the writer has done what its trace says on the rows of the candles.\<close>

definition ingest_ok :: "string \<Rightarrow> int \<Rightarrow> db \<Rightarrow> ingest_label list \<Rightarrow> ingest \<times> db \<Rightarrow> bool" where
  "ingest_ok interval max_size db0 tr s \<longleftrightarrow>
     (case s of (g, db) \<Rightarrow>
      cs_interval (ig_sink g) = interval \<and> db_symbols db = db_symbols db0 \<and>
      (\<forall>b i. cs_symbol_ids (ig_sink g) b = Some i \<longrightarrow> get_id b db0 = Some i) \<and>
      ig_candles g = int (length (filter cd_closed (concat (map seen_candles tr)))) \<and>
      (\<exists>wtr. writer_run candle_repository_sink (writer_new max_size, db0) wtr (cs_writer (ig_sink g), db) \<and>
         concat (map added_items wtr) = concat (map (stored_row db0 interval) (concat (map seen_candles tr)))))"

lemma get_id_symbols: "db_symbols db = db_symbols db' \<Longrightarrow> get_id b db = get_id b db'"
  by (simp add: get_id_def)

lemma ingest_on_candle_ok:
  assumes "ingest_ok interval m db0 tr (g, db)" "ingest_on_candle c (g, db) = (r, s')"
  shows "ingest_ok interval m db0 (tr @ [Seen c]) s'"
proof (cases "cd_closed c")
  case False
  then show ?thesis using assms by (auto simp: ingest_on_candle_def sink_candle_def ingest_ok_def stored_row_def)
next
  case True
  let ?k = "ig_sink g"
  have same: "get_id (cd_symbol c) db = get_id (cd_symbol c) db0"
    using assms(1) get_id_symbols [of db db0] by (simp add: ingest_ok_def)
  have cache: "cs_symbol_ids ?k (cd_symbol c) = Some sid \<Longrightarrow> get_id (cd_symbol c) db0 = Some sid" for sid
    using assms(1) by (simp add: ingest_ok_def)
  obtain wtr where wtr: "writer_run candle_repository_sink (writer_new m, db0) wtr (cs_writer ?k, db)"
    "concat (map added_items wtr) = concat (map (stored_row db0 interval) (concat (map seen_candles tr)))"
    using assms(1) by (auto simp: ingest_ok_def)
  obtain k1 where res: "sink_resolve get_id_lookup (cd_symbol c) (?k, db) = (Inr (get_id (cd_symbol c) db0), (k1, db))"
    "cs_writer k1 = cs_writer ?k" "cs_interval k1 = cs_interval ?k"
    "\<forall>b i. cs_symbol_ids k1 b = Some i \<longrightarrow> get_id b db0 = Some i"
    using assms(1) same cache
    by (cases "cs_symbol_ids ?k (cd_symbol c)"; cases "get_id (cd_symbol c) db0")
      (auto simp: sink_resolve_def get_id_lookup_def ingest_ok_def split: if_splits)
  show ?thesis
  proof (cases "stored_row db0 interval c")
    case Nil
    then have "s' = (g\<lparr>ig_candles := ig_candles g + 1, ig_sink := k1\<rparr>, db)"
      using True res assms by (auto simp: ingest_on_candle_def sink_candle_def stored_row_def ingest_ok_def split: option.splits sum.splits)
    then show ?thesis using assms(1) res True Nil by (auto simp: ingest_ok_def)
  next
    case (Cons row rows)
    then have row: "rows = []" "s' = (g\<lparr>ig_candles := ig_candles g + 1, ig_sink := k1\<lparr>cs_writer := writer_add row (cs_writer k1)\<rparr>\<rparr>, db)"
      using True res assms by (auto simp: ingest_on_candle_def sink_candle_def stored_row_def ingest_ok_def split: option.splits sum.splits)
    have "writer_run candle_repository_sink (writer_new m, db0) (wtr @ [Added [row]]) (writer_add row (cs_writer ?k), db)"
      by (rule writer_run.move [OF wtr(1) adding])
    then show ?thesis using assms(1) res True Cons row wtr(2) unfolding ingest_ok_def
      by (auto intro!: exI [of _ "wtr @ [Added [row]]"])
  qed
qed

lemma emit_ingest: "emit_candle ingest_consumers c s = snd (ingest_on_candle c s)"
  by (simp add: emit_candle_def ingest_consumers_def on_candle_close_def consumers_new_def)

lemma candle_sink_symbols: "db_symbols (snd (candle_repository_sink rows db)) = db_symbols db"
proof (cases "insert_candles rows db")
  case (Pair r db')
  then have "db_symbols db' = db_symbols db"
    using insert_candles_Inl [of rows db] insert_candles_Inr [of rows db] by (cases r) simp_all
  then show ?thesis using Pair by (simp add: candle_repository_sink_def)
qed

lemma writer_step_symbols: "writer_step candle_repository_sink (b, db) l (b', db') \<Longrightarrow> db_symbols db' = db_symbols db"
  by (cases rule: writer_step.cases) (auto dest: arg_cong [where f = "db_symbols \<circ> snd"] simp: candle_sink_symbols)

lemma ingest_step_ok:
  assumes "ingest_step s l s'" "ingest_ok interval m db0 tr s"
  shows "ingest_ok interval m db0 (tr @ [l]) s'"
  using assms(1)
proof cases
  case (seen c)
  then show ?thesis
    using ingest_on_candle_ok [of interval m db0 tr "fst s" "snd s" c "fst (ingest_on_candle c s)" "snd (ingest_on_candle c s)"] assms(2)
    by (simp add: emit_ingest)
next
  case (wrote g db wl b db')
  obtain wtr where wtr: "writer_run candle_repository_sink (writer_new m, db0) wtr (cs_writer (ig_sink g), db)"
    "concat (map added_items wtr) = concat (map (stored_row db0 interval) (concat (map seen_candles tr)))"
    using assms(2) wrote(1) by (auto simp: ingest_ok_def)
  have "added_items wl = []" using wrote(5) by (cases wl) auto
  moreover have "writer_run candle_repository_sink (writer_new m, db0) (wtr @ [wl]) (b, db')"
    by (rule writer_run.move [OF wtr(1) wrote(4)])
  ultimately show ?thesis using assms(2) wrote writer_step_symbols [OF wrote(4)] wtr(2)
    by (auto simp: ingest_ok_def intro!: exI [of _ "wtr @ [wl]"])
qed

lemma ingest_run_ok:
  assumes "ingest_run s tr s'" "ingest_ok interval m db0 [] s"
  shows "ingest_ok interval m db0 tr s'"
  using assms by induction (auto intro: ingest_step_ok)

lemma ingest_setup_ok:
  assumes "bases_normal db" "ingest_setup cfg db = (Inr g, db0)"
  shows "ingest_ok (kline_interval cfg) (candle_batch_max_size cfg) db0 [] (g, db0)"
proof -
  obtain ids where ids: "seed_registry cfg db = (Inr ids, db0)" "\<forall>(b, i) \<in> set ids. get_id b db0 = Some i"
    using seeding_facts [OF assms(1), of cfg] assms(2) by (cases "seed_registry cfg db") (auto simp: ingest_setup_def)
  then have "g = \<lparr>ig_candles = 0, ig_sink = candle_sink_new (writer_new (candle_batch_max_size cfg)) (kline_interval cfg) (Some (map_of ids))\<rparr>"
    using assms(2) by (simp add: ingest_setup_def)
  then show ?thesis using ids(2)
    by (auto simp: ingest_ok_def candle_sink_new_def dest: map_of_SomeD intro: writer_run.idle exI [of _ "[]"])
qed

lemma all_accepted:
  "filter (\<lambda>r. r \<noteq> Inr ()) (concat (map outcome tr)) = [] \<Longrightarrow> concat (map written_rows tr) = concat (map flushed_items tr)"
proof (induction tr)
  case (Cons l tr)
  then show ?case by (cases l; cases "case l of Flushed rows r \<Rightarrow> r | _ \<Rightarrow> Inr ()") auto
qed simp

text \<open>
  C17: the ingest service stores the stream. Whatever the interleaving of the feed's candles with the writer's wake-ups, flushes
  and stop, once the writer holds nothing and no batch was refused, the database is the seeded one with a single insert of one
  row per closed candle of a registered symbol, in the order they came; the counter shows the closed candles.
\<close>

theorem ingest_stores_stream:
  assumes "bases_normal db" "ingest_setup cfg db = (Inr g0, db0)" "ingest_run (g0, db0) tr (g, db')"
    and "bw_in_flight (cs_writer (ig_sink g)) = []" "bw_buffer (cs_writer (ig_sink g)) = []" "bw_error_count (cs_writer (ig_sink g)) = 0"
  shows "insert_candles (concat (map (stored_row db0 (kline_interval cfg)) (concat (map seen_candles tr)))) db0 =
      (Inr (int (length (concat (map (stored_row db0 (kline_interval cfg)) (concat (map seen_candles tr)))))), db') \<and>
    ig_candles g = int (length (filter cd_closed (concat (map seen_candles tr))))"
proof -
  have ok: "ingest_ok (kline_interval cfg) (candle_batch_max_size cfg) db0 tr (g, db')"
    by (rule ingest_run_ok [OF assms(3) ingest_setup_ok [OF assms(1,2)]])
  obtain wtr where wtr: "writer_run candle_repository_sink (writer_new (candle_batch_max_size cfg), db0) wtr (cs_writer (ig_sink g), db')"
    "concat (map added_items wtr) = concat (map (stored_row db0 (kline_interval cfg)) (concat (map seen_candles tr)))"
    using ok by (auto simp: ingest_ok_def)
  have "writer_ok wtr (cs_writer (ig_sink g))" using writer_run_ok [OF wtr(1)] by simp
  then have "concat (map added_items wtr) = concat (map written_rows wtr)"
    using assms(4-6) all_accepted [of wtr] by (simp add: writer_ok_def)
  then show ?thesis using batches_refine_insert [OF wtr(1)] wtr(2) ok by (simp add: ingest_ok_def)
qed

definition one_symbol :: settings where
  "one_symbol = default_settings\<lparr>core_symbols := [''BTCUSDT''], seed_symbols := [], meme_symbols := []\<rparr>"

definition btc_bar :: candle where
  "btc_bar = \<lparr>cd_symbol = ''BTC'', cd_ts = 60000, cd_open = 1, cd_high = 1, cd_low = 1, cd_close = 1, cd_volume = 1,
     cd_quote_volume = 1, cd_trades = 3, cd_closed = True, cd_taker_buy_volume = 1\<rparr>"

theorem ingest_stores_stream_witness:
  "\<exists>g0 db0 g db'. ingest_setup one_symbol (db_new 0) = (Inr g0, db0) \<and>
    ingest_run (g0, db0) [Wrote Started, Seen btc_bar, Wrote Silent,
      Wrote (Flushed (stored_row db0 ''1m'' btc_bar) (Inr ()))] (g, db') \<and>
    insert_candles (stored_row db0 ''1m'' btc_bar) db0 = (Inr 1, db')"
proof -
  have n: "normalize_symbol ''BTCUSDT'' = ''BTC''" by code_simp
  have u: "upper ''BTCUSDT'' = ''BTCUSDT''" by code_simp
  define row where "row = \<lparr>cr_symbol_id = 1, cr_ts = 60000000, cr_open = 1, cr_high = 1, cr_low = 1, cr_close = 1, cr_volume = 1,
     cr_quote_volume = 1, cr_trades = 3, cr_taker_buy_volume = 1, cr_interval = ''1m''\<rparr>"
  obtain db0 where seeded: "seed_registry one_symbol (db_new 0) = (Inr [(''BTC'', 1)], db0)" "get_id ''BTC'' db0 = Some 1"
     "candle_violation db0 row = None"
    by (simp add: seed_registry_def build_symbol_rows_def all_symbols_def one_symbol_def seed_row_def classify_symbol_def n u
        upsert_symbol_def db_new_def symbol_check_def int16_def Let_def get_id_def has_base_def row_def candle_violation_def
        references_def symbol_exists_def int32_def)
  let ?w = "writer_new 200 :: candle_row writer"
  define k where "k = candle_sink_new ?w ''1m'' (Some (map_of [(''BTC'', 1)]))"
  define g0 where "g0 = \<lparr>ig_candles = 0, ig_sink = k\<rparr>"
  have set: "ingest_setup one_symbol (db_new 0) = (Inr g0, db0)"
    by (simp add: ingest_setup_def seeded(1) g0_def k_def) (simp add: one_symbol_def default_settings_def)
  have to_row: "candle_to_row 1 ''1m'' btc_bar = Inr row"
    using from_ms_exact [of 60000] by (simp add: candle_to_row_def btc_bar_def row_def)
  have sr: "stored_row db0 ''1m'' btc_bar = [row]"
    using to_row seeded(2) by (simp add: stored_row_def) (simp add: btc_bar_def)
  obtain db' where i: "insert_candles [row] db0 = (Inr 1, db')" using seeded(3) by (simp add: insert_candles_Inr)
  let ?b1 = "?w\<lparr>bw_running := True, bw_phase := Waiting\<rparr>"
  let ?b2 = "writer_add row ?b1" let ?b3 = "wake ?b2" let ?b4 = "flush_done (Inr ()) ?b3"
  let ?g = "\<lambda>n b. \<lparr>ig_candles = n, ig_sink = k\<lparr>cs_writer := b\<rparr>\<rparr>"
  note d = writer_new_def writer_add_def wake_def take_batch_def Let_def
  have fl: "bw_in_flight ?b3 = [row]" "bw_phase ?b3 = Flushing" by (simp_all add: d)
  have idle_again: "bw_in_flight ?b4 = []" "bw_buffer ?b4 = []" "bw_error_count ?b4 = 0"
    by (simp_all add: flush_done_def after_flush_def d)
  have kf: "cs_writer k = ?w" "cs_interval k = ''1m''" "cs_symbol_ids k ''BTC'' = Some 1" by (simp_all add: k_def candle_sink_new_def)
  have s1: "ingest_step (g0, db0) (Wrote Started) (?g 0 ?b1, db0)"
    using wrote [of g0 db0 Started ?b1 db0] starting [of ?w candle_repository_sink db0] by (simp add: g0_def kf writer_new_def)
  have sb: "cd_closed btc_bar" "cd_symbol btc_bar = ''BTC''" by (simp_all add: btc_bar_def)
  have "snd (ingest_on_candle btc_bar (?g 0 ?b1, db0)) = (?g 1 ?b2, db0)"
    using to_row kf by (simp add: ingest_on_candle_def sink_candle_def sink_resolve_def sb)
  then have s2: "ingest_step (?g 0 ?b1, db0) (Seen btc_bar) (?g 1 ?b2, db0)"
    using seen [of "(?g 0 ?b1, db0)" btc_bar] by (simp add: emit_ingest)
  have s3: "ingest_step (?g 1 ?b2, db0) (Wrote Silent) (?g 1 ?b3, db0)"
    using wrote [of "?g 1 ?b2" db0 Silent ?b3 db0] waking [of ?b2 candle_repository_sink db0] by (simp add: d)
  have f: "writer_step candle_repository_sink (?b3, db0) (Flushed (bw_in_flight ?b3) (Inr ())) (?b4, db')"
    by (rule flushed) (simp_all add: fl candle_repository_sink_def i)
  have s4: "ingest_step (?g 1 ?b3, db0) (Wrote (Flushed [row] (Inr ()))) (?g 1 ?b4, db')"
    using wrote [of "?g 1 ?b3" db0 "Flushed [row] (Inr ())" ?b4 db'] f [unfolded fl] by simp
  have run: "ingest_run (g0, db0) ((((([]) @ [Wrote Started]) @ [Seen btc_bar]) @ [Wrote Silent]) @ [Wrote (Flushed [row] (Inr ()))]) (?g 1 ?b4, db')"
    by (intro ingest_run.move [OF _ s4] ingest_run.move [OF _ s3] ingest_run.move [OF _ s2] ingest_run.move [OF _ s1] ingest_run.idle)
  have "bases_normal (db_new 0)" by (simp add: bases_normal_def db_new_def)
  moreover have "kline_interval one_symbol = ''1m''" by (simp add: one_symbol_def default_settings_def)
  ultimately have "insert_candles [row] db0 = (Inr 1, db')"
    using ingest_stores_stream [OF _ set run] idle_again sr by simp
  then show ?thesis using set run sr by (intro exI [of _ g0] exI [of _ db0] exI [of _ "?g 1 ?b4"] exI [of _ db'] conjI) simp_all
qed

end
