(* ===== verification/Live.thy ===== *)
theory Live
  imports Ingestion Registry Engine Feed
begin

text \<open>
  \<^verbatim>\<open>src/orvixa/runners/analytics.py\<close>: the engine over what the runner injects into it, the batch writer for indicator rows and
  the repositories of the database.
\<close>

section \<open>The injected objects\<close>

definition live_backend :: "(indicator_row writer \<times> db) backend" where
  "live_backend =
     \<lparr>bk_get_id = (\<lambda>base (b, db). (Inr (get_id base db), (b, db))),
      bk_add_indicator = (\<lambda>row (b, db). (Inr (), (writer_add row b, db))),
      bk_insert_signal = (\<lambda>row (b, db). let (r, db1) = insert_signal row db in (rbind r (\<lambda>_. Inr ()), (b, db1))),
      bk_insert_event = (\<lambda>row (b, db). let (r, db1) = insert_event row db in (rbind r (\<lambda>_. Inr ()), (b, db1))),
      bk_insert_memory = (\<lambda>row (b, db). let (r, db1) = insert_memory row db in (rbind r (\<lambda>_. Inr ()), (b, db1)))\<rparr>"

definition indicator_repository_sink :: "indicator_row list \<Rightarrow> db \<Rightarrow> unit res \<times> db" where
  "indicator_repository_sink rows db = (let (r, db1) = upsert_indicators rows db in (rbind r (\<lambda>_. Inr ()), db1))"

definition analytics_setup :: "settings \<Rightarrow> db \<Rightarrow> (engine \<times> indicator_row writer) res \<times> db" where
  "analytics_setup cfg db =
     (let (r, db1) = seed_registry cfg db in
      attempt r db1 (\<lambda>ids. (Inr (engine_new cfg (map_of ids), writer_new (indicator_batch_max_size cfg)), db1)))"

definition analytics_consumers ::
  "(pyfloat \<Rightarrow> pyfloat res) \<Rightarrow> (engine \<times> (indicator_row writer \<times> db)) consumers" where
  "analytics_consumers logf =
     on_market_snapshot (\<lambda>rows (e, w). let (r, e1) = handle_snapshot rows e in (r, (e1, w)))
       (on_candle_close (handle_candle live_backend logf) consumers_new)"

section \<open>The running service\<close>

text \<open>
  What happens once the runner is up: the feed emits a candle or a market snapshot, the regime task fires, or the task of the
  indicator writer takes a step (\<^verbatim>\<open>add\<close> is called by the engine alone).
\<close>

datatype live_label = Fed candle | Quoted "ticker_row list" | Refreshed datetime | Wrote_rows "indicator_row label"

inductive live_step ::
  "(pyfloat \<Rightarrow> pyfloat res) \<Rightarrow> engine \<times> (indicator_row writer \<times> db) \<Rightarrow> live_label \<Rightarrow> engine \<times> (indicator_row writer \<times> db) \<Rightarrow> bool"
  for logf where
  fed: "live_step logf s (Fed c) (emit_candle (analytics_consumers logf) c s)"
| quoted: "live_step logf s (Quoted rows) (emit_snapshot (analytics_consumers logf) rows s)"
| refreshed: "live_step logf s (Refreshed now) (snd (refresh_regime live_backend now s))"
| wrote_rows: "writer_step indicator_repository_sink (b, db) l (b', db') \<Longrightarrow> \<forall>rows. l \<noteq> Added rows \<Longrightarrow>
    live_step logf (e, (b, db)) (Wrote_rows l) (e, (b', db'))"

inductive live_service ::
  "(pyfloat \<Rightarrow> pyfloat res) \<Rightarrow> engine \<times> (indicator_row writer \<times> db) \<Rightarrow> live_label list \<Rightarrow> engine \<times> (indicator_row writer \<times> db) \<Rightarrow> bool"
  for logf s where
  up: "live_service logf s [] s"
| more: "live_service logf s tr s1 \<Longrightarrow> live_step logf s1 l s2 \<Longrightarrow> live_service logf s (tr @ [l]) s2"

fun fed_candles :: "live_label \<Rightarrow> candle list" where
  "fed_candles (Fed c) = [c]"
| "fed_candles _ = []"

section \<open>One symbol's share of the store\<close>

text \<open>What the tables hold for a symbol id.\<close>

definition stored_indicators :: "int \<Rightarrow> db \<Rightarrow> (indicator_key \<times> indicator_row) list" where
  "stored_indicators k db = filter (\<lambda>((sid, ts), r). sid = k) (db_indicators db)"

definition stored_signals :: "int \<Rightarrow> db \<Rightarrow> signal_row list" where
  "stored_signals k db = filter (\<lambda>r. gr_symbol_id r = k) (map snd (lg_rows (db_signals db)))"

definition stored_events :: "int \<Rightarrow> db \<Rightarrow> market_event_row list" where
  "stored_events k db = filter (\<lambda>r. vr_symbol_id r = k) (map snd (lg_rows (db_events db)))"

text \<open>The share while no batch is written: the indicator rows are then all in the buffer of the writer.\<close>

definition live_view :: "int \<Rightarrow> indicator_row writer \<times> db \<Rightarrow> _" where
  "live_view k w = (filter (\<lambda>r. ir_symbol_id r = k) (bw_buffer (fst w)), symbol_exists k (snd w),
     stored_signals k (snd w), stored_events k (snd w))"

text \<open>The store with the registry's answers fixed.\<close>

definition fixed_backend :: "(string \<Rightarrow> int option) \<Rightarrow> (indicator_row writer \<times> db) backend" where
  "fixed_backend ids = live_backend\<lparr>bk_get_id := \<lambda>base w. (Inr (ids base), w)\<rparr>"

lemma live_insert_signal:
  "bk_insert_signal live_backend row (b, db) = (if int32 (gr_symbol_id row) \<and> int16 (gr_confidence row) \<and>
       list_all (\<lambda>c. component_json (snd c)) (gr_components row)
     then if symbol_exists (gr_symbol_id row) db
       then (Inr (), (b, db\<lparr>db_signals := (db_signals db)\<lparr>lg_next := lg_next (db_signals db) + 1, lg_rows := lg_rows (db_signals db) @ [(lg_next (db_signals db), row)]\<rparr>\<rparr>))
       else (Inl foreign_key_violation, (b, db\<lparr>db_signals := (db_signals db)\<lparr>lg_next := lg_next (db_signals db) + 1\<rparr>\<rparr>))
     else (Inl data_error, (b, db)))"
  by (simp add: live_backend_def insert_signal_def append_row_def references_def Let_def)

lemma live_insert_event:
  "bk_insert_event live_backend row (b, db) = (if int32 (vr_symbol_id row) \<and> int16 (vr_severity row) \<and>
       list_all (\<lambda>c. payload_json (snd c)) (vr_payload row)
     then if symbol_exists (vr_symbol_id row) db
       then (Inr (), (b, db\<lparr>db_events := (db_events db)\<lparr>lg_next := lg_next (db_events db) + 1, lg_rows := lg_rows (db_events db) @ [(lg_next (db_events db), row)]\<rparr>\<rparr>))
       else (Inl foreign_key_violation, (b, db\<lparr>db_events := (db_events db)\<lparr>lg_next := lg_next (db_events db) + 1\<rparr>\<rparr>))
     else (Inl data_error, (b, db)))"
  by (simp add: live_backend_def insert_event_def append_row_def references_def Let_def)

lemma live_add_indicator: "bk_add_indicator live_backend row (b, db) = (Inr (), (writer_add row b, db))"
  by (simp add: live_backend_def)

lemmas live_ops = live_insert_signal live_insert_event live_add_indicator

lemma get_id_ops:
  "bk_get_id live_backend base (b, db) = (Inr (get_id base db), (b, db))"
  "bk_get_id (fixed_backend ids) base w = (Inr (ids base), w)"
  by (simp_all add: live_backend_def fixed_backend_def)

lemma fixed_ops:
  "bk_insert_signal (fixed_backend ids) = bk_insert_signal live_backend"
  "bk_insert_event (fixed_backend ids) = bk_insert_event live_backend"
  "bk_add_indicator (fixed_backend ids) = bk_add_indicator live_backend"
  by (simp_all add: fixed_backend_def)

interpretation live_store: resolving_store "fixed_backend ids" live_view ids for ids
proof unfold_locales
  show "partitioned ir_symbol_id (bk_add_indicator (fixed_backend ids)) live_view"
    unfolding fixed_ops partitioned_def by (auto simp: live_ops live_view_def writer_add_def Let_def)
  show "partitioned gr_symbol_id (bk_insert_signal (fixed_backend ids)) live_view"
    unfolding fixed_ops partitioned_def by (auto simp: live_ops live_view_def stored_signals_def stored_events_def symbol_exists_def)
  show "partitioned vr_symbol_id (bk_insert_event (fixed_backend ids)) live_view"
    unfolding fixed_ops partitioned_def by (auto simp: live_ops live_view_def stored_signals_def stored_events_def symbol_exists_def)
  show "bk_get_id (fixed_backend ids) base w = (Inr (ids base), w)" for base w
    by (simp add: fixed_backend_def)
qed

section \<open>The registry does not move while candles are handled\<close>

lemma insert_all_symbols:
  assumes "\<And>row w. db_symbols (snd (snd (put row w))) = db_symbols (snd w)"
  shows "db_symbols (snd (snd (snd (insert_all put count rows s)))) = db_symbols (snd (snd s))"
proof (induction rows arbitrary: s)
  case (Cons row rows)
  then show ?case using assms by (cases s) (auto simp: attempt_def split_beta split: sum.split)
qed simp

lemma live_symbols:
  "db_symbols (snd (snd (bk_insert_signal live_backend srow w))) = db_symbols (snd w)"
  "db_symbols (snd (snd (bk_insert_event live_backend erow w))) = db_symbols (snd w)"
  "db_symbols (snd (snd (bk_add_indicator live_backend irow w))) = db_symbols (snd w)"
  by (cases w; simp add: live_ops)+

lemma analyze_symbols:
  "db_symbols (snd (snd (snd (analyze_events live_backend sid ts sn s)))) = db_symbols (snd (snd s))"
  "db_symbols (snd (snd (snd (analyze_signals live_backend sid ts sn t s)))) = db_symbols (snd (snd s))"
  by (cases s; auto simp: analyze_events_def analyze_signals_def Let_def split_beta insert_all_symbols live_symbols
      intro!: attempt_keeps [where P = "\<lambda>s'. db_symbols (snd (snd s')) = _"])+

lemma process_candle_symbols: "db_symbols (snd (snd (snd (process_candle live_backend logf sid c s)))) = db_symbols (snd (snd s))"
  by (cases s) (auto simp: process_candle_def Let_def split_beta analyze_symbols live_symbols
      intro!: attempt_keeps [where P = "\<lambda>s'. db_symbols (snd (snd s')) = _"])

lemma process_candle_fixed: "process_candle (fixed_backend ids) logf sid c s = process_candle live_backend logf sid c s"
  by (simp only: process_candle_def analyze_events_def analyze_signals_def fixed_ops)

lemma handle_candle_fixed:
  assumes "\<forall>base. get_id base (snd (snd s)) = ids base"
  shows "handle_candle live_backend logf c s = handle_candle (fixed_backend ids) logf c s"
    and "db_symbols (snd (snd (snd (handle_candle live_backend logf c s)))) = db_symbols (snd (snd s))"
proof -
  obtain e b db where s: "s = (e, (b, db))" by (metis surj_pair)
  obtain q e1 b1 where q: "resolve_symbol_id live_backend (cd_symbol c) s = (q, (e1, (b1, db)))"
    "resolve_symbol_id (fixed_backend ids) (cd_symbol c) s = (q, (e1, (b1, db)))"
    using assms s by (cases "en_symbol_ids e (cd_symbol c)"; cases "ids (cd_symbol c)") (auto simp: resolve_symbol_id_def get_id_ops)
  show "handle_candle live_backend logf c s = handle_candle (fixed_backend ids) logf c s"
    by (simp add: handle_candle_def q process_candle_fixed)
  show "db_symbols (snd (snd (snd (handle_candle live_backend logf c s)))) = db_symbols (snd (snd s))"
    using q(1) by (auto simp: handle_candle_def s process_candle_symbols attempt_def split: sum.split option.split)
qed

lemma run_fixed:
  "\<forall>base. get_id base (snd (snd s)) = ids base \<Longrightarrow>
    run_all (handle_candle live_backend logf) cs s = run_all (handle_candle (fixed_backend ids) logf) cs s"
proof (induction cs arbitrary: s)
  case (Cons c cs)
  have "\<forall>base. get_id base (snd (snd (snd (handle_candle live_backend logf c s)))) = ids base"
    using handle_candle_fixed(2) [OF Cons.prems, of logf c] Cons.prems by (simp only: get_id_def simp_thms)
  from Cons.IH [OF this] show ?case using handle_candle_fixed(1) [OF Cons.prems, of logf c] by (simp add: split_beta)
qed simp

section \<open>Symbols in the live store\<close>

text \<open>The candles alone, before any batch is written.\<close>

definition live_run ::
  "(pyfloat \<Rightarrow> pyfloat res) \<Rightarrow> candle list \<Rightarrow> engine \<times> (indicator_row writer \<times> db) \<Rightarrow> engine \<times> (indicator_row writer \<times> db)" where
  "live_run logf cs s = snd (run_all (handle_candle live_backend logf) cs s)"

lemma emit_live:
  "emit_candle (analytics_consumers logf) c s = snd (handle_candle live_backend logf c s)"
  "emit_snapshot (analytics_consumers logf) rows (e, w) = (snd (handle_snapshot rows e), w)"
  by (simp_all add: emit_candle_def emit_snapshot_def analytics_consumers_def on_candle_close_def on_market_snapshot_def consumers_new_def
      split_beta)

lemma live_run_snoc: "live_run logf (cs @ [c]) s = snd (handle_candle live_backend logf c (live_run logf cs s))"
  by (simp add: live_run_def run_all_snoc_state)

lemma live_run_registry:
  assumes "cache_ok ids (fst s)" "\<forall>base. get_id base (snd (snd s)) = ids base"
  shows "cache_ok ids (fst (live_run logf cs s)) \<and> (\<forall>base. get_id base (snd (snd (live_run logf cs s))) = ids base)"
proof (induction cs rule: rev_induct)
  case (snoc c cs)
  let ?s = "live_run logf cs s"
  have "cache_ok ids (fst (snd (handle_candle live_backend logf c ?s)))"
    using live_store.handle_candle_cache [of ids ?s logf c] handle_candle_fixed(1) [of ?s ids logf c] snoc by simp
  moreover have "get_id base (snd (snd (snd (handle_candle live_backend logf c ?s)))) = get_id base (snd (snd ?s))" for base
    using handle_candle_fixed(2) [of ?s ids logf c] snoc by (simp add: get_id_def)
  ultimately show ?case using snoc by (simp add: live_run_snoc)
qed (use assms in \<open>simp add: live_run_def\<close>)

text \<open>Handling a candle does not look at the writer: it only adds rows to it, of the symbol the candle resolves to.\<close>

definition writer_blind :: "(indicator_row \<Rightarrow> bool) \<Rightarrow> (engine \<times> (indicator_row writer \<times> db) \<Rightarrow> 'a res \<times> (engine \<times> (indicator_row writer \<times> db))) \<Rightarrow> bool" where
  "writer_blind P f \<longleftrightarrow> (\<forall>e db. \<exists>r e' db' rows. db_indicators db' = db_indicators db \<and> list_all P rows \<and>
     (\<forall>b. f (e, (b, db)) = (r, (e', (fold writer_add rows b, db')))))"

lemma writer_blindI:
  "(\<And>e db. \<exists>r e' db' rows. db_indicators db' = db_indicators db \<and> list_all P rows \<and>
     (\<forall>b. f (e, (b, db)) = (r, (e', (fold writer_add rows b, db'))))) \<Longrightarrow> writer_blind P f"
  by (simp add: writer_blind_def)

lemma writer_blindE:
  assumes "writer_blind P f"
  obtains r e' db' rows where "db_indicators db' = db_indicators db" "list_all P rows"
    "\<And>b. f (e, (b, db)) = (r, (e', (fold writer_add rows b, db')))"
  using assms unfolding writer_blind_def by metis

lemma blind_then:
  assumes "writer_blind P f" "\<And>x. writer_blind P (g x)"
  shows "writer_blind P (\<lambda>s. let (r, s1) = f s in attempt r s1 (\<lambda>x. g x s1))"
proof (rule writer_blindI)
  fix e db
  obtain r e1 db1 rows where f: "db_indicators db1 = db_indicators db" "list_all P rows"
    "\<And>b. f (e, (b, db)) = (r, (e1, (fold writer_add rows b, db1)))"
    using writer_blindE [OF assms(1)] by metis
  show "\<exists>r e' db' rows. db_indicators db' = db_indicators db \<and> list_all P rows \<and>
      (\<forall>b. (let (r, s1) = f (e, (b, db)) in attempt r s1 (\<lambda>x. g x s1)) = (r, (e', (fold writer_add rows b, db'))))"
  proof (cases r)
    case (Inl x)
    then show ?thesis using f by (intro exI [of _ "Inl x"] exI [of _ e1] exI [of _ db1] exI [of _ rows]) simp
  next
    case (Inr x)
    obtain r2 e2 db2 rows2 where g: "db_indicators db2 = db_indicators db1" "list_all P rows2"
      "\<And>b. g x (e1, (b, db1)) = (r2, (e2, (fold writer_add rows2 b, db2)))"
      using writer_blindE [OF assms(2)] by metis
    show ?thesis using f g Inr
      by (intro exI [of _ r2] exI [of _ e2] exI [of _ db2] exI [of _ "rows @ rows2"]) simp
  qed
qed

lemma blind_pure: "(\<And>e w. f (e, w) = (r e (snd w), (h e (snd w), w))) \<Longrightarrow> writer_blind P f"
proof (rule writer_blindI)
  fix e db
  assume f: "\<And>e w. f (e, w) = (r e (snd w), (h e (snd w), w))"
  show "\<exists>r e' db' rows. db_indicators db' = db_indicators db \<and> list_all P rows \<and>
      (\<forall>b. f (e, (b, db)) = (r, (e', (fold writer_add rows b, db'))))"
    by (intro exI [of _ "r e db"] exI [of _ "h e db"] exI [of _ db] exI [of _ "[]"]) (simp add: f)
qed

lemma blind_insert_all:
  assumes "\<And>row db. \<exists>r db'. db_indicators db' = db_indicators db \<and> (\<forall>b. put row (b, db) = (r, (b, db')))"
  shows "writer_blind P (insert_all put count rows)"
proof (induction rows)
  case Nil
  show ?case by (rule blind_pure [where r = "\<lambda>_ _. Inr ()" and h = "\<lambda>e _. e"]) simp
next
  case (Cons row rows)
  let ?f = "\<lambda>s. case s of (e, w) \<Rightarrow> let (r, w1) = put row w in (r, (if r = Inr () then count e else e, w1))"
  have "writer_blind P ?f"
  proof (rule writer_blindI)
    fix e db
    obtain r db' where "db_indicators db' = db_indicators db" "\<And>b. put row (b, db) = (r, (b, db'))" using assms by metis
    then show "\<exists>r e' db' rows. db_indicators db' = db_indicators db \<and> list_all P rows \<and>
        (\<forall>b. ?f (e, (b, db)) = (r, (e', (fold writer_add rows b, db'))))"
      by (intro exI [of _ r] exI [of _ "if r = Inr () then count e else e"] exI [of _ db'] exI [of _ "[]"]) simp
  qed
  from blind_then [OF this Cons.IH]
  have "writer_blind P (\<lambda>s. let (r, s1) = ?f s in attempt r s1 (\<lambda>_. insert_all put count rows s1))" .
  moreover have "insert_all put count (row # rows) s = (let (r, s1) = ?f s in attempt r s1 (\<lambda>_. insert_all put count rows s1))" for s
    by (cases s) (auto simp: attempt_def split: prod.split sum.split)
  ultimately show ?case by (simp add: writer_blind_def)
qed

lemma blind_put:
  "\<exists>r db'. db_indicators db' = db_indicators db \<and> (\<forall>b. bk_insert_signal live_backend srow (b, db) = (r, (b, db')))"
  "\<exists>r db'. db_indicators db' = db_indicators db \<and> (\<forall>b. bk_insert_event live_backend erow (b, db) = (r, (b, db')))"
  by (intro exI [of _ "rbind (fst (insert_signal srow db)) (\<lambda>_. Inr ())"] exI [of _ "snd (insert_signal srow db)"],
      simp add: live_backend_def insert_signal_def split_beta)
    (intro exI [of _ "rbind (fst (insert_event erow db)) (\<lambda>_. Inr ())"] exI [of _ "snd (insert_event erow db)"],
      simp add: live_backend_def insert_event_def split_beta)

lemma blind_inserts:
  "writer_blind P (insert_all (bk_insert_signal live_backend) count srows)"
  "writer_blind P (insert_all (bk_insert_event live_backend) count erows)"
  by (rule blind_insert_all, rule blind_put)+

text \<open>Steps that only compute on the engine, and what may raise on the way.\<close>

lemma blind_attempt:
  assumes "\<And>x. r = Inr x \<Longrightarrow> writer_blind P (k x)"
  shows "\<exists>r' e' db' rows. db_indicators db' = db_indicators db \<and> list_all P rows \<and>
    (\<forall>b. attempt r (e, (b, db)) (\<lambda>x. k x (e2, (b, db))) = (r', (e', (fold writer_add rows b, db'))))"
proof (cases r)
  case (Inl x)
  then show ?thesis by (intro exI [of _ "Inl x"] exI [of _ e] exI [of _ db] exI [of _ "[]"]) simp
next
  case (Inr x)
  then show ?thesis using assms [of x] unfolding writer_blind_def by fastforce
qed

lemma blind_signals: "writer_blind P (analyze_signals live_backend sid ts sn t)"
proof (rule writer_blindI)
  fix e :: engine and db :: db
  obtain out se where ev: "evaluate_signals (en_settings e) sid sn t (en_signals e) = (out, se)" by fastforce
  show "\<exists>r e' db' rows. db_indicators db' = db_indicators db \<and> list_all P rows \<and>
      (\<forall>b. analyze_signals live_backend sid ts sn t (e, (b, db)) = (r, (e', (fold writer_add rows b, db'))))"
  proof (cases "enable_signals (en_settings e)")
    case True
    have "analyze_signals live_backend sid ts sn t (e, (b, db)) = attempt out (e\<lparr>en_signals := se\<rparr>, (b, db))
        (\<lambda>sigs. insert_all (bk_insert_signal live_backend) count_signal (map (signal_row_of sid ts) sigs) (e\<lparr>en_signals := se\<rparr>, (b, db)))" for b
      using True ev by (simp add: analyze_signals_def Let_def)
    then show ?thesis
      using blind_attempt [of out P "\<lambda>sigs. insert_all (bk_insert_signal live_backend) count_signal (map (signal_row_of sid ts) sigs)"
          db "e\<lparr>en_signals := se\<rparr>" "e\<lparr>en_signals := se\<rparr>"] blind_inserts(1) by simp
  next
    case False
    then show ?thesis
      by (intro exI [of _ "Inr ()"] exI [of _ e] exI [of _ db] exI [of _ "[]"]) (simp add: analyze_signals_def Let_def)
  qed
qed

lemma blind_events: "writer_blind P (analyze_events live_backend sid ts sn)"
proof (rule writer_blindI)
  fix e :: engine and db :: db
  obtain out ee where ev: "evaluate_events (en_settings e) sid sn (en_events e) = (out, ee)" by fastforce
  let ?ins = "\<lambda>evs. insert_all (bk_insert_event live_backend) count_event (map (event_row_of sid ts) evs)"
  let ?fin = "\<lambda>s. case s of (e, w) \<Rightarrow> (Inr (), (e\<lparr>en_candles_processed := en_candles_processed e + 1\<rparr>, w))"
  have "writer_blind P (\<lambda>s. let (r, s1) = ?ins evs s in attempt r s1 (\<lambda>_. ?fin s1))" for evs
    by (intro blind_then blind_inserts blind_pure [where r = "\<lambda>_ _. Inr ()" and h = "\<lambda>e _. e\<lparr>en_candles_processed := en_candles_processed e + 1\<rparr>"]) simp
  moreover have "analyze_events live_backend sid ts sn (e, (b, db)) = attempt out (e\<lparr>en_events := ee\<rparr>, (b, db))
      (\<lambda>evs. let (r, s1) = ?ins evs (e\<lparr>en_events := ee\<rparr>, (b, db)) in attempt r s1 (\<lambda>_. ?fin s1))" for b
    using ev by (simp add: analyze_events_def Let_def)
  ultimately show "\<exists>r e' db' rows. db_indicators db' = db_indicators db \<and> list_all P rows \<and>
      (\<forall>b. analyze_events live_backend sid ts sn (e, (b, db)) = (r, (e', (fold writer_add rows b, db'))))"
    using blind_attempt [of out P "\<lambda>evs s. let (r, s1) = ?ins evs s in attempt r s1 (\<lambda>_. ?fin s1)"
        db "e\<lparr>en_events := ee\<rparr>" "e\<lparr>en_events := ee\<rparr>"] by simp
qed

lemma blind_process_candle: "writer_blind (\<lambda>r. ir_symbol_id r = sid) (process_candle live_backend logf sid c)"
proof (rule writer_blindI)
  fix e :: engine and db :: db
  let ?P = "\<lambda>r. ir_symbol_id r = sid"
  let ?rest = "\<lambda>ts sn t s. let (r, s1) = analyze_signals live_backend sid ts sn t s in attempt r s1 (\<lambda>_. analyze_events live_backend sid ts sn s1)"
  let ?row = "\<lambda>ts sn t s. case s of (e, w) \<Rightarrow> let (r, w1) = bk_add_indicator live_backend (indicator_row_of sid ts sn t) w in (r, (e, w1))"
  let ?all = "\<lambda>ts sn t s. let (r, s1) = ?row ts sn t s in attempt r s1 (\<lambda>_. ?rest ts sn t s1)"
  have row: "writer_blind ?P (?row ts sn t)" for ts sn t
    by (rule writer_blindI, rule exI [of _ "Inr ()"], rule exI, rule exI, rule exI [of _ "[indicator_row_of sid ts sn t]"])
      (simp add: live_ops)
  have all: "writer_blind ?P (?all ts sn t)" for ts sn t
    by (intro blind_then row blind_signals blind_events)
  show "\<exists>r e' db' rows. db_indicators db' = db_indicators db \<and> list_all ?P rows \<and>
      (\<forall>b. process_candle live_backend logf sid c (e, (b, db)) = (r, (e', (fold writer_add rows b, db'))))"
  proof (cases "indicators_of sid e")
    case (Inl x)
    then show ?thesis
      by (intro exI [of _ "Inl x"] exI [of _ e] exI [of _ db] exI [of _ "[]"]) (simp add: process_candle_def)
  next
    case (Inr st)
    obtain out st1 where u: "symbol_indicators_update logf c st = (out, st1)" by fastforce
    let ?e1 = "set_indicators sid st1 e"
    show ?thesis
    proof (cases "rbind out compute_trend")
      case (Inl x)
      then have "process_candle live_backend logf sid c (e, (b, db)) = (Inl x, (?e1, (b, db)))" for b
        using Inr u by (cases out) (simp_all add: process_candle_def)
      then show ?thesis by (intro exI [of _ "Inl x"] exI [of _ ?e1] exI [of _ db] exI [of _ "[]"]) simp
    next
      case t: (Inr t)
      then obtain sn where sn: "out = Inr sn" "compute_trend sn = Inr t" by (cases out) auto
      let ?e2 = "note_trend sid t ?e1"
      have "process_candle live_backend logf sid c (e, (b, db)) = attempt (from_ms (cd_ts c)) (?e2, (b, db)) (\<lambda>ts. ?all ts sn t (?e2, (b, db)))" for b
        using Inr u sn by (simp add: process_candle_def live_ops Let_def)
      then show ?thesis
        using blind_attempt [of "from_ms (cd_ts c)" ?P "\<lambda>ts. ?all ts sn t" db ?e2 ?e2] all by (simp only:)
    qed
  qed
qed

lemma blind_handle_candle:
  assumes "cache_ok ids e" "\<forall>base. get_id base db = ids base"
  shows "\<exists>r e' db' rows. db_indicators db' = db_indicators db \<and> list_all (\<lambda>r. ids (cd_symbol c) = Some (ir_symbol_id r)) rows \<and>
     (\<forall>b. handle_candle live_backend logf c (e, (b, db)) = (r, (e', (fold writer_add rows b, db'))))"
proof (cases "cd_closed c")
  case True
  obtain e1 where r: "resolve_symbol_id live_backend (cd_symbol c) (e, (b, db)) = (Inr (ids (cd_symbol c)), (e1, (b, db)))" for b
    using assms by (cases "en_symbol_ids e (cd_symbol c)"; cases "ids (cd_symbol c)") (auto simp: resolve_symbol_id_def get_id_ops cache_ok_def)
  show ?thesis
  proof (cases "ids (cd_symbol c)")
    case None
    then show ?thesis using r True
      by (intro exI [of _ "Inr ()"] exI [of _ e1] exI [of _ db] exI [of _ "[]"]) (simp add: handle_candle_def)
  next
    case (Some sid)
    then show ?thesis using r True writer_blindE [OF blind_process_candle [of sid logf c], of db e1]
      by (simp add: handle_candle_def eq_commute [of sid]) metis
  qed
next
  case False
  then show ?thesis by (intro exI [of _ "Inr ()"] exI [of _ e] exI [of _ db] exI [of _ "[]"]) (simp add: handle_candle_def)
qed

section \<open>The service against the candles alone\<close>

abbreviation put_indicator :: "indicator_row \<Rightarrow> (indicator_key \<times> indicator_row) list \<Rightarrow> (indicator_key \<times> indicator_row) list" where
  "put_indicator r \<equiv> alput (indicator_key_of r) r"

definition live_ok ::
  "(pyfloat \<Rightarrow> pyfloat res) \<Rightarrow> engine \<times> (indicator_row writer \<times> db) \<Rightarrow> live_label list \<Rightarrow> indicator_row label list \<Rightarrow> engine \<times> (indicator_row writer \<times> db) \<Rightarrow> bool" where
  "live_ok logf s0 tr wtr s \<longleftrightarrow>
     (case s of (e, (b, db)) \<Rightarrow> let ids = (\<lambda>base. get_id base (snd (snd s0))); handed = concat (map added_items wtr) in
      cache_ok ids e \<and> db_symbols db = db_symbols (snd (snd s0)) \<and> writer_ok wtr b \<and>
      list_all (\<lambda>r. \<exists>base. ids base = Some (ir_symbol_id r)) handed \<and>
      db_indicators db = fold put_indicator (concat (map written_rows wtr)) (db_indicators (snd (snd s0))) \<and>
      (\<forall>k. state_view live_view k (e, (b\<lparr>bw_buffer := handed\<rparr>, db)) = state_view live_view k (live_run logf (concat (map fed_candles tr)) s0)))"

lemma get_id_same: "db_symbols db = db_symbols db' \<Longrightarrow> get_id base db = get_id base db'"
  by (simp add: get_id_def)

lemma live_view_writer:
  "bw_buffer b = bw_buffer b' \<Longrightarrow> live_view k (b, db) = live_view k (b', db)"
  by (simp add: live_view_def)

lemma fold_add_buffer: "bw_buffer (fold writer_add rows b) = bw_buffer b @ rows"
  by (induction rows arbitrary: b) (simp_all add: writer_add_def Let_def)

lemma writer_ok_fold:
  "writer_ok wtr b \<Longrightarrow> writer_ok (wtr @ map (\<lambda>r. Added [r]) rows) (fold writer_add rows b)"
proof (induction rows arbitrary: wtr b)
  case (Cons r rows)
  have "writer_ok (wtr @ [Added [r]]) (writer_add r b)"
    using writer_ok_step [OF writer_step.adding [of "\<lambda>_ w. (Inr (), w)" b "()" r]] Cons.prems by simp
  from Cons.IH [OF this] show ?case by simp
qed simp

lemma added_rows:
  "concat (map (added_items \<circ> (\<lambda>r. Added [r])) rows) = rows" "concat (map (written_rows \<circ> (\<lambda>r. Added [r])) rows) = []"
  by (induction rows) simp_all

lemma handle_candle_views:
  assumes "cache_ok ids (fst s)" "cache_ok ids (fst s')" "\<forall>base. get_id base (snd (snd s)) = ids base"
    "\<forall>base. get_id base (snd (snd s')) = ids base" "state_view live_view k s = state_view live_view k s'"
  shows "state_view live_view k (snd (handle_candle live_backend logf c s)) = state_view live_view k (snd (handle_candle live_backend logf c s'))"
  using live_store.handle_candle_own [OF assms(1,2) _ assms(5), of c logf] live_store.handle_candle_foreign [OF assms(1), of k c logf]
    live_store.handle_candle_foreign [OF assms(2), of k c logf] assms(5) handle_candle_fixed(1) [OF assms(3)] handle_candle_fixed(1) [OF assms(4)]
  by (cases "belongs ids k c") simp_all

lemma live_ok_fed:
  assumes "live_ok logf s0 tr wtr s" "cache_ok (\<lambda>base. get_id base (snd (snd s0))) (fst s0)"
  shows "\<exists>wtr'. live_ok logf s0 (tr @ [Fed c]) wtr' (emit_candle (analytics_consumers logf) c s)"
proof -
  let ?ids = "\<lambda>base. get_id base (snd (snd s0))"
  obtain e b db where s: "s = (e, (b, db))" by (metis surj_pair)
  let ?hs = "concat (map added_items wtr)"
  let ?v = "(e, (b\<lparr>bw_buffer := ?hs\<rparr>, db))"
  have ok: "cache_ok ?ids e" "db_symbols db = db_symbols (snd (snd s0))" "writer_ok wtr b"
    "\<And>k. state_view live_view k ?v = state_view live_view k (live_run logf (concat (map fed_candles tr)) s0)"
    using assms(1) s by (simp_all add: live_ok_def Let_def)
  have ids: "\<forall>base. get_id base db = ?ids base" using get_id_same [OF ok(2)] by simp
  obtain r e' db' rows where h: "db_indicators db' = db_indicators db" "list_all (\<lambda>r. ?ids (cd_symbol c) = Some (ir_symbol_id r)) rows"
    "\<And>bx. handle_candle live_backend logf c (e, (bx, db)) = (r, (e', (fold writer_add rows bx, db')))"
    using blind_handle_candle [OF ok(1) ids, of c logf] by metis
  have fixed: "handle_candle (fixed_backend ?ids) logf c (e, (b, db)) = (r, (e', (fold writer_add rows b, db')))"
    using handle_candle_fixed(1) [of "(e, (b, db))" ?ids logf c] ids h(3) [of b] by simp
  have moved: "cache_ok ?ids e'" "db_symbols db' = db_symbols db"
    using live_store.handle_candle_cache [of ?ids "(e, (b, db))" logf c] handle_candle_fixed(2) [of "(e, (b, db))" ?ids logf c] ok(1) ids h(3) [of b] fixed
    by simp_all
  let ?wtr = "wtr @ map (\<lambda>r. Added [r]) rows"
  have "state_view live_view k (e', ((fold writer_add rows b)\<lparr>bw_buffer := ?hs @ rows\<rparr>, db')) =
      state_view live_view k (live_run logf (concat (map fed_candles tr) @ [c]) s0)" for k
  proof -
    have "state_view live_view k (e', ((fold writer_add rows b)\<lparr>bw_buffer := ?hs @ rows\<rparr>, db')) =
        state_view live_view k (snd (handle_candle live_backend logf c ?v))"
      unfolding h(3) state_view_def fst_conv snd_conv prod.inject by (intro conjI refl live_view_writer) (simp add: fold_add_buffer)
    also have "\<dots> = state_view live_view k (snd (handle_candle live_backend logf c (live_run logf (concat (map fed_candles tr)) s0)))"
      using live_run_registry [OF assms(2), of logf "concat (map fed_candles tr)"] ok(1) ids
      by (intro handle_candle_views [where ids = ?ids] ok(4)) simp_all
    finally show ?thesis by (simp add: live_run_snoc)
  qed
  moreover have "list_all (\<lambda>r. \<exists>base. ?ids base = Some (ir_symbol_id r)) rows" using h(2) by (auto simp: list_all_iff)
  ultimately have "live_ok logf s0 (tr @ [Fed c]) ?wtr (e', (fold writer_add rows b, db'))"
    using assms(1) writer_ok_fold [OF ok(3), of rows] moved h(1) s by (simp add: live_ok_def Let_def added_rows)
  then show ?thesis using s h(3) [of b] by (auto simp: emit_live)
qed

text \<open>Snapshots and the regime task leave the share of every symbol alone.\<close>

lemma handle_snapshot_view:
  "engine_view k (snd (handle_snapshot rows e)) = engine_view k e" "en_symbol_ids (snd (handle_snapshot rows e)) = en_symbol_ids e"
  by (auto simp: handle_snapshot_def Let_def split_beta engine_view_def attempt_def split: sum.split)

lemma insert_memory_frame:
  "db_symbols (snd (insert_memory row db)) = db_symbols db" "db_indicators (snd (insert_memory row db)) = db_indicators db"
  "db_signals (snd (insert_memory row db)) = db_signals db" "db_events (snd (insert_memory row db)) = db_events db"
  by (simp_all add: insert_memory_def split_beta)

definition keeps_share :: "engine \<times> (indicator_row writer \<times> db) \<Rightarrow> engine \<times> (indicator_row writer \<times> db) \<Rightarrow> bool" where
  "keeps_share s s' \<longleftrightarrow> fst (snd s') = fst (snd s) \<and> en_symbol_ids (fst s') = en_symbol_ids (fst s) \<and>
     (\<forall>k. engine_view k (fst s') = engine_view k (fst s)) \<and> db_symbols (snd (snd s')) = db_symbols (snd (snd s)) \<and>
     db_indicators (snd (snd s')) = db_indicators (snd (snd s)) \<and> db_signals (snd (snd s')) = db_signals (snd (snd s)) \<and>
     db_events (snd (snd s')) = db_events (snd (snd s))"

lemma keeps_share_simps [simp]:
  "keeps_share s s"
  "keeps_share (e, (b, db)) (e, (b, snd (insert_memory row db)))"
  "keeps_share (e, (b, db)) (e\<lparr>en_regime_refresh_count := n\<rparr>, (b, snd (insert_memory row db)))"
  by (simp_all add: keeps_share_def insert_memory_frame engine_view_def)

lemma refresh_regime_share: "keeps_share (e, (b, db)) (snd (refresh_regime live_backend now (e, (b, db))))"
  by (auto simp: refresh_regime_def Let_def split_beta live_backend_def split: option.split
      intro!: attempt_keeps [where P = "keeps_share (e, (b, db))"])

lemma indicator_sink_cases:
  assumes "indicator_repository_sink rows db = (r, db')"
  shows "db_symbols db' = db_symbols db \<and> db_signals db' = db_signals db \<and> db_events db' = db_events db \<and>
    db_indicators db' = fold put_indicator (if r = Inr () then rows else []) (db_indicators db)"
  using assms by (auto simp: indicator_repository_sink_def upsert_indicators_def upsert_rows_Inr split: if_splits sum.splits)

lemma live_ok_share:
  assumes "live_ok logf s0 tr wtr s" "keeps_share s s'" "fed_candles l = []"
  shows "live_ok logf s0 (tr @ [l]) wtr s'"
proof -
  obtain e b db e' b' db' where s: "s = (e, (b, db))" "s' = (e', (b', db'))" by (metis surj_pair)
  have "live_view k (w, db') = live_view k (w, db)" for k w
    using assms(2) s by (simp add: live_view_def keeps_share_def stored_signals_def stored_events_def symbol_exists_def)
  then show ?thesis using assms s by (simp add: live_ok_def keeps_share_def cache_ok_def state_view_def Let_def)
qed

lemma live_ok_wrote:
  assumes "live_ok logf s0 tr wtr (e, (b, db))" "writer_step indicator_repository_sink (b, db) l (b', db')" "\<forall>rows. l \<noteq> Added rows"
  shows "live_ok logf s0 (tr @ [Wrote_rows l]) (wtr @ [l]) (e, (b', db'))"
proof -
  have add: "added_items l = []" using assms(3) by (cases l) auto
  have db': "db_symbols db' = db_symbols db \<and> db_signals db' = db_signals db \<and> db_events db' = db_events db \<and>
      db_indicators db' = fold put_indicator (written_rows l) (db_indicators db)"
    using assms(2)
  proof cases
    case (flushed r)
    then show ?thesis using indicator_sink_cases [of "bw_in_flight b" db r db'] by (cases r) simp_all
  qed (use assms(3) in auto)
  then have view: "live_view k (w, db') = live_view k (w, db)" for k w
    by (simp add: live_view_def stored_signals_def stored_events_def symbol_exists_def)
  have "live_view k (b'\<lparr>bw_buffer := hs\<rparr>, db') = live_view k (b\<lparr>bw_buffer := hs\<rparr>, db)" for k hs
    unfolding view by (rule live_view_writer) simp
  moreover have "writer_ok (wtr @ [l]) b'"
    using writer_ok_step [OF assms(2), of wtr] assms(1) by (simp add: live_ok_def Let_def)
  ultimately show ?thesis using assms(1) add db' by (simp add: live_ok_def state_view_def Let_def)
qed

lemma live_service_ok:
  assumes "live_service logf s0 tr s" "cache_ok (\<lambda>base. get_id base (snd (snd s0))) (fst s0)" "fst (snd s0) = writer_new m"
  shows "\<exists>wtr. live_ok logf s0 tr wtr s"
  using assms(1)
proof induction
  case up
  have "live_ok logf s0 [] [] s0"
    using assms(2,3) by (cases s0) (auto simp: live_ok_def writer_ok_def writer_new_def live_run_def Let_def)
  then show ?case by blast
next
  case (more tr s1 l s2)
  then obtain wtr where ok: "live_ok logf s0 tr wtr s1" by blast
  show ?case using more.hyps(2)
  proof cases
    case (fed c)
    then show ?thesis using live_ok_fed [OF ok assms(2)] by simp
  next
    case (quoted rows)
    have "keeps_share s1 s2" using quoted by (cases s1) (simp add: emit_live keeps_share_def handle_snapshot_view)
    then show ?thesis using live_ok_share [OF ok, of s2 l] quoted by auto
  next
    case (refreshed now)
    have "keeps_share s1 s2" unfolding refreshed(2) by (cases s1) (simp only: refresh_regime_share)
    then show ?thesis using live_ok_share [OF ok, of s2 l] refreshed by auto
  next
    case (wrote_rows b db wl b' db' e)
    then show ?thesis using live_ok_wrote [of logf s0 tr wtr e b db wl b' db'] ok by blast
  qed
qed

lemma setup_live:
  assumes "bases_normal db" "analytics_setup cfg db = (Inr (e0, b0), db0)"
  shows "cache_ok (\<lambda>base. get_id base db0) e0" "b0 = writer_new (indicator_batch_max_size cfg)"
proof -
  obtain ids where ids: "seed_registry cfg db = (Inr ids, db0)" "\<forall>(b, i) \<in> set ids. get_id b db0 = Some i"
    using seeding_facts [OF assms(1), of cfg] assms(2) by (cases "seed_registry cfg db") (auto simp: analytics_setup_def)
  have "get_id base db0 = Some sid" if "map_of ids base = Some sid" for base sid
    using ids(2) map_of_SomeD [OF that] by blast
  then show "cache_ok (\<lambda>base. get_id base db0) e0" "b0 = writer_new (indicator_batch_max_size cfg)"
    using assms(2) ids(1) by (auto simp: analytics_setup_def cache_ok_def engine_new_def)
qed

text \<open>The rows of one symbol in the table are those of the batches.\<close>

lemma stored_put:
  "filter (\<lambda>((sid, ts), r). sid = k) (put_indicator row t) =
     (if ir_symbol_id row = k then put_indicator row (filter (\<lambda>((sid, ts), r). sid = k) t) else filter (\<lambda>((sid, ts), r). sid = k) t)"
  by (induction t) (auto simp: indicator_key_of_def)

lemma stored_fold:
  "filter (\<lambda>((sid, ts), r). sid = k) (fold put_indicator rows t) =
     fold put_indicator (filter (\<lambda>r. ir_symbol_id r = k) rows) (filter (\<lambda>((sid, ts), r). sid = k) t)"
  by (induction rows arbitrary: t) (simp_all add: stored_put)

lemma accepted_rows:
  "filter (\<lambda>r. r \<noteq> Inr ()) (concat (map outcome tr)) = [] \<Longrightarrow> concat (map written_rows tr) = concat (map flushed_items tr)"
proof (induction tr)
  case (Cons l tr)
  then show ?case by (cases l; cases "case l of Flushed rows r \<Rightarrow> r | _ \<Rightarrow> Inr ()") auto
qed simp

text \<open>Nothing is waiting in the writer, and no batch was refused.\<close>

definition drained :: "'r writer \<Rightarrow> bool" where
  "drained b \<longleftrightarrow> bw_buffer b = [] \<and> bw_in_flight b = [] \<and> bw_error_count b = 0"

lemma drained_rows:
  assumes "live_ok logf s0 tr wtr (e, (b, db))" "drained b"
  shows "stored_indicators k db = fold put_indicator (filter (\<lambda>r. ir_symbol_id r = k) (concat (map added_items wtr))) (stored_indicators k (snd (snd s0)))"
proof -
  have "writer_ok wtr b" using assms(1) by (simp add: live_ok_def Let_def)
  then have "concat (map written_rows wtr) = concat (map added_items wtr)"
    using assms(2) accepted_rows [of wtr] by (simp add: writer_ok_def drained_def)
  then show ?thesis using assms(1) by (simp add: live_ok_def Let_def stored_indicators_def stored_fold)
qed

text \<open>
  C18: symbols do not disturb each other in the live database. Take two runs of the analytics service from the same seeded
  database, with any snapshots, regime refreshes and any interleaving of the batch writer, where the second run is fed only
  the closed candles of one symbol id among those that the first is fed. Then the tables hold the same signals and events for
  that id, in the same order, and the engine the same state, whatever was refused for any symbol on the way; and once both
  writers are drained without a refused batch, the table holds the same indicator rows for it. (A refused batch of indicators
  is lost for all the symbols it mixes.)
\<close>

theorem live_rows_isolated:
  assumes "bases_normal db" "analytics_setup cfg db = (Inr (e0, b0), db0)"
    and "live_service logf (e0, (b0, db0)) tr (e, (b, d))" "live_service logf (e0, (b0, db0)) alone (e', (b', d'))"
    and "concat (map fed_candles alone) = filter (belongs (\<lambda>base. get_id base db0) k) (concat (map fed_candles tr))"
  shows "stored_signals k d' = stored_signals k d \<and> stored_events k d' = stored_events k d \<and> engine_view k e' = engine_view k e \<and>
    (drained b \<and> drained b' \<longrightarrow> stored_indicators k d' = stored_indicators k d)"
proof -
  let ?ids = "\<lambda>base. get_id base db0" and ?s0 = "(e0, (b0, db0))"
  note start = setup_live [OF assms(1,2)]
  have c: "cache_ok (\<lambda>base. get_id base (snd (snd ?s0))) (fst ?s0)" "fst (snd ?s0) = writer_new (indicator_batch_max_size cfg)"
    using start by simp_all
  obtain wtr where wtr: "live_ok logf ?s0 tr wtr (e, (b, d))" using live_service_ok [OF assms(3) c] by blast
  obtain wtr' where wtr': "live_ok logf ?s0 alone wtr' (e', (b', d'))" using live_service_ok [OF assms(4) c] by blast
  have iso: "state_view live_view k (live_run logf (concat (map fed_candles tr)) ?s0) =
      state_view live_view k (live_run logf (concat (map fed_candles alone)) ?s0)"
    using live_store.run_isolated [of ?ids ?s0 ?s0 k logf "concat (map fed_candles tr)"] start(1) assms(5)
    by (simp add: live_run_def run_fixed [of _ ?ids])
  have view: "state_view live_view k (e', (b'\<lparr>bw_buffer := concat (map added_items wtr')\<rparr>, d')) =
      state_view live_view k (e, (b\<lparr>bw_buffer := concat (map added_items wtr)\<rparr>, d))"
    using wtr wtr' iso by (simp add: live_ok_def Let_def)
  then have rows: "filter (\<lambda>r. ir_symbol_id r = k) (concat (map added_items wtr')) = filter (\<lambda>r. ir_symbol_id r = k) (concat (map added_items wtr))"
    by (simp add: state_view_def live_view_def)
  show ?thesis using view drained_rows [OF wtr, of k] drained_rows [OF wtr', of k] rows by (simp add: state_view_def live_view_def)
qed

text \<open>The writer can always be drained: it wakes up, and the database accepts rows of registered ids that fit the column.\<close>

lemma live_drains:
  assumes "live_service logf (e0, (b0, db0)) tr (e, (b, d))" "live_ok logf (e0, (b0, db0)) tr wtr (e, (b, d))"
    and "bw_phase b = Waiting" "bw_running b" "bw_error_count b = 0" "\<forall>s \<in> set (db_symbols db0). int32 (se_id s)"
  shows "\<exists>more b2 d2. live_service logf (e0, (b0, db0)) (tr @ more) (e, (b2, d2)) \<and> drained b2 \<and> concat (map fed_candles more) = []"
proof -
  let ?b1 = "wake b"
  have ok: "db_symbols d = db_symbols db0" "writer_ok wtr b" "list_all (\<lambda>r. \<exists>base. get_id base db0 = Some (ir_symbol_id r)) (concat (map added_items wtr))"
    using assms(2) by (simp_all add: live_ok_def Let_def)
  then have idle: "bw_in_flight b = []" using assms(3) by (auto simp: writer_ok_def)
  have awake: "live_service logf (e0, (b0, db0)) (tr @ [Wrote_rows Silent]) (e, (?b1, d))"
    by (rule live_service.more [OF assms(1) wrote_rows [OF waking [OF assms(3)]]]) simp
  show ?thesis
  proof (cases "bw_buffer b = []")
    case True
    then have "drained ?b1" using wake_fields [OF idle] assms(4,5) by (simp add: drained_def)
    then show ?thesis using awake by (intro exI [of _ "[Wrote_rows Silent]"] exI [of _ ?b1] exI [of _ d]) simp
  next
    case False
    then have b1: "bw_phase ?b1 = Flushing" "bw_in_flight ?b1 = bw_buffer b" "bw_buffer ?b1 = []" "bw_error_count ?b1 = 0" "bw_running ?b1"
      using assms(4,5) by (simp_all add: wake_def take_batch_def Let_def)
    have "set (bw_buffer b) \<subseteq> set (concat (map added_items wtr))" using ok(2) by (auto simp: writer_ok_def)
    have "indicator_violation d r = None" if r: "r \<in> set (bw_buffer b)" for r
    proof -
      obtain base where "get_id base db0 = Some (ir_symbol_id r)"
        using ok(2,3) r by (auto simp: writer_ok_def list_all_iff simp del: set_concat)
      then obtain s where "s \<in> set (db_symbols db0)" "se_id s = ir_symbol_id r" by (auto simp: get_id_def find_Some_iff in_set_conv_nth)
      then show ?thesis using assms(6) ok(1)
        by (force simp: indicator_violation_def references_def symbol_exists_def list_ex_iff)
    qed
    then have "find (\<lambda>r. indicator_violation d r \<noteq> None) (bw_buffer b) = None" by (simp add: find_None_iff)
    then have "fst (indicator_repository_sink (bw_in_flight ?b1) d) = Inr ()"
      by (simp add: b1 indicator_repository_sink_def upsert_indicators_def upsert_rows_fold split_beta)
    then obtain d2 where sink: "indicator_repository_sink (bw_in_flight ?b1) d = (Inr (), d2)" by (metis prod.collapse)
    let ?l = "Flushed (bw_in_flight ?b1) (Inr ())"
    have "writer_step indicator_repository_sink (?b1, d) ?l (flush_done (Inr ()) ?b1, d2)"
      by (rule writer_step.flushed) (simp_all add: b1(1) sink)
    then have "live_service logf (e0, (b0, db0)) ((tr @ [Wrote_rows Silent]) @ [Wrote_rows ?l]) (e, (flush_done (Inr ()) ?b1, d2))"
      by (intro live_service.more [OF awake] wrote_rows) simp_all
    moreover have "drained (flush_done (Inr ()) ?b1)"
      using b1 by (simp add: drained_def flush_done_def after_flush_def Let_def)
    ultimately show ?thesis
      by (intro exI [of _ "[Wrote_rows Silent, Wrote_rows ?l]"] exI [of _ "flush_done (Inr ()) ?b1"] exI [of _ d2]) simp
  qed
qed

lemma fed_run:
  "live_service logf (e, (b, d)) tr s \<Longrightarrow> live_service logf (e, (b, d)) (tr @ map Fed cs) (fold (emit_candle (analytics_consumers logf)) cs s)"
proof (induction cs arbitrary: tr s)
  case (Cons c cs)
  from Cons.IH [OF live_service.more [OF Cons.prems fed [of logf s c]]] show ?case by simp
qed simp

lemma fed_writer:
  assumes "cache_ok ids (fst s)" "\<forall>base. get_id base (snd (snd s)) = ids base"
  shows "\<exists>rows. fst (snd (fold (emit_candle (analytics_consumers logf)) cs s)) = fold writer_add rows (fst (snd s))"
  using assms
proof (induction cs arbitrary: s)
  case Nil
  show ?case by (intro exI [of _ "[]"]) simp
next
  case (Cons c cs)
  obtain e b db where s: "s = (e, (b, db))" by (metis surj_pair)
  obtain r e' db' rows where h: "handle_candle live_backend logf c s = (r, (e', (fold writer_add rows b, db')))"
    using blind_handle_candle [of ids e db c logf] Cons.prems s by auto
  have "cache_ok ids e'" "\<forall>base. get_id base db' = ids base"
    using live_run_registry [OF Cons.prems, of logf "[c]"] h by (simp_all add: live_run_def)
  then obtain rows2 where "fst (snd (fold (emit_candle (analytics_consumers logf)) cs (e', (fold writer_add rows b, db')))) =
      fold writer_add rows2 (fold writer_add rows b)"
    using Cons.IH [of "(e', (fold writer_add rows b, db'))"] by auto
  moreover have "emit_candle (analytics_consumers logf) c s = (e', (fold writer_add rows b, db'))" by (simp add: emit_live h)
  ultimately show ?case using s by (intro exI [of _ "rows @ rows2"]) simp
qed

lemma fold_add_phase [simp]:
  "bw_phase (fold writer_add rows b) = bw_phase b" "bw_running (fold writer_add rows b) = bw_running b"
  "bw_error_count (fold writer_add rows b) = bw_error_count b"
  by (induction rows arbitrary: b) (simp_all add: writer_add_def Let_def)

text \<open>A run that is fed some candles and then drained.\<close>

lemma fed_and_drained:
  assumes "cache_ok (\<lambda>base. get_id base db0) e0" "b0 = writer_new m" "\<forall>s \<in> set (db_symbols db0). int32 (se_id s)"
  shows "\<exists>tr e b d. live_service logf (e0, (b0, db0)) tr (e, (b, d)) \<and> drained b \<and> concat (map fed_candles tr) = cs"
proof -
  let ?s0 = "(e0, (b0, db0))" and ?b1 = "b0\<lparr>bw_running := True, bw_phase := Waiting\<rparr>"
  let ?fin = "fold (emit_candle (analytics_consumers logf)) cs (e0, (?b1, db0))"
  have st: "writer_step indicator_repository_sink (b0, db0) Started (?b1, db0)"
    by (rule starting) (simp_all add: assms(2) writer_new_def)
  have "live_service logf ?s0 ([] @ [Wrote_rows Started]) (e0, (?b1, db0))"
    by (rule live_service.more [OF up wrote_rows [OF st]]) simp
  from fed_run [OF this] have run: "live_service logf ?s0 (Wrote_rows Started # map Fed cs) ?fin" by simp
  obtain e b d where s: "?fin = (e, (b, d))" by (metis surj_pair)
  obtain rows where rows: "b = fold writer_add rows ?b1"
    using fed_writer [of "\<lambda>base. get_id base db0" "(e0, (?b1, db0))" logf cs] assms(1) s by auto
  obtain wtr where ok: "live_ok logf ?s0 (Wrote_rows Started # map Fed cs) wtr (e, (b, d))"
    using live_service_ok [OF run, of m] assms(1,2) s by auto
  have fed: "concat (map fed_candles (Wrote_rows Started # map Fed cs)) = cs" by (induction cs) auto
  obtain more b2 d2 where "live_service logf ?s0 ((Wrote_rows Started # map Fed cs) @ more) (e, (b2, d2))" "drained b2"
    "concat (map fed_candles more) = []"
    using live_drains [OF run [unfolded s] ok _ _ _ assms(3)] rows assms(2) by (auto simp: writer_new_def)
  then show ?thesis using fed by (metis append_Nil2 concat_append map_append)
qed

definition two_symbols :: settings where
  "two_symbols = default_settings\<lparr>core_symbols := [''BTCUSDT'', ''ETHUSDT''], seed_symbols := [], meme_symbols := []\<rparr>"

definition first_bar :: "string \<Rightarrow> candle" where
  "first_bar base = \<lparr>cd_symbol = base, cd_ts = 60000, cd_open = 1, cd_high = 1, cd_low = 1, cd_close = 1, cd_volume = 1,
     cd_quote_volume = 1, cd_trades = 3, cd_closed = True, cd_taker_buy_volume = 1\<rparr>"

theorem live_rows_isolated_witness:
  "\<exists>e0 b0 db0 tr e b d alone e' b' d'. analytics_setup two_symbols (db_new 0) = (Inr (e0, b0), db0) \<and>
    live_service (\<lambda>_. Inr 0) (e0, (b0, db0)) tr (e, (b, d)) \<and> live_service (\<lambda>_. Inr 0) (e0, (b0, db0)) alone (e', (b', d')) \<and>
    concat (map fed_candles tr) = [first_bar ''BTC'', first_bar ''ETH''] \<and> concat (map fed_candles alone) = [first_bar ''ETH''] \<and>
    stored_indicators 2 d' = stored_indicators 2 d"
proof -
  have n: "normalize_symbol ''BTCUSDT'' = ''BTC''" "normalize_symbol ''ETHUSDT'' = ''ETH''" by (code_simp, code_simp)
  have u: "upper ''BTCUSDT'' = ''BTCUSDT''" "upper ''ETHUSDT'' = ''ETHUSDT''" by (code_simp, code_simp)
  obtain db0 where seeded: "seed_registry two_symbols (db_new 0) = (Inr [(''BTC'', 1), (''ETH'', 2)], db0)"
    "get_id ''BTC'' db0 = Some 1" "get_id ''ETH'' db0 = Some 2" "\<forall>s \<in> set (db_symbols db0). int32 (se_id s)"
    by (simp add: seed_registry_def build_symbol_rows_def all_symbols_def two_symbols_def seed_row_def classify_symbol_def n u
        upsert_symbol_def db_new_def symbol_check_def int16_def int32_def Let_def get_id_def has_base_def)
  obtain e0 b0 where set: "analytics_setup two_symbols (db_new 0) = (Inr (e0, b0), db0)"
    by (simp add: analytics_setup_def seeded(1))
  have norm: "bases_normal (db_new 0)" by (simp add: bases_normal_def db_new_def)
  note start = setup_live [OF norm set]
  let ?log = "\<lambda>_. Inr 0" and ?cs = "[first_bar ''BTC'', first_bar ''ETH'']"
  obtain tr e b d where tr: "live_service ?log (e0, (b0, db0)) tr (e, (b, d))" "drained b" "concat (map fed_candles tr) = ?cs"
    using fed_and_drained [OF start seeded(4), of ?log ?cs] by blast
  obtain alone e' b' d' where alone: "live_service ?log (e0, (b0, db0)) alone (e', (b', d'))" "drained b'"
    "concat (map fed_candles alone) = [first_bar ''ETH'']"
    using fed_and_drained [OF start seeded(4), of ?log "[first_bar ''ETH'']"] by blast
  have "concat (map fed_candles alone) = filter (belongs (\<lambda>base. get_id base db0) 2) (concat (map fed_candles tr))"
    using tr(3) alone(3) seeded(2,3) by (simp add: belongs_def first_bar_def)
  from live_rows_isolated [OF norm set tr(1) alone(1) this] show ?thesis using set tr alone by blast
qed

section \<open>A refused signal\<close>

definition signal_accepted :: "db \<Rightarrow> signal_row \<Rightarrow> bool" where
  "signal_accepted db row \<longleftrightarrow> (case fst (insert_signal row db) of Inl x \<Rightarrow> False | Inr i \<Rightarrow> True)"

lemma signal_accepted_iff:
  "signal_accepted db row \<longleftrightarrow> int32 (gr_symbol_id row) \<and> int16 (gr_confidence row) \<and>
     list_all (\<lambda>c. component_json (snd c)) (gr_components row) \<and> symbol_exists (gr_symbol_id row) db"
  by (auto simp: signal_accepted_def insert_signal_def append_row_def references_def Let_def)

lemma live_insert_result:
  obtains (stored) db1 where "signal_accepted db row" "bk_insert_signal live_backend row (b, db) = (Inr (), (b, db1))"
      "map snd (lg_rows (db_signals db1)) = map snd (lg_rows (db_signals db)) @ [row]" "db_events db1 = db_events db" "db_symbols db1 = db_symbols db"
  | (refused) x db1 where "\<not> signal_accepted db row" "bk_insert_signal live_backend row (b, db) = (Inl x, (b, db1))"
      "lg_rows (db_signals db1) = lg_rows (db_signals db)" "db_events db1 = db_events db"
proof (cases "int32 (gr_symbol_id row) \<and> int16 (gr_confidence row) \<and> list_all (\<lambda>c. component_json (snd c)) (gr_components row)")
  case True
  show thesis
  proof (cases "symbol_exists (gr_symbol_id row) db")
    case known: True
    show thesis by (rule stored) (simp add: signal_accepted_iff True known, simp add: live_ops True known, simp_all)
  next
    case unknown: False
    show thesis by (rule refused) (simp add: signal_accepted_iff unknown, simp add: live_ops True unknown, simp_all)
  qed
next
  case False
  show thesis by (rule refused [of data_error db]) (use False in \<open>auto simp: signal_accepted_iff live_ops\<close>)
qed

lemma insert_signals_until:
  assumes "insert_all (bk_insert_signal live_backend) count_signal rows (e, (b, db)) = (r, (e', (b', db')))"
  shows "e' = e\<lparr>en_signals_emitted := en_signals_emitted e + int (length (takeWhile (signal_accepted db) rows))\<rparr> \<and> b' = b \<and>
    map snd (lg_rows (db_signals db')) = map snd (lg_rows (db_signals db)) @ takeWhile (signal_accepted db) rows \<and>
    db_events db' = db_events db \<and> (r = Inr () \<longleftrightarrow> list_all (signal_accepted db) rows)"
  using assms
proof (induction rows arbitrary: e db)
  case (Cons row rows)
  show ?case
  proof (cases rule: live_insert_result [of db row b])
    case (refused x db1)
    then show ?thesis using Cons.prems by auto
  next
    case (stored db1)
    have same: "signal_accepted db1 = signal_accepted db"
      using stored(5) by (auto simp: signal_accepted_iff symbol_exists_def)
    have "insert_all (bk_insert_signal live_backend) count_signal rows (count_signal e, (b, db1)) = (r, (e', (b', db')))"
      using Cons.prems stored(2) by simp
    from Cons.IH [OF this, unfolded same] show ?thesis using stored by (simp add: count_signal_def)
  qed
qed simp

text \<open>
  Evaluations during which the pressure of a symbol neither turns neutral nor to the other side, and nothing raises: the
  condition that gave the signal lasts.
\<close>

definition condition_lasts :: "settings \<Rightarrow> int \<Rightarrow> signal_kind \<Rightarrow> signal_engine \<Rightarrow> signal_input list \<Rightarrow> bool" where
  "condition_lasts cfg sid k se ys \<longleftrightarrow> (\<forall>i < length ys. \<not> resets_pressure sid (ys ! i) \<and>
     (\<exists>sigs. fst (run_all (signal_upd cfg) ys se) ! i = Inr sigs) \<and>
     (fst (ys ! i) = sid \<longrightarrow> (\<forall>k'. k' \<noteq> KHighvol \<and> k' \<noteq> k \<longrightarrow> \<not> emits k' (fst (run_all (signal_upd cfg) ys se) ! i))))"

lemma emitted_once:
  assumes "evaluate_signals cfg sid sn t e = (Inr sigs, se)" "sig \<in> set sigs" "sg_type sig \<noteq> KHighvol"
    "condition_lasts cfg sid (sg_type sig) se ys"
  shows "\<not> emits (sg_type sig) (fst (signal_upd cfg (sid, s2, t2) (snd (run_all (signal_upd cfg) ys se))))"
proof
  let ?k = "sg_type sig" and ?after = "snd (run_all (signal_upd cfg) ys se)"
  assume em: "emits ?k (fst (signal_upd cfg (sid, s2, t2) ?after))"
  have "signal_upd cfg (sid, sn, t) e = (Inr sigs, se)" "emits ?k (Inr sigs)"
    using assms(1,2) by (auto simp: signal_upd_def emits_def)
  then obtain q where q: "q \<noteq> Neutral" "kind_of q = ?k" "pressure_of se sid = q"
    using emitting_state assms(3) by blast
  have "pressure_of ?after sid = q"
    using assms(4) q by (intro quiet_run_keeps) (auto simp: condition_lasts_def)
  moreover obtain q' where "q' \<noteq> Neutral" "kind_of q' = ?k" "pressure_of ?after sid \<noteq> q'"
    using emitting_state [OF prod.collapse [symmetric] em assms(3)] by blast
  ultimately show False using q kind_of_inj by metis
qed

text \<open>
  C19: a signal the database refuses is lost. Let a closed candle's evaluation emit the signals \<open>sigs\<close>, not all of which the
  database accepts. Then handling the candle raises; the signals before the first refused one are stored and counted and no
  other; the indicator row is with the writer, but the market events of the candle are neither evaluated nor stored, so that
  it is missing from their windows, and the candle is not counted. Yet the signal machines have moved: no BUY or SELL among
  \<open>sigs\<close>, stored or not, is emitted again for that symbol while the condition that gave it lasts.
\<close>

theorem refused_signal_lost:
  assumes "indicators_of sid e = Inr st" "symbol_indicators_update logf c st = (Inr sn, st1)" "compute_trend sn = Inr t"
    "from_ms (cd_ts c) = Inr ts" "enable_signals (en_settings e)"
    and "evaluate_signals (en_settings e) sid sn t (en_signals e) = (Inr sigs, se)"
    and "\<not> list_all (\<lambda>sig. signal_accepted db (signal_row_of sid ts sig)) sigs"
  shows "\<exists>err e' db'. process_candle live_backend logf sid c (e, (b, db)) =
      (Inl err, (e', (writer_add (indicator_row_of sid ts sn t) b, db'))) \<and>
    (let kept = takeWhile (signal_accepted db) (map (signal_row_of sid ts) sigs) in
      map snd (lg_rows (db_signals db')) = map snd (lg_rows (db_signals db)) @ kept \<and>
      en_signals_emitted e' = en_signals_emitted e + int (length kept)) \<and>
    en_events e' = en_events e \<and> db_events db' = db_events db \<and> en_candles_processed e' = en_candles_processed e \<and>
    en_signals e' = se \<and>
    (\<forall>sig \<in> set sigs. \<forall>ys s2 t2. sg_type sig \<noteq> KHighvol \<and> condition_lasts (en_settings e) sid (sg_type sig) (en_signals e') ys \<longrightarrow>
      \<not> emits (sg_type sig) (fst (signal_upd (en_settings e) (sid, s2, t2) (snd (run_all (signal_upd (en_settings e)) ys (en_signals e'))))))"
proof -
  let ?e2 = "note_trend sid t (set_indicators sid st1 e)" and ?b = "writer_add (indicator_row_of sid ts sn t) b"
  have fields: "en_settings ?e2 = en_settings e" "en_signals ?e2 = en_signals e" "en_events ?e2 = en_events e"
    "en_candles_processed ?e2 = en_candles_processed e" "en_signals_emitted ?e2 = en_signals_emitted e"
    by (simp_all add: note_trend_def set_indicators_def)
  let ?rows = "map (signal_row_of sid ts) sigs"
  obtain r e' b' db' where ins: "insert_all (bk_insert_signal live_backend) count_signal ?rows (?e2\<lparr>en_signals := se\<rparr>, (?b, db)) = (r, (e', (b', db')))"
    by (metis surj_pair)
  note until = insert_signals_until [OF ins]
  have "\<not> list_all (signal_accepted db) ?rows" using assms(7) by (simp add: list.pred_map comp_def)
  then obtain err where r: "r = Inl err" using until by (cases r) auto
  have "analyze_signals live_backend sid ts sn t (?e2, (?b, db)) = (Inl err, (e', (?b, db')))"
    using assms(5,6) ins until r by (simp add: analyze_signals_def fields)
  then have "process_candle live_backend logf sid c (e, (b, db)) = (Inl err, (e', (?b, db')))"
    using assms(1-4) by (simp add: process_candle_def live_ops Let_def)
  moreover have "en_signals e' = se" using until by simp
  ultimately show ?thesis using until fields emitted_once [OF assms(6)]
    by (intro exI [of _ err] exI [of _ e'] exI [of _ db']) (simp add: Let_def)
qed

definition signalling :: settings where
  "signalling = default_settings\<lparr>enable_signals := True, high_volatility_pct := Fin (- 1), signal_min_confidence := 0\<rparr>"

text \<open>A symbol whose volatility needs one more return.\<close>

definition warm :: symbol_indicators where
  "warm = \<lparr>si_ema_fast = \<lparr>ema_period = 9, ema_alpha = 0, ema_value = None\<rparr>, si_ema_slow = \<lparr>ema_period = 21, ema_alpha = 0, ema_value = None\<rparr>,
     si_rsi = rsi_new 14, si_atr = atr_new 14,
     si_vol_realized = \<lparr>rv_window = 1, rv_prev_close = Some 1, rv_returns = Deque 1 [], rv_value = None\<rparr>,
     si_vol_rel = \<lparr>rl_window = 1, rl_volumes = Deque 1 [], rl_value = None\<rparr>\<rparr>"

definition warm_engine :: engine where
  "warm_engine = (engine_new signalling Map.empty)\<lparr>en_indicators := [(1, warm)]\<rparr>"

lemma warm_volatility:
  obtains rv where "rvol_update (\<lambda>_. Inr 0) 1 \<lparr>rv_window = 1, rv_prev_close = Some 1, rv_returns = Deque 1 [], rv_value = None\<rparr> = (Inr (Some 0), rv)"
proof -
  have one: "mean_of [x] = Inr x" if "x = Fin 0" for x
    using that i2f_small [of 1] by (simp add: mean_of_def div_int_def fdiv_def feq_def fsum_def)
  have "fsquare (Fin 0 - Fin 0) = Inr (Fin 0)" by (simp add: fsquare_def minus_pyfloat_def)
  then have var: "variance_of [Fin 0] = Inr (Fin 0)" by (simp add: variance_of_def one)
  have "rvol_push (\<lambda>_. Inr 0) 1 \<lparr>rv_window = 1, rv_prev_close = Some 1, rv_returns = Deque 1 [], rv_value = None\<rparr> =
      Inr \<lparr>rv_window = 1, rv_prev_close = Some 1, rv_returns = Deque 1 [Fin 0], rv_value = None\<rparr>"
    by (simp add: rvol_push_def fdiv_def feq_def deque_append_def last_n_def zero_pyfloat_def one_pyfloat_def)
  then show thesis using that
    by (simp add: rvol_update_def var sqrt_rat_def zero_pyfloat_def Let_def)
qed

lemma warm_update:
  obtains sn st1 where "symbol_indicators_update (\<lambda>_. Inr 0) (first_bar ''BTC'') warm = (Inr sn, st1)"
    "sn_rsi sn = None" "sn_vol_realized sn = Some 0"
proof -
  obtain rv where rv: "rvol_update (\<lambda>_. Inr 0) 1 \<lparr>rv_window = 1, rv_prev_close = Some 1, rv_returns = Deque 1 [], rv_value = None\<rparr> = (Inr (Some 0), rv)"
    by (rule warm_volatility)
  have "rsi_update 1 (rsi_new 14) = (Inr None, (rsi_new 14)\<lparr>rsi_prev_close := Some 1\<rparr>)" by (simp add: rsi_update_def rsi_new_def)
  moreover obtain a where "atr_update 1 1 1 (atr_new 14) = (Inr None, a)" by (simp add: atr_update_def atr_new_def Let_def)
  moreover obtain rl where "relvol_update 1 \<lparr>rl_window = 1, rl_volumes = Deque 1 [], rl_value = None\<rparr> = (Inr None, rl)"
    by (simp add: relvol_update_def)
  ultimately show thesis using that rv by (simp add: symbol_indicators_update_def first_bar_def warm_def ema_update_def Let_def)
qed

theorem refused_signal_lost_witness:
  "\<exists>err e' w'. process_candle live_backend (\<lambda>_. Inr 0) 1 (first_bar ''BTC'') (warm_engine, (writer_new 5, db_new 0)) = (Inl err, (e', w')) \<and>
    lg_rows (db_signals (snd w')) = [] \<and> highvol_of (en_signals e') 1 = High \<and> length (bw_buffer (fst w')) = 1 \<and> en_events e' = event_engine_new"
proof -
  obtain sn st1 where up: "symbol_indicators_update (\<lambda>_. Inr 0) (first_bar ''BTC'') warm = (Inr sn, st1)"
    "sn_rsi sn = None" "sn_vol_realized sn = Some 0" by (rule warm_update)
  obtain t where t: "compute_trend sn = Inr t" using compute_trend_total by blast
  have ts: "from_ms (cd_ts (first_bar ''BTC'')) = Inr 60000000" using from_ms_exact [of 60000] by (simp add: first_bar_def)
  have cfg: "en_settings warm_engine = signalling" "en_signals warm_engine = signal_engine_new" "en_events warm_engine = event_engine_new"
    "enable_signals signalling"
    by (simp_all add: warm_engine_def engine_new_def signalling_def)
  have st: "indicators_of 1 warm_engine = Inr warm"
    using i2f_small [of 10] i2f_small [of 22]
    by (simp add: indicators_of_def warm_engine_def engine_new_def signalling_def default_settings_def symbol_indicators_new_def ema_new_def
        div_int_def fdiv_def feq_def rvol_new_def relvol_new_def deque_new_def)
  have "highvol_confidence 0 (Fin (- 1)) = Inr 0"
    using round_half_even_of_int [of 0] by (simp add: highvol_confidence_def fdiv_def feq_def pymin_def zero_pyfloat_def)
  then obtain sig se where sg: "evaluate_signals signalling 1 sn t signal_engine_new = (Inr [sig], se)" "highvol_of se 1 = High"
    by (cases t) (simp_all add: evaluate_signals_def evaluate_pressure_def evaluate_highvol_def up signalling_def
        highvol_of_def signal_engine_new_def set_highvol_def zero_pyfloat_def)
  have "\<not> list_all (\<lambda>sig. signal_accepted (db_new 0) (signal_row_of 1 60000000 sig)) [sig]"
    by (simp add: signal_accepted_iff symbol_exists_def db_new_def)
  from refused_signal_lost [OF st up(1) t ts, unfolded cfg, OF cfg(4) sg(1) this, of "writer_new 5"] sg(2) show ?thesis
    by (auto simp: writer_add_def writer_new_def db_new_def log_new_def signal_accepted_iff symbol_exists_def Let_def)
qed

end
