(* ===== verification/Recovery.thy ===== *)
theory Recovery
  imports Subscriptions Registry Lifecycle
begin

text \<open>
  What a restart of the symbol service finds: the registry of the database mirrors the manager after every cycle, and
  \<^verbatim>\<open>_load_existing\<close> reads it back. The services of \<^verbatim>\<open>src/orvixa/runners/symbols.py\<close> are the repositories over the modelled
  database, alone or with the Binance feed beside them.
\<close>

section \<open>The repositories as services\<close>

definition db_services :: "db services" where
  "db_services =
     \<lparr>sv_now = db_now, sv_upsert = upsert_symbol, sv_update_ranking = update_ranking,
      sv_get_id = (\<lambda>base db. (Inr (get_id base db), db)), sv_tier_change = Some insert_tier_change,
      sv_metrics = Some insert_metrics, sv_breadth = Some insert_breadth,
      sv_subscribe = (\<lambda>_ db. (Inr (), db)), sv_unsubscribe = (\<lambda>_ db. (Inr (), db)), sv_has_feed = False\<rparr>"

text \<open>\<^verbatim>\<open>SELECT * FROM symbols ORDER BY id\<close>, as \<^verbatim>\<open>_load_existing\<close> reads it.\<close>

definition registry_rows :: "db \<Rightarrow> (symbol_row \<times> int option) list" where
  "registry_rows db = map (\<lambda>e. (se_row e, se_rank e)) (list_all_symbols db)"

lemma attempt_Inr_iff: "attempt r s k = (Inr y, s') \<longleftrightarrow> (\<exists>x. r = Inr x \<and> k x = (Inr y, s'))"
  by (cases r) auto

section \<open>One entry of the registry\<close>

definition entry :: "string \<Rightarrow> db \<Rightarrow> symbol_entry option" where
  "entry base db = find (has_base base) (db_symbols db)"

definition mirrors :: "symbol_state \<Rightarrow> db \<Rightarrow> bool" where
  "mirrors s db \<longleftrightarrow> (\<exists>e. entry (ms_base s) db = Some e \<and> se_row e = state_row s \<and> se_rank e = ms_rank s)"

definition bases_distinct :: "db \<Rightarrow> bool" where
  "bases_distinct db \<longleftrightarrow> distinct (map (sy_base \<circ> se_row) (db_symbols db))"

text \<open>The entry of a base after a call on it that may not have returned: as it was, or the row of the state under some rank.\<close>

definition torn :: "symbol_state \<Rightarrow> db \<Rightarrow> db \<Rightarrow> bool" where
  "torn s db db' \<longleftrightarrow>
     entry (ms_base s) db' = entry (ms_base s) db \<or> (\<exists>e. entry (ms_base s) db' = Some e \<and> se_row e = state_row s)"

lemma same_symbols: "db_symbols db' = db_symbols db \<Longrightarrow> entry b db' = entry b db \<and> bases_distinct db' = bases_distinct db"
  by (simp add: entry_def bases_distinct_def)

lemma find_map_keep:
  "(\<And>e. has_base b (f e) = has_base b e) \<Longrightarrow> find (has_base b) (map f es) = map_option f (find (has_base b) es)"
  by (induction es) auto

lemma upsert_entry:
  assumes "upsert_symbol row db = (Inr sid, db1)" "bases_distinct db"
  shows "(\<exists>e. entry (sy_base row) db1 = Some e \<and> se_row e = row) \<and> (\<forall>b. b \<noteq> sy_base row \<longrightarrow> entry b db1 = entry b db) \<and>
    bases_distinct db1"
proof (cases "find (has_base (sy_base row)) (db_symbols db)")
  case None
  then obtain e where e: "db_symbols db1 = db_symbols db @ [e]" "se_row e = row"
    using assms(1) by (auto simp: upsert_symbol_def Let_def split: if_splits)
  have "\<forall>x \<in> set (db_symbols db). sy_base (se_row x) \<noteq> sy_base row" using None by (auto simp: find_None_iff has_base_def)
  then show ?thesis using e None assms(2)
    by (auto simp: entry_def find_append has_base_def bases_distinct_def split: option.split)
next
  case (Some old)
  let ?f = "\<lambda>e. if has_base (sy_base row) e then e\<lparr>se_row := row\<rparr> else e"
  have s: "db_symbols db1 = map ?f (db_symbols db)"
    using assms(1) Some by (auto simp: upsert_symbol_def Let_def split: if_splits)
  have keep: "sy_base (se_row (?f e)) = sy_base (se_row e)" for e by (simp add: has_base_def)
  then have f: "find (has_base b) (map ?f (db_symbols db)) = map_option ?f (find (has_base b) (db_symbols db))" for b
    by (intro find_map_keep) (simp add: has_base_def)
  have "map_option ?f (find (has_base b) (db_symbols db)) = find (has_base b) (db_symbols db)" if "b \<noteq> sy_base row" for b
    using that by (cases "find (has_base b) (db_symbols db)") (auto dest!: find_has_base dest: has_base_unique)
  moreover have "(sy_base \<circ> se_row) \<circ> ?f = sy_base \<circ> se_row" using keep by (auto simp: fun_eq_iff)
  then have "bases_distinct db1" using assms(2) s by (simp add: bases_distinct_def)
  ultimately show ?thesis using Some find_has_base [OF Some] f s by (simp add: entry_def)
qed

lemma update_ranking_entry:
  assumes "update_ranking base rank metrics db = (Inr (), db1)" "bases_distinct db"
  shows "(\<forall>e. entry base db = Some e \<longrightarrow> (\<exists>e1. entry base db1 = Some e1 \<and> se_row e1 = se_row e \<and> se_rank e1 = rank)) \<and>
    (\<forall>b. b \<noteq> base \<longrightarrow> entry b db1 = entry b db) \<and> bases_distinct db1"
proof -
  let ?f = "\<lambda>e. if has_base base e then e\<lparr>se_rank := rank, se_metrics := Some metrics, se_last_synced := Some (db_now db)\<rparr> else e"
  have s: "db_symbols db1 = map ?f (db_symbols db)" using assms(1) by (auto simp: update_ranking_def split: if_splits)
  have keep: "se_row (?f e) = se_row e" for e by simp
  then have f: "find (has_base b) (map ?f (db_symbols db)) = map_option ?f (find (has_base b) (db_symbols db))" for b
    by (intro find_map_keep) (simp add: has_base_def)
  have "map_option ?f (find (has_base b) (db_symbols db)) = find (has_base b) (db_symbols db)" if "b \<noteq> base" for b
    using that by (cases "find (has_base b) (db_symbols db)") (auto dest!: find_has_base dest: has_base_unique)
  moreover have "(sy_base \<circ> se_row) \<circ> ?f = sy_base \<circ> se_row" using keep by (auto simp: fun_eq_iff)
  then have "bases_distinct db1" using assms(2) s by (simp add: bases_distinct_def)
  ultimately show ?thesis using f s by (auto simp: entry_def dest!: find_has_base)
qed

text \<open>A cycle as the chain of its calls.\<close>

lemma refresh_universe_steps:
  assumes r: "retier symbols stats m = (Inr xs, m1)" and w1: "persist_all sv (map snd (mg_states m1)) w = (r1, w1)"
    and w2: "persist_tier_changes sv xs w1 = (r2, w2)"
    and w3: "persist_metrics_snapshots sv (map snd (mg_states m1)) w2 = (r3, w3)"
    and w4: "persist_breadth_snapshot sv m1 w3 = (r4, w4)"
    and s5: "(if sv_has_feed sv
      then sync_feed sv (m1\<lparr>mg_refresh_count := mg_refresh_count m1 + 1, mg_last_tier_changes := xs\<rparr>, w4)
      else (Inr (), (m1\<lparr>mg_refresh_count := mg_refresh_count m1 + 1, mg_last_tier_changes := xs\<rparr>, w4))) = (r5, s5)"
  shows "refresh_universe sv (Inr symbols) (Inr stats) (m, w) =
    attempt r1 (m1, w1) (\<lambda>_. attempt r2 (m1, w2) (\<lambda>_. attempt r3 (m1, w3) (\<lambda>_. attempt r4 (m1, w4) (\<lambda>_.
      attempt r5 s5 (\<lambda>_. (Inr xs, s5))))))"
  unfolding refresh_universe_def prod.case attempt_simps r Let_def
  unfolding w1 prod.case
  unfolding w2 prod.case
  unfolding w3 prod.case
  unfolding w4 prod.case
  unfolding s5 prod.case
  by (rule refl)

section \<open>A call that does not return\<close>

text \<open>
  \<^verbatim>\<open>stop\<close> cancels the task of the loop: the call it awaits raises \<^verbatim>\<open>CancelledError\<close>, before or after the backend has acted
  (\<open>acted\<close>). The services of a cycle that is cancelled after \<open>n\<close> calls.
\<close>

definition cut_call :: "bool \<Rightarrow> ('w \<Rightarrow> 'a res \<times> 'w) \<Rightarrow> nat \<times> 'w \<Rightarrow> 'a res \<times> (nat \<times> 'w)" where
  "cut_call acted call s =
     (case s of (n, w) \<Rightarrow>
        let (r, w1) = call w in
        if n = 0 then (Inl cancelled_error, (0, if acted then w1 else w)) else (r, (n - 1, w1)))"

definition cut_services :: "bool \<Rightarrow> 'w services \<Rightarrow> (nat \<times> 'w) services" where
  "cut_services acted sv =
     \<lparr>sv_now = (\<lambda>s. sv_now sv (snd s)), sv_upsert = (\<lambda>row. cut_call acted (sv_upsert sv row)),
      sv_update_ranking = (\<lambda>base rank metrics. cut_call acted (sv_update_ranking sv base rank metrics)),
      sv_get_id = (\<lambda>base. cut_call acted (sv_get_id sv base)),
      sv_tier_change = map_option (\<lambda>put row. cut_call acted (put row)) (sv_tier_change sv),
      sv_metrics = map_option (\<lambda>put rows. cut_call acted (put rows)) (sv_metrics sv),
      sv_breadth = map_option (\<lambda>put row. cut_call acted (put row)) (sv_breadth sv),
      sv_subscribe = (\<lambda>pairs. cut_call acted (sv_subscribe sv pairs)),
      sv_unsubscribe = (\<lambda>pairs. cut_call acted (sv_unsubscribe sv pairs)),
      sv_has_feed = sv_has_feed sv\<rparr>"

section \<open>Services over a registry\<close>

text \<open>
  What the manager relies on: a registry call that returns has acted on the database, one that raises may have acted and lost
  its reply, and nothing else touches the symbols.
\<close>

locale registry_services =
  fixes sv :: "'w services" and db_of :: "'w \<Rightarrow> db"
  assumes upsert: "sv_upsert sv row w = (Inr sid, w1) \<Longrightarrow> upsert_symbol row (db_of w) = (Inr sid, db_of w1)"
    and upsert_failed: "sv_upsert sv row w = (Inl e, w1) \<Longrightarrow>
      db_symbols (db_of w1) = db_symbols (db_of w) \<or> (\<exists>sid. upsert_symbol row (db_of w) = (Inr sid, db_of w1))"
    and ranking: "sv_update_ranking sv base rank metrics w = (Inr (), w1) \<Longrightarrow>
      update_ranking base rank metrics (db_of w) = (Inr (), db_of w1)"
    and ranking_failed: "sv_update_ranking sv base rank metrics w = (Inl e, w1) \<Longrightarrow>
      db_symbols (db_of w1) = db_symbols (db_of w) \<or> update_ranking base rank metrics (db_of w) = (Inr (), db_of w1)"
    and get_id: "db_symbols (db_of (snd (sv_get_id sv base w))) = db_symbols (db_of w)"
    and tier_change: "sv_tier_change sv = Some put \<Longrightarrow> db_symbols (db_of (snd (put change w))) = db_symbols (db_of w)"
    and metrics: "sv_metrics sv = Some mput \<Longrightarrow> db_symbols (db_of (snd (mput rows w))) = db_symbols (db_of w)"
    and breadth: "sv_breadth sv = Some bput \<Longrightarrow> db_symbols (db_of (snd (bput brow w))) = db_symbols (db_of w)"
    and subscribe: "db_symbols (db_of (snd (sv_subscribe sv pairs w))) = db_symbols (db_of w)"
    and unsubscribe: "db_symbols (db_of (snd (sv_unsubscribe sv pairs w))) = db_symbols (db_of w)"
begin

lemma persist_mirrors:
  assumes "persist sv s w = (Inr (), w1)" "bases_distinct (db_of w)"
  shows "mirrors s (db_of w1) \<and> (\<forall>b. b \<noteq> ms_base s \<longrightarrow> entry b (db_of w1) = entry b (db_of w)) \<and> bases_distinct (db_of w1)"
proof -
  obtain sid w0 where u: "sv_upsert sv (state_row s) w = (Inr sid, w0)"
    "sv_update_ranking sv (ms_base s) (ms_rank s) (state_metrics s) w0 = (Inr (), w1)"
    using assms(1) by (auto simp: persist_def attempt_def split: prod.splits sum.splits)
  have base: "sy_base (state_row s) = ms_base s" by (simp add: state_row_def)
  note e = upsert_entry [OF upsert [OF u(1)] assms(2), unfolded base]
  note r = update_ranking_entry [OF ranking [OF u(2)]]
  show ?thesis using e r by (auto simp: mirrors_def)
qed

lemma persist_all_mirrors:
  assumes "persist_all sv ss w = (Inr (), w1)" "bases_distinct (db_of w)" "distinct (map ms_base ss)"
  shows "(\<forall>s \<in> set ss. mirrors s (db_of w1)) \<and> (\<forall>b. b \<notin> set (map ms_base ss) \<longrightarrow> entry b (db_of w1) = entry b (db_of w)) \<and>
    bases_distinct (db_of w1)"
  using assms
proof (induction ss arbitrary: w)
  case (Cons s ss)
  obtain w0 where p: "persist sv s w = (Inr (), w0)" "persist_all sv ss w0 = (Inr (), w1)"
    using Cons.prems(1) by (auto simp: attempt_def split: prod.splits sum.splits)
  note m = persist_mirrors [OF p(1) Cons.prems(2)]
  have ih: "(\<forall>s \<in> set ss. mirrors s (db_of w1)) \<and> (\<forall>b. b \<notin> set (map ms_base ss) \<longrightarrow> entry b (db_of w1) = entry b (db_of w0)) \<and>
    bases_distinct (db_of w1)"
    using Cons.IH [OF p(2)] m Cons.prems(3) by simp
  then show ?case using m Cons.prems(3) by (auto simp: mirrors_def)
qed simp

lemma log_changes_symbols:
  assumes "\<And>row w. db_symbols (db_of (snd (put row w))) = db_symbols (db_of w)"
  shows "db_symbols (db_of (snd (log_changes sv put ts cs w))) = db_symbols (db_of w)"
proof (induction cs arbitrary: w)
  case (Cons c cs)
  show ?case using Cons.IH assms get_id [of "ch_base c" w]
    by (auto simp: attempt_def split_beta split: sum.split option.split)
qed simp

lemma metrics_rows_symbols: "db_symbols (db_of (snd (metrics_rows sv ts ss w))) = db_symbols (db_of w)"
proof (induction ss arbitrary: w)
  case (Cons s ss)
  show ?case using Cons.IH get_id [of "ms_base s" w]
    by (auto simp: attempt_def split_beta split: sum.split option.split)
qed simp

lemma tier_changes_symbols: "db_symbols (db_of (snd (persist_tier_changes sv cs w))) = db_symbols (db_of w)"
  by (cases "sv_tier_change sv") (simp_all add: persist_tier_changes_def log_changes_symbols tier_change)

lemma metrics_symbols: "db_symbols (db_of (snd (persist_metrics_snapshots sv ss w))) = db_symbols (db_of w)"
  by (cases "sv_metrics sv")
    (auto simp: persist_metrics_snapshots_def attempt_def split_beta metrics metrics_rows_symbols split: sum.split)

lemma breadth_symbols: "db_symbols (db_of (snd (persist_breadth_snapshot sv m w))) = db_symbols (db_of w)"
  by (cases "sv_breadth sv") (auto simp: persist_breadth_snapshot_def attempt_def breadth split: sum.split option.split)

lemma sync_feed_symbols: "db_symbols (db_of (snd (snd (sync_feed sv (m, w))))) = db_symbols (db_of w)"
  by (auto simp: sync_feed_def attempt_def split_beta subscribe unsubscribe Let_def split: sum.split)

lemma sync_feed_states:
  "mg_states (fst (snd (sync_feed sv (m, w)))) = mg_states m \<and> mg_spike_promoted (fst (snd (sync_feed sv (m, w)))) = mg_spike_promoted m"
  by (auto simp: sync_feed_def attempt_def split_beta Let_def split: sum.split)

lemma refresh_mirrors:
  assumes "refresh_universe sv exchange tickers (m, w) = (Inr changes, (m', w'))" "bases_distinct (db_of w)"
  shows "\<exists>symbols stats m1. exchange = Inr symbols \<and> tickers = Inr stats \<and> retier symbols stats m = (Inr changes, m1) \<and>
    mg_states m' = mg_states m1 \<and> mg_spike_promoted m' = mg_spike_promoted m1 \<and>
    (distinct (map ms_base (map snd (mg_states m1))) \<longrightarrow>
       (\<forall>s \<in> set (map snd (mg_states m1)). mirrors s (db_of w')) \<and> bases_distinct (db_of w'))"
proof -
  obtain symbols stats where in_ok: "exchange = Inr symbols" "tickers = Inr stats"
    using assms(1) by (auto simp: refresh_universe_def attempt_Inr_iff)
  obtain r m1 where r: "retier symbols stats m = (r, m1)" by fastforce
  obtain xs where xs: "r = Inr xs"
    using assms(1) unfolding in_ok refresh_universe_def by (cases r) (simp_all add: r)
  let ?ss = "map snd (mg_states m1)"
  let ?m2 = "m1\<lparr>mg_refresh_count := mg_refresh_count m1 + 1, mg_last_tier_changes := xs\<rparr>"
  obtain r1 w1 where w1: "persist_all sv ?ss w = (r1, w1)" by fastforce
  obtain r2 w2 where w2: "persist_tier_changes sv xs w1 = (r2, w2)" by fastforce
  obtain r3 w3 where w3: "persist_metrics_snapshots sv ?ss w2 = (r3, w3)" by fastforce
  obtain r4 w4 where w4: "persist_breadth_snapshot sv m1 w3 = (r4, w4)" by fastforce
  obtain r5 s5 where s5: "(if sv_has_feed sv then sync_feed sv (?m2, w4) else (Inr (), (?m2, w4))) = (r5, s5)" by (meson surj_pair)
  have "attempt r1 (m1, w1) (\<lambda>_. attempt r2 (m1, w2) (\<lambda>_. attempt r3 (m1, w3) (\<lambda>_. attempt r4 (m1, w4) (\<lambda>_.
      attempt r5 s5 (\<lambda>_. (Inr xs, s5)))))) = (Inr changes, (m', w'))"
    using assms(1) refresh_universe_steps [OF r [unfolded xs] w1 w2 w3 w4 s5] in_ok by metis
  then have "r1 = Inr () \<and> s5 = (m', w') \<and> xs = changes" by (auto simp: attempt_Inr_iff)
  then have m1: "retier symbols stats m = (Inr changes, m1)" and w1: "persist_all sv ?ss w = (Inr (), w1)"
    and last: "(m', w') = snd (if sv_has_feed sv then sync_feed sv (?m2, w4) else (Inr (), (?m2, w4)))"
    using r xs w1 s5 by simp_all
  have "db_symbols (db_of w') = db_symbols (db_of w4) \<and> mg_states m' = mg_states m1 \<and> mg_spike_promoted m' = mg_spike_promoted m1"
  proof (cases "sv_has_feed sv")
    case True
    then have "snd (sync_feed sv (?m2, w4)) = (m', w')" using last by simp
    then show ?thesis using sync_feed_symbols [of ?m2 w4] sync_feed_states [of ?m2 w4] by simp
  qed (use last in simp)
  moreover have "db_symbols (db_of w4) = db_symbols (db_of w1)"
    using tier_changes_symbols [of xs w1] metrics_symbols [of ?ss w2] breadth_symbols [of m1 w3] w2 w3 w4 by simp
  ultimately have same: "db_symbols (db_of w') = db_symbols (db_of w1)" "mg_states m' = mg_states m1" "mg_spike_promoted m' = mg_spike_promoted m1"
    by simp_all
  have "mirrors s (db_of w')" if "mirrors s (db_of w1)" for s using that same_symbols [OF same(1)] by (simp add: mirrors_def)
  then show ?thesis using persist_all_mirrors [OF w1 assms(2)] same same_symbols [OF same(1)] in_ok m1 by auto
qed

text \<open>Beside a feed the repositories keep the contract.\<close>

lemma with_feed_services: "registry_services (with_feed sv send) (db_of \<circ> fst)"
proof
  fix row sid base rank metrics e w w1
  show "sv_upsert (with_feed sv send) row w = (Inr sid, w1) \<Longrightarrow> upsert_symbol row ((db_of \<circ> fst) w) = (Inr sid, (db_of \<circ> fst) w1)"
    by (auto simp: with_feed_def on_fst_def upsert split: prod.splits)
  show "sv_upsert (with_feed sv send) row w = (Inl e, w1) \<Longrightarrow> db_symbols ((db_of \<circ> fst) w1) = db_symbols ((db_of \<circ> fst) w) \<or>
      (\<exists>sid. upsert_symbol row ((db_of \<circ> fst) w) = (Inr sid, (db_of \<circ> fst) w1))"
    by (auto simp: with_feed_def on_fst_def dest: upsert_failed split: prod.splits)
  show "sv_update_ranking (with_feed sv send) base rank metrics w = (Inr (), w1) \<Longrightarrow>
      update_ranking base rank metrics ((db_of \<circ> fst) w) = (Inr (), (db_of \<circ> fst) w1)"
    by (auto simp: with_feed_def on_fst_def ranking split: prod.splits)
  show "sv_update_ranking (with_feed sv send) base rank metrics w = (Inl e, w1) \<Longrightarrow>
      db_symbols ((db_of \<circ> fst) w1) = db_symbols ((db_of \<circ> fst) w) \<or>
      update_ranking base rank metrics ((db_of \<circ> fst) w) = (Inr (), (db_of \<circ> fst) w1)"
    by (auto simp: with_feed_def on_fst_def dest: ranking_failed split: prod.splits)
qed (auto simp: with_feed_def on_fst_def on_snd_def split_beta get_id tier_change metrics breadth)

lemma cut_services: "registry_services (cut_services acted sv) (db_of \<circ> snd)"
proof
  fix row sid base rank metrics e w w1
  have up: "db_symbols (db_of v1) = db_symbols (db_of v) \<or> (\<exists>sid. upsert_symbol row (db_of v) = (Inr sid, db_of v1))"
    if "sv_upsert sv row v = (r, v1)" for r v v1
    using that upsert upsert_failed by (cases r) auto
  have rank: "db_symbols (db_of v1) = db_symbols (db_of v) \<or> update_ranking base rank metrics (db_of v) = (Inr (), db_of v1)"
    if "sv_update_ranking sv base rank metrics v = (r, v1)" for r v v1
    using that ranking ranking_failed by (cases r) auto
  show "sv_upsert (cut_services acted sv) row w = (Inr sid, w1) \<Longrightarrow> upsert_symbol row ((db_of \<circ> snd) w) = (Inr sid, (db_of \<circ> snd) w1)"
    by (auto simp: cut_services_def cut_call_def upsert split: prod.splits if_splits)
  show "sv_upsert (cut_services acted sv) row w = (Inl e, w1) \<Longrightarrow> db_symbols ((db_of \<circ> snd) w1) = db_symbols ((db_of \<circ> snd) w) \<or>
      (\<exists>sid. upsert_symbol row ((db_of \<circ> snd) w) = (Inr sid, (db_of \<circ> snd) w1))"
    by (auto simp: cut_services_def cut_call_def dest: up split: prod.splits if_splits)
  show "sv_update_ranking (cut_services acted sv) base rank metrics w = (Inr (), w1) \<Longrightarrow>
      update_ranking base rank metrics ((db_of \<circ> snd) w) = (Inr (), (db_of \<circ> snd) w1)"
    by (auto simp: cut_services_def cut_call_def ranking split: prod.splits if_splits)
  show "sv_update_ranking (cut_services acted sv) base rank metrics w = (Inl e, w1) \<Longrightarrow>
      db_symbols ((db_of \<circ> snd) w1) = db_symbols ((db_of \<circ> snd) w) \<or>
      update_ranking base rank metrics ((db_of \<circ> snd) w) = (Inr (), (db_of \<circ> snd) w1)"
    by (auto simp: cut_services_def cut_call_def dest: rank split: prod.splits if_splits)
qed (auto simp: cut_services_def cut_call_def split_beta get_id tier_change metrics breadth subscribe unsubscribe)

text \<open>What a cycle that raises leaves in the registry.\<close>

lemma persist_failed:
  assumes "persist sv s w = (Inl e, w1)" "bases_distinct (db_of w)"
  shows "torn s (db_of w) (db_of w1) \<and> (\<forall>b. b \<noteq> ms_base s \<longrightarrow> entry b (db_of w1) = entry b (db_of w)) \<and> bases_distinct (db_of w1)"
proof -
  have base: "sy_base (state_row s) = ms_base s" by (simp add: state_row_def)
  note put = upsert_entry [of "state_row s", unfolded base, OF _ assms(2)]
  obtain r w0 where u: "sv_upsert sv (state_row s) w = (r, w0)" by fastforce
  show ?thesis
  proof (cases r)
    case (Inl x)
    then have "w1 = w0" using assms(1) u by (simp add: persist_def)
    from upsert_failed [OF u [unfolded Inl]] show ?thesis unfolding \<open>w1 = w0\<close>
    proof
      assume same: "db_symbols (db_of w0) = db_symbols (db_of w)"
      show "torn s (db_of w) (db_of w0) \<and> (\<forall>b. b \<noteq> ms_base s \<longrightarrow> entry b (db_of w0) = entry b (db_of w)) \<and> bases_distinct (db_of w0)"
        using assms(2) same_symbols [OF same] by (simp add: torn_def)
    next
      assume "\<exists>sid. upsert_symbol (state_row s) (db_of w) = (Inr sid, db_of w0)"
      then obtain sid where sid: "upsert_symbol (state_row s) (db_of w) = (Inr sid, db_of w0)" ..
      show "torn s (db_of w) (db_of w0) \<and> (\<forall>b. b \<noteq> ms_base s \<longrightarrow> entry b (db_of w0) = entry b (db_of w)) \<and> bases_distinct (db_of w0)"
        using put [OF sid] unfolding torn_def by blast
    qed
  next
    case (Inr sid)
    then have rank: "sv_update_ranking sv (ms_base s) (ms_rank s) (state_metrics s) w0 = (Inl e, w1)"
      using assms(1) u by (simp add: persist_def)
    note up = put [OF upsert [OF u [unfolded Inr]]]
    from ranking_failed [OF rank] show ?thesis
    proof
      assume "db_symbols (db_of w1) = db_symbols (db_of w0)"
      then show ?thesis using up same_symbols [of "db_of w1" "db_of w0"] unfolding torn_def by metis
    next
      assume "update_ranking (ms_base s) (ms_rank s) (state_metrics s) (db_of w0) = (Inr (), db_of w1)"
      note rk = update_ranking_entry [OF this]
      obtain e0 where e0: "entry (ms_base s) (db_of w0) = Some e0" "se_row e0 = state_row s" "bases_distinct (db_of w0)" using up by blast
      then obtain e1 where "entry (ms_base s) (db_of w1) = Some e1" "se_row e1 = state_row s" using rk by metis
      then have "torn s (db_of w) (db_of w1)" by (simp add: torn_def)
      then show ?thesis using rk [OF e0(3)] up by simp
    qed
  qed
qed

lemma persist_all_failed:
  assumes "persist_all sv ss w = (Inl e, w1)" "bases_distinct (db_of w)" "distinct (map ms_base ss)"
  shows "\<exists>ok s rest. ss = ok @ s # rest \<and> (\<forall>x \<in> set ok. mirrors x (db_of w1)) \<and> torn s (db_of w) (db_of w1) \<and>
    (\<forall>b. b \<notin> set (map ms_base (ok @ [s])) \<longrightarrow> entry b (db_of w1) = entry b (db_of w)) \<and> bases_distinct (db_of w1)"
  using assms
proof (induction ss arbitrary: w)
  case (Cons s ss)
  obtain r w0 where p: "persist sv s w = (r, w0)" by fastforce
  show ?case
  proof (cases r)
    case (Inl x)
    then have "w1 = w0" using Cons.prems(1) p by simp
    then show ?thesis using persist_failed [OF p [unfolded Inl] Cons.prems(2)] by (intro exI [of _ "[]"] exI [of _ s] exI [of _ ss]) simp
  next
    case (Inr u)
    have m: "mirrors s (db_of w0)" "\<forall>b. b \<noteq> ms_base s \<longrightarrow> entry b (db_of w0) = entry b (db_of w)" "bases_distinct (db_of w0)"
      using persist_mirrors [of s w w0] p Inr Cons.prems(2) by simp_all
    obtain ok x rest where ih: "ss = ok @ x # rest" "\<forall>y \<in> set ok. mirrors y (db_of w1)" "torn x (db_of w0) (db_of w1)"
      "\<forall>b. b \<notin> set (map ms_base (ok @ [x])) \<longrightarrow> entry b (db_of w1) = entry b (db_of w0)" "bases_distinct (db_of w1)"
      using Cons.IH [OF _ m(3)] Cons.prems(1,3) p Inr by auto
    have d: "ms_base s \<notin> set (map ms_base (ok @ [x]))" "ms_base x \<noteq> ms_base s" using Cons.prems(3) ih(1) by auto
    have "mirrors s (db_of w1)" using m(1) ih(4) d(1) by (simp add: mirrors_def)
    moreover have "torn x (db_of w) (db_of w1)" using ih(3) m(2) d(2) by (simp add: torn_def)
    ultimately show ?thesis using ih m(2) by (intro exI [of _ "s # ok"] exI [of _ x] exI [of _ rest]) auto
  qed
qed simp

lemma refresh_failed:
  assumes run: "refresh_universe sv (Inr symbols) (Inr stats) (m, w) = (Inl e, (m', w'))" and r: "retier symbols stats m = (Inr xs, m1)"
    and d: "bases_distinct (db_of w)" "distinct (map ms_base (map snd (mg_states m1)))"
  shows "mg_states m' = mg_states m1 \<and> bases_distinct (db_of w') \<and>
    (\<exists>ok rest. map snd (mg_states m1) = ok @ rest \<and> (\<forall>s \<in> set ok. mirrors s (db_of w')) \<and>
       (rest \<noteq> [] \<longrightarrow> torn (hd rest) (db_of w) (db_of w')) \<and> (\<forall>s \<in> set (tl rest). entry (ms_base s) (db_of w') = entry (ms_base s) (db_of w)))"
proof -
  let ?ss = "map snd (mg_states m1)"
  let ?m2 = "m1\<lparr>mg_refresh_count := mg_refresh_count m1 + 1, mg_last_tier_changes := xs\<rparr>"
  obtain r1 w1 where w1: "persist_all sv ?ss w = (r1, w1)" by fastforce
  obtain r2 w2 where w2: "persist_tier_changes sv xs w1 = (r2, w2)" by fastforce
  obtain r3 w3 where w3: "persist_metrics_snapshots sv ?ss w2 = (r3, w3)" by fastforce
  obtain r4 w4 where w4: "persist_breadth_snapshot sv m1 w3 = (r4, w4)" by fastforce
  obtain r5 s5 where s5: "(if sv_has_feed sv then sync_feed sv (?m2, w4) else (Inr (), (?m2, w4))) = (r5, s5)" by (meson surj_pair)
  have chain: "attempt r1 (m1, w1) (\<lambda>_. attempt r2 (m1, w2) (\<lambda>_. attempt r3 (m1, w3) (\<lambda>_. attempt r4 (m1, w4) (\<lambda>_.
      attempt r5 s5 (\<lambda>_. (Inr xs, s5)))))) = (Inl e, (m', w'))"
    using run refresh_universe_steps [OF r w1 w2 w3 w4 s5] by metis
  show ?thesis
  proof (cases r1)
    case (Inl x)
    then have "m' = m1" "w' = w1" using chain by simp_all
    moreover obtain ok s rest where p: "?ss = ok @ s # rest" "\<forall>x \<in> set ok. mirrors x (db_of w1)" "torn s (db_of w) (db_of w1)"
      "\<forall>b. b \<notin> set (map ms_base (ok @ [s])) \<longrightarrow> entry b (db_of w1) = entry b (db_of w)" "bases_distinct (db_of w1)"
      using persist_all_failed [OF w1 [unfolded Inl] d] by (elim exE conjE)
    moreover have "\<forall>x \<in> set rest. ms_base x \<notin> set (map ms_base (ok @ [s]))"
      using d(2) unfolding p(1) by (auto simp: image_iff)
    ultimately show ?thesis by (intro conjI exI [of _ ok] exI [of _ "s # rest"]) auto
  next
    case (Inr u)
    then have all: "\<forall>s \<in> set ?ss. mirrors s (db_of w1)" "bases_distinct (db_of w1)"
      using persist_all_mirrors [of ?ss w w1] w1 d by simp_all
    have later: "db_symbols (db_of w2) = db_symbols (db_of w1)" "db_symbols (db_of w3) = db_symbols (db_of w1)"
      "db_symbols (db_of w4) = db_symbols (db_of w1)"
      using tier_changes_symbols [of xs w1] metrics_symbols [of ?ss w2] breadth_symbols [of m1 w3] w2 w3 w4 by simp_all
    have "mg_states (fst s5) = mg_states m1 \<and> db_symbols (db_of (snd s5)) = db_symbols (db_of w4)"
      using s5 sync_feed_symbols [of ?m2 w4] sync_feed_states [of ?m2 w4] by (auto split: if_splits)
    then have "mg_states m' = mg_states m1 \<and> db_symbols (db_of w') = db_symbols (db_of w1)"
      using chain Inr later by (auto simp: attempt_def split: sum.splits)
    then show ?thesis using all same_symbols [of "db_of w'" "db_of w1"] by (intro conjI exI [of _ ?ss] exI [of _ "[]"]) (auto simp: mirrors_def)
  qed
qed

end

lemma upsert_symbol_Inl: "upsert_symbol row db = (Inl e, db1) \<Longrightarrow> db_symbols db1 = db_symbols db"
  by (auto simp: upsert_symbol_def Let_def split: if_splits option.splits)

lemma update_ranking_Inl: "update_ranking base rank metrics db = (Inl e, db1) \<Longrightarrow> db_symbols db1 = db_symbols db"
  by (auto simp: update_ranking_def split: if_splits)

interpretation db_store: registry_services db_services id
  by unfold_locales
    (auto dest: upsert_symbol_Inl update_ranking_Inl simp: db_services_def insert_tier_change_def insert_metrics_def insert_breadth_def Let_def split_beta split: sum.split)

interpretation fed_store: registry_services "with_feed db_services send" fst for send
  using db_store.with_feed_services [of send] by (simp add: comp_def)

interpretation cut_store: registry_services "cut_services acted (with_feed db_services send)" "fst \<circ> snd" for acted send
  by (rule fed_store.cut_services)

section \<open>Spike tags\<close>

text \<open>The tag \<^verbatim>\<open>spike\<close> of a state says whether its base is spike-promoted.\<close>

definition tagged :: "string set \<Rightarrow> string \<times> symbol_state \<Rightarrow> bool" where
  "tagged spiked e \<longleftrightarrow> finite (ms_tags (snd e)) \<and> (''spike'' \<in> ms_tags (snd e) \<longleftrightarrow> fst e \<in> spiked)"

definition manager_ok :: "manager \<Rightarrow> bool" where
  "manager_ok m \<longleftrightarrow> universe_ok (mg_states m) \<and> (\<forall>e \<in> set (mg_states m). tagged (mg_spike_promoted m) e)"

lemma assign_tier_tagged:
  assumes "assign_tier m top_n base s spiked = Inr (s', spiked', changes)" "ms_status s = ''frozen'' \<Longrightarrow> tagged spiked (base, s)"
  shows "tagged spiked' (base, s')"
proof (cases "ms_status s = ''frozen''")
  case True
  then show ?thesis using assms by (simp add: assign_tier_def)
next
  case False
  obtain bt klass where b: "base_tier_of m top_n base s = (bt, klass)" by fastforce
  obtain t k s1 sp where a: "apply_spike_logic (mg_settings m) base s bt klass spiked = Inr (t, k, s1, sp)"
    "s' = s1\<lparr>ms_tags := insert k (if base \<in> sp \<and> bt = tier_rest then {''spike''} else {}), ms_tier := t, ms_klass := k\<rparr>"
    "spiked' = sp"
    using assms(1) False b by (auto simp: assign_tier_def rbind_eq_Inr)
  have "k = snd (tier_rule m top_n sp base s)" using spike_tier_rule [OF b a(1)] by (metis snd_conv)
  then have k: "k \<noteq> ''spike''" by (auto simp: tier_rule_def)
  have "base \<in> sp \<longrightarrow> bt = tier_rest" using apply_spike_cases [OF a(1)] by (auto split: if_splits)
  then show ?thesis using k by (auto simp: tagged_def a(2,3))
qed

lemma tagged_other: "b \<notin> K \<Longrightarrow> sp' - K = sp - K \<Longrightarrow> tagged sp' (b, s) = tagged sp (b, s)"
  unfolding tagged_def by auto

lemma assign_tiers_tagged:
  assumes "assign_tiers m top_n states spiked = (Inr changes, states', spiked')" "distinct (map fst states)"
    "\<forall>e \<in> set states. ms_status (snd e) = ''frozen'' \<longrightarrow> tagged spiked e"
  shows "\<forall>e \<in> set states'. tagged spiked' e"
  using assms
proof (induction states arbitrary: spiked changes states' spiked')
  case (Cons x states)
  obtain base s where x: "x = (base, s)" by (cases x)
  obtain s1 spiked1 changes1 rest_changes rest where
    a: "assign_tier m top_n base s spiked = Inr (s1, spiked1, changes1)"
    "assign_tiers m top_n states spiked1 = (Inr rest_changes, rest, spiked')" "states' = (base, s1) # rest"
    using Cons.prems(1) x by (auto simp: rbind_eq_Inr split: sum.splits prod.splits)
  have d: "distinct (map fst states)" "base \<notin> set (map fst states)" using Cons.prems(2) x by auto
  have "tagged spiked1 (base, s1)" using assign_tier_tagged [OF a(1)] Cons.prems(3) x by auto
  then have here: "tagged spiked' (base, s1)" using tagged_other [OF d(2) assign_tiers_facts(2) [OF a(2) d(1)]] by simp
  have "\<forall>e \<in> set states. ms_status (snd e) = ''frozen'' \<longrightarrow> tagged spiked1 e"
  proof (intro ballI impI)
    fix e assume e: "e \<in> set states" "ms_status (snd e) = ''frozen''"
    have "fst e \<notin> {base}" using e(1) d(2) by auto
    moreover have "tagged spiked e" using Cons.prems(3) e by simp
    ultimately show "tagged spiked1 e" using tagged_other [OF _ assign_tier_facts(1) [OF a(1)], of "fst e" "snd e"] by simp
  qed
  from Cons.IH [OF a(2) d(1) this] here show ?case using a(3) by simp
qed simp

lemma sync_listing_frozen:
  assumes "(b, s) \<in> set (sync_listing tickers ranks x states)" "ms_status s = ''frozen''"
  shows "(b, s) \<in> set states"
proof -
  obtain pair es where x: "x = (pair, es)" by (cases x)
  have take: "ms_status (take_stats st s0) = ms_status s0" for st s0 by (simp add: take_stats_def split: option.split)
  let ?old = "case map_of states (es_base es) of None \<Rightarrow> symbol_state_new (es_base es) pair
      | Some s \<Rightarrow> if ms_status s = ''frozen'' then s\<lparr>ms_status := ''trading''\<rparr> else s"
  let ?new = "(take_stats (map_of tickers pair) (?old\<lparr>ms_pair := pair\<rparr>))\<lparr>ms_rank := map_of ranks pair\<rparr>"
  have "ms_status ?new \<noteq> ''frozen''" by (simp add: take symbol_state_new_def split: option.split)
  moreover have "(b, s) \<in> set (alput (es_base es) ?new states)" using assms(1) by (simp add: sync_listing_def x Let_def)
  ultimately show ?thesis using assms(2) alput_pairs [of "es_base es" ?new states] by auto
qed

lemma sync_listings_frozen:
  "(b, s) \<in> set (sync_listings active tickers ranks states) \<Longrightarrow> ms_status s = ''frozen'' \<Longrightarrow> (b, s) \<in> set states"
  unfolding sync_listings_def
  by (induction active arbitrary: states) (auto dest: sync_listing_frozen)

lemma retier_keeps_ok:
  assumes "manager_ok m" "retier symbols tickers m = (Inr changes, m')"
  shows "manager_ok m'"
proof -
  let ?active = "active_pairs symbols"
  have u: "universe_ok (mg_states m')" using retier_settles [OF _ assms(2)] assms(1) by (simp add: manager_ok_def)
  obtain ranks top_n where r: "rank_universe m ?active tickers = Inr (ranks, top_n)"
    using assms(2) by (cases "rank_universe m ?active tickers") (auto simp: retier_def)
  let ?delisted = "fst (mark_delistings ?active (mg_states m))"
  let ?listed = "sync_listings ?active tickers ranks ?delisted"
  obtain changes2 states spiked where t: "assign_tiers m top_n ?listed (mg_spike_promoted m) = (Inr changes2, states, spiked)"
    "m' = m\<lparr>mg_states := states, mg_spike_promoted := spiked\<rparr>"
    using assms(2) r by (auto simp: retier_def Let_def rbind_eq_Inr split: prod.splits)
  have "tagged (mg_spike_promoted m) e" if e: "e \<in> set ?delisted" for e
  proof -
    obtain s0 where s0: "(fst e, s0) \<in> set (mg_states m)" "snd e = delist ?active s0" using e unfolding mark_delistings_map by force
    have "ms_tags (delist ?active s0) = ms_tags s0" by (simp add: delist_def)
    moreover have "tagged (mg_spike_promoted m) (fst e, s0)" using assms(1) s0(1) by (simp add: manager_ok_def)
    ultimately show ?thesis using s0(2) by (simp add: tagged_def)
  qed
  then have frozen: "\<forall>e \<in> set ?listed. ms_status (snd e) = ''frozen'' \<longrightarrow> tagged (mg_spike_promoted m) e"
    using sync_listings_frozen by (metis prod.collapse)
  have "distinct (map fst states)" using u t(2) by (simp add: universe_ok_def)
  moreover have "distinct (map fst ?listed)"
  proof -
    have "universe_ok ?delisted" using mark_delistings_settled assms(1) by (auto simp: manager_ok_def)
    then have "distinct (map fst ?delisted)" by (simp add: universe_ok_def)
    then have "distinct (map fst (sync_listings xs tickers ranks ?delisted))" for xs
      unfolding sync_listings_def
      by (rule fold_invariant [where Q = "\<lambda>_. True" and P = "\<lambda>st. distinct (map fst st)", rotated]) 
        (auto simp: sync_listing_def Let_def)
    then show ?thesis .
  qed
  ultimately show ?thesis using u assign_tiers_tagged [OF t(1) _ frozen] t(2) by (simp add: manager_ok_def)
qed

section \<open>Reading the registry back\<close>

definition loaded :: "symbol_row \<times> int option \<Rightarrow> symbol_state" where
  "loaded x = (symbol_state_new (sy_base (fst x)) (sy_symbol (fst x)))
     \<lparr>ms_tier := sy_tier (fst x), ms_klass := sy_klass (fst x), ms_status := sy_status (fst x), ms_tags := set (sy_tags (fst x)),
      ms_rank := snd x\<rparr>"

lemma load_row_fields:
  "mg_states (load_row x m) = alput (sy_base (fst x)) (loaded x) (mg_states m)"
  "mg_spike_promoted (load_row x m) =
     (if ''spike'' \<in> set (sy_tags (fst x)) then insert (sy_base (fst x)) (mg_spike_promoted m) else mg_spike_promoted m)"
  by (cases x; simp add: load_row_def loaded_def Let_def)+

lemma load_existing_facts:
  assumes "distinct (map (sy_base \<circ> fst) rows)"
  shows "map_of (mg_states (load_existing rows m)) b =
      (case find (\<lambda>x. sy_base (fst x) = b) rows of Some x \<Rightarrow> Some (loaded x) | None \<Rightarrow> map_of (mg_states m) b)"
    and "mg_spike_promoted (load_existing rows m) =
      mg_spike_promoted m \<union> {b. \<exists>x \<in> set rows. sy_base (fst x) = b \<and> ''spike'' \<in> set (sy_tags (fst x))}"
proof -
  show "map_of (mg_states (load_existing rows m)) b =
      (case find (\<lambda>x. sy_base (fst x) = b) rows of Some x \<Rightarrow> Some (loaded x) | None \<Rightarrow> map_of (mg_states m) b)"
    using assms
  proof (induction rows arbitrary: m)
    case (Cons x rows)
    have "sy_base (fst x) \<notin> (sy_base \<circ> fst) ` set rows" using Cons.prems by simp
    then have "find (\<lambda>x. sy_base (fst x) = b) rows = None" if "sy_base (fst x) = b"
      unfolding find_None_iff using that by (metis comp_apply image_eqI)
    then show ?case using Cons by (auto simp: load_existing_def load_row_fields split: option.split)
  qed (simp add: load_existing_def)
  show "mg_spike_promoted (load_existing rows m) =
      mg_spike_promoted m \<union> {b. \<exists>x \<in> set rows. sy_base (fst x) = b \<and> ''spike'' \<in> set (sy_tags (fst x))}"
  proof (induction rows arbitrary: m)
    case (Cons x rows)
    have "load_existing (x # rows) m = load_existing rows (load_row x m)" by (simp add: load_existing_def)
    then have "mg_spike_promoted (load_existing (x # rows) m) =
        mg_spike_promoted (load_row x m) \<union> {b. \<exists>x \<in> set rows. sy_base (fst x) = b \<and> ''spike'' \<in> set (sy_tags (fst x))}"
      using Cons.IH [of "load_row x m"] by simp
    then show ?case by (auto simp: load_row_fields)
  qed (simp add: load_existing_def)
qed

lemma registry_rows_distinct: "bases_distinct db \<Longrightarrow> distinct (map (sy_base \<circ> fst) (registry_rows db))"
proof -
  assume a: "bases_distinct db"
  have "mset (map (sy_base \<circ> se_row) (list_all_symbols db)) = mset (map (sy_base \<circ> se_row) (db_symbols db))"
    by (simp add: list_all_symbols_def)
  then have "distinct (map (sy_base \<circ> se_row) (list_all_symbols db))"
    using a unfolding bases_distinct_def by (metis mset_eq_imp_distinct_iff)
  then show ?thesis by (simp add: registry_rows_def comp_def)
qed

lemma entry_row:
  assumes "bases_distinct db" "entry b db = Some e"
  shows "find (\<lambda>x. sy_base (fst x) = b) (registry_rows db) = Some (se_row e, se_rank e)"
    and "\<forall>x \<in> set (registry_rows db). sy_base (fst x) = b \<longrightarrow> x = (se_row e, se_rank e)"
proof -
  have e: "e \<in> set (db_symbols db)" "sy_base (se_row e) = b"
    using assms(2) find_member [of "has_base b" "db_symbols db" e] by (auto simp: entry_def has_base_def)
  have one: "x = (se_row e, se_rank e)" if x: "x \<in> set (registry_rows db)" "sy_base (fst x) = b" for x
  proof -
    obtain e' where e': "e' \<in> set (db_symbols db)" "x = (se_row e', se_rank e')"
      using x(1) by (auto simp: registry_rows_def list_all_symbols_def)
    then have "e' = e" using e x(2) assms(1) by (auto simp: bases_distinct_def distinct_map inj_on_def)
    then show ?thesis using e'(2) by simp
  qed
  then show "\<forall>x \<in> set (registry_rows db). sy_base (fst x) = b \<longrightarrow> x = (se_row e, se_rank e)" by blast
  have here: "(se_row e, se_rank e) \<in> set (registry_rows db)" using e(1) by (auto simp: registry_rows_def list_all_symbols_def)
  show "find (\<lambda>x. sy_base (fst x) = b) (registry_rows db) = Some (se_row e, se_rank e)"
  proof (cases "find (\<lambda>x. sy_base (fst x) = b) (registry_rows db)")
    case None
    then show ?thesis using here e(2) unfolding find_None_iff by force
  next
    case (Some x)
    then show ?thesis using one find_member [OF Some] by simp
  qed
qed

lemma restart_entry:
  assumes "bases_distinct db"
  shows "map_of (mg_states (load_existing (registry_rows db) (manager_new cfg))) b = map_option (\<lambda>e. loaded (se_row e, se_rank e)) (entry b db)"
proof (cases "entry b db")
  case None
  then have "\<forall>e \<in> set (db_symbols db). sy_base (se_row e) \<noteq> b" by (auto simp: entry_def find_None_iff has_base_def)
  then have "find (\<lambda>x. sy_base (fst x) = b) (registry_rows db) = None"
    by (auto simp: find_None_iff registry_rows_def list_all_symbols_def)
  moreover have "mg_states (manager_new cfg) = []" by (simp add: manager_new_def)
  ultimately show ?thesis using load_existing_facts(1) [OF registry_rows_distinct [OF assms]] None by simp
next
  case (Some e)
  then show ?thesis using load_existing_facts(1) [OF registry_rows_distinct [OF assms]] entry_row(1) [OF assms Some] by simp
qed

text \<open>
  C20: a restart recovers the universe. After a cycle that does not raise, over the database and the feed, a manager started
  anew from the registry holds every symbol with the pair, tier, class, status, tags and rank it had, and takes it for
  spike-promoted exactly when it was; what the next cycle relies on holds again.
\<close>

theorem restart_recovers:
  assumes "manager_ok m" "bases_distinct db"
    and "refresh_universe (with_feed db_services send) exchange tickers (m, (db, f)) = (Inr changes, (m', (db', f')))"
  shows "manager_ok m' \<and> bases_distinct db' \<and>
    (\<forall>(b, s) \<in> set (mg_states m'). \<exists>s0. map_of (mg_states (load_existing (registry_rows db') (manager_new cfg))) b = Some s0 \<and>
       ms_pair s0 = ms_pair s \<and> ms_tier s0 = ms_tier s \<and> ms_klass s0 = ms_klass s \<and> ms_status s0 = ms_status s \<and>
       ms_tags s0 = ms_tags s \<and> ms_rank s0 = ms_rank s \<and>
       (b \<in> mg_spike_promoted (load_existing (registry_rows db') (manager_new cfg)) \<longleftrightarrow> b \<in> mg_spike_promoted m'))"
proof -
  obtain symbols stats m1 where c: "retier symbols stats m = (Inr changes, m1)" "mg_states m' = mg_states m1"
    "mg_spike_promoted m' = mg_spike_promoted m1"
    "distinct (map ms_base (map snd (mg_states m1))) \<longrightarrow> (\<forall>s \<in> set (map snd (mg_states m1)). mirrors s db') \<and> bases_distinct db'"
    using fed_store.refresh_mirrors [OF assms(3)] assms(2) by auto
  have ok: "manager_ok m'" using retier_keeps_ok [OF assms(1) c(1)] c(2,3) by (simp add: manager_ok_def)
  then have base: "ms_base s = b" if "(b, s) \<in> set (mg_states m')" for b s using that by (auto simp: manager_ok_def universe_ok_def)
  then have keys: "map ms_base (map snd (mg_states m')) = map fst (mg_states m')" by auto
  have "distinct (map ms_base (map snd (mg_states m1)))" unfolding c(2) [symmetric] keys using ok by (simp add: manager_ok_def universe_ok_def)
  then have m: "\<forall>s \<in> set (map snd (mg_states m')). mirrors s db'" "bases_distinct db'" using c(2,4) by auto
  let ?rows = "registry_rows db'"
  note load = load_existing_facts [OF registry_rows_distinct [OF m(2)], of "manager_new cfg"]
  have "\<exists>s0. map_of (mg_states (load_existing ?rows (manager_new cfg))) b = Some s0 \<and>
       ms_pair s0 = ms_pair s \<and> ms_tier s0 = ms_tier s \<and> ms_klass s0 = ms_klass s \<and> ms_status s0 = ms_status s \<and>
       ms_tags s0 = ms_tags s \<and> ms_rank s0 = ms_rank s \<and>
       (b \<in> mg_spike_promoted (load_existing ?rows (manager_new cfg)) \<longleftrightarrow> b \<in> mg_spike_promoted m')"
    if s: "(b, s) \<in> set (mg_states m')" for b s
  proof -
    have "mirrors s db'" using m(1) s by force
    then obtain e where e: "entry b db' = Some e" "se_row e = state_row s" "se_rank e = ms_rank s"
      using base [OF s] by (auto simp: mirrors_def)
    note found = entry_row [OF m(2) e(1), unfolded e(2,3)]
    have here: "(state_row s, ms_rank s) \<in> set ?rows" "sy_base (fst (state_row s, ms_rank s)) = b"
      using find_member [OF found(1)] by blast+
    have tags: "finite (ms_tags s)" "''spike'' \<in> ms_tags s \<longleftrightarrow> b \<in> mg_spike_promoted m'"
      using ok s by (force simp: manager_ok_def tagged_def)+
    then have set: "set (sy_tags (state_row s)) = ms_tags s" by (simp add: state_row_def)
    have "(\<exists>x \<in> set ?rows. sy_base (fst x) = b \<and> ''spike'' \<in> set (sy_tags (fst x))) \<longleftrightarrow> ''spike'' \<in> ms_tags s"
      using found(2) here set by (metis fst_conv)
    moreover have "mg_spike_promoted (manager_new cfg) = {}" by (simp add: manager_new_def)
    ultimately have "b \<in> mg_spike_promoted (load_existing ?rows (manager_new cfg)) \<longleftrightarrow> b \<in> mg_spike_promoted m'"
      using load(2) tags(2) by auto
    moreover have "map_of (mg_states (load_existing ?rows (manager_new cfg))) b = Some (loaded (state_row s, ms_rank s))"
      using load(1) [of b] found(1) by simp
    ultimately show ?thesis using set by (simp add: loaded_def state_row_def symbol_state_new_def)
  qed
  then show ?thesis using ok m(2) by blast
qed

text \<open>What a restart knows of a base.\<close>

abbreviation restarted :: "settings \<Rightarrow> db \<Rightarrow> string \<Rightarrow> symbol_state option" where
  "restarted cfg db b \<equiv> map_of (mg_states (load_existing (registry_rows db) (manager_new cfg))) b"

text \<open>
  C21: a cycle that is cancelled, or that a repository fails, leaves a prefix. At whichever call it ends, and whether or not the
  cancelled call took effect, the manager in memory has moved on to the new tiers, while a restart finds the new state of the
  symbols up to one, for that one its old state or its new row under some rank, and the old state of all others.
\<close>

theorem cut_cycle_restart:
  assumes "manager_ok m" "bases_distinct db" "retier symbols stats m = (Inr changes, m1)"
    and "refresh_universe (cut_services acted (with_feed db_services send)) (Inr symbols) (Inr stats) (m, (n, (db, f))) =
      (Inl e, (m', (n', (db', f'))))"
  shows "mg_states m' = mg_states m1 \<and> (\<exists>ok rest. map snd (mg_states m1) = ok @ rest \<and>
    (\<forall>s \<in> set ok. restarted cfg db' (ms_base s) = Some (loaded (state_row s, ms_rank s))) \<and>
    (\<forall>s \<in> set (tl rest). restarted cfg db' (ms_base s) = restarted cfg db (ms_base s)) \<and>
    (rest \<noteq> [] \<longrightarrow> restarted cfg db' (ms_base (hd rest)) = restarted cfg db (ms_base (hd rest)) \<or>
       (\<exists>k. restarted cfg db' (ms_base (hd rest)) = Some (loaded (state_row (hd rest), k)))))"
proof -
  have ok: "manager_ok m1" by (rule retier_keeps_ok [OF assms(1,3)])
  then have "map ms_base (map snd (mg_states m1)) = map fst (mg_states m1)" by (force simp: manager_ok_def universe_ok_def)
  then have d: "distinct (map ms_base (map snd (mg_states m1)))" using ok by (simp only: manager_ok_def universe_ok_def)
  have db: "bases_distinct ((fst \<circ> snd) (n, (db, f)))" using assms(2) by simp
  from cut_store.refresh_failed [OF assms(4,3) db d] obtain ahead rest where
    m: "mg_states m' = mg_states m1" "bases_distinct db'" and parts: "map snd (mg_states m1) = ahead @ rest" "\<forall>s \<in> set ahead. mirrors s db'"
      "rest \<noteq> [] \<longrightarrow> torn (hd rest) db db'" "\<forall>s \<in> set (tl rest). entry (ms_base s) db' = entry (ms_base s) db" by auto
  note after = restart_entry [OF m(2), of cfg] and before = restart_entry [OF assms(2), of cfg]
  have "\<forall>s \<in> set ahead. restarted cfg db' (ms_base s) = Some (loaded (state_row s, ms_rank s))"
    using parts(2) unfolding after by (auto simp: mirrors_def)
  moreover have "\<forall>s \<in> set (tl rest). restarted cfg db' (ms_base s) = restarted cfg db (ms_base s)"
    using parts(4) unfolding after before by simp
  moreover have "rest \<noteq> [] \<longrightarrow> restarted cfg db' (ms_base (hd rest)) = restarted cfg db (ms_base (hd rest)) \<or>
       (\<exists>k. restarted cfg db' (ms_base (hd rest)) = Some (loaded (state_row (hd rest), k)))"
    using parts(3) unfolding after before torn_def by auto
  ultimately show ?thesis using m(1) parts(1) by blast
qed

text \<open>A first cycle on an empty database, which lists Bitcoin: its row, its tier change and its metrics are stored.\<close>

definition btc_stored :: "db \<Rightarrow> db" where
  "btc_stored db = snd (persist db_services btc_core db)"

lemma persist_btc:
  "persist (with_feed db_services no_network) btc_core (db_new 0, f) = (Inr (), (btc_stored (db_new 0), f))"
  by (simp add: persist_def with_feed_def on_fst_def db_services_def upsert_symbol_def db_new_def symbol_check_def int16_def
      update_ranking_def json_number_def state_row_def state_metrics_def btc_core_def symbol_state_new_def tier_core_def
      btc_stored_def Let_def)

lemma btc_stored_facts: "get_id ''BTC'' (btc_stored (db_new 0)) = Some 1" "symbol_exists 1 (btc_stored (db_new 0))"
  by (simp_all add: btc_stored_def persist_def db_services_def upsert_symbol_def db_new_def symbol_check_def int16_def
      update_ranking_def json_number_def state_row_def state_metrics_def btc_core_def symbol_state_new_def tier_core_def
      get_id_def has_base_def symbol_exists_def Let_def)

theorem restart_recovers_witness:
  "\<exists>changes m' db' f'. refresh_universe (with_feed db_services no_network) (Inr [btc_listing]) (Inr [])
       (manager_new default_settings, (db_new 0, (binance_new (all_symbols default_settings) ''wss://x'' ''1m'' 5 None, ()))) =
       (Inr changes, (m', (db', (f', ())))) \<and>
     (\<exists>s. map_of (mg_states (load_existing (registry_rows db') (manager_new default_settings))) ''BTC'' = Some s \<and>
        ms_pair s = ''BTCUSDT'' \<and> ms_tier s = tier_core \<and> ms_tags s = {''core''})"
proof -
  let ?sv = "with_feed db_services no_network" and ?m = "manager_new default_settings"
  let ?f = "binance_new (all_symbols default_settings) ''wss://x'' ''1m'' 5 None"
  let ?m1 = "?m\<lparr>mg_states := [(''BTC'', btc_core)], mg_spike_promoted := {}\<rparr>" and ?ss = "[btc_core]"
  let ?d = "btc_stored (db_new 0)"
  obtain c where r: "retier [btc_listing] [] ?m = (Inr c, ?m1)"
    and c: "c = [\<lparr>ch_base = ''BTC'', ch_pair = ''BTCUSDT'', ch_from_tier = tier_rest, ch_to_tier = tier_core,
      ch_reason = change_reason tier_core tier_rest tier_core\<rparr>]" using retier_btc by blast
  have base: "ms_base btc_core = ''BTC''" by (simp add: btc_core_def symbol_state_new_def)
  have p1: "persist_all ?sv ?ss (db_new 0, (?f, ())) = (Inr (), (?d, (?f, ())))" by (simp add: persist_btc)
  have "\<exists>d2. persist_tier_changes ?sv c (?d, (?f, ())) = (Inr (), (d2, (?f, ()))) \<and> db_symbols d2 = db_symbols ?d"
    by (simp add: persist_tier_changes_def with_feed_def db_services_def on_fst_def c insert_tier_change_def append_row_def
        references_def btc_stored_facts int16_def int32_def tier_rest_def tier_core_def Let_def)
  then obtain d2 where p2: "persist_tier_changes ?sv c (?d, (?f, ())) = (Inr (), (d2, (?f, ())))" "db_symbols d2 = db_symbols ?d"
    by blast
  then have d2: "get_id ''BTC'' d2 = Some 1" "symbol_exists 1 d2" using btc_stored_facts by (simp_all add: get_id_def symbol_exists_def)
  have "\<exists>d3. persist_metrics_snapshots ?sv ?ss (d2, (?f, ())) = (Inr (), (d3, (?f, ())))"
    by (simp add: persist_metrics_snapshots_def with_feed_def db_services_def on_fst_def base d2 insert_metrics_def append_row_def
        references_def int16_def int32_def Let_def)
      (simp add: btc_core_def symbol_state_new_def tier_core_def)
  then obtain d3 where p3: "persist_metrics_snapshots ?sv ?ss (d2, (?f, ())) = (Inr (), (d3, (?f, ())))" by blast
  have p4: "persist_breadth_snapshot ?sv ?m1 w = (Inr (), w)" for w by (simp add: persist_breadth_snapshot_def manager_new_def split: option.split)
  let ?m2 = "?m1\<lparr>mg_refresh_count := mg_refresh_count ?m1 + 1, mg_last_tier_changes := c\<rparr>"
  obtain m' f' where p5: "sync_feed ?sv (?m2, (d3, (?f, ()))) = (Inr (), (m', (d3, (f', ()))))" "mg_states m' = [(''BTC'', btc_core)]"
    using quiet_sync [of db_services ?m2 d3 ?f] by auto
  have has: "sv_has_feed ?sv" by (simp add: with_feed_def)
  have q1: "persist_all ?sv (map snd (mg_states ?m1)) (db_new 0, (?f, ())) = (Inr (), (?d, (?f, ())))"
    and q3: "persist_metrics_snapshots ?sv (map snd (mg_states ?m1)) (d2, (?f, ())) = (Inr (), (d3, (?f, ())))"
    using p1 p3 by simp_all
  have run: "refresh_universe ?sv (Inr [btc_listing]) (Inr []) (?m, (db_new 0, (?f, ()))) = (Inr c, (m', (d3, (f', ()))))"
    using refresh_universe_steps [OF r q1 p2(1) q3 p4, of "Inr ()" "(m', (d3, (f', ())))"] p5(1) has by simp
  have ok: "manager_ok ?m" "bases_distinct (db_new 0)"
    by (simp_all add: manager_ok_def universe_ok_def manager_new_def bases_distinct_def db_new_def)
  have "(''BTC'', btc_core) \<in> set (mg_states m')" by (simp add: p5(2))
  then obtain s where s: "map_of (mg_states (load_existing (registry_rows d3) ?m)) ''BTC'' = Some s" "ms_pair s = ms_pair btc_core"
    "ms_tier s = ms_tier btc_core" "ms_tags s = ms_tags btc_core"
    using restart_recovers [OF ok run, of default_settings] by fast
  have "ms_pair btc_core = ''BTCUSDT''" "ms_tier btc_core = tier_core" "ms_tags btc_core = {''core''}"
    by (simp_all add: btc_core_def symbol_state_new_def)
  then have "ms_pair s = ''BTCUSDT''" "ms_tier s = tier_core" "ms_tags s = {''core''}" using s(2-4) by metis+
  with run s(1) show ?thesis by (intro exI conjI)
qed

text \<open>The same cycle, cancelled while it waits for the rank of Bitcoin: the row is stored, the rank is not.\<close>

theorem cut_cycle_restart_witness:
  "\<exists>m' n' db' f'. refresh_universe (cut_services False (with_feed db_services no_network)) (Inr [btc_listing]) (Inr [])
       (manager_new default_settings,
        (1, (db_new 0, (binance_new (all_symbols default_settings) ''wss://x'' ''1m'' 5 None, ())))) =
       (Inl cancelled_error, (m', (n', (db', f')))) \<and> mg_states m' = [(''BTC'', btc_core)] \<and>
     (restarted default_settings db' ''BTC'' = None \<or> (\<exists>k. restarted default_settings db' ''BTC'' = Some (loaded (state_row btc_core, k))))"
proof -
  let ?sv = "cut_services False (with_feed db_services no_network)" and ?m = "manager_new default_settings"
  let ?f = "(binance_new (all_symbols default_settings) ''wss://x'' ''1m'' 5 None, ())"
  obtain c where r: "retier [btc_listing] [] ?m = (Inr c, ?m\<lparr>mg_states := [(''BTC'', btc_core)], mg_spike_promoted := {}\<rparr>)"
    using retier_btc by blast
  have "fst (upsert_symbol (state_row btc_core) (db_new 0)) = Inr 1"
    by (simp add: upsert_symbol_def db_new_def symbol_check_def int16_def state_row_def btc_core_def symbol_state_new_def tier_core_def Let_def)
  then obtain d where d: "upsert_symbol (state_row btc_core) (db_new 0) = (Inr 1, d)" by (metis prod.collapse)
  have "persist ?sv btc_core (1, (db_new 0, ?f)) = (Inl cancelled_error, (0, (d, ?f)))"
    by (simp add: persist_def cut_services_def cut_call_def with_feed_def on_fst_def db_services_def d split_beta)
  then have run: "refresh_universe ?sv (Inr [btc_listing]) (Inr []) (?m, (1, (db_new 0, ?f))) =
      (Inl cancelled_error, (?m\<lparr>mg_states := [(''BTC'', btc_core)], mg_spike_promoted := {}\<rparr>, (0, (d, ?f))))"
    by (simp add: refresh_universe_def r Let_def)
  have ok: "manager_ok ?m" "bases_distinct (db_new 0)"
    by (simp_all add: manager_ok_def universe_ok_def manager_new_def bases_distinct_def db_new_def)
  have base: "ms_base btc_core = ''BTC''" by (simp add: btc_core_def symbol_state_new_def)
  have empty: "restarted default_settings (db_new 0) ''BTC'' = None"
    unfolding restart_entry [OF ok(2)] by (simp add: entry_def db_new_def)
  from cut_cycle_restart [OF ok r run, of default_settings] obtain ahead rest where
    p: "[btc_core] = ahead @ rest" "\<forall>s \<in> set ahead. restarted default_settings d (ms_base s) = Some (loaded (state_row s, ms_rank s))"
    "rest \<noteq> [] \<longrightarrow> restarted default_settings d (ms_base (hd rest)) = restarted default_settings (db_new 0) (ms_base (hd rest)) \<or>
       (\<exists>k. restarted default_settings d (ms_base (hd rest)) = Some (loaded (state_row (hd rest), k)))" by auto
  have "restarted default_settings d ''BTC'' = None \<or> (\<exists>k. restarted default_settings d ''BTC'' = Some (loaded (state_row btc_core, k)))"
  proof (cases ahead)
    case Nil
    then show ?thesis using p(1,3) base empty by (cases rest) auto
  next
    case (Cons s ss)
    then show ?thesis using p(1,2) base by auto
  qed
  then show ?thesis using run
    by (intro exI [of _ "?m\<lparr>mg_states := [(''BTC'', btc_core)], mg_spike_promoted := {}\<rparr>"] exI [of _ 0] exI [of _ d] exI [of _ ?f]) simp
qed

end
