(* ===== verification/Decimals.thy ===== *)
theory Decimals
  imports Text
begin

text \<open>
  Python's decimal formatting of numbers, as the demo data script uses it: \<^verbatim>\<open>str\<close> of an integer and the format
  specifications \<^verbatim>\<open>.6f\<close> and \<^verbatim>\<open>.10g\<close>. The exact value is rounded once, half to even, to the digits shown. The
  lemmas say what \<^verbatim>\<open>float\<close> and \<^verbatim>\<open>int\<close> read back.
\<close>

section \<open>Digits\<close>

definition digit_char :: "int \<Rightarrow> char" where
  "digit_char d = char_of (48 + nat d)"

text \<open>The decimal digits of a number that is not negative.\<close>

function show_nat :: "int \<Rightarrow> string" where
  "show_nat n = (if n < 10 then [digit_char n] else show_nat (n div 10) @ [digit_char (n mod 10)])"
  by pat_completeness auto
termination by (relation "measure nat") auto

declare show_nat.simps [simp del]

definition zeros :: "nat \<Rightarrow> string" where
  "zeros k = replicate k (CHR ''0'')"

definition strip_zeros :: "string \<Rightarrow> string" where
  "strip_zeros ds = rev (dropWhile (\<lambda>c. c = CHR ''0'') (rev ds))"

named_theorems digit_facts "strings of digits"

lemma code_digit_char: "d < 10 \<Longrightarrow> code (digit_char d) = 48 + nat d"
  by (simp add: digit_char_def code_char_of)

lemma digit_char_digit [digit_facts]: "d < 10 \<Longrightarrow> is_digit (digit_char d)"
  by (simp add: is_digit_def code_digit_char)

lemma digit_value_char [digit_facts]: "0 \<le> d \<Longrightarrow> d < 10 \<Longrightarrow> digit_value (digit_char d) = d"
  by (simp add: digit_value_def code_digit_char)

lemma zero_digit [digit_facts]: "is_digit (CHR ''0'')" "digit_value (CHR ''0'') = 0"
  by (simp_all add: is_digit_def digit_value_def code_def)

lemma show_nat_digits [digit_facts]: "list_all is_digit (show_nat n)"
  by (induction n rule: show_nat.induct) (subst show_nat.simps, simp add: digit_facts)

lemma show_nat_nonempty [digit_facts]: "show_nat n \<noteq> []"
  by (subst show_nat.simps) simp

lemma digits_value_Nil [simp]: "digits_value [] = 0"
  by (simp add: digits_value_def)

lemma digits_value_snoc [simp]: "digits_value (ds @ [d]) = 10 * digits_value ds + digit_value d"
  by (simp add: digits_value_def)

lemma digits_value_append: "digits_value (ds @ es) = digits_value ds * 10 ^ length es + digits_value es"
proof (induction es rule: rev_induct)
  case (snoc e es)
  then show ?case by (simp add: digits_value_snoc [of "ds @ es" e, simplified] algebra_simps)
qed simp

lemma length_zeros [simp]: "length (zeros k) = k"
  by (simp add: zeros_def)

lemma digits_value_zeros [digit_facts]: "digits_value (zeros k) = 0"
proof (induction k)
  case (Suc k)
  have "zeros (Suc k) = zeros k @ [CHR ''0'']" by (simp add: zeros_def replicate_append_same)
  then show ?case using Suc by (simp add: digit_facts)
qed (simp add: zeros_def)

lemma zeros_digits [digit_facts]: "list_all is_digit (zeros k)"
  by (simp add: zeros_def list_all_iff digit_facts)

lemma digits_value_show [digit_facts]: "0 \<le> n \<Longrightarrow> digits_value (show_nat n) = n"
proof (induction n rule: show_nat.induct)
  case (1 n)
  show ?case
  proof (cases "n < 10")
    case True
    then show ?thesis using 1 by (subst show_nat.simps) (simp add: digits_value_snoc [of "[]", simplified] digit_facts)
  next
    case False
    then have "digits_value (show_nat (n div 10)) = n div 10" using 1 by simp
    then show ?thesis using False by (subst show_nat.simps) (simp add: digit_facts)
  qed
qed

lemma show_nat_bounds:
  assumes "0 \<le> n"
  shows "n < 10 ^ length (show_nat n)" "0 < n \<Longrightarrow> 10 ^ (length (show_nat n) - 1) \<le> n"
  using assms
proof (induction n rule: show_nat.induct)
  case (1 n)
  have split: "n = 10 * (n div 10) + n mod 10" by simp
  have len: "length (show_nat n) = (if n < 10 then 1 else Suc (length (show_nat (n div 10))))" by (subst show_nat.simps) simp
  have nn: "0 \<le> n div 10" if "\<not> n < 10" using that by (simp add: pos_imp_zdiv_nonneg_iff)
  {
    case 1
    show ?case
    proof (cases "n < 10")
      case False
      then have "n div 10 + 1 \<le> 10 ^ length (show_nat (n div 10))" using "1.IH"(1) nn by simp
      then have "10 * (n div 10) + 10 \<le> 10 * 10 ^ length (show_nat (n div 10))" by linarith
      moreover have "n mod 10 < 10" by simp
      ultimately show ?thesis using False split by (simp only: len if_False power_Suc)
    qed (simp add: len)
  next
    case 2
    show ?case
    proof (cases "n < 10")
      case False
      then have "10 ^ (length (show_nat (n div 10)) - 1) \<le> n div 10" using "1.IH"(2) nn by simp
      moreover have "length (show_nat (n div 10)) = Suc (length (show_nat (n div 10)) - 1)" using show_nat_nonempty by simp
      ultimately have "10 ^ length (show_nat (n div 10)) \<le> 10 * (n div 10)" by (metis mult_left_mono power_Suc zero_le_numeral)
      moreover have "0 \<le> n mod 10" by simp
      ultimately show ?thesis using False split by (simp only: len if_False diff_Suc_1)
    qed (use 2 in \<open>simp add: len\<close>)
  }
qed

lemma show_nat_length: "10 ^ k \<le> n \<Longrightarrow> n < 10 ^ Suc k \<Longrightarrow> length (show_nat n) = Suc k"
proof -
  assume n: "10 ^ k \<le> n" "n < 10 ^ Suc k"
  have pos: "0 < n" using n(1) by (meson less_le_trans zero_less_numeral zero_less_power)
  note b = show_nat_bounds(1) [of n] show_nat_bounds(2) [of n]
  have "(10 :: int) ^ k < 10 ^ length (show_nat n)" using n(1) b(1) pos by (meson le_less_trans less_imp_le)
  moreover have "(10 :: int) ^ (length (show_nat n) - 1) < 10 ^ Suc k" using b(2) n(2) pos by (meson le_less_trans less_imp_le)
  ultimately have "k < length (show_nat n)" "length (show_nat n) - 1 < Suc k"
    by (simp_all add: power_strict_increasing_iff del: power_Suc)
  then show ?thesis by simp
qed

lemma strip_zeros_split: "ds = strip_zeros ds @ zeros (length ds - length (strip_zeros ds))"
proof -
  have "takeWhile (\<lambda>c. c = CHR ''0'') xs = zeros (length (takeWhile (\<lambda>c. c = CHR ''0'') xs))" for xs :: string
    by (induction xs) (simp_all add: zeros_def)
  then have "rev ds = zeros (length (takeWhile (\<lambda>c. c = CHR ''0'') (rev ds))) @ dropWhile (\<lambda>c. c = CHR ''0'') (rev ds)"
    by (metis takeWhile_dropWhile_id)
  then have "ds = strip_zeros ds @ zeros (length (takeWhile (\<lambda>c. c = CHR ''0'') (rev ds)))"
    unfolding strip_zeros_def by (metis rev_append rev_replicate rev_rev_ident zeros_def)
  moreover from this have "length (takeWhile (\<lambda>c. c = CHR ''0'') (rev ds)) = length ds - length (strip_zeros ds)"
    by (metis add_diff_cancel_left' length_append length_replicate zeros_def)
  ultimately show ?thesis by simp
qed

lemma strip_zeros_digits [digit_facts]: "list_all is_digit ds \<Longrightarrow> list_all is_digit (strip_zeros ds)"
  by (metis list_all_append strip_zeros_split)

lemma strip_zeros_value: "of_int (digits_value (ds @ strip_zeros fs)) * 10 powi (e - int (length (strip_zeros fs))) =
    (of_int (digits_value (ds @ fs)) * 10 powi (e - int (length fs)) :: rat)"
proof -
  define k where "k = length fs - length (strip_zeros fs)"
  have fs: "fs = strip_zeros fs @ zeros k" using strip_zeros_split [of fs] by (simp add: k_def)
  have len: "length fs = length (strip_zeros fs) + k" by (metis fs length_append length_replicate zeros_def)
  have "digits_value (ds @ fs) = digits_value (ds @ strip_zeros fs) * 10 ^ k"
    by (subst fs) (simp add: digits_value_append [of "ds @ strip_zeros fs" "zeros k", simplified] digit_facts)
  then show ?thesis by (simp add: len power_int_diff power_int_add)
qed

section \<open>Formats\<close>

definition ilog10 :: "rat \<Rightarrow> int" where
  "ilog10 q = (case quotient_of q of (n, d) \<Rightarrow>
     let k = int (length (show_nat n)) - int (length (show_nat d)) in if 10 powi k \<le> q then k else k - 1)"

definition join_point :: "string \<Rightarrow> string \<Rightarrow> string" where
  "join_point whole fraction = (if fraction = [] then whole else whole @ CHR ''.'' # fraction)"

text \<open>\<^verbatim>\<open>.pf\<close> of a number that is not negative: \<open>p\<close> digits after the point.\<close>

definition fixed_text :: "nat \<Rightarrow> rat \<Rightarrow> string" where
  "fixed_text p q =
     (let ds = show_nat (round_half_even (q * 10 ^ p)); padded = zeros (Suc p - length ds) @ ds
      in join_point (take (length padded - p) padded) (drop (length padded - p) padded))"

text \<open>\<^verbatim>\<open>.pg\<close>: \<open>p\<close> significant digits without the zeros at the end, with an exponent when it is below -4 or not below \<open>p\<close>.\<close>

definition significant :: "nat \<Rightarrow> rat \<Rightarrow> int \<times> int" where
  "significant p q =
     (let e = ilog10 q; m = round_half_even (q / 10 powi (e - int p + 1))
      in if m = 10 ^ p then (10 ^ (p - 1), e + 1) else (m, e))"

definition exponent_text :: "int \<Rightarrow> string" where
  "exponent_text e =
     (let ds = show_nat \<bar>e\<bar> in
      CHR ''e'' # (if e < 0 then CHR ''-'' else CHR ''+'') # zeros (2 - length ds) @ ds)"

definition general_text :: "nat \<Rightarrow> rat \<Rightarrow> string" where
  "general_text p q =
     (if q = 0 then ''0''
      else case significant p q of (m, e) \<Rightarrow>
        let ds = show_nat m in
        if - 4 \<le> e \<and> e < int p then
          (if 0 \<le> e then join_point (take (nat e + 1) ds) (strip_zeros (drop (nat e + 1) ds))
           else join_point ''0'' (strip_zeros (zeros (nat (- e) - 1) @ ds)))
        else join_point (take 1 ds) (strip_zeros (drop 1 ds)) @ exponent_text e)"

fun signed_text :: "(rat \<Rightarrow> string) \<Rightarrow> pyfloat \<Rightarrow> string" where
  "signed_text text (Fin q) = (if q < 0 then CHR ''-'' # text (- q) else text q)"
| "signed_text text PInf = ''inf''"
| "signed_text text NInf = ''-inf''"
| "signed_text text NaN = ''nan''"

definition format_f :: "nat \<Rightarrow> pyfloat \<Rightarrow> string" where
  "format_f p = signed_text (fixed_text p)"

definition format_g :: "nat \<Rightarrow> pyfloat \<Rightarrow> string" where
  "format_g p = signed_text (general_text p)"

definition show_int :: "int \<Rightarrow> string" where
  "show_int n = (if n < 0 then CHR ''-'' # show_nat \<bar>n\<bar> else show_nat \<bar>n\<bar>)"

text \<open>The numbers these texts denote.\<close>

definition fixed_value :: "nat \<Rightarrow> rat \<Rightarrow> rat" where
  "fixed_value p q = of_int (round_half_even (q * 10 ^ p)) / 10 ^ p"

definition general_value :: "nat \<Rightarrow> rat \<Rightarrow> rat" where
  "general_value p q =
     (if q = 0 then 0
      else let s = ilog10 q - int p + 1 in of_int (round_half_even (q / 10 powi s)) * 10 powi s)"


section \<open>Reading digits\<close>

lemma digit_plain:
  assumes "is_digit c"
  shows "\<not> is_space c" "lower_char c = c" "c \<noteq> CHR ''-''" "c \<noteq> CHR ''+''" "c \<noteq> CHR ''_''" "c \<noteq> CHR ''i''" "c \<noteq> CHR ''n''"
    "c \<noteq> CHR ''.''" "c \<noteq> CHR ''e''"
  using assms by (auto simp: is_digit_def is_space_def lower_char_def code_def)

lemma take_digits_all:
  "list_all is_digit ds \<Longrightarrow> rest = [] \<or> \<not> is_digit (hd rest) \<and> hd rest \<noteq> CHR ''_'' \<Longrightarrow> take_digits (ds @ rest) = (ds, rest)"
proof (induction ds)
  case Nil
  then show ?case by (cases rest) simp_all
next
  case (Cons d ds)
  have "\<not> (ds @ rest \<noteq> [] \<and> hd (ds @ rest) = CHR ''_'')"
    using Cons.prems digit_plain(5) by (cases ds) auto
  then show ?case using Cons by auto
qed

lemma take_digits_only: "list_all is_digit ds \<Longrightarrow> take_digits ds = (ds, [])"
  using take_digits_all [of ds "[]"] by simp

lemma strip_plain:
  assumes "s \<noteq> []" "\<not> is_space (hd s)" "\<not> is_space (last s)"
  shows "strip s = s"
proof -
  have "dropWhile is_space s = s" using assms(1,2) by (cases s) simp_all
  moreover have "dropWhile is_space (rev s) = rev s" using assms(1,3) by (cases s rule: rev_cases) simp_all
  ultimately show ?thesis by (simp add: strip_def)
qed

text \<open>What an exponent ends with and what it reads as.\<close>

definition exponent_reads :: "string \<Rightarrow> int \<Rightarrow> bool" where
  "exponent_reads s e \<longleftrightarrow> take_exponent s = Some e \<and> (s = [] \<or> hd s = CHR ''e'' \<and> is_digit (last s))"

lemma no_exponent: "exponent_reads [] 0"
  by (simp add: exponent_reads_def take_exponent_def)

lemma last_digit: "list_all is_digit ds \<Longrightarrow> ds \<noteq> [] \<Longrightarrow> is_digit (last ds)"
  by (simp add: list_all_iff)

lemma exponent_text_reads: "exponent_reads (exponent_text e) e"
proof -
  define ds where "ds = zeros (2 - length (show_nat \<bar>e\<bar>)) @ show_nat \<bar>e\<bar>"
  have ds: "list_all is_digit ds" "ds \<noteq> []" "digits_value ds = \<bar>e\<bar>"
    by (simp_all add: ds_def digit_facts digits_value_append)
  have e: "lower_char (CHR ''e'') = CHR ''e''" by code_simp
  have "exponent_text e = CHR ''e'' # (if e < 0 then CHR ''-'' else CHR ''+'') # ds"
    by (simp add: exponent_text_def ds_def Let_def)
  then show ?thesis using ds last_digit [OF ds(1,2)]
    by (simp add: exponent_reads_def take_exponent_def take_sign_def take_digits_only e)
qed

lemma decimal_reads:
  assumes "list_all is_digit whole" "whole \<noteq> []" "list_all is_digit fraction" "exponent_reads ex e"
  shows "float_of_text (join_point whole fraction @ ex) =
    Inr (to_dbl (of_int (digits_value (whole @ fraction)) * 10 powi (e - int (length fraction))))"
proof -
  let ?s = "join_point whole fraction @ ex"
  obtain w ws where w: "whole = w # ws" "is_digit w" using assms(1,2) by (cases whole) simp_all
  have hd: "?s \<noteq> []" "is_digit (hd ?s)" using w by (simp_all add: join_point_def)
  have "is_digit (last ?s)"
    using assms last_digit [OF assms(1,2)] last_digit [OF assms(3)] by (auto simp: exponent_reads_def join_point_def last_append)
  then have strip: "strip ?s = ?s" using hd digit_plain(1) by (intro strip_plain) simp_all
  have sign: "take_sign ?s = (False, ?s)" using hd digit_plain(3,4) by (auto simp: take_sign_def)
  have word: "lower ?s \<noteq> ''inf''" "lower ?s \<noteq> ''infinity''" "lower ?s \<noteq> ''nan''"
    using w digit_plain [OF w(2)] by (auto simp: lower_def join_point_def)
  have dot: "\<not> is_digit (CHR ''.'')" "\<not> is_digit (CHR ''e'')" by (simp_all add: is_digit_def code_def)
  have ex: "take_exponent ex = Some e" "ex = [] \<or> \<not> is_digit (hd ex) \<and> hd ex \<noteq> CHR ''_'' \<and> hd ex \<noteq> CHR ''.''"
    using assms(4) dot by (auto simp: exponent_reads_def)
  have "decimal_of ?s = Some (of_int (digits_value (whole @ fraction)) * 10 powi (e - int (length fraction)))"
  proof (cases "fraction = []")
    case True
    have "take_digits ?s = (whole, ex)" using take_digits_all [OF assms(1), of ex] ex(2) True by (auto simp: join_point_def)
    then show ?thesis using ex True assms(2) by (auto simp: decimal_of_def)
  next
    case False
    have "take_digits ?s = (whole, CHR ''.'' # fraction @ ex)"
      using take_digits_all [OF assms(1), of "CHR ''.'' # fraction @ ex"] False dot by (simp add: join_point_def)
    moreover have "take_digits (fraction @ ex) = (fraction, ex)" using take_digits_all [OF assms(3), of ex] ex(2) by auto
    ultimately show ?thesis using ex(1) assms(2) by (simp add: decimal_of_def)
  qed
  then show ?thesis using strip sign word by (simp add: float_of_text_def Let_def)
qed

section \<open>The decimal exponent\<close>

lemma ten_powi_mono: "a \<le> b \<Longrightarrow> (10 :: rat) powi a \<le> 10 powi b"
  by (rule power_int_increasing) auto

lemma ten_powi_less: "(10 :: rat) powi a < 10 powi b \<longleftrightarrow> a < b"
  using ten_powi_mono [of b a] power_int_strict_increasing [of a b "10 :: rat"] by (auto simp: not_less [symmetric])

lemma ten_powi_pos: "(0 :: rat) < 10 powi a"
  by simp

lemma ten_shift: "(10 :: rat) ^ k * 10 powi s = 10 powi (int k + s)"
  by (subst power_int_add) simp_all

lemma powi_digits:
  assumes "0 < n"
  shows "10 powi (int (length (show_nat n)) - 1) \<le> (of_int n :: rat)" "(of_int n :: rat) < 10 powi int (length (show_nat n))"
proof -
  let ?l = "length (show_nat n)"
  have b: "n < 10 ^ ?l" "10 ^ (?l - 1) \<le> n" using show_nat_bounds [of n] assms by simp_all
  have l: "int ?l - 1 = int (?l - 1)" using show_nat_nonempty [of n] by (cases "show_nat n") simp_all
  have "(of_int (10 ^ (?l - 1)) :: rat) \<le> of_int n" using b(2) by (simp only: of_int_le_iff)
  then show "10 powi (int ?l - 1) \<le> (of_int n :: rat)" unfolding l by simp
  have "(of_int n :: rat) < of_int (10 ^ ?l)" using b(1) by (simp only: of_int_less_iff)
  then show "(of_int n :: rat) < 10 powi int ?l" by simp
qed

lemma ilog10_bounds:
  assumes "0 < q"
  shows "10 powi ilog10 q \<le> q" "q < 10 powi (ilog10 q + 1)"
proof -
  obtain n d where nd: "quotient_of q = (n, d)" by (cases "quotient_of q")
  have d: "0 < d" using quotient_of_denom_pos [OF nd] .
  have q: "q = of_int n / of_int d" using quotient_of_div [OF nd] .
  have n: "0 < n" using assms d q by (simp add: zero_less_divide_iff)
  define a b where "a = int (length (show_nat n))" and "b = int (length (show_nat d))"
  note bn = powi_digits [OF n, folded a_def] and bd = powi_digits [OF d, folded b_def]
  have dpos: "(0 :: rat) < of_int d" using d by simp
  have "10 powi (a - b - 1) * of_int d \<le> 10 powi (a - b - 1) * (10 powi b :: rat)" using bd(2) by (intro mult_left_mono) auto
  also have "\<dots> = 10 powi (a - 1)" by (simp flip: power_int_add)
  also have "\<dots> \<le> of_int n" by (rule bn(1))
  finally have lo: "10 powi (a - b - 1) \<le> q" using dpos by (simp add: q pos_le_divide_eq)
  have "of_int n < (10 powi a :: rat)" by (rule bn(2))
  also have "\<dots> = 10 powi (a - b + 1) * 10 powi (b - 1)" by (simp flip: power_int_add)
  also have "\<dots> \<le> 10 powi (a - b + 1) * of_int d" using bd(1) by (intro mult_left_mono) auto
  finally have hi: "q < 10 powi (a - b + 1)" using dpos by (simp add: q pos_divide_less_eq)
  show "10 powi ilog10 q \<le> q" "q < 10 powi (ilog10 q + 1)"
    using lo hi by (auto simp: ilog10_def nd Let_def not_le a_def [symmetric] b_def [symmetric])
qed

lemma ilog10_mono: "0 < q \<Longrightarrow> q \<le> r \<Longrightarrow> ilog10 q \<le> ilog10 r"
proof -
  assume a: "0 < q" "q \<le> r"
  have "(10 :: rat) powi ilog10 q \<le> q" using ilog10_bounds a by blast
  also have "q \<le> r" by (rule a)
  also have "r < 10 powi (ilog10 r + 1)" using ilog10_bounds a by force
  finally have "ilog10 q < ilog10 r + 1" by (simp only: ten_powi_less)
  then show ?thesis by simp
qed

text \<open>The scaled number has \<open>p\<close> digits before its point.\<close>

lemma scaled_bounds:
  assumes "0 < q" "0 < p"
  shows "10 ^ (p - 1) \<le> q / 10 powi (ilog10 q - int p + 1)" "q / 10 powi (ilog10 q - int p + 1) < 10 ^ p"
proof -
  let ?s = "ilog10 q - int p + 1"
  note b = ilog10_bounds [OF assms(1)]
  have "(10 :: rat) ^ (p - 1) * 10 powi ?s = 10 powi (int (p - 1) + ?s)" by (rule ten_shift)
  also have "int (p - 1) + ?s = ilog10 q" using assms(2) by simp
  finally have "(10 :: rat) ^ (p - 1) * 10 powi ?s \<le> q" using b(1) by simp
  then show "10 ^ (p - 1) \<le> q / 10 powi ?s" by (simp only: pos_le_divide_eq ten_powi_pos)
  have "(10 :: rat) ^ p * 10 powi ?s = 10 powi (int p + ?s)" by (rule ten_shift)
  also have "int p + ?s = ilog10 q + 1" by simp
  finally have "q < (10 :: rat) ^ p * 10 powi ?s" using b(2) by simp
  then show "q / 10 powi ?s < 10 ^ p" by (simp only: pos_divide_less_eq ten_powi_pos)
qed

lemma rounded_bounds:
  assumes "0 < q" "0 < p"
  shows "10 ^ (p - 1) \<le> round_half_even (q / 10 powi (ilog10 q - int p + 1))"
    "round_half_even (q / 10 powi (ilog10 q - int p + 1)) \<le> 10 ^ p"
  using scaled_bounds [OF assms] by (auto intro!: round_half_even_ge round_half_even_le)

lemma significant_facts:
  assumes "0 < q" "0 < p" "significant p q = (m, e)"
  shows "10 ^ (p - 1) \<le> m" "m < 10 ^ p" "of_int m * 10 powi (e - int p + 1) = general_value p q"
proof -
  define s where "s = ilog10 q - int p + 1"
  define n where "n = round_half_even (q / 10 powi s)"
  have n: "10 ^ (p - 1) \<le> n" "n \<le> 10 ^ p" using rounded_bounds [OF assms(1,2)] by (simp_all add: n_def s_def)
  have v: "general_value p q = of_int n * 10 powi s" using assms(1) by (simp add: general_value_def n_def s_def Let_def)
  have me: "(m, e) = (if n = 10 ^ p then (10 ^ (p - 1), ilog10 q + 1) else (n, ilog10 q))"
    using assms(3) by (auto simp: significant_def n_def s_def Let_def split: if_splits)
  have less: "(10 :: int) ^ (p - 1) < 10 ^ p" using assms(2) by (intro power_strict_increasing) simp_all
  have carry: "(10 :: rat) ^ (p - 1) * 10 powi (s + 1) = 10 ^ p * 10 powi s"
  proof -
    have "(10 :: rat) ^ (p - 1) * 10 powi (s + 1) = 10 powi (int (p - 1) + (s + 1))" by (rule ten_shift)
    also have "int (p - 1) + (s + 1) = int p + s" using assms(2) by simp
    also have "(10 :: rat) powi (int p + s) = 10 ^ p * 10 powi s" by (rule ten_shift [symmetric])
    finally show ?thesis .
  qed
  have e: "ilog10 q + 1 - int p + 1 = s + 1" "ilog10 q - int p + 1 = s" by (simp_all add: s_def)
  show "10 ^ (p - 1) \<le> m" "m < 10 ^ p" "of_int m * 10 powi (e - int p + 1) = general_value p q"
    using me n less carry by (auto simp: v e split: if_splits)
qed

section \<open>What the formats read as\<close>

lemma fixed_value_nonneg: "0 \<le> q \<Longrightarrow> 0 \<le> fixed_value p q"
  by (auto simp: fixed_value_def intro!: divide_nonneg_pos round_half_even_ge)

lemma fixed_value_mono: "q \<le> r \<Longrightarrow> fixed_value p q \<le> fixed_value p r"
  by (auto simp: fixed_value_def intro!: divide_right_mono round_half_even_mono mult_right_mono)

lemma fixed_text_reads:
  assumes "0 \<le> q"
  shows "float_of_text (fixed_text p q) = Inr (to_dbl (fixed_value p q))"
proof -
  define n where "n = round_half_even (q * 10 ^ p)"
  have n: "0 \<le> n" using assms by (auto simp: n_def intro!: round_half_even_ge)
  define ds where "ds = zeros (Suc p - length (show_nat n)) @ show_nat n"
  have ds: "list_all is_digit ds" "digits_value ds = n" "p < length ds"
    using n by (simp_all add: ds_def digit_facts digits_value_append) 
  let ?k = "length ds - p"
  have parts: "list_all is_digit (take ?k ds)" "list_all is_digit (drop ?k ds)"
    using ds(1) append_take_drop_id [of ?k ds] list_all_append by metis+
  have nonempty: "take ?k ds \<noteq> []" using ds(3) by (cases ds) simp_all
  have "float_of_text (join_point (take ?k ds) (drop ?k ds) @ []) = Inr (to_dbl (of_int n * 10 powi (0 - int p)))"
    using decimal_reads [OF parts(1) nonempty parts(2) no_exponent] ds by simp
  moreover have "of_int n * 10 powi (0 - int p) = fixed_value p q"
    by (simp add: fixed_value_def n_def power_int_minus divide_inverse)
  ultimately show ?thesis by (simp add: fixed_text_def ds_def n_def Let_def)
qed

lemma general_value_nonneg: "0 \<le> q \<Longrightarrow> 0 \<le> general_value p q"
  by (auto simp: general_value_def Let_def intro!: mult_nonneg_nonneg round_half_even_ge divide_nonneg_pos)

lemma of_int_power_le: "n \<le> 10 ^ k \<Longrightarrow> (of_int n :: rat) \<le> 10 ^ k"
  by (metis of_int_le_iff of_int_numeral of_int_power)

lemma power_le_of_int: "10 ^ k \<le> n \<Longrightarrow> (10 :: rat) ^ k \<le> of_int n"
  by (metis of_int_le_iff of_int_numeral of_int_power)

lemma general_value_mono:
  assumes "0 < p" "0 \<le> q" "q \<le> r"
  shows "general_value p q \<le> general_value p r"
proof (cases "q = 0")
  case True
  then show ?thesis using general_value_nonneg assms by (simp add: general_value_def)
next
  case False
  then have pos: "0 < q" "0 < r" using assms by simp_all
  show ?thesis
  proof (cases "ilog10 q = ilog10 r")
    case True
    then show ?thesis using pos assms(3)
      by (auto simp: general_value_def Let_def intro!: mult_right_mono round_half_even_mono divide_right_mono)
  next
    case False
    have v: "general_value p x = of_int (round_half_even (x / 10 powi (ilog10 x - int p + 1))) * 10 powi (ilog10 x - int p + 1)" if "0 < x" for x
      using that by (simp add: general_value_def Let_def)
    from False have e: "ilog10 q + 1 \<le> ilog10 r" using ilog10_mono [OF pos(1) assms(3)] by simp
    have "general_value p q \<le> 10 ^ p * 10 powi (ilog10 q - int p + 1)"
      unfolding v [OF pos(1)] using rounded_bounds(2) [OF pos(1) assms(1)] by (intro mult_right_mono of_int_power_le) simp_all
    also have "\<dots> = 10 powi (ilog10 q + 1)" unfolding ten_shift by simp
    also have "\<dots> \<le> 10 powi ilog10 r" by (rule ten_powi_mono [OF e])
    also have "\<dots> = 10 ^ (p - 1) * 10 powi (ilog10 r - int p + 1)" unfolding ten_shift using assms(1) by simp
    also have "\<dots> \<le> general_value p r"
      unfolding v [OF pos(2)] using rounded_bounds(1) [OF pos(2) assms(1)] by (intro mult_right_mono power_le_of_int) simp_all
    finally show ?thesis .
  qed
qed

lemma general_text_reads:
  assumes "0 \<le> q" "0 < p"
  shows "float_of_text (general_text p q) = Inr (to_dbl (general_value p q))"
proof (cases "q = 0")
  case True
  have "float_of_text (join_point ''0'' [] @ []) = Inr (to_dbl 0)"
    using decimal_reads [of "''0''" "[]" "[]" 0] digits_value_zeros [of 1] by (simp add: no_exponent digit_facts zeros_def)
  then show ?thesis using True by (simp add: general_text_def general_value_def join_point_def)
next
  case False
  then have q: "0 < q" using assms(1) by simp
  obtain m e where me: "significant p q = (m, e)" by (cases "significant p q")
  note f = significant_facts [OF q assms(2) me]
  define ds where "ds = show_nat m"
  have pos: "0 < m" using f(1) by (meson less_le_trans zero_less_numeral zero_less_power)
  have "length ds = Suc (p - 1)"
    unfolding ds_def
    by (rule show_nat_length) (use f(1,2) assms(2) in \<open>simp_all del: power_Suc\<close>)
  then have len: "length ds = p" using assms(2) by simp
  have ds: "list_all is_digit ds" "digits_value ds = m" using pos by (simp_all add: ds_def digit_facts)
  have parts: "list_all is_digit (take k ds)" "list_all is_digit (drop k ds)" for k
    using ds(1) append_take_drop_id [of k ds] list_all_append by metis+
  have read: "float_of_text (join_point whole (strip_zeros fraction) @ ex) = Inr (to_dbl (general_value p q))"
    if "list_all is_digit whole" "whole \<noteq> []" "list_all is_digit fraction" "exponent_reads ex x"
      "digits_value (whole @ fraction) = m" "x - int (length fraction) = e - int p + 1" for whole fraction ex x
    using decimal_reads [OF that(1,2) strip_zeros_digits [OF that(3)] that(4)] strip_zeros_value [of whole fraction x] that(5,6) f(3)
    by simp
  have nonempty: "take (Suc k) ds \<noteq> []" for k using len assms(2) by (cases ds) simp_all
  show ?thesis
  proof (cases "- 4 \<le> e \<and> e < int p")
    case True
    show ?thesis
    proof (cases "0 \<le> e")
      case pos_e: True
      have "float_of_text (join_point (take (nat e + 1) ds) (strip_zeros (drop (nat e + 1) ds)) @ []) = Inr (to_dbl (general_value p q))"
        by (rule read [OF parts(1) _ parts(2) no_exponent]) (use nonempty ds(2) len True pos_e in auto)
      then show ?thesis using False True pos_e by (simp add: general_text_def me ds_def [symmetric])
    next
      case neg_e: False
      have "digits_value (''0'' @ zeros k @ ds) = m" for k
        using digits_value_append [of "zeros (Suc k)" ds] ds(2) digits_value_zeros [of "Suc k"] by (simp add: zeros_def)
      then have "float_of_text (join_point ''0'' (strip_zeros (zeros (nat (- e) - 1) @ ds)) @ []) = Inr (to_dbl (general_value p q))"
        by (intro read [OF _ _ _ no_exponent]) (use ds(1) len neg_e in \<open>auto simp: digit_facts\<close>)
      then show ?thesis using False True neg_e by (simp add: general_text_def me ds_def [symmetric])
    qed
  next
    case far: False
    have "float_of_text (join_point (take 1 ds) (strip_zeros (drop 1 ds)) @ exponent_text e) = Inr (to_dbl (general_value p q))"
      by (rule read [OF parts(1) _ parts(2) exponent_text_reads]) (use nonempty [of 0] ds(2) len assms(2) in \<open>auto simp: of_nat_diff\<close>)
    then show ?thesis using False far by (auto simp: general_text_def me ds_def [symmetric])
  qed
qed

lemma show_nat_short: "0 \<le> n \<Longrightarrow> n < 10 ^ Suc k \<Longrightarrow> length (show_nat n) \<le> Suc k"
proof (cases "n = 0")
  case False
  assume n: "0 \<le> n" "n < 10 ^ Suc k"
  have "10 ^ (length (show_nat n) - 1) \<le> n" using show_nat_bounds(2) False n(1) by simp
  then have "(10 :: int) ^ (length (show_nat n) - 1) < 10 ^ Suc k" using n(2) by (rule le_less_trans)
  then show ?thesis by (simp add: power_strict_increasing_iff del: power_Suc)
qed (simp add: show_nat.simps)

lemma int_of_show_int:
  assumes "\<bar>n\<bar> < 10 ^ Suc k" "k < 4300"
  shows "int_of_text (show_int n) = Inr n"
proof -
  define ds where "ds = show_nat \<bar>n\<bar>"
  have short: "\<not> 4300 < length ds" using show_nat_short [of "\<bar>n\<bar>" k] assms by (simp add: ds_def del: power_Suc)
  have ds: "list_all is_digit ds" "ds \<noteq> []" "digits_value ds = \<bar>n\<bar>" by (simp_all add: ds_def digit_facts)
  obtain d rest where d: "ds = d # rest" "is_digit d" using ds(1,2) by (cases ds) simp_all
  have space: "\<not> is_space (CHR ''-'')" by code_simp
  have last: "\<not> is_space (last ds)" using last_digit [OF ds(1,2)] digit_plain(1) by blast
  have s: "show_int n = (if n < 0 then CHR ''-'' # ds else ds)" by (simp add: show_int_def ds_def)
  have "strip (show_int n) = show_int n"
    unfolding s using d last space ds(2) digit_plain(1) [OF d(2)] by (intro strip_plain) auto
  moreover have "take_sign (show_int n) = (n < 0, ds)"
    unfolding s using d digit_plain(3,4) [OF d(2)] by (auto simp: take_sign_def)
  ultimately show ?thesis using short ds by (simp add: int_of_text_def take_digits_only)
qed

text \<open>A format whose texts are read back, and which rounds monotonically.\<close>

locale decimal_format =
  fixes shown :: "rat \<Rightarrow> string" and val :: "rat \<Rightarrow> rat"
  assumes reads: "0 \<le> q \<Longrightarrow> float_of_text (shown q) = Inr (to_dbl (val q))"
    and nonneg: "0 \<le> q \<Longrightarrow> 0 \<le> val q"
    and mono: "0 \<le> q \<Longrightarrow> q \<le> r \<Longrightarrow> val q \<le> val r"
begin

text \<open>What is read back of numbers that are not negative is ordered as they are.\<close>

lemma read_back: "in_range 0 b x \<Longrightarrow> \<exists>y. float_of_text (signed_text shown x) = Inr y \<and> Fin 0 \<le> y"
  using reads nonneg to_dbl_mono [of 0] by (auto elim!: in_rangeE)

lemma read_order:
  assumes "in_range 0 b x" "in_range 0 c y" "x \<le> y" "float_of_text (signed_text shown x) = Inr v" "float_of_text (signed_text shown y) = Inr w"
  shows "v \<le> w"
  using assms reads mono by (auto elim!: in_rangeE intro!: to_dbl_mono)

end

interpretation fixed6: decimal_format "fixed_text 6" "fixed_value 6"
  by unfold_locales (simp_all add: fixed_text_reads fixed_value_nonneg fixed_value_mono)

interpretation general10: decimal_format "general_text 10" "general_value 10"
  by unfold_locales (simp_all add: general_text_reads general_value_nonneg general_value_mono)

end
