(* ===== verification/Demodata.thy ===== *)
theory Demodata
  imports Decimals Simfeed Ingestion
begin

text \<open>
  \<^verbatim>\<open>scripts/generate_demo_candles.py\<close>: the random walk of each symbol, the text of its rows and the files, which the CSV
  loader reads back. The generator \<^verbatim>\<open>random.Random(seed)\<close> is a state \<open>'g\<close> with its \<^verbatim>\<open>random()\<close> as \<open>draw\<close> and the
  standard normal deviate inside its \<^verbatim>\<open>gauss\<close> as \<open>normal\<close>; \<^verbatim>\<open>isoformat\<close> is the parameter \<open>isoformat\<close>. The \<^verbatim>\<open>csv\<close> module
  reads back the fields it wrote: none holds a separator, a quote or a line end.
\<close>

section \<open>The random walk\<close>

definition demo_symbols :: "(string \<times> pyfloat \<times> pyfloat) list" where
  "demo_symbols =
    [(''BTC'', Fin 60000, to_dbl (6 / 10000)),
     (''ETH'', Fin 3000, to_dbl (8 / 10000)),
     (''SOL'', Fin 140, to_dbl (12 / 10000)),
     (''BNB'', Fin 550, to_dbl (7 / 10000)),
     (''XRP'', to_dbl (55 / 100), to_dbl (10 / 10000)),
     (''AVAX'', Fin 35, to_dbl (11 / 10000)),
     (''LINK'', Fin 15, to_dbl (10 / 10000)),
     (''DOGE'', to_dbl (15 / 100), to_dbl (15 / 10000)),
     (''PEPE'', to_dbl (12 / 1000000), to_dbl (20 / 10000)),
     (''SHIB'', to_dbl (22 / 1000000), to_dbl (18 / 10000)),
     (''WIF'', to_dbl (25 / 10), to_dbl (20 / 10000)),
     (''TRX'', to_dbl (12 / 100), to_dbl (7 / 10000))]"

definition minutes_per_day :: int where
  "minutes_per_day = 24 * 60"

text \<open>\<^verbatim>\<open>Random.gauss(mu, sigma)\<close> and \<^verbatim>\<open>Random.uniform(a, b)\<close>.\<close>

definition gauss_draw :: "('g \<Rightarrow> pyfloat \<times> 'g) \<Rightarrow> pyfloat \<Rightarrow> pyfloat \<Rightarrow> 'g \<Rightarrow> pyfloat \<times> 'g" where
  "gauss_draw normal mu sigma g = (let (z, g1) = normal g in (mu + z * sigma, g1))"

definition uniform_draw :: "('g \<Rightarrow> pyfloat \<times> 'g) \<Rightarrow> pyfloat \<Rightarrow> pyfloat \<Rightarrow> 'g \<Rightarrow> pyfloat \<times> 'g" where
  "uniform_draw draw a b g = (let (u, g1) = draw g in (a + (b - a) * u, g1))"

definition drift_rate :: pyfloat where
  "drift_rate = - to_dbl (2 / 100000)"

record demo_bar =
  dm_open :: pyfloat
  dm_high :: pyfloat
  dm_low :: pyfloat
  dm_close :: pyfloat
  dm_volume :: pyfloat
  dm_quote_volume :: pyfloat
  dm_trades :: int
  dm_taker_buy_volume :: pyfloat

definition demo_step ::
  "('g \<Rightarrow> pyfloat \<times> 'g) \<Rightarrow> ('g \<Rightarrow> pyfloat \<times> 'g) \<Rightarrow> pyfloat \<Rightarrow> pyfloat \<Rightarrow> pyfloat \<Rightarrow> 'g \<Rightarrow> (demo_bar \<times> 'g) res" where
  "demo_step normal draw start_price sigma price g =
     rbind (fdiv price start_price) (\<lambda>ratio.
     let open_p = price;
         drift = drift_rate * (ratio - Fin 1);
         (log_return, g1) = gauss_draw normal drift sigma g;
         close_p = open_p * (Fin 1 + log_return);
         (wick, g2) = gauss_draw normal (Fin 0) sigma g1;
         spread = \<bar>wick\<bar> * open_p;
         high = pymax open_p close_p + spread;
         low = pymax (pymin open_p close_p - spread) (Fin 0);
         (v, g3) = gauss_draw normal (Fin 100) (Fin 20) g2;
         volume = \<bar>v\<bar>
     in rbind (fdiv (volume * (open_p + close_p)) (Fin 2)) (\<lambda>quote_volume.
        let (n, g4) = gauss_draw normal (Fin 50) (Fin 15) g3
        in rbind (pyint \<bar>n\<bar>) (\<lambda>count.
           let (u, g5) = uniform_draw draw (to_dbl (3 / 10)) (to_dbl (7 / 10)) g4
           in Inr (\<lparr>dm_open = open_p, dm_high = high, dm_low = low, dm_close = close_p, dm_volume = volume,
                dm_quote_volume = quote_volume, dm_trades = max 1 count, dm_taker_buy_volume = volume * u\<rparr>, g5))))"

text \<open>A row of the file, in the order of the header.\<close>

definition demo_fields :: "(datetime \<Rightarrow> string) \<Rightarrow> datetime \<Rightarrow> demo_bar \<Rightarrow> string list" where
  "demo_fields isoformat ts b =
     [isoformat ts, format_g 10 (dm_open b), format_g 10 (dm_high b), format_g 10 (dm_low b), format_g 10 (dm_close b),
      format_f 6 (dm_volume b), format_f 6 (dm_quote_volume b), show_int (dm_trades b), format_f 6 (dm_taker_buy_volume b)]"

definition shift_minutes :: "datetime \<Rightarrow> int \<Rightarrow> datetime res" where
  "shift_minutes t k =
     (let t' = t + k * 60000000 in if datetime_min \<le> t' \<and> t' < datetime_end then Inr t' else Inl OverflowError)"

fun demo_rows ::
  "('g \<Rightarrow> pyfloat \<times> 'g) \<Rightarrow> ('g \<Rightarrow> pyfloat \<times> 'g) \<Rightarrow> (datetime \<Rightarrow> string) \<Rightarrow> pyfloat \<Rightarrow> pyfloat \<Rightarrow> datetime \<Rightarrow> int list
    \<Rightarrow> pyfloat \<Rightarrow> 'g \<Rightarrow> string list list res" where
  "demo_rows normal draw isoformat start_price sigma start [] price g = Inr []"
| "demo_rows normal draw isoformat start_price sigma start (i # is) price g =
     rbind (shift_minutes start i) (\<lambda>ts.
     rbind (demo_step normal draw start_price sigma price g) (\<lambda>(b, g1).
     rbind (demo_rows normal draw isoformat start_price sigma start is (dm_close b) g1) (\<lambda>rows.
     Inr (demo_fields isoformat ts b # rows))))"

text \<open>The walk ends in the minute of \<open>now\<close>.\<close>

definition generate_symbol ::
  "('g \<Rightarrow> pyfloat \<times> 'g) \<Rightarrow> ('g \<Rightarrow> pyfloat \<times> 'g) \<Rightarrow> (datetime \<Rightarrow> string) \<Rightarrow> datetime \<Rightarrow> pyfloat \<Rightarrow> pyfloat \<Rightarrow> int \<Rightarrow> 'g
    \<Rightarrow> string list list res" where
  "generate_symbol normal draw isoformat now start_price sigma minutes g =
     rbind (shift_minutes (now - now mod 60000000) (- minutes)) (\<lambda>start.
     demo_rows normal draw isoformat start_price sigma start [0..minutes - 1] start_price g)"

definition demo_header :: "string list" where
  "demo_header =
     [''ts'', ''open'', ''high'', ''low'', ''close'', ''volume'', ''quote_volume'', ''trades'', ''taker_buy_volume'']"

text \<open>The loop of \<^verbatim>\<open>main\<close>: the files written so far, by base; \<open>clock k\<close> is the time when symbol \<open>k\<close> is generated.\<close>

fun demo_files ::
  "('g \<Rightarrow> pyfloat \<times> 'g) \<Rightarrow> ('g \<Rightarrow> pyfloat \<times> 'g) \<Rightarrow> (datetime \<Rightarrow> string) \<Rightarrow> (nat \<Rightarrow> 'g) \<Rightarrow> (nat \<Rightarrow> datetime) \<Rightarrow> int
    \<Rightarrow> (string \<times> pyfloat \<times> pyfloat) list \<Rightarrow> nat \<Rightarrow> (string \<times> string list list) list
    \<Rightarrow> unit res \<times> (string \<times> string list list) list" where
  "demo_files normal draw isoformat seeded clock minutes [] k files = (Inr (), files)"
| "demo_files normal draw isoformat seeded clock minutes ((base, start_price, sigma) # symbols) k files =
     attempt (generate_symbol normal draw isoformat (clock k) start_price sigma minutes (seeded k)) files (\<lambda>rows.
     demo_files normal draw isoformat seeded clock minutes symbols (Suc k) (files @ [(base, demo_header # rows)]))"

definition demo_main ::
  "('g \<Rightarrow> pyfloat \<times> 'g) \<Rightarrow> ('g \<Rightarrow> pyfloat \<times> 'g) \<Rightarrow> (datetime \<Rightarrow> string) \<Rightarrow> (nat \<Rightarrow> 'g) \<Rightarrow> (nat \<Rightarrow> datetime) \<Rightarrow> int
    \<Rightarrow> unit res \<times> (string \<times> string list list) list" where
  "demo_main normal draw isoformat seeded clock days =
     demo_files normal draw isoformat seeded clock (days * minutes_per_day) demo_symbols 0 []"

text \<open>What \<^verbatim>\<open>csv.DictReader\<close> yields for a file whose lines are as long as its header.\<close>

fun csv_dicts :: "string list list \<Rightarrow> csv_row res list" where
  "csv_dicts [] = []"
| "csv_dicts (header # lines) = map (\<lambda>cells. Inr (map_of (zip header (map Some cells)))) lines"

section \<open>The walk stays in its band\<close>

text \<open>
  What \<^verbatim>\<open>gauss\<close> guarantees of its deviate: it is \<^verbatim>\<open>cos(2 * pi * u) * sqrt(-2 * log(1 - v))\<close> (or the sine) with \<^verbatim>\<open>1 - v\<close> at
  least \<open>2 ^ -53\<close>, so below 9.
\<close>

definition normal_ok :: "('g \<Rightarrow> pyfloat \<times> 'g) \<Rightarrow> bool" where
  "normal_ok normal \<longleftrightarrow> (\<forall>g. bounded_by 9 (fst (normal g)))"

lemma endpoint_scale:
  assumes "endpoint s" "0 \<le> s" "s \<le> 2 ^ 20" "k \<le> 900"
  shows "endpoint (2 ^ k * s)"
proof -
  obtain n t where nt: "s = of_int n * 2 powi t" "\<bar>n\<bar> \<le> 2 ^ 53" "- 1074 \<le> t"
    using rnd_grid_form [of s] assms(1) by (auto simp: endpoint_def)
  have "2 ^ k * s = of_int n * 2 powi (int k + t)" by (simp add: nt(1) power_int_add)
  then have "rnd (2 ^ k * s) = 2 ^ k * s" using rnd_exact [of n "int k + t"] nt(2,3) by simp
  moreover have "2 ^ k * s \<le> 2 ^ 900 * 2 ^ 20" using assms by (intro mult_mono power_increasing) simp_all
  then have "2 ^ k * s < 2 ^ 1024" by (rule le_less_trans) (simp flip: power_add)
  ultimately show ?thesis using assms(2) by (simp add: endpoint_def)
qed

text \<open>A start price and a volatility as the script lists them.\<close>

definition demo_params :: "rat \<Rightarrow> pyfloat \<Rightarrow> bool" where
  "demo_params s sigma \<longleftrightarrow> endpoint s \<and> 1 / 2 ^ 20 \<le> s \<and> s \<le> 2 ^ 20 \<and> in_range 0 (33 / 2 ^ 14) sigma"

lemma demo_params_pos: "demo_params s sigma \<Longrightarrow> 0 < s"
  using less_le_trans [of 0 "1 / 2 ^ 20" s] by (simp add: demo_params_def)

lemma demo_params_scale: "demo_params s sigma \<Longrightarrow> k \<le> 900 \<Longrightarrow> endpoint (2 ^ k * s)"
  using demo_params_pos by (auto simp: demo_params_def less_imp_le intro: endpoint_scale)

lemma shock_bounded:
  assumes "normal_ok normal" "in_range 0 (33 / 2 ^ 14) sigma" "normal g = (z, g1)"
  shows "bounded_by (297 / 2 ^ 14) (z * sigma)"
proof (rule bounded_mult)
  show "bounded_by 9 z" using assms(1,3) by (auto simp: normal_ok_def dest: spec [of _ g])
  show "bounded_by (33 / 2 ^ 14) sigma" by (rule bounded_pos [OF assms(2)])
  show "endpoint (297 / 2 ^ 14)" using dyadic_endpoint [of 14 297] by simp
qed simp

text \<open>Far above its start the price cannot rise: the drift outweighs every shock.\<close>

lemma factor_range:
  assumes "demo_params s sigma" "in_range 0 (1024 * s) (Fin p)" "bounded_by (297 / 2 ^ 14) shock" "fdiv (Fin p) (Fin s) = Inr ratio"
  shows "in_range (1 / 2) (if 1000 * s < p then 1 else 533803 / 2 ^ 19) (Fin 1 + (drift_rate * (ratio - Fin 1) + shock))"
proof -
  have s: "0 < s" by (rule demo_params_pos [OF assms(1)])
  have p: "0 \<le> p" "p \<le> 1024 * s" using assms(2) by (simp_all add: in_range_Fin)
  obtain c where c: "to_dbl (2 / 100000) = Fin c" "10 / 2 ^ 19 \<le> c" "c \<le> 11 / 2 ^ 19"
    using to_dbl_in_range [of "10 / 2 ^ 19" "11 / 2 ^ 19" "2 / 100000"] dyadic_endpoint [of 19 10] dyadic_endpoint [of 19 11]
    by (auto simp: in_range_def)
  define far where "far \<longleftrightarrow> 1000 * s < p"
  have "in_range (if far then 1000 else 0) 1024 (to_dbl (p / s))"
    using s p by (intro to_dbl_in_range) (auto simp: far_def pos_le_divide_eq pos_divide_le_eq)
  moreover have "ratio = to_dbl (p / s)" using assms(4) s by (simp add: fdiv_def)
  ultimately have "in_range (if far then 999 else - 1) 1023 (ratio - Fin 1)"
    by (intro in_range_diff [where c = 1 and d = 1]) (auto simp: in_range_Fin endpoint_minus)
  then obtain x where x: "ratio - Fin 1 = Fin x" "(if far then 999 else - 1) \<le> x" "x \<le> 1023" by (auto simp: in_range_def)
  have drift: "in_range (- (11253 / 2 ^ 19)) (if far then - (9990 / 2 ^ 19) else 11 / 2 ^ 19) (drift_rate * (ratio - Fin 1))"
  proof -
    have e: "endpoint (11253 / 2 ^ 19)" "endpoint (9990 / 2 ^ 19)" "endpoint (11 / 2 ^ 19)"
      using dyadic_endpoint [of 19 11253] dyadic_endpoint [of 19 9990] dyadic_endpoint [of 19 11] by simp_all
    have "c * x \<le> c * 1023" using x(3) c(2) by (intro mult_left_mono) simp_all
    then have lo: "- (11253 / 2 ^ 19) \<le> - c * x" using c(3) by simp
    have low: "c * y \<le> c * x" if "y \<le> x" for y using that c(2) by (intro mult_left_mono) simp_all
    have hi: "- c * x \<le> (if far then - (9990 / 2 ^ 19) else 11 / 2 ^ 19)"
    proof (cases far)
      case True
      then have "c * 999 \<le> c * x" using x(2) by (intro low) simp
      then show ?thesis using True c(2) by (simp only: if_True)
    next
      case False
      then have "c * (- 1) \<le> c * x" using x(2) by (intro low) simp
      then show ?thesis using False c(3) by (simp only: if_False)
    qed
    show ?thesis unfolding drift_rate_def c(1) x(1) using lo hi e by (auto intro!: to_dbl_in_range endpoint_minus)
  qed
  have half: "endpoint (1 / 2)" using endpoint_inverse_power [of 1] by simp
  have e: "endpoint (9515 / 2 ^ 19)" "endpoint (533803 / 2 ^ 19)"
    using dyadic_endpoint [of 19 9515] dyadic_endpoint [of 19 533803] by simp_all
  have "in_range (- (1 / 2)) (if far then 0 else 9515 / 2 ^ 19) (drift_rate * (ratio - Fin 1) + shock)"
    by (rule in_range_add [OF drift assms(3) [unfolded bounded_by_def]]) (use half e in \<open>auto simp: endpoint_minus\<close>)
  then show ?thesis unfolding far_def [symmetric]
    by (rule in_range_add [of 1 1, rotated]) (use half e in \<open>auto simp: in_range_Fin\<close>)
qed

text \<open>The values of one step: all finite, the price within 1024 times its start, and the bar in order.\<close>

definition demo_bar_ok :: "rat \<Rightarrow> demo_bar \<Rightarrow> bool" where
  "demo_bar_ok s b \<longleftrightarrow>
     in_range 0 (2 ^ 10 * s) (dm_open b) \<and> in_range 0 (2 ^ 10 * s) (dm_close b) \<and> in_range 0 (2 ^ 11 * s) (dm_high b) \<and>
     in_range 0 (2 ^ 10 * s) (dm_low b) \<and> in_range 0 512 (dm_volume b) \<and> in_range 0 (2 ^ 20 * s) (dm_quote_volume b) \<and>
     in_range 0 512 (dm_taker_buy_volume b) \<and> dm_low b \<le> dm_open b \<and> dm_low b \<le> dm_close b \<and> dm_open b \<le> dm_high b \<and>
     dm_close b \<le> dm_high b \<and> dm_taker_buy_volume b \<le> dm_volume b \<and> 1 \<le> dm_trades b \<and> dm_trades b \<le> 185"

lemma wick_order:
  assumes "in_range 0 h x" "in_range 0 h y" "in_range 0 h spread" "endpoint h" "endpoint (2 * h)"
  shows "in_range 0 (2 * h) (pymax x y + spread)" "x \<le> pymax x y + spread" "y \<le> pymax x y + spread"
    "in_range 0 h (pymax (pymin x y - spread) (Fin 0))" "pymax (pymin x y - spread) (Fin 0) \<le> x"
    "pymax (pymin x y - spread) (Fin 0) \<le> y"
proof -
  obtain a b c where v: "x = Fin a" "endpoint a" "0 \<le> a" "a \<le> h" "y = Fin b" "endpoint b" "0 \<le> b" "b \<le> h"
    "spread = Fin c" "endpoint c" "0 \<le> c" "c \<le> h"
    using assms(1-3) by (auto simp: in_range_def)
  have m: "pymax x y = Fin (max a b)" "pymin x y = Fin (min a b)" using v by (auto simp: pymax_def pymin_def)
  have up: "in_range (max a b) (2 * h) (to_dbl (max a b + c))"
    using v assms(4,5) by (intro to_dbl_in_range) (auto simp: max_def)
  then show "in_range 0 (2 * h) (pymax x y + spread)" "x \<le> pymax x y + spread" "y \<le> pymax x y + spread"
    unfolding m v(9) using v by (auto simp: in_range_def v(1,5))
  have "in_range (- h) (min a b) (to_dbl (min a b - c))"
    using v assms(4,5) by (intro to_dbl_in_range) (auto simp: min_def endpoint_minus)
  then obtain d where d: "pymin x y - spread = Fin d" "endpoint d" "d \<le> min a b"
    unfolding m v(9) by (auto simp: in_range_def minus_pyfloat_def)
  have "pymax (pymin x y - spread) (Fin 0) = Fin (max d 0)" using d by (auto simp: pymax_def)
  then show "in_range 0 h (pymax (pymin x y - spread) (Fin 0))" "pymax (pymin x y - spread) (Fin 0) \<le> x"
    "pymax (pymin x y - spread) (Fin 0) \<le> y"
    using v d by (auto simp: in_range_def max_def)
qed

lemma normalE:
  assumes "normal_ok normal"
  obtains z g' where "normal g = (z, g')" "bounded_by 9 z"
  using assms that by (cases "normal g") (auto simp: normal_ok_def dest: spec [of _ g])

lemma gauss_abs:
  assumes "bounded_by 9 z" "endpoint (9 * k)" "endpoint (m + 9 * k)" "endpoint m" "endpoint k" "0 \<le> m" "0 \<le> k"
  shows "in_range 0 (m + 9 * k) \<bar>Fin m + z * Fin k\<bar>"
proof -
  have "bounded_by k (Fin k)" using assms by (simp add: bounded_by_def in_range_Fin endpoint_minus)
  then have "bounded_by (9 * k) (z * Fin k)" by (rule bounded_mult [OF assms(1) _ assms(2)]) simp
  moreover have "bounded_by m (Fin m)" using assms by (simp add: bounded_by_def in_range_Fin endpoint_minus)
  ultimately have "bounded_by (m + 9 * k) (Fin m + z * Fin k)" by (intro bounded_add [of m "Fin m" "9 * k" "z * Fin k", OF _ _ assms(3) order_refl])
  then show ?thesis by (rule abs_bounded)
qed

lemma taker_share:
  assumes "in_range 0 1 u"
  shows "in_range 0 1 (to_dbl (3 / 10) + (to_dbl (7 / 10) - to_dbl (3 / 10)) * u)"
proof -
  have e: "endpoint (1 / 4)" "endpoint (5 / 16)" "endpoint (11 / 16)" "endpoint (23 / 32)" "endpoint (15 / 32)"
    using dyadic_endpoint [of 2 1] dyadic_endpoint [of 4 5] dyadic_endpoint [of 4 11] dyadic_endpoint [of 5 23] dyadic_endpoint [of 5 15] by simp_all
  have lo: "in_range (1 / 4) (5 / 16) (to_dbl (3 / 10))" and hi: "in_range (11 / 16) (23 / 32) (to_dbl (7 / 10))"
    using e by (simp_all add: to_dbl_in_range)
  have "in_range 0 (15 / 32) (to_dbl (7 / 10) - to_dbl (3 / 10))" by (rule in_range_diff [OF hi lo]) (simp_all add: e)
  then have "in_range 0 (15 / 32) ((to_dbl (7 / 10) - to_dbl (3 / 10)) * u)" by (rule in_range_mult [OF _ assms]) (simp_all add: e)
  then show ?thesis by (rule in_range_add [OF lo]) (simp_all add: e)
qed

lemma share_le:
  assumes "in_range 0 h v" "in_range 0 1 u" "endpoint h"
  shows "in_range 0 h (v * u)" "v * u \<le> v"
proof -
  obtain a b where v: "v = Fin a" "endpoint a" "0 \<le> a" "a \<le> h" "u = Fin b" "0 \<le> b" "b \<le> 1" using assms(1,2) by (auto simp: in_range_def)
  have "a * b \<le> a" using v by (simp add: mult_left_le)
  then have "in_range 0 a (v * u)" using v by (simp add: to_dbl_in_range)
  then show "in_range 0 h (v * u)" "v * u \<le> v" using v by (auto simp: in_range_def)
qed

lemma demo_step_ok:
  assumes "normal_ok normal" "draws_unit draw" "demo_params s sigma" "in_range 0 (2 ^ 10 * s) price"
  shows "\<exists>b g'. demo_step normal draw (Fin s) sigma price g = Inr (b, g') \<and> dm_open b = price \<and> demo_bar_ok s b"
proof -
  have s: "0 < s" by (rule demo_params_pos [OF assms(3)])
  have e: "endpoint (2 ^ k * s)" if "k \<le> 900" for k using assms(3) that by (rule demo_params_scale)
  obtain p where p: "price = Fin p" "0 \<le> p" "p \<le> 2 ^ 10 * s" "endpoint p" using assms(4) by (auto simp: in_range_def)
  obtain ratio where ratio: "fdiv price (Fin s) = Inr ratio" using s by (simp add: fdiv_def)
  define drift where "drift = drift_rate * (ratio - Fin 1)"
  obtain z1 g1 where z1: "normal g = (z1, g1)" "bounded_by 9 z1" using assms(1) by (rule normalE)
  obtain z2 g2 where z2: "normal g1 = (z2, g2)" "bounded_by 9 z2" using assms(1) by (rule normalE)
  obtain z3 g3 where z3: "normal g2 = (z3, g3)" "bounded_by 9 z3" using assms(1) by (rule normalE)
  obtain z4 g4 where z4: "normal g3 = (z4, g4)" "bounded_by 9 z4" using assms(1) by (rule normalE)
  obtain u g5 where u: "draw g4 = (u, g5)" "in_range 0 1 u" using assms(2) by (rule drawE)
  have sigma: "in_range 0 (33 / 2 ^ 14) sigma" using assms(3) by (simp add: demo_params_def)
  define close where "close = price * (Fin 1 + (drift + z1 * sigma))"
  have close: "in_range 0 (2 ^ 10 * s) close"
  proof -
    have f: "in_range (1 / 2) (if 1000 * s < p then 1 else 533803 / 2 ^ 19) (Fin 1 + (drift + z1 * sigma))"
      unfolding drift_def using factor_range [OF assms(3) _ shock_bounded [OF assms(1) sigma z1(1)]] assms(4) ratio p(1) by simp
    show ?thesis
    proof (cases "1000 * s < p")
      case True
      then have "in_range (1 / 2) 1 (Fin 1 + (drift + z1 * sigma))" using f by simp
      then show ?thesis unfolding close_def by (rule in_range_mult [OF assms(4)]) (use e [of 10] in simp_all)
    next
      case False
      then have f: "in_range (1 / 2) (533803 / 2 ^ 19) (Fin 1 + (drift + z1 * sigma))" using f by simp
      have "in_range 0 (1000 * s) price" using p False by (simp add: in_range_Fin)
      then show ?thesis unfolding close_def by (rule in_range_mult [OF _ f]) (use e [of 10] s in simp_all)
    qed
  qed
  define spread where "spread = \<bar>Fin 0 + z2 * sigma\<bar> * price"
  have spread: "in_range 0 (2 ^ 10 * s) spread"
  proof -
    have "bounded_by 1 (Fin 0 + z2 * sigma)"
      by (rule bounded_add [OF _ shock_bounded [OF assms(1) sigma z2(1)], of 0]) (simp_all add: bounded_by_def in_range_Fin)
    then have "in_range 0 1 \<bar>Fin 0 + z2 * sigma\<bar>" by (rule abs_bounded)
    then show ?thesis unfolding spread_def by (rule in_range_mult [OF _ assms(4)]) (use e [of 10] in simp_all)
  qed
  have e11: "endpoint (2 * (2 ^ 10 * s))" using e [of 11] by simp
  note wick = wick_order [OF assms(4) close spread e [of 10] e11, simplified]
  define volume where "volume = \<bar>Fin 100 + z3 * Fin 20\<bar>"
  have "in_range 0 (100 + 9 * 20) volume" unfolding volume_def by (rule gauss_abs [OF z3(2)]) simp_all
  then have volume: "in_range 0 512 volume" by (rule in_range_mono) simp_all
  obtain quote_volume where quote: "fdiv (volume * (price + close)) (Fin 2) = Inr quote_volume" "in_range 0 (2 ^ 20 * s) quote_volume"
  proof -
    have "in_range 0 (2 ^ 11 * s) (price + close)" by (rule in_range_add [OF assms(4) close]) (use e [of 11] in simp_all)
    then have "in_range 0 (2 ^ 20 * s) (volume * (price + close))" by (rule in_range_mult [OF volume]) (use e [of 20] in simp_all)
    then have "\<exists>x. fdiv (volume * (price + close)) (Fin 2) = Inr x \<and> in_range 0 (2 ^ 20 * s) x"
      by (rule in_range_fdiv [of _ _ _ 2 2]) (use e [of 20] s in \<open>simp_all add: in_range_Fin\<close>)
    then show ?thesis using that by blast
  qed
  obtain count where count: "pyint \<bar>Fin 50 + z4 * Fin 15\<bar> = Inr count" "count \<le> 185"
  proof -
    have "in_range 0 (50 + 9 * 15) \<bar>Fin 50 + z4 * Fin 15\<bar>" by (rule gauss_abs [OF z4(2)]) simp_all
    then obtain q where q: "\<bar>Fin 50 + z4 * Fin 15\<bar> = Fin q" "0 \<le> q" "q \<le> 185" by (auto simp: in_range_def)
    have "\<lfloor>q\<rfloor> \<le> 185" using floor_mono [OF q(3)] by simp
    then show ?thesis using that [of "\<lfloor>q\<rfloor>"] q by (simp add: trunc_def)
  qed
  note taker = share_le [OF volume taker_share [OF u(2)]]
  let ?b = "\<lparr>dm_open = price, dm_high = pymax price close + spread, dm_low = pymax (pymin price close - spread) (Fin 0),
      dm_close = close, dm_volume = volume, dm_quote_volume = quote_volume, dm_trades = max 1 count,
      dm_taker_buy_volume = volume * (to_dbl (3 / 10) + (to_dbl (7 / 10) - to_dbl (3 / 10)) * u)\<rparr>"
  have "demo_step normal draw (Fin s) sigma price g = Inr (?b, g5)"
    by (simp add: demo_step_def ratio gauss_draw_def uniform_draw_def z1(1) z2(1) z3(1) z4(1) u(1) Let_def drift_def [symmetric]
        close_def [symmetric] spread_def [symmetric] volume_def [symmetric] quote(1) count(1))
  moreover have "demo_bar_ok s ?b"
    using assms(4) close wick volume quote(2) taker count(2) by (simp add: demo_bar_ok_def)
  ultimately show ?thesis by (intro exI conjI) simp_all
qed

section \<open>The files load\<close>

text \<open>The parameter pair: \<^verbatim>\<open>datetime.fromisoformat\<close> inverts \<^verbatim>\<open>isoformat\<close>, whose text is more than digits.\<close>

definition iso_reads :: "(datetime \<Rightarrow> string) \<Rightarrow> (string \<Rightarrow> datetime res) \<Rightarrow> bool" where
  "iso_reads isoformat fromiso \<longleftrightarrow>
     (\<forall>t. datetime_min \<le> t \<and> t < datetime_end \<longrightarrow>
        fromiso (isoformat t) = Inr t \<and> \<not> is_digits (dropWhile (\<lambda>c. c = CHR ''-'') (isoformat t)))"

definition sane_candle :: "candle_row \<Rightarrow> bool" where
  "sane_candle r \<longleftrightarrow>
     Fin 0 \<le> cr_low r \<and> cr_low r \<le> cr_open r \<and> cr_low r \<le> cr_close r \<and> cr_open r \<le> cr_high r \<and> cr_close r \<le> cr_high r \<and>
     Fin 0 \<le> cr_quote_volume r \<and> Fin 0 \<le> cr_taker_buy_volume r \<and> cr_taker_buy_volume r \<le> cr_volume r \<and>
     1 \<le> cr_trades r \<and> cr_trades r \<le> 185"

text \<open>One bar per minute, each opening where the last one closed.\<close>

definition candle_walk :: "candle_row list \<Rightarrow> bool" where
  "candle_walk rows \<longleftrightarrow>
     successively (\<lambda>a b. cr_ts b = cr_ts a + 60000000 \<and> cr_open b = cr_close a) rows \<and> (\<forall>r \<in> set rows. sane_candle r)"

abbreviation csv_line :: "string list \<Rightarrow> csv_row" where
  "csv_line cells \<equiv> map_of (zip demo_header (map Some cells))"

lemma demo_line_loads:
  assumes "demo_bar_ok s b" "iso_reads isoformat fromiso" "datetime_min \<le> ts" "ts < datetime_end"
  shows "\<exists>row. row_to_candle_row fromiso sid interval (csv_line (demo_fields isoformat ts b)) = Inr row \<and>
    cr_symbol_id row = sid \<and> cr_ts row = ts \<and> float_of_text (format_g 10 (dm_open b)) = Inr (cr_open row) \<and>
    float_of_text (format_g 10 (dm_close b)) = Inr (cr_close row) \<and> sane_candle row"
proof -
  note ok = assms(1) [unfolded demo_bar_ok_def]
  obtain op where op: "float_of_text (format_g 10 (dm_open b)) = Inr op" using ok general10.read_back unfolding format_g_def by blast
  obtain hi where hi: "float_of_text (format_g 10 (dm_high b)) = Inr hi" using ok general10.read_back unfolding format_g_def by blast
  obtain lo where lo: "float_of_text (format_g 10 (dm_low b)) = Inr lo" "Fin 0 \<le> lo" using ok general10.read_back unfolding format_g_def by blast
  obtain cl where cl: "float_of_text (format_g 10 (dm_close b)) = Inr cl" using ok general10.read_back unfolding format_g_def by blast
  obtain vo where vo: "float_of_text (format_f 6 (dm_volume b)) = Inr vo" using ok fixed6.read_back unfolding format_f_def by blast
  obtain qv where qv: "float_of_text (format_f 6 (dm_quote_volume b)) = Inr qv" "Fin 0 \<le> qv" using ok fixed6.read_back unfolding format_f_def by blast
  obtain tb where tb: "float_of_text (format_f 6 (dm_taker_buy_volume b)) = Inr tb" "Fin 0 \<le> tb" using ok fixed6.read_back unfolding format_f_def by blast
  have g: "v \<le> w" if "in_range 0 h x" "in_range 0 k y" "x \<le> y" "float_of_text (format_g 10 x) = Inr v" "float_of_text (format_g 10 y) = Inr w" for h k x y v w
    using general10.read_order that unfolding format_g_def by blast
  have prices: "lo \<le> op" "lo \<le> cl" "op \<le> hi" "cl \<le> hi"
    using ok g [OF _ _ _ lo(1) op] g [OF _ _ _ lo(1) cl] g [OF _ _ _ op hi] g [OF _ _ _ cl hi] by blast+
  have taker: "tb \<le> vo" using ok fixed6.read_order [OF _ _ _ tb(1) [unfolded format_f_def] vo [unfolded format_f_def]] by blast
  have trades: "int_of_text (show_int (dm_trades b)) = Inr (dm_trades b)" using ok by (intro int_of_show_int [of _ 2]) simp_all
  have time: "parse_ts fromiso (Some (isoformat ts)) = Inr ts" using assms(2-4) by (simp add: parse_ts_def iso_reads_def)
  define row where "row = csv_line (demo_fields isoformat ts b)"
  have cols: "row ''ts'' = Some (Some (isoformat ts))" "row ''open'' = Some (Some (format_g 10 (dm_open b)))"
    "row ''high'' = Some (Some (format_g 10 (dm_high b)))" "row ''low'' = Some (Some (format_g 10 (dm_low b)))"
    "row ''close'' = Some (Some (format_g 10 (dm_close b)))" "row ''volume'' = Some (Some (format_f 6 (dm_volume b)))"
    "row ''quote_volume'' = Some (Some (format_f 6 (dm_quote_volume b)))" "row ''trades'' = Some (Some (show_int (dm_trades b)))"
    "row ''taker_buy_volume'' = Some (Some (format_f 6 (dm_taker_buy_volume b)))"
    by (simp_all add: row_def demo_header_def demo_fields_def)
  show ?thesis unfolding row_def [symmetric]
    using ok prices taker by (simp add: row_to_candle_row_def csv_float_def csv_int_def csv_get_def cols time op hi lo cl vo qv trades tb
        sane_candle_def)
qed

lemma demo_rows_load:
  assumes "normal_ok normal" "draws_unit draw" "demo_params s sigma" "iso_reads isoformat fromiso"
  shows "in_range 0 (2 ^ 10 * s) price \<Longrightarrow> 
    \<forall>i \<in> set [a..b]. datetime_min \<le> start + i * 60000000 \<and> start + i * 60000000 < datetime_end \<Longrightarrow>
    \<exists>lines. demo_rows normal draw isoformat (Fin s) sigma start [a..b] price g = Inr lines \<and> length lines = nat (b - a + 1) \<and>
      (\<forall>sid interval. \<exists>rows. rmap (\<lambda>cells. row_to_candle_row fromiso sid interval (csv_line cells)) lines = Inr rows \<and>
         candle_walk rows \<and> (\<forall>r \<in> set rows. cr_symbol_id r = sid) \<and>
         (rows \<noteq> [] \<longrightarrow> cr_ts (hd rows) = start + a * 60000000 \<and> float_of_text (format_g 10 price) = Inr (cr_open (hd rows))))"
proof (induction "nat (b - a + 1)" arbitrary: a price g)
  case 0
  then show ?case by (simp add: candle_walk_def)
next
  case (Suc n)
  then have ab: "[a..b] = a # [a + 1..b]" by (simp add: upto_rec1)
  obtain x g1 where x: "demo_step normal draw (Fin s) sigma price g = Inr (x, g1)" "dm_open x = price" "demo_bar_ok s x"
    using demo_step_ok [OF assms(1-3) Suc.prems(1)] by blast
  have close: "in_range 0 (2 ^ 10 * s) (dm_close x)" using x(3) by (simp add: demo_bar_ok_def)
  have n: "n = nat (b - (a + 1) + 1)" using Suc.hyps(2) by simp
  have rest: "\<forall>i \<in> set [a + 1..b]. datetime_min \<le> start + i * 60000000 \<and> start + i * 60000000 < datetime_end"
    using Suc.prems(2) ab by simp
  obtain lines where l: "demo_rows normal draw isoformat (Fin s) sigma start [a + 1..b] (dm_close x) g1 = Inr lines"
    "length lines = nat (b - (a + 1) + 1)"
    "\<forall>sid interval. \<exists>rows. rmap (\<lambda>cells. row_to_candle_row fromiso sid interval (csv_line cells)) lines = Inr rows \<and>
         candle_walk rows \<and> (\<forall>r \<in> set rows. cr_symbol_id r = sid) \<and>
         (rows \<noteq> [] \<longrightarrow> cr_ts (hd rows) = start + (a + 1) * 60000000 \<and> float_of_text (format_g 10 (dm_close x)) = Inr (cr_open (hd rows)))"
    using Suc.hyps(1) [OF n close rest, of g1] by (elim exE conjE)
  let ?ts = "start + a * 60000000"
  have ts: "datetime_min \<le> ?ts" "?ts < datetime_end" using Suc.prems(2) ab by simp_all
  have "demo_rows normal draw isoformat (Fin s) sigma start [a..b] price g = Inr (demo_fields isoformat ?ts x # lines)"
    using ts x(1) l(1) by (simp add: ab shift_minutes_def Let_def)
  moreover have "length (demo_fields isoformat ?ts x # lines) = nat (b - a + 1)" using l(2) Suc.hyps(2) by simp
  moreover have "\<exists>rows. rmap (\<lambda>cells. row_to_candle_row fromiso sid interval (csv_line cells)) (demo_fields isoformat ?ts x # lines) = Inr rows \<and>
         candle_walk rows \<and> (\<forall>r \<in> set rows. cr_symbol_id r = sid) \<and>
         (rows \<noteq> [] \<longrightarrow> cr_ts (hd rows) = ?ts \<and> float_of_text (format_g 10 price) = Inr (cr_open (hd rows)))" for sid interval
  proof -
    obtain rows where rows: "rmap (\<lambda>cells. row_to_candle_row fromiso sid interval (csv_line cells)) lines = Inr rows" "candle_walk rows"
      "\<forall>r \<in> set rows. cr_symbol_id r = sid"
      "rows \<noteq> [] \<longrightarrow> cr_ts (hd rows) = start + (a + 1) * 60000000 \<and> float_of_text (format_g 10 (dm_close x)) = Inr (cr_open (hd rows))"
      using l(3) by blast
    obtain row where row: "row_to_candle_row fromiso sid interval (csv_line (demo_fields isoformat ?ts x)) = Inr row"
      "cr_symbol_id row = sid" "cr_ts row = ?ts" "float_of_text (format_g 10 price) = Inr (cr_open row)"
      "float_of_text (format_g 10 (dm_close x)) = Inr (cr_close row)" "sane_candle row"
      using demo_line_loads [OF x(3) assms(4) ts] x(2) by metis
    have "candle_walk (row # rows)"
      using rows(2,4) row(3,5,6) by (cases rows) (simp_all add: candle_walk_def)
    then show ?thesis using rows(1,3) row by simp
  qed
  ultimately show ?case by blast
qed

text \<open>What the loader makes of a file.\<close>

definition file_loads :: "(string \<Rightarrow> datetime res) \<Rightarrow> int \<Rightarrow> string list list \<Rightarrow> bool" where
  "file_loads fromiso minutes csv \<longleftrightarrow>
     (\<forall>sid interval. \<exists>rows. rmap (\<lambda>line. rbind line (row_to_candle_row fromiso sid interval)) (csv_dicts csv) = Inr rows \<and>
        int (length rows) = minutes \<and> candle_walk rows \<and> (\<forall>r \<in> set rows. cr_symbol_id r = sid))"

lemma rmap_map: "rmap f (map g xs) = rmap (\<lambda>x. f (g x)) xs"
  by (induction xs) simp_all

lemma generate_loads:
  assumes "normal_ok normal" "draws_unit draw" "demo_params s sigma" "iso_reads isoformat fromiso" "0 \<le> minutes"
    and "datetime_min + (minutes + 1) * 60000000 \<le> now" "now < datetime_end"
  shows "\<exists>lines. generate_symbol normal draw isoformat now (Fin s) sigma minutes g = Inr lines \<and> file_loads fromiso minutes (demo_header # lines)"
proof -
  define start where "start = now - now mod 60000000 - minutes * 60000000"
  have m: "0 \<le> now mod 60000000" "now mod 60000000 < 60000000" by simp_all
  have start: "datetime_min \<le> start" "start + minutes * 60000000 \<le> now" using assms(6) m by (simp_all add: start_def algebra_simps)
  have less: "start + i * 60000000 < datetime_end" if "i \<le> minutes" for i
  proof -
    have "i * 60000000 \<le> minutes * 60000000" using that by simp
    then show ?thesis using start(2) assms(7) by linarith
  qed
  have s: "0 \<le> s" using demo_params_pos [OF assms(3)] by simp
  have price: "in_range 0 (2 ^ 10 * s) (Fin s)" using assms(3) s by (simp add: in_range_Fin demo_params_def)
  have dates: "\<forall>i \<in> set [0..minutes - 1]. datetime_min \<le> start + i * 60000000 \<and> start + i * 60000000 < datetime_end"
    using start(1) less by simp
  obtain lines where l: "demo_rows normal draw isoformat (Fin s) sigma start [0..minutes - 1] (Fin s) g = Inr lines" "length lines = nat minutes"
    and rows: "\<forall>sid interval. \<exists>rows. rmap (\<lambda>cells. row_to_candle_row fromiso sid interval (csv_line cells)) lines = Inr rows \<and>
         candle_walk rows \<and> (\<forall>r \<in> set rows. cr_symbol_id r = sid)"
  proof -
    assume goal: "\<And>lines. \<lbrakk>demo_rows normal draw isoformat (Fin s) sigma start [0..minutes - 1] (Fin s) g = Inr lines; length lines = nat minutes;
      \<forall>sid interval. \<exists>rows. rmap (\<lambda>cells. row_to_candle_row fromiso sid interval (csv_line cells)) lines = Inr rows \<and>
         candle_walk rows \<and> (\<forall>r \<in> set rows. cr_symbol_id r = sid)\<rbrakk> \<Longrightarrow> thesis"
    show thesis using demo_rows_load [OF assms(1-4) price dates, of g] by (elim exE conjE) (rule goal, simp_all, blast)
  qed
  have "shift_minutes (now - now mod 60000000) (- minutes) = Inr start"
    using start(1) less [of 0] assms(5) by (simp add: shift_minutes_def start_def Let_def)
  then have "generate_symbol normal draw isoformat now (Fin s) sigma minutes g = Inr lines" using l(1) by (simp add: generate_symbol_def)
  moreover have "file_loads fromiso minutes (demo_header # lines)"
    using rows l(2) assms(5) by (fastforce simp: file_loads_def rmap_map dest: rmap_length)
  ultimately show ?thesis by blast
qed

lemma demo_symbols_ok: "(base, price, sigma) \<in> set demo_symbols \<Longrightarrow> \<exists>s. price = Fin s \<and> demo_params s sigma"
proof -
  assume m: "(base, price, sigma) \<in> set demo_symbols"
  have e: "endpoint (1 / 2 ^ 20)" "endpoint (2 ^ 20)" "endpoint (33 / 2 ^ 14)"
    using endpoint_inverse_power [of 20] endpoint_power [of 20] dyadic_endpoint [of 14 33] by simp_all
  have "\<exists>q. sigma = to_dbl q \<and> 0 \<le> q \<and> q \<le> 33 / 2 ^ 14"
  proof -
    have "\<exists>q \<in> {6, 7, 8, 10, 11, 12, 15, 18, 20}. sigma = to_dbl (q / 10000)" using m by (auto simp: demo_symbols_def)
    then show ?thesis by auto
  qed
  then have "in_range 0 (33 / 2 ^ 14) sigma" using e to_dbl_in_range [of 0] by auto
  moreover have "in_range (1 / 2 ^ 20) (2 ^ 20) price"
    using m to_dbl_in_range [OF e(1,2)] by (auto simp: demo_symbols_def in_range_Fin)
  ultimately show ?thesis by (auto simp: in_range_def demo_params_def)
qed

lemma demo_files_load:
  assumes "normal_ok normal" "draws_unit draw" "iso_reads isoformat fromiso" "0 \<le> minutes"
    and "\<forall>k. datetime_min + (minutes + 1) * 60000000 \<le> clock k \<and> clock k < datetime_end"
  shows "set symbols \<subseteq> set demo_symbols \<Longrightarrow>
    \<exists>new. demo_files normal draw isoformat seeded clock minutes symbols k files = (Inr (), files @ new) \<and>
      map fst new = map fst symbols \<and> (\<forall>(base, csv) \<in> set new. file_loads fromiso minutes csv)"
proof (induction symbols arbitrary: k files)
  case (Cons x symbols)
  obtain base price sigma where x: "x = (base, price, sigma)" by (cases x)
  then obtain s where s: "price = Fin s" "demo_params s sigma" using demo_symbols_ok Cons.prems by fastforce
  obtain lines where l: "generate_symbol normal draw isoformat (clock k) (Fin s) sigma minutes (seeded k) = Inr lines"
    "file_loads fromiso minutes (demo_header # lines)"
    using generate_loads [OF assms(1,2) s(2) assms(3,4)] assms(5) by blast
  obtain new where "demo_files normal draw isoformat seeded clock minutes symbols (Suc k) (files @ [(base, demo_header # lines)]) =
      (Inr (), (files @ [(base, demo_header # lines)]) @ new)" "map fst new = map fst symbols"
    "\<forall>(base, csv) \<in> set new. file_loads fromiso minutes csv"
    using Cons.IH [of "Suc k" "files @ [(base, demo_header # lines)]"] Cons.prems by auto
  then show ?case using l x s(1) by (intro exI [of _ "(base, demo_header # lines) # new"]) simp
qed simp

lemma load_demo_file:
  assumes "file_loads fromiso minutes csv" "get_id base db = Some sid" "int32 sid"
  shows "\<exists>rows. load_candles_csv fromiso base (Inr (csv_dicts csv)) interval batch_size db =
      (Inr minutes, db\<lparr>db_candles := fold (\<lambda>r. alput (candle_key_of r) r) rows (db_candles db)\<rparr>) \<and> candle_walk rows"
proof -
  obtain rows where r: "rmap (\<lambda>line. rbind line (row_to_candle_row fromiso sid interval)) (csv_dicts csv) = Inr rows"
    "int (length rows) = minutes" "candle_walk rows" "\<forall>r \<in> set rows. cr_symbol_id r = sid"
    using assms(1) unfolding file_loads_def by blast
  have "symbol_exists sid db"
    using assms(2) find_member [of "has_base base" "db_symbols db"] by (auto simp: get_id_def symbol_exists_def list_ex_iff)
  then have "\<forall>r \<in> set rows. candle_violation db r = None"
    using r(3,4) assms(3) by (auto simp: candle_walk_def sane_candle_def candle_violation_def references_def int32_def)
  then have "insert_candles ([] @ rows) db = (Inr minutes, db\<lparr>db_candles := fold (\<lambda>r. alput (candle_key_of r) r) rows (db_candles db)\<rparr>)"
    using r(2) by (simp add: insert_candles_Inr)
  from load_rows_complete [OF r(1) this, of batch_size 0] show ?thesis
    using r(3) assms(2) by (intro exI [of _ rows]) (simp add: load_candles_csv_def)
qed

lemma map_of_fold_alput:
  "map_of (fold (\<lambda>r. alput (key r) r) rows table) k = Some r \<Longrightarrow> map_of table k = Some r \<or> r \<in> set rows"
  by (induction rows arbitrary: table) (fastforce split: if_splits)+

lemma backfill_demo_files:
  assumes "\<forall>(base, csv) \<in> set order. file_loads fromiso minutes csv"
    "\<forall>base \<in> fst ` set order. \<exists>sid. get_id base db = Some sid \<and> int32 sid"
  shows "\<exists>db'. backfill_run fromiso (map (\<lambda>(base, csv). (base, Inr (csv_dicts csv))) order) interval db =
      (Inr (map (\<lambda>(base, csv). (base, minutes)) order), db') \<and>
    (\<forall>k r. map_of (db_candles db') k = Some r \<longrightarrow> map_of (db_candles db) k = Some r \<or> sane_candle r)"
  using assms
proof (induction order arbitrary: db)
  case (Cons x order)
  obtain base csv where x: "x = (base, csv)" by (cases x)
  obtain sid where sid: "get_id base db = Some sid" "int32 sid" using Cons.prems(2) x by auto
  obtain rows where rows: "load_candles_csv fromiso base (Inr (csv_dicts csv)) interval default_batch_size db =
      (Inr minutes, db\<lparr>db_candles := fold (\<lambda>r. alput (candle_key_of r) r) rows (db_candles db)\<rparr>)" "candle_walk rows"
    using load_demo_file [OF _ sid] Cons.prems(1) x by fastforce
  let ?db1 = "db\<lparr>db_candles := fold (\<lambda>r. alput (candle_key_of r) r) rows (db_candles db)\<rparr>"
  have "\<forall>base \<in> fst ` set order. \<exists>sid. get_id base ?db1 = Some sid \<and> int32 sid" using Cons.prems(2) by (simp add: get_id_def)
  then obtain db' where db': "backfill_run fromiso (map (\<lambda>(base, csv). (base, Inr (csv_dicts csv))) order) interval ?db1 =
      (Inr (map (\<lambda>(base, csv). (base, minutes)) order), db')"
    "\<forall>k r. map_of (db_candles db') k = Some r \<longrightarrow> map_of (db_candles ?db1) k = Some r \<or> sane_candle r"
    using Cons.IH [of ?db1] Cons.prems(1) by auto
  have "map_of (db_candles db) k = Some r \<or> sane_candle r" if "map_of (db_candles db') k = Some r" for k r
  proof -
    have "map_of (db_candles ?db1) k = Some r \<or> sane_candle r" using db'(2) that by blast
    then show ?thesis using map_of_fold_alput [of candle_key_of rows "db_candles db" k r] rows(2) by (auto simp: candle_walk_def)
  qed
  then show ?case using rows(1) db'(1) x by (intro exI [of _ db']) simp
qed simp

text \<open>
  C22: the demo data loads. Whatever the generator draws, the script ends without an exception and writes one file per symbol;
  every line of it converts, to one candle per minute, each opening at the text of the last close, with prices and volumes in
  order; and a back-fill of any of the files, in any order, on a database that knows their symbols loads every line.
\<close>

theorem demo_data_loads:
  assumes "normal_ok normal" "draws_unit draw" "iso_reads isoformat fromiso" "0 \<le> days"
    and "\<forall>k. datetime_min + (days * minutes_per_day + 1) * 60000000 \<le> clock k \<and> clock k < datetime_end"
  shows "\<exists>files. demo_main normal draw isoformat seeded clock days = (Inr (), files) \<and> map fst files = map fst demo_symbols \<and>
    (\<forall>(base, csv) \<in> set files. \<forall>sid interval. \<exists>rows.
       rmap (\<lambda>line. rbind line (row_to_candle_row fromiso sid interval)) (csv_dicts csv) = Inr rows \<and>
       int (length rows) = days * minutes_per_day \<and> candle_walk rows) \<and>
    (\<forall>order db interval. set order \<subseteq> set files \<and> (\<forall>base \<in> fst ` set order. \<exists>sid. get_id base db = Some sid \<and> int32 sid) \<longrightarrow>
       (\<exists>db'. backfill_run fromiso (map (\<lambda>(base, csv). (base, Inr (csv_dicts csv))) order) interval db =
          (Inr (map (\<lambda>(base, csv). (base, days * minutes_per_day)) order), db') \<and>
          (\<forall>k r. map_of (db_candles db') k = Some r \<longrightarrow> map_of (db_candles db) k = Some r \<or> sane_candle r)))"
proof -
  have "0 \<le> days * minutes_per_day" using assms(4) by (simp add: minutes_per_day_def)
  from demo_files_load [OF assms(1-3) this assms(5), of demo_symbols seeded 0 "[]"] obtain files where
    f: "demo_main normal draw isoformat seeded clock days = (Inr (), files)" "map fst files = map fst demo_symbols"
    "\<forall>(base, csv) \<in> set files. file_loads fromiso (days * minutes_per_day) csv"
    by (auto simp: demo_main_def)
  have "\<forall>(base, csv) \<in> set order. file_loads fromiso (days * minutes_per_day) csv" if "set order \<subseteq> set files" for order
    using f(3) that by blast
  then show ?thesis using f backfill_demo_files by (intro exI [of _ files]) (fastforce simp: file_loads_def)
qed

text \<open>A clock, a registered symbol and one day of data.\<close>

theorem demo_data_loads_witness:
  "let db = snd (upsert_symbol \<lparr>sy_symbol = ''BTCUSDT'', sy_base = ''BTC'', sy_quote = ''USDT'', sy_klass = ''core'', sy_tier = 0,
       sy_status = ''trading'', sy_tags = []\<rparr> (db_new 0));
     stamp = (\<lambda>t. CHR ''T'' # (if t < 0 then ''-'' else ''+'') @ replicate (nat \<bar>t\<bar>) (CHR ''x''));
     read = (\<lambda>s. Inr (if s ! 1 = CHR ''-'' then - int (length s - 2) else int (length s - 2)))
   in \<exists>files csv db'. demo_main (\<lambda>g. (Fin 0, g)) (\<lambda>g. (Fin 0, g)) stamp (\<lambda>k. ()) (\<lambda>k. 1700000000000000) 1 = (Inr (), files) \<and>
     (''BTC'', csv) \<in> set files \<and> backfill_run read [(''BTC'', Inr (csv_dicts csv))] ''1m'' db = (Inr [(''BTC'', 1440)], db')"
proof -
  define db where "db = snd (upsert_symbol \<lparr>sy_symbol = ''BTCUSDT'', sy_base = ''BTC'', sy_quote = ''USDT'', sy_klass = ''core'', sy_tier = 0,
       sy_status = ''trading'', sy_tags = []\<rparr> (db_new 0))"
  define stamp where "stamp = (\<lambda>t :: datetime. CHR ''T'' # (if t < 0 then ''-'' else ''+'') @ replicate (nat \<bar>t\<bar>) (CHR ''x''))"
  define read :: "string \<Rightarrow> datetime res"
    where "read = (\<lambda>s. Inr (if s ! 1 = CHR ''-'' then - int (length s - 2) else int (length s - 2)))"
  have sid: "get_id ''BTC'' db = Some 1"
    by (simp add: db_def upsert_symbol_def get_id_def has_base_def db_new_def symbol_check_def int16_def Let_def)
  have t: "\<not> is_digit (CHR ''T'')" by (simp add: is_digit_def code_def)
  have iso: "iso_reads stamp read" using t by (simp add: iso_reads_def stamp_def read_def is_digits_def)
  have unit: "normal_ok (\<lambda>g :: unit. (Fin 0, g))" "draws_unit (\<lambda>g :: unit. (Fin 0, g))"
    by (simp_all add: normal_ok_def bounded_by_def draws_unit_def in_range_Fin)
  have clock: "\<forall>k :: nat. datetime_min + (1 * minutes_per_day + 1) * 60000000 \<le> 1700000000000000 \<and> 1700000000000000 < datetime_end"
    by (simp add: datetime_min_def datetime_end_def minutes_per_day_def)
  from demo_data_loads [OF unit iso _ clock, of "\<lambda>k. ()"] obtain files where
    f: "demo_main (\<lambda>g. (Fin 0, g)) (\<lambda>g. (Fin 0, g)) stamp (\<lambda>k. ()) (\<lambda>k. 1700000000000000) 1 = (Inr (), files)"
    "map fst files = map fst demo_symbols"
    and load: "\<forall>order db interval. set order \<subseteq> set files \<and> (\<forall>base \<in> fst ` set order. \<exists>sid. get_id base db = Some sid \<and> int32 sid) \<longrightarrow>
       (\<exists>db'. backfill_run read (map (\<lambda>(base, csv). (base, Inr (csv_dicts csv))) order) interval db =
          (Inr (map (\<lambda>(base, csv). (base, 1 * minutes_per_day)) order), db') \<and>
          (\<forall>k r. map_of (db_candles db') k = Some r \<longrightarrow> map_of (db_candles db) k = Some r \<or> sane_candle r))"
    by auto
  have "''BTC'' \<in> set (map fst files)" unfolding f(2) by (simp add: demo_symbols_def)
  then obtain csv where csv: "(''BTC'', csv) \<in> set files" by auto
  have "\<exists>db'. backfill_run read [(''BTC'', Inr (csv_dicts csv))] ''1m'' db = (Inr [(''BTC'', 1440)], db')"
    using load [rule_format, of "[(''BTC'', csv)]" db "''1m''"] csv sid by (auto simp: int32_def minutes_per_day_def)
  then show ?thesis unfolding Let_def db_def [symmetric] stamp_def [symmetric] read_def [symmetric] using f(1) csv by blast
qed

end
