(* ===== verification/Logs.thy ===== *)
theory Logs
  imports Timestamps Text
begin

text \<open>
  \<^verbatim>\<open>src/orvixa/logging.py\<close>: the JSON body of a log record and the set-up of the root logger. The values of the extra fields
  are a parameter \<open>'v\<close>, as is \<^verbatim>\<open>json.dumps\<close>, which writes the body.
\<close>

definition reserved :: "string list" where
  "reserved =
    [''name'', ''msg'', ''args'', ''levelname'', ''levelno'', ''pathname'', ''filename'',
     ''module'', ''exc_info'', ''exc_text'', ''stack_info'', ''lineno'', ''funcName'',
     ''created'', ''msecs'', ''relativeCreated'', ''thread'', ''threadName'',
     ''processName'', ''process'', ''taskName'', ''message'', ''asctime'']"

text \<open>A record with its \<^verbatim>\<open>__dict__\<close>; \<open>lr_exc\<close> is the formatted traceback of \<^verbatim>\<open>exc_info\<close>.\<close>

record 'v log_record =
  lr_created :: pyfloat
  lr_levelname :: string
  lr_name :: string
  lr_message :: string
  lr_dict :: "(string \<times> 'v) list"
  lr_exc :: "string option"

datatype 'v log_value = Said string | Field 'v

definition extra_key :: "string \<Rightarrow> bool" where
  "extra_key key \<longleftrightarrow> key \<notin> set reserved \<and> take 1 key \<noteq> ''_''"

definition standard_fields :: "(datetime \<Rightarrow> string) \<Rightarrow> datetime \<Rightarrow> 'v log_record \<Rightarrow> (string \<times> 'v log_value) list" where
  "standard_fields isoformat t r =
     [(''ts'', Said (isoformat t)), (''level'', Said (lr_levelname r)), (''logger'', Said (lr_name r)), (''msg'', Said (lr_message r))]"

definition log_payload :: "(datetime \<Rightarrow> string) \<Rightarrow> 'v log_record \<Rightarrow> (string \<times> 'v log_value) list res" where
  "log_payload isoformat r =
     rbind (fromtimestamp (lr_created r)) (\<lambda>t.
     let payload = fold (\<lambda>(key, v) p. if extra_key key then alput key (Field v) p else p) (lr_dict r) (standard_fields isoformat t r)
     in Inr (case lr_exc r of None \<Rightarrow> payload | Some e \<Rightarrow> alput ''exc'' (Said e) payload))"

definition format_record ::
  "(datetime \<Rightarrow> string) \<Rightarrow> ((string \<times> 'v log_value) list \<Rightarrow> string res) \<Rightarrow> 'v log_record \<Rightarrow> string res" where
  "format_record isoformat dumps r = rbind (log_payload isoformat r) dumps"

text \<open>The handlers of the root logger and the levels of the named ones.\<close>

datatype handler = Json_stdout | Foreign nat

record log_setup =
  ls_handlers :: "handler list"
  ls_levels :: "(string \<times> int) list"

definition level_number :: "string \<Rightarrow> int option" where
  "level_number level =
     map_of [(''CRITICAL'', 50), (''FATAL'', 50), (''ERROR'', 40), (''WARN'', 30), (''WARNING'', 30), (''INFO'', 20),
       (''DEBUG'', 10), (''NOTSET'', 0)] level"

definition setup_logging :: "string \<Rightarrow> log_setup \<Rightarrow> unit res \<times> log_setup" where
  "setup_logging level s =
     (let s1 = s\<lparr>ls_handlers := [Json_stdout]\<rparr> in
      case level_number (upper level) of
        None \<Rightarrow> (Inl ValueError, s1)
      | Some n \<Rightarrow> (Inr (), s1\<lparr>ls_levels :=
          alput ''httpcore'' 30 (alput ''httpx'' 30 (alput ''websockets'' 30 (alput ''root'' n (ls_levels s1))))\<rparr>))"

text \<open>What reaches the line: every extra field under its name, and nothing of the record's own attributes.\<close>

lemma fold_extras:
  "map_of (fold (\<lambda>(key, v) p. if extra_key key then alput key (Field v) p else p) pairs p) k =
     (if extra_key k then case map_of (rev pairs) k of Some v \<Rightarrow> Some (Field v) | None \<Rightarrow> map_of p k else map_of p k)"
  by (induction pairs arbitrary: p) (auto simp: map_add_def split: option.splits if_splits)

lemma payload_lookup:
  assumes "log_payload isoformat r = Inr p" "k \<noteq> ''exc''"
  shows "\<exists>t. fromtimestamp (lr_created r) = Inr t \<and> map_of p k =
    (if extra_key k \<and> k \<in> fst ` set (lr_dict r) then map_option Field (map_of (rev (lr_dict r)) k)
     else map_of (standard_fields isoformat t r) k)"
proof -
  obtain t where t: "fromtimestamp (lr_created r) = Inr t" using assms(1) by (auto simp: log_payload_def rbind_eq_Inr)
  have none: "map_of (rev (lr_dict r)) k = None \<longleftrightarrow> k \<notin> fst ` set (lr_dict r)" by (simp add: map_of_eq_None_iff)
  define q where "q = fold (\<lambda>(key, v) p. if extra_key key then alput key (Field v) p else p) (lr_dict r) (standard_fields isoformat t r)"
  have "map_of p k = map_of q k" using assms by (auto simp: log_payload_def t q_def [symmetric] split: option.splits)
  then show ?thesis using t none by (auto simp: q_def fold_extras split: option.split)
qed

lemma alput_same: "map_of xs k = Some v \<Longrightarrow> alput k v xs = xs"
  by (induction xs) (auto split: if_splits)

lemma setup_idempotent: "snd (setup_logging level (snd (setup_logging level s))) = snd (setup_logging level s)"
proof (cases "level_number (upper level)")
  case (Some n)
  define quiet where "quiet ls = alput ''httpcore'' 30 (alput ''httpx'' 30 (alput ''websockets'' 30 (alput ''root'' n ls)))" for ls
  have "map_of (quiet ls) ''root'' = Some n" "map_of (quiet ls) ''websockets'' = Some 30" "map_of (quiet ls) ''httpx'' = Some 30"
    "map_of (quiet ls) ''httpcore'' = Some 30" for ls
    by (simp_all add: quiet_def)
  then have "quiet (quiet ls) = quiet ls" for ls by (subst quiet_def) (simp add: alput_same)
  then show ?thesis using Some by (simp add: setup_logging_def Let_def quiet_def [symmetric])
qed (simp add: setup_logging_def)

end
