(* ===== verification/Spec2Isabelle.thy ===== *)
theory Spec2Isabelle
  imports Indicators Trend Signals Events Breadth Regime Timestamps Rows Engine Pipeline Payloads Registry Tiering Link Subscriptions Policy Ingestion Access Lifecycle Feedcheck Transport Migrations Services Live Recovery Demodata Logs
begin

text \<open>
  ORVIXA is a market analytics platform in Python: a feed of one-minute candles and market snapshots (Binance or an offline
  simulator), an ingest service that stores candles, an analytics engine that turns them into indicators, signals, events and
  market regimes, a symbol manager that ranks the traded universe and decides what is streamed, a back-test of the signals, a
  PostgreSQL schema behind repositories, and a read-only API. This development models the code under \<^verbatim>\<open>src/orvixa\<close>,
  \<^verbatim>\<open>alembic/versions\<close> and \<^verbatim>\<open>scripts\<close>, and proves what makes it correct. Below, \<^verbatim>\<open>orvixa/\<close> stands for \<^verbatim>\<open>src/orvixa/\<close>.

  \<^bold>\<open>How the parts interact.\<close> A feed (\<^verbatim>\<open>feeds/base.py\<close>, \<^verbatim>\<open>binance.py\<close>, \<^verbatim>\<open>sim.py\<close>) fans every candle and snapshot out to its consumers.
  The ingest service registers a candle sink whose rows a batch writer inserts; the analytics service registers the engine, which
  computes per symbol, writes indicator rows through a batch writer and signals and events through the repositories, and refreshes
  the regime periodically; the symbol service registers the manager, which refreshes the universe from the exchange's REST client,
  writes tiers and metrics, and subscribes the feed to the watchlist. A supervisor restarts the services. The back-test replays
  stored candles through the same engine with in-memory sinks.

  \<^bold>\<open>Foundations.\<close>
  \<^item> \<^verbatim>\<open>Prelude\<close>: exceptions as values (\<^verbatim>\<open>pyerr\<close>, \<^verbatim>\<open>'a res\<close>, \<^verbatim>\<open>rbind\<close>, \<^verbatim>\<open>rmap\<close>, and \<^verbatim>\<open>attempt\<close> for code with a state that stays changed
    when a call raises), bounded deques, dictionaries in insertion order (\<^verbatim>\<open>alput\<close>), runs of a component over its inputs, and the
    locales \<^verbatim>\<open>calculator\<close>, \<^verbatim>\<open>history_calc\<close>, \<^verbatim>\<open>keyed\<close>, \<^verbatim>\<open>keyed_history\<close> the analytics components instantiate.
  \<^item> \<^verbatim>\<open>Pyfloat\<close>: Python's float as IEEE-754 binary64. A double is \<^verbatim>\<open>Fin q\<close> with q rational, an infinity or NaN; every operation computes
    exactly and rounds once (\<^verbatim>\<open>rnd\<close>, ties to even, subnormals included). Signed zeros are not told apart, which no modelled code
    observes. Monotonicity of rounding and arithmetic, relative error bounds, order on doubles.
  \<^item> \<^verbatim>\<open>Text\<close>: \<^verbatim>\<open>str\<close> methods, \<^verbatim>\<open>float(s)\<close>, \<^verbatim>\<open>int(s)\<close> and decoded JSON values. \<^verbatim>\<open>Timestamps\<close>: epoch milliseconds and \<^verbatim>\<open>datetime\<close>
    (microseconds). \<^verbatim>\<open>Config\<close>: the \<^verbatim>\<open>settings\<close> record of \<^verbatim>\<open>orvixa/config.py\<close>. \<^verbatim>\<open>Market\<close>: \<^verbatim>\<open>Candle\<close> and \<^verbatim>\<open>TickerRow\<close>. \<^verbatim>\<open>Rows\<close>: \<^verbatim>\<open>orvixa/db/models.py\<close>.

  \<^bold>\<open>Analytics\<close> (\<^verbatim>\<open>orvixa/analytics\<close>).
  \<^item> \<^verbatim>\<open>Indicators\<close> (\<^verbatim>\<open>indicators.py\<close>): EMA, Wilder's RSI and ATR, realised volatility, relative volume, the bundle per symbol. Warm-up
    and range of each; the incremental volatility equals its definition over the last returns.
  \<^item> \<^verbatim>\<open>Trend\<close> (\<^verbatim>\<open>trend.py\<close>), \<^verbatim>\<open>Signals\<close> (\<^verbatim>\<open>signals.py\<close>), \<^verbatim>\<open>Events\<close> (\<^verbatim>\<open>events.py\<close>): the per-symbol machines. Confidence bounds, no signal
    repeated without a reset, events on rising edges over bounded histories, no event check raises on real bars.
  \<^item> \<^verbatim>\<open>Breadth\<close> (\<^verbatim>\<open>symbols/breadth.py\<close>), \<^verbatim>\<open>Regime\<close> (\<^verbatim>\<open>health.py\<close>, \<^verbatim>\<open>regime.py\<close>): the counters of a snapshot against its rows; the health
    score is bounded and monotone, the regime is a function of it.
  \<^item> \<^verbatim>\<open>Engine\<close> (\<^verbatim>\<open>engine.py\<close>, \<^verbatim>\<open>backtest/capture.py\<close>): \<^verbatim>\<open>handle_candle\<close>, \<^verbatim>\<open>handle_snapshot\<close>, \<^verbatim>\<open>refresh_regime\<close> over a record of repository
    functions that may raise; symbols do not interfere. \<^verbatim>\<open>Pipeline\<close>: under valid settings and on real bars no step
    raises. \<^verbatim>\<open>Live\<close> (\<^verbatim>\<open>runners/analytics.py\<close>): the service over the modelled database, as steps of the feed, the regime task and the
    indicator writer (the awaits of one candle are one step: what may run in between is the writer, on a table of its own); what
    the tables hold for a symbol does not depend on the others, and a signal that is refused is lost.

  \<^bold>\<open>Feeds\<close> (\<^verbatim>\<open>orvixa/feeds\<close>).
  \<^item> \<^verbatim>\<open>Payloads\<close> (\<^verbatim>\<open>normalize.py\<close>, \<^verbatim>\<open>symbols/client.py\<close>): decoding of stream and REST payloads of any JSON shape; malformed entries are skipped
    and nothing else is.
  \<^item> \<^verbatim>\<open>Feed\<close> (\<^verbatim>\<open>base.py\<close>, \<^verbatim>\<open>binance.py\<close>): fan-out, messages, subscribe and unsubscribe, one connection, the reconnect loop and its backoff
    schedule. \<^verbatim>\<open>Link\<close>: the connection as a step relation, with calls between the URL and the opened socket; what the socket streams
    follows the subscriptions, except for a change made while connecting, which is lost. \<^verbatim>\<open>Transport\<close>: start, stop,
    wait_connected and the REST back-fill.
  \<^item> \<^verbatim>\<open>Simfeed\<close> (\<^verbatim>\<open>sim.py\<close>): the simulator; every bar it emits is well formed.
  \<^item> \<^verbatim>\<open>Feedcheck\<close> (\<^verbatim>\<open>runners/feedcheck.py\<close>): the consumers of the acceptance runner and its run from start to stop.

  \<^bold>\<open>Storage\<close> (\<^verbatim>\<open>orvixa/db\<close>, \<^verbatim>\<open>orvixa/persistence\<close>, \<^verbatim>\<open>orvixa/backfill\<close>, \<^verbatim>\<open>alembic/versions\<close>).
  \<^item> \<^verbatim>\<open>Repository\<close> (\<^verbatim>\<open>db/repository.py\<close>): one function per method over a record of tables: upserts, append-only logs with sequences, checks,
    foreign and unique keys (the partial one of the alerts included), column ranges. \<^verbatim>\<open>Schema\<close>: the constraints are an invariant
    of every reachable database, upserts are tables with the last write winning, range queries ascend.
  \<^item> \<^verbatim>\<open>Migrations\<close>: the six revisions as statements over any schema, each undone by its downgrade but for the extension the first
    may create, and the columns and conflict targets of the repositories' statements checked against them. What a database
    has besides does not matter, so that one computation on an empty schema settles every other (\<^verbatim>\<open>execute_beside\<close>).
  \<^item> \<^verbatim>\<open>Registry\<close> (\<^verbatim>\<open>persistence/registry.py\<close>, \<^verbatim>\<open>backtest/dataset.py\<close>): seeding and provenance.
  \<^item> \<^verbatim>\<open>Ingestion\<close> (\<^verbatim>\<open>batch_writer.py\<close>, \<^verbatim>\<open>candles.py\<close>, \<^verbatim>\<open>csv_loader.py\<close>, \<^verbatim>\<open>runners/backfill.py\<close>): the batch writer as a step relation over its
    task, callers and a sink that may raise: every item is written once and in order, stopping terminates; candles survive the round trip to
    rows; a CSV load in batches is one insert. \<^verbatim>\<open>Services\<close> (\<^verbatim>\<open>runners/ingest.py\<close>): the whole ingest service stores its stream.

  \<^bold>\<open>Symbol universe\<close> (\<^verbatim>\<open>orvixa/symbols\<close>).
  \<^item> \<^verbatim>\<open>Ranking\<close> (\<^verbatim>\<open>ranking.py\<close>, \<^verbatim>\<open>watchlist.py\<close>), \<^verbatim>\<open>Manager\<close> (\<^verbatim>\<open>manager.py\<close>), \<^verbatim>\<open>Tiering\<close>: scores, ranks, listings, tiers, spike promotions with
    their grace period, the log of transitions, and what a cycle settles whatever its repositories and feed answer.
  \<^item> \<^verbatim>\<open>Subscriptions\<close>: a refresh cycle over a database and the Binance feed makes the feed stream exactly the watchlist.
  \<^item> \<^verbatim>\<open>Recovery\<close>: after a cycle the registry mirrors the manager, and a restart reads it back; a cycle cancelled or failed at any call
    (\<^verbatim>\<open>cut_services\<close>) leaves a prefix of the new states.

  \<^bold>\<open>Operation.\<close>
  \<^item> \<^verbatim>\<open>Lifecycle\<close> (\<^verbatim>\<open>runners/symbols.py\<close>, \<^verbatim>\<open>runners/analytics.py\<close>, \<^verbatim>\<open>runners/daemon.py\<close>, the tasks of manager and engine): start, periodic
    refresh, shutdown and supervision, with the failed refresh that ends a task silently, the crash or the signal that only
    restarts, and the cancellation that is raised.
  \<^item> \<^verbatim>\<open>Access\<close> (\<^verbatim>\<open>config.py\<close>, \<^verbatim>\<open>factory.py\<close>, \<^verbatim>\<open>orvixa/api\<close>): validation of settings, choice of the feed, key check and endpoints; a production
    deployment never answers without the configured key.
  \<^item> \<^verbatim>\<open>Logs\<close> (\<^verbatim>\<open>logging.py\<close>): the body of a log record and the set-up of the loggers.

  \<^bold>\<open>Back-test\<close> (\<^verbatim>\<open>orvixa/backtest\<close>).
  \<^item> \<^verbatim>\<open>Returns\<close>, \<^verbatim>\<open>Validation\<close> (\<^verbatim>\<open>signal_validation.py\<close>): forward returns by time, effective sample sizes, bootstrap intervals, metrics; a
    signal depends on no later candle. \<^verbatim>\<open>Buckets\<close> (\<^verbatim>\<open>regime_validation.py\<close>), \<^verbatim>\<open>Policy\<close> (\<^verbatim>\<open>policy_validation.py\<close>): the regimes partition the
    baseline, and ALLOW rests on the evidence the thresholds name.

  \<^bold>\<open>Demo data\<close> (\<^verbatim>\<open>scripts/generate_demo_candles.py\<close>).
  \<^item> \<^verbatim>\<open>Decimals\<close>: \<^verbatim>\<open>str\<close> of integers and the formats \<^verbatim>\<open>.10g\<close> and \<^verbatim>\<open>.6f\<close>, with what \<^verbatim>\<open>float\<close> and \<^verbatim>\<open>int\<close> read back (the locale
    \<^verbatim>\<open>decimal_format\<close>, interpreted by both formats). \<^verbatim>\<open>Demodata\<close>: the random walk of each symbol stays within 1024 times its start, every
    bar is in order, and the files the script writes are loaded completely by the CSV loader and the back-fill runner.

  \<^bold>\<open>Interfaces.\<close> Each locale states what a client relies on and is interpreted on the code's definitions: \<^verbatim>\<open>calculator\<close> and
  \<^verbatim>\<open>history_calc\<close> by the indicators, \<^verbatim>\<open>keyed\<close> and \<^verbatim>\<open>keyed_history\<close> by the per-symbol maps of signals, events and breadth,
  \<^verbatim>\<open>subscription\<close> by both feeds, \<^verbatim>\<open>upsert_table\<close> by the candle and indicator tables, \<^verbatim>\<open>partitioned_store\<close>, \<^verbatim>\<open>resolving_store\<close> and
  \<^verbatim>\<open>reliable_store\<close> by the replay sinks and the live database, \<^verbatim>\<open>registry_services\<close> by the repositories alone, with a feed and cut
  off at some call, \<^verbatim>\<open>decimal_format\<close> by the two number formats.

  \<^bold>\<open>Parameters and bounds.\<close> What is not this code is an argument: \<^verbatim>\<open>math.log\<close> and \<^verbatim>\<open>cos\<close> (not correctly rounded, so only their range on the
  used arguments is assumed), the draws of \<^verbatim>\<open>random.Random\<close>, the bootstrap's resampling, \<^verbatim>\<open>isoformat\<close> and
  \<^verbatim>\<open>fromisoformat\<close>, \<^verbatim>\<open>json.dumps\<close>, the driver's encoder of \<^verbatim>\<open>jsonb\<close>, the replies of HTTP
  and WebSocket calls, the wall clock, the acceptance of a send. Loops that run until cancelled take the finite list of what they meet
  (frames of a socket, outcomes of connections, ticks of a timer, rounds of the supervisor) instead of fuel, and their theorems hold
  for every such list; the steps of a stop of the batch writer are bounded by a measure. Theorems on arithmetic assume prices
  between \<^verbatim>\<open>2^-400\<close> and \<^verbatim>\<open>2^400\<close>, so that no product leaves the range of doubles; without bounds, overflow to infinity is in the model.

  \<^bold>\<open>Not modelled.\<close> \<^verbatim>\<open>db/pool.py\<close> (a call of \<^verbatim>\<open>asyncpg.create_pool\<close> and a protocol of its methods), \<^verbatim>\<open>alembic/env.py\<close> (glue between
  Alembic and the settings), command lines, the progress lines of the runners' logs, FastAPI's routing and serialisation, and pydantic's
  conversion of environment text: these are third-party behaviour, glue or output.
\<close>

end
